(* ===== verification/Prelude.thy ===== *)
theory Prelude
  imports Main "HOL-Library.Word"
begin

text \<open>
  The shared base of the development: machine integers, the size mask that several
  components of the solver compute with a shift (\<^verbatim>\<open>(2UL << (size - 1UL)) - 1UL\<close>), zeroed and
  reallocated memory blocks, and the lemma collections the component theories use.
\<close>

unbundle bit_operations_syntax

type_synonym u8 = "8 word"
type_synonym u16 = "16 word"
type_synonym u32 = "32 word"
type_synonym u64 = "64 word"

named_theorems mask_simps "facts about size masks and truncation to a bit width"
named_theorems block_simps "facts about memory blocks"
named_theorems option_intros "facts that an operation on a well-formed state returns"

section \<open>Size masks\<close>

text \<open>
  The solver's mask of a bit width between 1 and 64. Width 64 relies on the wrap-around
  of \<^verbatim>\<open>2UL << 63\<close> to 0 and of \<^verbatim>\<open>0 - 1UL\<close> to all ones.
\<close>

definition size_mask :: "nat \<Rightarrow> u64" where
  "size_mask n = push_bit (n - 1) 2 - 1"

lemma size_mask_eq [mask_simps]: "0 < n \<Longrightarrow> size_mask n = mask n"
  by (simp add: size_mask_def mask_eq_exp_minus_1 push_bit_eq_mult power_eq_if)

lemma and_size_mask [mask_simps]: "0 < n \<Longrightarrow> x AND size_mask n = take_bit n x"
  by (simp add: size_mask_eq take_bit_eq_mask)

lemma uint_take_bit_u64: "uint (take_bit n (x :: u64)) = uint x mod 2 ^ n"
  by (metis unsigned_take_bit_eq take_bit_eq_mod)

lemma uint_and_size_mask [mask_simps]:
  "0 < n \<Longrightarrow> uint (x AND size_mask n) = uint x mod 2 ^ n"
  by (simp add: and_size_mask uint_take_bit_u64)

lemma uint_size_mask [mask_simps]:
  assumes "0 < n" "n \<le> 64"
  shows "uint (size_mask n) = 2 ^ n - 1"
proof -
  have "uint (size_mask n) = uint (take_bit n (- 1 :: u64))"
    using assms by (simp add: size_mask_eq)
  also have "\<dots> = take_bit n (uint (- 1 :: u64))"
    by (rule unsigned_take_bit_eq)
  also have "\<dots> = take_bit n (mask 64)"
    by (simp only: unsigned_minus_1_eq_mask) simp
  also have "\<dots> = mask n"
    using assms by (simp only: take_bit_of_mask min_absorb1)
  also have "\<dots> = 2 ^ n - 1"
    by (simp add: mask_eq_exp_minus_1)
  finally show ?thesis .
qed

lemma uint_u64_lt: "uint (x :: u64) < 2 ^ 64"
  using uint_lt2p [of x] by simp

lemma uint_mod_mod_size:
  assumes "n \<le> 64"
  shows "x mod 2 ^ 64 mod 2 ^ n = (x :: int) mod 2 ^ n"
  using assms by (intro mod_mod_cancel le_imp_power_dvd)

section \<open>Memory blocks\<close>

text \<open>
  An allocated block is a list of cells; a cell no write has reached yet is \<open>None\<close>.
  \<^verbatim>\<open>realloc\<close> keeps the common prefix and leaves new cells uninitialised. Allocation is
  taken to succeed: the source asserts or reports a failure and stops.
\<close>

type_synonym 'a block = "'a option list"

definition malloc :: "nat \<Rightarrow> 'a block" where
  "malloc n = replicate n None"

definition realloc :: "'a block \<Rightarrow> nat \<Rightarrow> 'a block" where
  "realloc b n = take n b @ replicate (n - length b) None"

definition filled :: "nat \<Rightarrow> 'a block \<Rightarrow> bool" where
  "filled n b \<longleftrightarrow> n \<le> length b \<and> (\<forall>i<n. b ! i \<noteq> None)"

definition cells :: "nat \<Rightarrow> 'a block \<Rightarrow> 'a list" where
  "cells n b = map the (take n b)"

lemma length_malloc [simp]: "length (malloc n) = n"
  by (simp add: malloc_def)

lemma length_realloc [simp]: "length (realloc b n) = n"
  by (simp add: realloc_def)

lemma nth_realloc: "i < length b \<Longrightarrow> i < n \<Longrightarrow> realloc b n ! i = b ! i"
  by (simp add: realloc_def nth_append)

lemma filled_0 [simp]: "filled 0 b"
  by (simp add: filled_def)

lemma filled_realloc: "filled n b \<Longrightarrow> n \<le> m \<Longrightarrow> filled n (realloc b m)"
  by (auto simp: filled_def nth_realloc)

lemma filled_Suc_update: "filled n b \<Longrightarrow> n < length b \<Longrightarrow> filled (Suc n) (b[n := Some x])"
  by (auto simp: filled_def nth_list_update less_Suc_eq)

lemma filled_update: "filled n b \<Longrightarrow> filled n (b[i := Some x])"
  by (cases "i < length b") (auto simp: filled_def nth_list_update list_update_beyond)

lemma length_cells [simp]: "filled n b \<Longrightarrow> length (cells n b) = n"
  by (simp add: filled_def cells_def)

lemma cells_0 [simp]: "cells 0 b = []"
  by (simp add: cells_def)

lemma nth_cells: "filled n b \<Longrightarrow> i < n \<Longrightarrow> b ! i = Some (cells n b ! i)"
  by (auto simp: filled_def cells_def)

lemma cells_realloc: "filled n b \<Longrightarrow> n \<le> m \<Longrightarrow> cells n (realloc b m) = cells n b"
  by (auto simp: filled_def cells_def realloc_def)

lemma cells_Suc_update:
  "filled n b \<Longrightarrow> n < length b \<Longrightarrow> cells (Suc n) (b[n := Some x]) = cells n b @ [x]"
  by (simp add: filled_def cells_def take_Suc_conv_app_nth)

lemma cells_update: "filled n b \<Longrightarrow> i < n \<Longrightarrow> cells n (b[i := Some x]) = (cells n b)[i := x]"
  by (simp add: filled_def cells_def take_update_swap map_update)

lemmas block_facts =
  filled_realloc filled_Suc_update filled_update nth_cells cells_realloc cells_Suc_update
  cells_update

end
