(* ===== verification/Dyn_Array.thy ===== *)
theory Dyn_Array
  imports Prelude
begin

text \<open>
  \<^verbatim>\<open>solver/dynamic-array.h\<close> and \<^verbatim>\<open>solver/fuzzy-sat/lib/dynamic-array.h\<close>: the growable array
  every container of the solver is built from. The two headers differ in \<^verbatim>\<open>da_remove_all\<close>
  only, which in the second calls a destructor on the removed elements. A pointer is an
  option (\<open>None\<close> is NULL) to a block; a failed assertion, a read of an uninitialised cell
  and an access outside the block are \<open>None\<close>.
\<close>

record 'a da =
  da_data :: "'a block option"
  da_max_size :: nat
  da_size :: nat

text \<open>The all-zero struct left by \<^verbatim>\<open>memset\<close> in the containers' constructors.\<close>

definition da_zero :: "'a da" where
  "da_zero = \<lparr>da_data = None, da_max_size = 0, da_size = 0\<rparr>"

definition da_init :: "nat \<Rightarrow> 'a da" where
  "da_init init_size =
     \<lparr>da_data = Some (malloc init_size), da_max_size = init_size, da_size = 0\<rparr>"

text \<open>
  The elements an \<^verbatim>\<open>el_free\<close> loop visits, in order; \<open>None\<close> when the loop would read through
  NULL or reach an uninitialised cell. The flag says whether the callback is non-NULL.
\<close>

definition da_freed :: "bool \<Rightarrow> 'a da \<Rightarrow> 'a list option" where
  "da_freed el_free da =
     (if \<not> el_free \<or> da_size da = 0 then Some []
      else case da_data da of None \<Rightarrow> None
        | Some b \<Rightarrow> if filled (da_size da) b then Some (cells (da_size da) b) else None)"

definition da_free :: "bool \<Rightarrow> 'a da \<Rightarrow> ('a da \<times> 'a list) option" where
  "da_free el_free da = map_option (\<lambda>fs. (da_zero, fs)) (da_freed el_free da)"

definition da_remove_all :: "nat \<Rightarrow> 'a da \<Rightarrow> 'a da option" where
  "da_remove_all init_size da =
     (let data = (if da_max_size da > init_size
                  then Some (realloc (case da_data da of None \<Rightarrow> [] | Some b \<Rightarrow> b) init_size)
                  else da_data da)
      in case data of None \<Rightarrow> None
         | Some b \<Rightarrow> Some \<lparr>da_data = Some b, da_max_size = init_size, da_size = 0\<rparr>)"

definition da_remove_all_free :: "nat \<Rightarrow> bool \<Rightarrow> 'a da \<Rightarrow> ('a da \<times> 'a list) option" where
  "da_remove_all_free init_size el_free da =
     (case da_freed el_free da of None \<Rightarrow> None
      | Some fs \<Rightarrow> map_option (\<lambda>da'. (da', fs)) (da_remove_all init_size da))"

definition da_add_item :: "'a da \<Rightarrow> 'a \<Rightarrow> 'a da option" where
  "da_add_item da x =
     (let da' = (if da_size da \<ge> da_max_size da
                 then da\<lparr>da_max_size := da_max_size da * 2,
                         da_data := Some (realloc (case da_data da of None \<Rightarrow> [] | Some b \<Rightarrow> b)
                                                  (da_max_size da * 2))\<rparr>
                 else da)
      in case da_data da' of None \<Rightarrow> None
         | Some b \<Rightarrow> if da_size da' < length b
                     then Some (da'\<lparr>da_data := Some (b[da_size da' := Some x]),
                                    da_size := da_size da' + 1\<rparr>)
                     else None)"

definition da_get_item :: "'a da \<Rightarrow> nat \<Rightarrow> 'a option" where
  "da_get_item da idx =
     (if idx < da_size da
      then case da_data da of None \<Rightarrow> None
           | Some b \<Rightarrow> if idx < length b then b ! idx else None
      else None)"

text \<open>
  \<^verbatim>\<open>da_get_ref_item\<close> returns the address of a cell. A read through it is \<open>da_get_item\<close>;
  \<open>da_set_ref_item\<close> is an assignment through it.
\<close>

definition da_set_ref_item :: "'a da \<Rightarrow> nat \<Rightarrow> 'a \<Rightarrow> 'a da option" where
  "da_set_ref_item da idx x =
     (if idx < da_size da
      then case da_data da of None \<Rightarrow> None
           | Some b \<Rightarrow> if idx < length b then Some (da\<lparr>da_data := Some (b[idx := Some x])\<rparr>) else None
      else None)"

section \<open>Invariant and abstraction\<close>

definition da_wf :: "nat \<Rightarrow> 'a da \<Rightarrow> bool" where
  "da_wf init_size da \<longleftrightarrow> 0 < init_size \<and>
     (case da_data da of None \<Rightarrow> da_size da = 0 \<and> da_max_size da = 0
      | Some b \<Rightarrow> length b = da_max_size da \<and> init_size \<le> da_max_size da \<and> filled (da_size da) b)"

definition da_live :: "'a da \<Rightarrow> bool" where
  "da_live da \<longleftrightarrow> da_data da \<noteq> None"

definition da_list :: "'a da \<Rightarrow> 'a list" where
  "da_list da = (case da_data da of None \<Rightarrow> [] | Some b \<Rightarrow> cells (da_size da) b)"

lemma da_wf_zero [simp]: "0 < i \<Longrightarrow> da_wf i da_zero"
  by (simp add: da_wf_def da_zero_def)

lemma da_list_zero [simp]: "da_list da_zero = []"
  by (simp add: da_list_def da_zero_def)

lemma not_live_zero [simp]: "\<not> da_live da_zero"
  by (simp add: da_live_def da_zero_def)

lemma da_wf_init [simp]: "0 < i \<Longrightarrow> da_wf i (da_init i)"
  by (simp add: da_wf_def da_init_def)

lemma da_list_init [simp]: "da_list (da_init i) = []"
  by (simp add: da_list_def da_init_def)

lemma live_init [simp]: "da_live (da_init i)"
  by (simp add: da_live_def da_init_def)

lemma da_size_list: "da_wf i da \<Longrightarrow> length (da_list da) = da_size da"
  by (auto simp: da_wf_def da_list_def split: option.splits)

lemma da_not_live_list: "\<not> da_live da \<Longrightarrow> da_list da = []"
  by (simp add: da_live_def da_list_def)

lemma da_get_item_list:
  "da_wf i da \<Longrightarrow> da_get_item da k = (if k < length (da_list da) then Some (da_list da ! k) else None)"
  by (auto simp: da_wf_def da_list_def da_get_item_def filled_def nth_cells [unfolded filled_def]
      split: option.splits)

lemma da_add_item_ok:
  assumes "da_wf i da" "da_live da"
  shows "\<exists>da'. da_add_item da x = Some da' \<and> da_wf i da' \<and> da_live da' \<and>
           da_list da' = da_list da @ [x]"
proof -
  from assms obtain b where b: "da_data da = Some b" "length b = da_max_size da"
      "i \<le> da_max_size da" "filled (da_size da) b" and i: "0 < i"
    by (auto simp: da_wf_def da_live_def)
  then have le: "da_size da \<le> da_max_size da"
    by (simp add: filled_def)
  show ?thesis
  proof (cases "da_size da \<ge> da_max_size da")
    case True
    let ?b = "realloc b (da_max_size da * 2)"
    have "filled (da_size da) ?b" "cells (da_size da) ?b = cells (da_size da) b"
      using b le by (simp_all add: filled_realloc cells_realloc)
    moreover have "da_size da < length ?b" using b i le True by simp
    ultimately show ?thesis
      using b i True
      by (auto simp: da_add_item_def da_wf_def da_live_def da_list_def Let_def
          filled_Suc_update cells_Suc_update)
  next
    case False
    then show ?thesis
      using b i
      by (auto simp: da_add_item_def da_wf_def da_live_def da_list_def Let_def
          filled_Suc_update cells_Suc_update)
  qed
qed

lemma da_set_ref_item_ok:
  assumes "da_wf i da" "k < length (da_list da)"
  shows "\<exists>da'. da_set_ref_item da k x = Some da' \<and> da_wf i da' \<and> (da_live da' = da_live da) \<and>
           da_list da' = (da_list da)[k := x]"
  using assms
  by (auto simp: da_set_ref_item_def da_wf_def da_live_def da_list_def filled_update cells_update
      split: option.splits) (auto simp: filled_def)

lemma da_remove_all_ok:
  assumes "da_wf i da" "da_live da"
  shows "\<exists>da'. da_remove_all i da = Some da' \<and> da_wf i da' \<and> da_live da' \<and> da_list da' = []"
  using assms
  by (auto simp: da_remove_all_def da_wf_def da_live_def da_list_def Let_def split: option.splits)

lemma da_freed_ok: "da_wf i da \<Longrightarrow> da_freed c da = Some (if c then da_list da else [])"
  by (auto simp: da_freed_def da_wf_def da_list_def split: option.splits)

lemmas da_ops_ok = da_add_item_ok da_set_ref_item_ok da_remove_all_ok da_freed_ok

section \<open>The interface the containers rely on\<close>

text \<open>
  A growable sequence: appending to a live well-formed array returns, keeps the invariant
  and appends to the abstract list; indexing reads the abstract list.
\<close>

locale growable =
  fixes wf :: "'d \<Rightarrow> bool" and live :: "'d \<Rightarrow> bool" and seq :: "'d \<Rightarrow> 'a list"
    and add :: "'d \<Rightarrow> 'a \<Rightarrow> 'd option" and get :: "'d \<Rightarrow> nat \<Rightarrow> 'a option"
  assumes add_ok: "wf d \<Longrightarrow> live d \<Longrightarrow>
      \<exists>d'. add d x = Some d' \<and> wf d' \<and> live d' \<and> seq d' = seq d @ [x]"
    and get_ok: "wf d \<Longrightarrow> get d k = (if k < length (seq d) then Some (seq d ! k) else None)"
begin

fun add_list :: "'d \<Rightarrow> 'a list \<Rightarrow> 'd option" where
  "add_list d [] = Some d"
| "add_list d (x # xs) = (case add d x of None \<Rightarrow> None | Some d' \<Rightarrow> add_list d' xs)"

lemma add_list_ok:
  "wf d \<Longrightarrow> live d \<Longrightarrow> \<exists>d'. add_list d xs = Some d' \<and> wf d' \<and> live d' \<and> seq d' = seq d @ xs"
proof (induction xs arbitrary: d)
  case Nil
  then show ?case by simp
next
  case (Cons x xs)
  then obtain d' where d': "add d x = Some d'" "wf d'" "live d'" "seq d' = seq d @ [x]"
    using add_ok by blast
  with Cons.IH [of d'] show ?case by auto
qed

lemma add_list_get:
  assumes "wf d" "live d" "seq d = []" "k < length xs"
  shows "\<exists>d'. add_list d xs = Some d' \<and> get d' k = Some (xs ! k)"
  using add_list_ok [OF assms(1,2), of xs] assms(3,4) by (auto simp: get_ok)

end

interpretation dyn: growable "da_wf i" da_live da_list da_add_item da_get_item
  for i
  by unfold_locales (rule da_add_item_ok da_get_item_list; assumption)+

end
