(* ===== verification/Bucket_Table.thy ===== *)
theory Bucket_Table
  imports Dyn_Array
begin

text \<open>
  The part \<^verbatim>\<open>dict.h\<close> and \<^verbatim>\<open>set.h\<close> have in common: a fixed array of buckets, each a dynamic
  array, and a side array with the indices of the buckets in use, so that removing all
  elements visits only those. \<^verbatim>\<open>dict\<close> and \<^verbatim>\<open>set\<close> extend the record. An access outside a block
  or through NULL is \<open>None\<close>.
\<close>

text \<open>\<^verbatim>\<open>DA_INIT_SIZE\<close> in \<^verbatim>\<open>dict.h\<close> and \<^verbatim>\<open>set.h\<close>.\<close>

abbreviation bucket_init_size :: nat where
  "bucket_init_size \<equiv> 5"

record 'a btable =
  buckets :: "'a da list"
  filled_buckets :: "nat block"
  filled_buckets_i :: nat

text \<open>\<^verbatim>\<open>filled_buckets[filled_buckets_i++] = bucket_id\<close>\<close>

definition push_filled :: "('a, 'z) btable_scheme \<Rightarrow> nat \<Rightarrow> ('a, 'z) btable_scheme option" where
  "push_filled t b =
     (if filled_buckets_i t < length (filled_buckets t)
      then Some (t\<lparr>filled_buckets := (filled_buckets t)[filled_buckets_i t := Some b],
                   filled_buckets_i := filled_buckets_i t + 1\<rparr>)
      else None)"

text \<open>One turn of the removal loop, and the loop over the indices still to be visited.\<close>

definition clear_bucket :: "('a, 'z) btable_scheme \<Rightarrow> nat \<Rightarrow> ('a, 'z) btable_scheme option" where
  "clear_bucket t b =
     (if b < length (buckets t)
      then map_option (\<lambda>bk. t\<lparr>buckets := (buckets t)[b := bk]\<rparr>)
             (da_remove_all bucket_init_size (buckets t ! b))
      else None)"

fun clear_buckets ::
  "bool \<Rightarrow> ('a, 'z) btable_scheme \<Rightarrow> nat option list \<Rightarrow> (('a, 'z) btable_scheme \<times> 'a list) option"
where
  "clear_buckets free_el t [] = Some (t, [])"
| "clear_buckets free_el t (None # bs) = None"
| "clear_buckets free_el t (Some b # bs) =
     (case (da_freed free_el (buckets t ! b), clear_bucket t b) of
        (Some fs, Some t') \<Rightarrow>
          map_option (\<lambda>(r, gs). (r, fs @ gs)) (clear_buckets free_el t' bs)
      | _ \<Rightarrow> None)"

text \<open>The loop of \<^verbatim>\<open>dict_free\<close> and \<^verbatim>\<open>set_free\<close> over the buckets that have storage.\<close>

fun free_buckets :: "bool \<Rightarrow> 'a da list \<Rightarrow> 'a list option" where
  "free_buckets free_el [] = Some []"
| "free_buckets free_el (b # bs) =
     (if da_data b = None then free_buckets free_el bs
      else case (da_freed free_el b, free_buckets free_el bs) of
             (Some fs, Some gs) \<Rightarrow> Some (fs @ gs)
           | _ \<Rightarrow> None)"

section \<open>Invariant\<close>

definition used_buckets :: "('a, 'z) btable_scheme \<Rightarrow> nat list" where
  "used_buckets t = cells (filled_buckets_i t) (filled_buckets t)"

text \<open>The indices recorded as in use are, without repetition, the non-empty buckets.\<close>

definition bt_wf :: "('a, 'z) btable_scheme \<Rightarrow> bool" where
  "bt_wf t \<longleftrightarrow> 0 < length (buckets t) \<and> length (filled_buckets t) = length (buckets t) \<and>
     (\<forall>b < length (buckets t). da_wf bucket_init_size (buckets t ! b)) \<and>
     filled (filled_buckets_i t) (filled_buckets t) \<and> distinct (used_buckets t) \<and>
     set (used_buckets t) = {b. b < length (buckets t) \<and> da_list (buckets t ! b) \<noteq> []}"

definition bt_count :: "('a, 'z) btable_scheme \<Rightarrow> nat" where
  "bt_count t = sum_list (map (\<lambda>bk. length (da_list bk)) (buckets t))"

lemma bt_wf_fields:
  assumes "buckets t' = buckets t" "filled_buckets t' = filled_buckets t"
    "filled_buckets_i t' = filled_buckets_i t"
  shows "bt_wf t' = bt_wf t"
  using assms by (simp add: bt_wf_def used_buckets_def)

text \<open>An empty bucket leaves room in the side array: the write is in bounds.\<close>

lemma push_filled_room:
  assumes wf: "bt_wf t" and b: "b < length (buckets t)" "da_list (buckets t ! b) = []"
  shows "filled_buckets_i t < length (filled_buckets t)"
proof -
  let ?n = "length (buckets t)"
  have fil: "filled (filled_buckets_i t) (filled_buckets t)"
    and dist: "distinct (used_buckets t)"
    and set: "set (used_buckets t) = {b. b < ?n \<and> da_list (buckets t ! b) \<noteq> []}"
    and len: "length (filled_buckets t) = ?n"
    using wf by (simp_all add: bt_wf_def)
  have "set (used_buckets t) \<subseteq> {..<?n} - {b}"
    using set b by auto
  then have "card (set (used_buckets t)) \<le> card ({..<?n} - {b})"
    by (intro card_mono) auto
  then have "length (used_buckets t) < ?n"
    using dist b by (simp add: distinct_card)
  then show ?thesis
    using fil len by (simp add: used_buckets_def)
qed

lemma push_filled_ok:
  assumes "bt_wf t" "b < length (buckets t)" "da_list (buckets t ! b) = []"
  shows "\<exists>t'. push_filled t b = Some t' \<and> buckets t' = buckets t \<and>
           btable.more t' = btable.more t \<and>
           length (filled_buckets t') = length (buckets t) \<and>
           filled (filled_buckets_i t') (filled_buckets t') \<and>
           used_buckets t' = used_buckets t @ [b]"
proof -
  have "filled_buckets_i t < length (filled_buckets t)"
    using push_filled_room [OF assms] .
  moreover have "filled (filled_buckets_i t) (filled_buckets t)"
    "length (filled_buckets t) = length (buckets t)"
    using assms(1) by (simp_all add: bt_wf_def)
  ultimately show ?thesis
    by (simp add: push_filled_def used_buckets_def filled_Suc_update cells_Suc_update)
qed

lemma bt_wf_put:
  assumes wf: "bt_wf t" and b: "b < length (buckets t)"
    and bk: "da_wf bucket_init_size bk" "da_list bk \<noteq> []"
    and t': "buckets t' = (buckets t)[b := bk]" "length (filled_buckets t') = length (buckets t)"
      "filled (filled_buckets_i t') (filled_buckets t')"
      "used_buckets t' = (if da_list (buckets t ! b) = [] then used_buckets t @ [b] else used_buckets t)"
  shows "bt_wf t'"
proof -
  have used: "set (used_buckets t) = {c. c < length (buckets t) \<and> da_list (buckets t ! c) \<noteq> []}"
    "distinct (used_buckets t)"
    using wf by (simp_all add: bt_wf_def)
  have "da_wf bucket_init_size (buckets t' ! c)" if "c < length (buckets t)" for c
    using that wf bk unfolding t'(1) by (cases "c = b") (auto simp: bt_wf_def)
  moreover have "distinct (used_buckets t')"
    using used b by (simp add: t'(4))
  moreover have "set (used_buckets t') = {c. c < length (buckets t) \<and> da_list (buckets t' ! c) \<noteq> []}"
    using used bk(2) b unfolding t'(1,4) by (auto simp: nth_list_update)
  ultimately show ?thesis
    using b t' by (auto simp: bt_wf_def)
qed

lemma sum_list_map_update:
  fixes f :: "'a \<Rightarrow> nat"
  shows "b < length xs \<Longrightarrow> sum_list (map f (xs[b := x])) + f (xs ! b) = sum_list (map f xs) + f x"
  by (induction xs arbitrary: b) (auto simp: nth_Cons split: nat.splits)

lemma bt_count_put:
  assumes "b < length (buckets t)" "buckets t' = (buckets t)[b := bk]"
  shows "bt_count t' + length (da_list (buckets t ! b)) = bt_count t + length (da_list bk)"
  using sum_list_map_update [OF assms(1), of "\<lambda>bk. length (da_list bk)" bk]
  by (simp add: bt_count_def assms(2))

section \<open>Removing everything\<close>

lemma clear_bucket_ok:
  assumes "b < length (buckets t)" "da_wf bucket_init_size (buckets t ! b)" "da_live (buckets t ! b)"
  shows "\<exists>t' bk. clear_bucket t b = Some t' \<and> t' = t\<lparr>buckets := (buckets t)[b := bk]\<rparr> \<and>
           da_wf bucket_init_size bk \<and> da_list bk = []"
  using da_remove_all_ok [of bucket_init_size "buckets t ! b"] assms
  by (auto simp: clear_bucket_def)

text \<open>
  The loop over the recorded indices: it returns, empties exactly the buckets it visits,
  keeps the bucket invariant, leaves everything else alone and hands each removed element
  to the destructor once.
\<close>

lemma clear_buckets_ok:
  assumes "\<forall>b < length (buckets t). da_wf bucket_init_size (buckets t ! b)" "distinct bs"
    "\<forall>b \<in> set bs. b < length (buckets t) \<and> da_list (buckets t ! b) \<noteq> []"
  shows "\<exists>t' fs. clear_buckets c t (map Some bs) = Some (t', fs) \<and>
           t' = t\<lparr>buckets := buckets t'\<rparr> \<and> length (buckets t') = length (buckets t) \<and>
           (\<forall>b < length (buckets t). da_wf bucket_init_size (buckets t' ! b) \<and>
              da_list (buckets t' ! b) = (if b \<in> set bs then [] else da_list (buckets t ! b))) \<and>
           fs = (if c then concat (map (\<lambda>b. da_list (buckets t ! b)) bs) else [])"
  using assms
proof (induction bs arbitrary: t)
  case Nil
  then show ?case by simp
next
  case (Cons b bs)
  have b: "b < length (buckets t)" "da_wf bucket_init_size (buckets t ! b)" "da_live (buckets t ! b)"
    using Cons.prems da_not_live_list by auto
  obtain t1 bk where t1: "clear_bucket t b = Some t1" "t1 = t\<lparr>buckets := (buckets t)[b := bk]\<rparr>"
      "da_wf bucket_init_size bk" "da_list bk = []"
    using clear_bucket_ok [OF b] by blast
  have prems: "\<forall>c < length (buckets t1). da_wf bucket_init_size (buckets t1 ! c)" "distinct bs"
    "\<forall>c \<in> set bs. c < length (buckets t1) \<and> da_list (buckets t1 ! c) \<noteq> []"
    using Cons.prems t1 by (auto simp: nth_list_update split: if_splits)
  obtain t2 fs where t2: "clear_buckets c t1 (map Some bs) = Some (t2, fs)"
      "t2 = t1\<lparr>buckets := buckets t2\<rparr>" "length (buckets t2) = length (buckets t1)"
      "\<forall>b' < length (buckets t1). da_wf bucket_init_size (buckets t2 ! b') \<and>
         da_list (buckets t2 ! b') = (if b' \<in> set bs then [] else da_list (buckets t1 ! b'))"
      "fs = (if c then concat (map (\<lambda>b'. da_list (buckets t1 ! b')) bs) else [])"
    using Cons.IH [OF prems] by blast
  have same: "map (\<lambda>b'. da_list (buckets t1 ! b')) bs = map (\<lambda>b'. da_list (buckets t ! b')) bs"
    using Cons.prems(2) t1(2) by (auto, metis nth_list_update_neq)
  have freed: "da_freed c (buckets t ! b) = Some (if c then da_list (buckets t ! b) else [])"
    using b(2) by (rule da_freed_ok)
  have fs: "fs = (if c then concat (map (\<lambda>b'. da_list (buckets t ! b')) bs) else [])"
    by (rule t2(5) [unfolded same])
  have "t2 = t\<lparr>buckets := buckets t2\<rparr>"
    using t2(2) t1(2) by (metis btable.update_convs(1) btable.surjective btable.select_convs)
  moreover have "clear_buckets c t (map Some (b # bs)) =
      Some (t2, (if c then da_list (buckets t ! b) else []) @ fs)"
    using t1(1) t2(1) freed by simp
  moreover have "\<forall>b' < length (buckets t). da_wf bucket_init_size (buckets t2 ! b') \<and>
      da_list (buckets t2 ! b') = (if b' \<in> set (b # bs) then [] else da_list (buckets t ! b'))"
    using t2(4) t1(2,4) by (auto simp: nth_list_update)
  ultimately show ?case
    using t1(2) t2(3) fs by auto
qed

lemma take_filled_used:
  "filled (filled_buckets_i t) (filled_buckets t) \<Longrightarrow>
     take (filled_buckets_i t) (filled_buckets t) = map Some (used_buckets t)"
  by (intro nth_equalityI) (auto simp: filled_def used_buckets_def cells_def)

lemma bt_clear_ok:
  assumes wf: "bt_wf t"
  shows "\<exists>t'. clear_buckets c t (take (filled_buckets_i t) (filled_buckets t)) =
             Some (t', if c then concat (map (\<lambda>b. da_list (buckets t ! b)) (used_buckets t)) else []) \<and>
           bt_wf (t'\<lparr>filled_buckets_i := 0\<rparr>) \<and> bt_count t' = 0 \<and>
           (\<forall>b < length (buckets t). da_list (buckets t' ! b) = []) \<and>
           btable.more t' = btable.more t \<and> length (buckets t') = length (buckets t)"
proof -
  let ?n = "length (buckets t)"
  have pos: "0 < ?n" and fil: "filled (filled_buckets_i t) (filled_buckets t)"
    and bw: "\<forall>b < ?n. da_wf bucket_init_size (buckets t ! b)"
    and used: "distinct (used_buckets t)"
      "set (used_buckets t) = {b. b < ?n \<and> da_list (buckets t ! b) \<noteq> []}"
    and len: "length (filled_buckets t) = ?n"
    using wf by (simp_all add: bt_wf_def)
  have inuse: "\<forall>b \<in> set (used_buckets t). b < ?n \<and> da_list (buckets t ! b) \<noteq> []"
    using used(2) by simp
  let ?fs = "if c then concat (map (\<lambda>b. da_list (buckets t ! b)) (used_buckets t)) else []"
  obtain t' where t': "clear_buckets c t (map Some (used_buckets t)) = Some (t', ?fs)"
      "t' = t\<lparr>buckets := buckets t'\<rparr>" "length (buckets t') = ?n"
      "\<forall>b < ?n. da_wf bucket_init_size (buckets t' ! b) \<and>
         da_list (buckets t' ! b) = (if b \<in> set (used_buckets t) then [] else da_list (buckets t ! b))"
    using clear_buckets_ok [OF bw used(1) inuse, of c] by blast
  have empty: "\<forall>b < ?n. da_list (buckets t' ! b) = []"
    using t'(4) used(2) by auto
  have fb: "filled_buckets t' = filled_buckets t" "btable.more t' = btable.more t"
    using t'(2) by (metis btable.select_convs btable.surjective btable.update_convs(1))+
  have "bt_wf (t'\<lparr>filled_buckets_i := 0\<rparr>)"
    using pos t'(3,4) empty len fb by (simp add: bt_wf_def used_buckets_def)
  moreover have "bt_count t' = 0"
    using empty t'(3) by (auto simp: bt_count_def in_set_conv_nth)
  ultimately show ?thesis
    using t'(1,3) fb empty by (simp add: take_filled_used [OF fil])
qed

lemma free_buckets_ok:
  "\<forall>b \<in> set bs. da_wf bucket_init_size b \<Longrightarrow>
     free_buckets c bs = Some (if c then concat (map da_list bs) else [])"
  by (induction bs) (auto simp: da_freed_ok [of bucket_init_size] da_list_def)

end
