(* ===== verification/Dict.thy ===== *)
theory Dict
  imports Bucket_Table
begin

text \<open>
  \<^verbatim>\<open>solver/dict.h\<close> and \<^verbatim>\<open>solver/fuzzy-sat/lib/dict.h\<close>: the hash table from \<^verbatim>\<open>unsigned long\<close> keys
  used for the solver's caches. The second header stores a destructor in the table, calls
  it on overwritten and removed values and resets \<^verbatim>\<open>size\<close> on removal; the first does not
  reset \<^verbatim>\<open>size\<close>. The theory ends with the interface \<open>table\<close> and its interpretations on both.
\<close>

record 'v dict_el =
  key :: u64
  el :: 'v

record 'v dict = "'v dict_el btable" +
  dict_size :: nat

definition dict_init :: "nat \<Rightarrow> 'v dict" where
  "dict_init n_buckets =
     \<lparr>buckets = replicate n_buckets da_zero, filled_buckets = malloc n_buckets,
      filled_buckets_i = 0, dict_size = 0\<rparr>"

definition bucket_id :: "'v dict \<Rightarrow> u64 \<Rightarrow> nat" where
  "bucket_id d k = unat k mod length (buckets d)"

text \<open>
  The search loop of the collision branch and of the three lookups: the index of the first
  entry with the key, \<open>None\<close> inside when there is none.
\<close>

function dict_find :: "'v dict_el da \<Rightarrow> u64 \<Rightarrow> nat \<Rightarrow> nat option option" where
  "dict_find bucket k i =
     (if i < da_size bucket
      then case da_get_item bucket i of None \<Rightarrow> None
           | Some e \<Rightarrow> if key e = k then Some (Some i) else dict_find bucket k (i + 1)
      else Some None)"
  by pat_completeness auto
termination
  by (relation "measure (\<lambda>(b, k, i). da_size b - i)") auto

declare dict_find.simps [simp del]

text \<open>
  \<^verbatim>\<open>dict_set\<close>. The result pairs the table with the values handed to the destructor:
  \<open>free_el\<close> says whether the table has one. The solver's own header has none.
\<close>

definition dict_add_entry :: "'v dict \<Rightarrow> nat \<Rightarrow> 'v dict_el da \<Rightarrow> u64 \<Rightarrow> 'v \<Rightarrow> 'v dict option" where
  "dict_add_entry d b bucket k v =
     map_option (\<lambda>bk. d\<lparr>dict_size := dict_size d + 1, buckets := (buckets d)[b := bk]\<rparr>)
       (da_add_item bucket \<lparr>key = k, el = v\<rparr>)"

definition dict_overwrite :: "bool \<Rightarrow> 'v dict \<Rightarrow> u64 \<Rightarrow> 'v \<Rightarrow> nat \<Rightarrow> ('v dict \<times> 'v list) option" where
  "dict_overwrite free_el d k v j =
     (let b = bucket_id d k; bk = buckets d ! b in
      case da_get_item bk j of None \<Rightarrow> None
      | Some e \<Rightarrow> map_option
                   (\<lambda>bk'. (d\<lparr>buckets := (buckets d)[b := bk']\<rparr>, if free_el then [el e] else []))
                   (da_set_ref_item bk j (e\<lparr>el := v\<rparr>)))"

definition dict_set_free :: "bool \<Rightarrow> 'v dict \<Rightarrow> u64 \<Rightarrow> 'v \<Rightarrow> ('v dict \<times> 'v list) option" where
  "dict_set_free free_el d k v =
     (let b = bucket_id d k; bucket = buckets d ! b in
      if da_data bucket = None then
        (case push_filled d b of None \<Rightarrow> None
         | Some d' \<Rightarrow> map_option (\<lambda>r. (r, []))
                       (dict_add_entry d' b (da_init bucket_init_size) k v))
      else if da_size bucket = 0 then
        (case push_filled d b of None \<Rightarrow> None
         | Some d' \<Rightarrow> map_option (\<lambda>r. (r, [])) (dict_add_entry d' b bucket k v))
      else
        (case dict_find bucket k 0 of None \<Rightarrow> None
         | Some (Some i) \<Rightarrow> dict_overwrite free_el d k v i
         | Some None \<Rightarrow> map_option (\<lambda>r. (r, [])) (dict_add_entry d b bucket k v)))"

definition dict_set :: "'v dict \<Rightarrow> u64 \<Rightarrow> 'v \<Rightarrow> 'v dict option" where
  "dict_set d k v = map_option fst (dict_set_free False d k v)"

text \<open>
  The lookups. \<^verbatim>\<open>dict_get_ref\<close> returns the address of the value or NULL; the model returns
  the bucket, the index and the value found there. \<^verbatim>\<open>dict_contains\<close> returns 0, or 1 and the
  value through its out-parameter.
\<close>

definition dict_get_ref :: "'v dict \<Rightarrow> u64 \<Rightarrow> (nat \<times> nat \<times> 'v) option option" where
  "dict_get_ref d k =
     (let b = bucket_id d k; bucket = buckets d ! b in
      if da_data bucket = None then Some None
      else case dict_find bucket k 0 of None \<Rightarrow> None
           | Some None \<Rightarrow> Some None
           | Some (Some i) \<Rightarrow> map_option (\<lambda>e. Some (b, i, el e)) (da_get_item bucket i))"

definition dict_get :: "'v::zero dict \<Rightarrow> u64 \<Rightarrow> 'v option" where
  "dict_get d k =
     (let bucket = buckets d ! bucket_id d k in
      if da_data bucket = None then Some 0
      else case dict_find bucket k 0 of None \<Rightarrow> None
           | Some None \<Rightarrow> Some 0
           | Some (Some i) \<Rightarrow> map_option el (da_get_item bucket i))"

definition dict_contains :: "'v dict \<Rightarrow> u64 \<Rightarrow> 'v option option" where
  "dict_contains d k =
     (let bucket = buckets d ! bucket_id d k in
      if da_data bucket = None then Some None
      else case dict_find bucket k 0 of None \<Rightarrow> None
           | Some None \<Rightarrow> Some None
           | Some (Some i) \<Rightarrow> map_option (\<lambda>e. Some (el e)) (da_get_item bucket i))"

text \<open>\<^verbatim>\<open>solver/dict.h\<close>: \<^verbatim>\<open>size\<close> keeps its value.\<close>

definition dict_remove_all :: "bool \<Rightarrow> 'v dict \<Rightarrow> ('v dict \<times> 'v list) option" where
  "dict_remove_all free_el d =
     map_option (\<lambda>(r, fs). (r\<lparr>filled_buckets_i := 0\<rparr>, map el fs))
       (clear_buckets free_el d (take (filled_buckets_i d) (filled_buckets d)))"

text \<open>\<^verbatim>\<open>fuzzy-sat/lib/dict.h\<close>: \<^verbatim>\<open>size\<close> is reset.\<close>

definition lib_dict_remove_all :: "bool \<Rightarrow> 'v dict \<Rightarrow> ('v dict \<times> 'v list) option" where
  "lib_dict_remove_all free_el d =
     map_option (\<lambda>(r, fs). (r\<lparr>filled_buckets_i := 0, dict_size := 0\<rparr>, map el fs))
       (clear_buckets free_el d (take (filled_buckets_i d) (filled_buckets d)))"

text \<open>\<^verbatim>\<open>dict_free\<close>: every bucket with storage is released; the values handed to the destructor.\<close>

definition dict_free :: "bool \<Rightarrow> 'v dict \<Rightarrow> ('v dict \<times> 'v list) option" where
  "dict_free free_el d =
     map_option (\<lambda>fs. (d\<lparr>buckets := [], filled_buckets := []\<rparr>, map el fs))
       (free_buckets free_el (buckets d))"

definition lib_dict_free :: "bool \<Rightarrow> 'v dict \<Rightarrow> ('v dict \<times> 'v list) option" where
  "lib_dict_free free_el d =
     map_option (\<lambda>(r, fs). (r\<lparr>dict_size := 0\<rparr>, fs)) (dict_free free_el d)"

section \<open>Invariant and abstraction\<close>

definition entries :: "'v dict_el da \<Rightarrow> (u64 \<times> 'v) list" where
  "entries bk = map (\<lambda>e. (key e, el e)) (da_list bk)"

text \<open>Keys are distinct within a bucket and sit in the bucket their hash names.\<close>

definition keys_ok :: "'v dict \<Rightarrow> nat \<Rightarrow> 'v dict_el list \<Rightarrow> bool" where
  "keys_ok d b es \<longleftrightarrow> distinct (map key es) \<and> (\<forall>e \<in> set es. bucket_id d (key e) = b)"

definition dict_wf :: "'v dict \<Rightarrow> bool" where
  "dict_wf d \<longleftrightarrow> bt_wf d \<and> (\<forall>b < length (buckets d). keys_ok d b (da_list (buckets d ! b)))"

definition dict_map :: "'v dict \<Rightarrow> u64 \<Rightarrow> 'v option" where
  "dict_map d k = map_of (entries (buckets d ! bucket_id d k)) k"

lemma bucket_id_less: "dict_wf d \<Longrightarrow> bucket_id d k < length (buckets d)"
  by (simp add: dict_wf_def bt_wf_def bucket_id_def)

lemma bucket_id_cong: "length (buckets d') = length (buckets d) \<Longrightarrow> bucket_id d' = bucket_id d"
  by (simp add: bucket_id_def fun_eq_iff)

lemma keys_ok_cong: "length (buckets d') = length (buckets d) \<Longrightarrow> keys_ok d' = keys_ok d"
  using bucket_id_cong [of d' d] by (simp add: keys_ok_def fun_eq_iff)

lemma dict_wf_bucket:
  assumes "dict_wf d"
  shows "da_wf bucket_init_size (buckets d ! bucket_id d k)"
    "distinct (map key (da_list (buckets d ! bucket_id d k)))"
    "keys_ok d (bucket_id d k) (da_list (buckets d ! bucket_id d k))"
  using bucket_id_less [OF assms, of k] assms by (auto simp: dict_wf_def bt_wf_def keys_ok_def)

lemma dict_find_cases:
  assumes "da_wf i0 bk" "i \<le> length (da_list bk)"
  shows "(\<exists>j. dict_find bk k i = Some (Some j) \<and> i \<le> j \<and> j < length (da_list bk) \<and>
             key (da_list bk ! j) = k)
       \<or> (dict_find bk k i = Some None \<and> (\<forall>m. i \<le> m \<longrightarrow> m < length (da_list bk) \<longrightarrow>
             key (da_list bk ! m) \<noteq> k))"
  using assms
proof (induction bk k i rule: dict_find.induct)
  case (1 bk k i)
  have sz: "da_size bk = length (da_list bk)"
    using "1.prems"(1) by (simp add: da_size_list)
  show ?case
  proof (cases "i < da_size bk \<and> key (da_list bk ! i) \<noteq> k")
    case True
    then have get: "da_get_item bk i = Some (da_list bk ! i)"
      using "1.prems"(1) sz by (simp add: da_get_item_list)
    have eq: "dict_find bk k i = dict_find bk k (i + 1)"
      using True get by (simp add: dict_find.simps [of bk k i])
    have "i + 1 \<le> length (da_list bk)" using True sz by simp
    with "1.IH" [OF _ get] True "1.prems"(1) show ?thesis
      unfolding eq by (metis Suc_eq_plus1 Suc_leD Suc_leI nat_less_le)
  next
    case False
    then show ?thesis
      using "1.prems" sz by (auto simp: dict_find.simps [of bk k i] da_get_item_list)
  qed
qed

lemma map_of_entries_nth:
  assumes "distinct (map key xs)" "j < length xs"
  shows "map_of (map (\<lambda>e. (key e, el e)) xs) (key (xs ! j)) = Some (el (xs ! j))"
  using assms by (intro map_of_is_SomeI) (auto simp: comp_def)

text \<open>The search loop finds exactly the entry the abstract map holds.\<close>

lemma dict_find_ok:
  assumes "da_wf i0 bk" "distinct (map key (da_list bk))"
  shows "(\<exists>j. dict_find bk k 0 = Some (Some j) \<and> j < length (da_list bk) \<and>
             key (da_list bk ! j) = k \<and> map_of (entries bk) k = Some (el (da_list bk ! j)))
       \<or> (dict_find bk k 0 = Some None \<and> map_of (entries bk) k = None)"
proof -
  have "map_of (entries bk) k = None" if "\<forall>m < length (da_list bk). key (da_list bk ! m) \<noteq> k"
    using that by (auto simp: entries_def map_of_eq_None_iff in_set_conv_nth)
  moreover have "map_of (entries bk) k = Some (el (da_list bk ! j))"
    if "j < length (da_list bk)" "key (da_list bk ! j) = k" for j
    using map_of_entries_nth [OF assms(2) that(1)] that(2) by (simp add: entries_def)
  ultimately show ?thesis
    using dict_find_cases [OF assms(1), of 0 k] by fastforce
qed

section \<open>Replacing one bucket\<close>

lemma dict_wf_put:
  assumes wf: "dict_wf d" and b: "b < length (buckets d)"
    and bk: "da_wf bucket_init_size bk" "keys_ok d b (da_list bk)" "da_list bk \<noteq> []"
    and d': "buckets d' = (buckets d)[b := bk]" "length (filled_buckets d') = length (buckets d)"
      "filled (filled_buckets_i d') (filled_buckets d')"
      "used_buckets d' = (if da_list (buckets d ! b) = [] then used_buckets d @ [b] else used_buckets d)"
  shows "dict_wf d'"
proof -
  have "bt_wf d'"
    using wf by (intro bt_wf_put [OF _ b bk(1,3) d']) (simp add: dict_wf_def)
  moreover have "keys_ok d' = keys_ok d" by (rule keys_ok_cong) (simp add: d')
  moreover have "keys_ok d c (da_list ((buckets d)[b := bk] ! c))" if "c < length (buckets d)" for c
    using that wf bk(2) by (cases "c = b") (auto simp: dict_wf_def)
  ultimately show ?thesis
    by (simp add: dict_wf_def d')
qed

lemma dict_map_put:
  assumes "b = bucket_id d k" "b < length (buckets d)" "buckets d' = (buckets d)[b := bk]"
    "map_of (entries bk) = (map_of (entries (buckets d ! b)))(k \<mapsto> v)"
  shows "dict_map d' = (dict_map d)(k \<mapsto> v)"
proof
  fix k'
  have "bucket_id d' k' = bucket_id d k'"
    by (simp add: bucket_id_def assms(3))
  then show "dict_map d' k' = ((dict_map d)(k \<mapsto> v)) k'"
    using assms by (cases "bucket_id d k' = b") (auto simp: dict_map_def nth_list_update)
qed

lemma map_of_snoc: "map_of xs k = None \<Longrightarrow> [k \<mapsto> v] ++ map_of xs = (map_of xs)(k \<mapsto> v)"
  by (auto simp: map_add_def fun_eq_iff split: option.splits)

lemma map_of_entries_update:
  assumes "distinct (map key xs)" "j < length xs" "key (xs ! j) = k"
  shows "map_of (map (\<lambda>e. (key e, el e)) (xs[j := (xs ! j)\<lparr>el := v\<rparr>])) =
         (map_of (map (\<lambda>e. (key e, el e)) xs))(k \<mapsto> v)"
  using assms
proof (induction xs arbitrary: j)
  case Nil
  then show ?case by simp
next
  case (Cons x xs)
  show ?case
  proof (cases j)
    case 0
    with Cons.prems show ?thesis by (simp add: fun_eq_iff)
  next
    case (Suc i)
    with Cons.prems have i: "i < length xs" "key (xs ! i) = k" "distinct (map key xs)" by simp_all
    then have "k \<in> key ` set xs" by (metis image_eqI nth_mem)
    with Cons.prems have "key x \<noteq> k" by auto
    with Cons.IH [OF i(3,1,2)] Suc show ?thesis by (auto simp: fun_eq_iff)
  qed
qed

section \<open>What the operations do to the abstract map\<close>

text \<open>Adding an entry to a live bucket that does not hold the key.\<close>

lemma dict_add_entry_ok:
  fixes d0 :: "'v dict"
  assumes wf: "dict_wf d0" and b: "b = bucket_id d0 k"
    and bk: "da_wf bucket_init_size bk" "da_live bk" "da_list bk = da_list (buckets d0 ! b)"
    and absent: "dict_map d0 k = None"
    and d: "buckets d = buckets d0" "dict_size d = dict_size d0"
      "length (filled_buckets d) = length (buckets d0)"
      "filled (filled_buckets_i d) (filled_buckets d)"
      "used_buckets d = (if da_list bk = [] then used_buckets d0 @ [b] else used_buckets d0)"
  shows "\<exists>d'. dict_add_entry d b bk k v = Some d' \<and> dict_wf d' \<and>
           dict_map d' = (dict_map d0)(k \<mapsto> v) \<and>
           dict_size d' = Suc (dict_size d0) \<and> bt_count d' = Suc (bt_count d0) \<and>
           length (buckets d') = length (buckets d0)"
proof -
  let ?x = "\<lparr>key = k, el = v\<rparr> :: 'v dict_el"
  obtain bk' where bk': "da_add_item bk ?x = Some bk'" "da_wf bucket_init_size bk'"
      "da_list bk' = da_list bk @ [?x]"
    using da_add_item_ok [OF bk(1,2)] by blast
  let ?d = "d\<lparr>dict_size := dict_size d + 1, buckets := (buckets d)[b := bk']\<rparr>"
  have less: "b < length (buckets d0)"
    using bucket_id_less [OF wf] b by simp
  have kok: "keys_ok d0 b (da_list (buckets d0 ! b))"
    using dict_wf_bucket(3) [OF wf] b by simp
  have nokey: "k \<notin> key ` set (da_list bk)"
    using absent by (auto simp: dict_map_def entries_def map_of_eq_None_iff image_iff bk(3) b)
  have "dict_wf ?d"
    by (rule dict_wf_put [OF wf less bk'(2)])
      (use kok nokey b d bk' bk(3) in \<open>auto simp: keys_ok_def used_buckets_def\<close>)
  moreover have "dict_map ?d = (dict_map d0)(k \<mapsto> v)"
    by (rule dict_map_put [OF b less, where bk = bk'])
      (use d bk' bk(3) absent b in \<open>simp_all add: entries_def map_of_snoc dict_map_def\<close>)
  moreover have "bt_count ?d = Suc (bt_count d0)"
    using bt_count_put [OF less, where t' = ?d and bk = bk'] d bk' bk(3) by simp
  ultimately show ?thesis
    using bk'(1) d by (simp add: dict_add_entry_def)
qed

lemma dict_overwrite_ok:
  assumes wf: "dict_wf d"
    and j: "j < length (da_list (buckets d ! bucket_id d k))"
      "key (da_list (buckets d ! bucket_id d k) ! j) = k"
  shows "\<exists>d' w. dict_overwrite c d k v j = Some (d', if c then [w] else []) \<and>
           dict_map d k = Some w \<and> dict_wf d' \<and> dict_map d' = (dict_map d)(k \<mapsto> v) \<and>
           dict_size d' = dict_size d \<and> bt_count d' = bt_count d \<and>
           length (buckets d') = length (buckets d)"
proof -
  let ?b = "bucket_id d k"
  let ?bk = "buckets d ! ?b"
  let ?e = "da_list ?bk ! j"
  have less: "?b < length (buckets d)" by (rule bucket_id_less [OF wf])
  note bwf = dict_wf_bucket [OF wf, of k]
  obtain bk' where bk': "da_set_ref_item ?bk j (?e\<lparr>el := v\<rparr>) = Some bk'"
      "da_wf bucket_init_size bk'" "da_list bk' = (da_list ?bk)[j := ?e\<lparr>el := v\<rparr>]"
    using da_set_ref_item_ok [OF bwf(1) j(1)] by blast
  have keys: "map key (da_list bk') = map key (da_list ?bk)"
    using j(1) by (simp add: bk'(3) map_update list_update_same_conv)
  let ?d = "d\<lparr>buckets := (buckets d)[?b := bk']\<rparr>"
  have "\<forall>x \<in> set (map key (da_list bk')). bucket_id d x = ?b"
    unfolding keys using bwf(3) by (simp add: keys_ok_def)
  moreover have "distinct (map key (da_list bk'))"
    unfolding keys by (rule bwf(2))
  ultimately have "keys_ok d ?b (da_list bk')" by (simp add: keys_ok_def)
  then have "dict_wf ?d"
    by (rule dict_wf_put [OF wf less bk'(2)])
      (use wf j(1) bk'(3) in \<open>auto simp: dict_wf_def bt_wf_def used_buckets_def\<close>)
  moreover have "dict_map ?d = (dict_map d)(k \<mapsto> v)"
    by (rule dict_map_put [OF refl less, where bk = bk'])
      (use map_of_entries_update [OF bwf(2) j] bk'(3) in \<open>simp_all add: entries_def\<close>)
  moreover have "bt_count ?d = bt_count d"
    using bt_count_put [OF less, where t' = ?d and bk = bk'] bk'(3) by simp
  moreover have "dict_map d k = Some (el ?e)"
    using map_of_entries_nth [OF bwf(2) j(1)] j(2) by (simp add: dict_map_def entries_def)
  moreover have "dict_overwrite c d k v j = Some (?d, if c then [el ?e] else [])"
    using j(1) bk'(1) by (simp add: dict_overwrite_def Let_def da_get_item_list [OF bwf(1)])
  ultimately show ?thesis by auto
qed

text \<open>The three branches of \<^verbatim>\<open>dict_set\<close> as one contract.\<close>

lemma dict_set_free_ok:
  fixes d :: "'v dict"
  assumes wf: "dict_wf d"
  shows "\<exists>d'. dict_set_free c d k v =
             Some (d', if c then (case dict_map d k of None \<Rightarrow> [] | Some w \<Rightarrow> [w]) else []) \<and>
           dict_wf d' \<and> dict_map d' = (dict_map d)(k \<mapsto> v) \<and>
           dict_size d' = dict_size d + (if dict_map d k = None then 1 else 0) \<and>
           bt_count d' = bt_count d + (if dict_map d k = None then 1 else 0) \<and>
           length (buckets d') = length (buckets d)"
proof -
  let ?b = "bucket_id d k"
  let ?bk = "buckets d ! ?b"
  have less: "?b < length (buckets d)" by (rule bucket_id_less [OF wf])
  note bwf = dict_wf_bucket [OF wf, of k]
  have btw: "bt_wf d" using wf by (simp add: dict_wf_def)
  show ?thesis
  proof (cases "da_list ?bk = []")
    case True
    let ?bk' = "if da_data ?bk = None then da_init bucket_init_size else ?bk"
    have bk': "da_wf bucket_init_size ?bk'" "da_live ?bk'" "da_list ?bk' = da_list ?bk"
      using bwf(1) True by (simp_all add: da_live_def da_init_def [of bucket_init_size] da_wf_def da_list_def)
    have none: "dict_map d k = None"
      using True by (simp add: dict_map_def entries_def)
    obtain d1 where d1: "push_filled d ?b = Some d1" "buckets d1 = buckets d"
        "length (filled_buckets d1) = length (buckets d)"
        "filled (filled_buckets_i d1) (filled_buckets d1)"
        "used_buckets d1 = used_buckets d @ [?b]" and more: "btable.more d1 = btable.more d"
      using push_filled_ok [OF btw less True] by blast
    have size1: "dict_size d1 = dict_size d" using more by (cases d; cases d1) simp
    have "da_size ?bk = 0" using da_size_list [OF bwf(1)] True by simp
    then have "dict_set_free c d k v = map_option (\<lambda>r. (r, [])) (dict_add_entry d1 ?b ?bk' k v)"
      using d1(1) by (simp add: dict_set_free_def Let_def)
    with dict_add_entry_ok [OF wf refl bk' none d1(2) size1 d1(3,4), of v] d1(5) True bk'(3) none
    show ?thesis by auto
  next
    case False
    then have live: "da_live ?bk" using da_not_live_list by blast
    have sz: "da_size ?bk \<noteq> 0" using da_size_list [OF bwf(1)] False by (metis length_0_conv)
    have data: "da_data ?bk \<noteq> None" using live by (simp add: da_live_def)
    from dict_find_ok [OF bwf(1,2), of k] show ?thesis
    proof (elim disjE exE conjE)
      fix j
      assume j: "dict_find ?bk k 0 = Some (Some j)" "j < length (da_list ?bk)"
        "key (da_list ?bk ! j) = k"
      then have "dict_set_free c d k v = dict_overwrite c d k v j"
        using data sz by (auto simp: dict_set_free_def Let_def)
      then show ?thesis using dict_overwrite_ok [OF wf j(2,3), of c v] by auto
    next
      assume nf: "dict_find ?bk k 0 = Some None" "map_of (entries ?bk) k = None"
      have "dict_set_free c d k v = map_option (\<lambda>r. (r, [])) (dict_add_entry d ?b ?bk k v)"
        using data sz nf(1) by (auto simp: dict_set_free_def Let_def)
      moreover have "dict_map d k = None" using nf(2) by (simp add: dict_map_def)
      ultimately show ?thesis
        using dict_add_entry_ok [OF wf refl bwf(1) live refl, where v = v and d = d] btw False
        by (auto simp: bt_wf_def)
    qed
  qed
qed

lemma dict_set_ok:
  assumes "dict_wf d"
  shows "\<exists>d'. dict_set d k v = Some d' \<and> dict_wf d' \<and> dict_map d' = (dict_map d)(k \<mapsto> v) \<and>
           dict_size d' = dict_size d + (if dict_map d k = None then 1 else 0) \<and>
           bt_count d' = bt_count d + (if dict_map d k = None then 1 else 0) \<and>
           length (buckets d') = length (buckets d)"
  using dict_set_free_ok [OF assms, of False k v] by (auto simp: dict_set_def)

text \<open>A NULL bucket holds nothing; otherwise the search decides.\<close>

lemma dict_contains_map: "dict_wf d \<Longrightarrow> dict_contains d k = Some (dict_map d k)"
  using dict_find_ok [OF dict_wf_bucket(1,2), of d k k] dict_wf_bucket(1) [of d k]
  by (auto simp: dict_contains_def dict_map_def entries_def da_list_def Let_def da_get_item_list)

lemma dict_get_contains:
  "dict_get d k = map_option (\<lambda>r. case r of None \<Rightarrow> 0 | Some v \<Rightarrow> v) (dict_contains d k)"
  by (auto simp: dict_get_def dict_contains_def Let_def option.map_comp comp_def
      split: option.splits intro: option.map_cong)

lemma dict_get_map:
  "dict_wf d \<Longrightarrow> dict_get d k = Some (case dict_map d k of None \<Rightarrow> 0 | Some v \<Rightarrow> v)"
  by (simp add: dict_get_contains dict_contains_map)

lemma dict_get_ref_contains:
  "map_option (map_option (\<lambda>(b, i, v). v)) (dict_get_ref d k) = dict_contains d k"
  by (auto simp: dict_get_ref_def dict_contains_def Let_def option.map_comp comp_def
      split: option.splits)

lemma dict_init_ok [simp]:
  assumes "0 < n"
  shows "dict_wf (dict_init n :: 'v dict)" "dict_map (dict_init n :: 'v dict) = Map.empty"
    "dict_size (dict_init n :: 'v dict) = 0" "bt_count (dict_init n :: 'v dict) = 0"
  using assms
  by (auto simp: dict_init_def dict_wf_def bt_wf_def keys_ok_def used_buckets_def dict_map_def
      entries_def bucket_id_def bt_count_def sum_list_replicate)

lemma dict_cleared:
  assumes wf: "dict_wf d" and n: "length (buckets d') = length (buckets d)"
    and empty: "\<forall>b < length (buckets d). da_list (buckets d' ! b) = []"
  shows "\<forall>b < length (buckets d'). keys_ok d'' b (da_list (buckets d' ! b))"
    "dict_map d' = Map.empty"
  using bucket_id_less [OF wf] bucket_id_cong [OF n] n empty
  by (auto simp: keys_ok_def dict_map_def entries_def fun_eq_iff)

lemma dict_clear_ok:
  assumes wf: "dict_wf d"
  shows "\<exists>d' fs. clear_buckets c d (take (filled_buckets_i d) (filled_buckets d)) = Some (d', fs) \<and>
           dict_wf (d'\<lparr>filled_buckets_i := 0\<rparr>) \<and> dict_map d' = Map.empty \<and> bt_count d' = 0 \<and>
           dict_size d' = dict_size d \<and> length (buckets d') = length (buckets d)"
proof -
  obtain d' fs where d': "clear_buckets c d (take (filled_buckets_i d) (filled_buckets d)) = Some (d', fs)"
      "bt_wf (d'\<lparr>filled_buckets_i := 0\<rparr>)" "bt_count d' = 0"
      "\<forall>b < length (buckets d). da_list (buckets d' ! b) = []"
      "btable.more d' = btable.more d" "length (buckets d') = length (buckets d)"
    using bt_clear_ok [of d c] wf by (auto simp: dict_wf_def)
  have "dict_size d' = dict_size d" using d'(5) by (cases d; cases d') simp
  then show ?thesis
    using d' dict_cleared [OF wf d'(6,4)] by (simp add: dict_wf_def)
qed

lemma dict_map_reset [simp]: "dict_map (d\<lparr>filled_buckets_i := n\<rparr>) = dict_map d"
    "dict_map (d\<lparr>filled_buckets_i := n, dict_size := m\<rparr>) = dict_map d"
    "bt_count (d\<lparr>filled_buckets_i := n\<rparr>) = bt_count d"
    "bt_count (d\<lparr>filled_buckets_i := n, dict_size := m\<rparr>) = bt_count d"
  by (simp_all add: dict_map_def bt_count_def bucket_id_def fun_eq_iff)

lemma dict_wf_size [simp]: "dict_wf (d\<lparr>dict_size := m\<rparr>) = dict_wf d"
  "dict_wf (d\<lparr>filled_buckets_i := n, dict_size := m\<rparr>) = dict_wf (d\<lparr>filled_buckets_i := n\<rparr>)"
  by (simp_all add: dict_wf_def keys_ok_def bucket_id_def bt_wf_def used_buckets_def)

lemma dict_remove_all_ok:
  assumes "dict_wf d"
  shows "\<exists>d' fs. dict_remove_all c d = Some (d', fs) \<and> dict_wf d' \<and> dict_map d' = Map.empty \<and>
           dict_size d' = dict_size d \<and> bt_count d' = 0 \<and> length (buckets d') = length (buckets d)"
  using dict_clear_ok [OF assms, of c] by (auto simp: dict_remove_all_def)

lemma lib_dict_remove_all_ok:
  assumes "dict_wf d"
  shows "\<exists>d' fs. lib_dict_remove_all c d = Some (d', fs) \<and> dict_wf d' \<and> dict_map d' = Map.empty \<and>
           dict_size d' = 0 \<and> bt_count d' = 0 \<and> length (buckets d') = length (buckets d)"
  using dict_clear_ok [OF assms, of c] by (auto simp: lib_dict_remove_all_def)

section \<open>The interface of a table\<close>

text \<open>
  A table that may refuse an operation (\<open>None\<close>), with an invariant under which it never does.
  \<open>absmap\<close> is what the table means.
\<close>

locale table =
  fixes inv :: "'t \<Rightarrow> bool" and absmap :: "'t \<Rightarrow> 'k \<Rightarrow> 'v option"
    and put :: "'t \<Rightarrow> 'k \<Rightarrow> 'v \<Rightarrow> 't option" and find :: "'t \<Rightarrow> 'k \<Rightarrow> 'v option option"
    and clear :: "'t \<Rightarrow> 't option"
  assumes put_ok: "inv t \<Longrightarrow> \<exists>t'. put t k v = Some t' \<and> inv t' \<and> absmap t' = (absmap t)(k \<mapsto> v)"
    and find_ok: "inv t \<Longrightarrow> find t k = Some (absmap t k)"
    and clear_ok: "inv t \<Longrightarrow> \<exists>t'. clear t = Some t' \<and> inv t' \<and> absmap t' = Map.empty"
begin

fun put_all :: "'t \<Rightarrow> ('k \<times> 'v) list \<Rightarrow> 't option" where
  "put_all t [] = Some t"
| "put_all t ((k, v) # kvs) = (case put t k v of None \<Rightarrow> None | Some t' \<Rightarrow> put_all t' kvs)"

text \<open>A sequence of writes returns, and a key then holds what was written to it last.\<close>

lemma put_all_ok:
  "inv t \<Longrightarrow> \<exists>t'. put_all t kvs = Some t' \<and> inv t' \<and> absmap t' = absmap t ++ map_of (rev kvs)"
proof (induction kvs arbitrary: t)
  case Nil
  then show ?case by simp
next
  case (Cons kv kvs)
  obtain k v where kv: "kv = (k, v)" by force
  obtain t1 where t1: "put t k v = Some t1" "inv t1" "absmap t1 = (absmap t)(k \<mapsto> v)"
    using put_ok [OF Cons.prems] by blast
  obtain t2 where t2: "put_all t1 kvs = Some t2" "inv t2" "absmap t2 = absmap t1 ++ map_of (rev kvs)"
    using Cons.IH [OF t1(2)] by blast
  have "absmap t2 = absmap t ++ map_of (rev (kv # kvs))"
    by (simp only: t2(3) t1(3) kv rev.simps map_of_append map_add_assoc) simp
  with t1 t2 kv show ?case by simp
qed

lemma put_all_find:
  assumes "inv t"
  shows "\<exists>t'. put_all t kvs = Some t' \<and>
           find t' k = Some (case map_of (rev kvs) k of None \<Rightarrow> absmap t k | Some v \<Rightarrow> Some v)"
  using put_all_ok [OF assms, of kvs] by (auto simp: find_ok map_add_def)

lemma clear_then_find: "inv t \<Longrightarrow> \<exists>t'. clear t = Some t' \<and> inv t' \<and> find t' k = Some None"
  using clear_ok [of t] find_ok by fastforce

end

interpretation solver_dict: table dict_wf dict_map dict_set dict_contains
  "\<lambda>d. map_option fst (dict_remove_all False d)"
proof unfold_locales
  fix d :: "'v dict" and k v
  assume wf: "dict_wf d"
  show "\<exists>d'. dict_set d k v = Some d' \<and> dict_wf d' \<and> dict_map d' = (dict_map d)(k \<mapsto> v)"
    using dict_set_ok [OF wf] by blast
  show "dict_contains d k = Some (dict_map d k)"
    by (rule dict_contains_map [OF wf])
  show "\<exists>d'. map_option fst (dict_remove_all False d) = Some d' \<and> dict_wf d' \<and> dict_map d' = Map.empty"
    using dict_remove_all_ok [OF wf, of False] by auto
qed

text \<open>In \<^verbatim>\<open>fuzzy-sat/lib/dict.h\<close> the size field counts the entries as well.\<close>

interpretation lib_dict: table "\<lambda>d. dict_wf d \<and> dict_size d = bt_count d" dict_map
  "\<lambda>d k v. map_option fst (dict_set_free c d k v)" dict_contains
  "\<lambda>d. map_option fst (lib_dict_remove_all c d)"
  for c
proof unfold_locales
  fix d :: "'v dict" and k v
  assume wf: "dict_wf d \<and> dict_size d = bt_count d"
  then show "\<exists>d'. map_option fst (dict_set_free c d k v) = Some d' \<and>
      (dict_wf d' \<and> dict_size d' = bt_count d') \<and> dict_map d' = (dict_map d)(k \<mapsto> v)"
    using dict_set_free_ok [of d c k v] by auto
  show "dict_contains d k = Some (dict_map d k)"
    using wf dict_contains_map by blast
  show "\<exists>d'. map_option fst (lib_dict_remove_all c d) = Some d' \<and>
      (dict_wf d' \<and> dict_size d' = bt_count d') \<and> dict_map d' = Map.empty"
    using wf lib_dict_remove_all_ok [of d c] by auto
qed

section \<open>Properties\<close>

fun dict_set_all :: "'v dict \<Rightarrow> (u64 \<times> 'v) list \<Rightarrow> 'v dict option" where
  "dict_set_all d [] = Some d"
| "dict_set_all d ((k, v) # kvs) = (case dict_set d k v of None \<Rightarrow> None | Some d' \<Rightarrow> dict_set_all d' kvs)"

lemma dict_set_all_put_all: "dict_set_all d kvs = solver_dict.put_all d kvs"
  by (induction d kvs rule: dict_set_all.induct) (auto split: option.split)

text \<open>
  C11. \<^verbatim>\<open>dict_set\<close> of \<^verbatim>\<open>fuzzy-sat/lib/dict.h\<close> on a well-formed table never writes outside an array,
  keeps the table well-formed, updates exactly the given key of the map the table stands for,
  counts a new key in \<^verbatim>\<open>size\<close> and hands an overwritten value, and nothing else, to the destructor.
\<close>

theorem dict_set_refines_update:
  assumes "dict_wf d"
  shows "\<exists>d'. dict_set_free free_el d k v =
           Some (d', case dict_map d k of None \<Rightarrow> [] | Some w \<Rightarrow> if free_el then [w] else []) \<and>
           dict_wf d' \<and> dict_map d' = (dict_map d)(k \<mapsto> v) \<and>
           dict_size d' = dict_size d + (if dict_map d k = None then 1 else 0)"
  using dict_set_free_ok [OF assms, of free_el k v] by auto

theorem dict_set_refines_update_witness:
  "\<exists>d'. dict_set_free True (dict_init 1024 :: nat dict) 7 5 = Some (d', []) \<and> dict_wf d' \<and>
      dict_map d' = [7 \<mapsto> 5] \<and> dict_size d' = 1"
  using dict_set_refines_update [of "dict_init 1024 :: nat dict" True 7 5] by simp

text \<open>
  After any sequence of \<^verbatim>\<open>dict_set\<close> calls on a fresh table, \<^verbatim>\<open>dict_contains\<close>, \<^verbatim>\<open>dict_get\<close> and
  \<^verbatim>\<open>dict_get_ref\<close> answer with the last value written to the key, and report an absent key as such.
\<close>

theorem dict_last_write_wins:
  assumes "0 < n"
  shows "\<exists>d. dict_set_all (dict_init n) kvs = Some d \<and>
           dict_contains d k = Some (map_of (rev kvs) k) \<and>
           dict_get d k = Some (case map_of (rev kvs) k of None \<Rightarrow> 0 | Some v \<Rightarrow> v) \<and>
           map_option (map_option (\<lambda>(b, i, v). v)) (dict_get_ref d k) = Some (map_of (rev kvs) k)"
proof -
  obtain d where d: "dict_set_all (dict_init n) kvs = Some d" "dict_wf d" "dict_map d = map_of (rev kvs)"
    using solver_dict.put_all_ok [OF dict_init_ok(1) [OF assms], of kvs] assms
    by (auto simp: dict_set_all_put_all)
  then show ?thesis
    by (simp add: dict_contains_map dict_get_map dict_get_ref_contains)
qed

theorem dict_last_write_wins_witness:
  "\<exists>d. dict_set_all (dict_init 4) [(1, 10), (5, 20), (1, 30 :: nat)] = Some d \<and>
      dict_contains d 1 = Some (Some 30) \<and> dict_get d 1 = Some 30"
  using dict_last_write_wins [of 4 "[(1, 10), (5, 20), (1, 30 :: nat)]" 1] by auto

text \<open>
  \<^verbatim>\<open>dict_remove_all\<close> of \<^verbatim>\<open>solver/dict.h\<close> empties the table and leaves it usable, but keeps the old
  \<^verbatim>\<open>size\<close>: after it, the field differs from the number of entries unless the table was empty.
\<close>

theorem dict_remove_all_keeps_size:
  assumes "dict_wf d"
  shows "\<exists>d' fs. dict_remove_all c d = Some (d', fs) \<and> dict_wf d' \<and> dict_map d' = Map.empty \<and>
           bt_count d' = 0 \<and> dict_size d' = dict_size d"
  using dict_remove_all_ok [OF assms, of c] by blast

theorem dict_remove_all_keeps_size_witness:
  "\<exists>d d' fs. dict_set (dict_init 4 :: nat dict) 1 10 = Some d \<and> dict_remove_all False d = Some (d', fs) \<and>
      dict_map d' = Map.empty \<and> dict_size d' = 1"
proof -
  obtain d where d: "dict_set (dict_init 4 :: nat dict) 1 10 = Some d" "dict_wf d" "dict_size d = 1"
    using dict_set_ok [of "dict_init 4 :: nat dict" 1 10] by auto
  with dict_remove_all_keeps_size [OF d(2), of False] show ?thesis by auto
qed

end
