(* ===== verification/Iteration.thy ===== *)
theory Iteration
  imports Prelude
begin

text \<open>
  The iteration protocol of the solver's containers: a cursor kept in the object, a \<^verbatim>\<open>next\<close>
  operation that returns 0 at the end and otherwise 1 with the element, and the client loop
  \<^verbatim>\<open>while (next(...)) ...\<close>. The locale is interpreted by the hash set and by the wrapped interval.
\<close>

text \<open>
  The client loop, with fuel: \<open>None\<close> when the fuel runs out or a call faults, otherwise the
  elements in the order they are returned.
\<close>

fun drain :: "('s \<Rightarrow> ('s \<times> 'x option) option) \<Rightarrow> nat \<Rightarrow> 's \<Rightarrow> ('s \<times> 'x list) option" where
  "drain nxt 0 s = None"
| "drain nxt (Suc n) s =
     (case nxt s of None \<Rightarrow> None
      | Some (s', None) \<Rightarrow> Some (s', [])
      | Some (s', Some x) \<Rightarrow> map_option (\<lambda>(r, xs). (r, x # xs)) (drain nxt n s'))"

locale iterator =
  fixes ok :: "'s \<Rightarrow> bool" and rest :: "'s \<Rightarrow> 'x list"
    and nxt :: "'s \<Rightarrow> ('s \<times> 'x option) option"
  assumes next_end: "ok s \<Longrightarrow> rest s = [] \<Longrightarrow> \<exists>s'. nxt s = Some (s', None) \<and> ok s' \<and> rest s' = []"
    and next_elem: "ok s \<Longrightarrow> rest s = x # xs \<Longrightarrow>
      \<exists>s'. nxt s = Some (s', Some x) \<and> ok s' \<and> rest s' = xs"
begin

text \<open>One call more than there are elements is enough, and the loop visits exactly them.\<close>

lemma drain_ok:
  assumes "ok s" "length (rest s) < n"
  shows "\<exists>s'. drain nxt n s = Some (s', rest s) \<and> ok s' \<and> rest s' = []"
  using assms
proof (induction n arbitrary: s)
  case 0
  then show ?case by simp
next
  case (Suc n)
  show ?case
  proof (cases "rest s")
    case Nil
    with next_end [OF Suc.prems(1)] show ?thesis by auto
  next
    case (Cons x xs)
    obtain s1 where s1: "nxt s = Some (s1, Some x)" "ok s1" "rest s1 = xs"
      using next_elem [OF Suc.prems(1) Cons] by blast
    obtain s2 where "drain nxt n s1 = Some (s2, rest s1)" "ok s2" "rest s2 = []"
      using Suc.IH [OF s1(2)] Suc.prems(2) Cons s1(3) by auto
    with s1 Cons show ?thesis by simp
  qed
qed

lemma drain_terminates: "ok s \<Longrightarrow> \<exists>n s'. drain nxt n s = Some (s', rest s)"
  using drain_ok [of s "Suc (length (rest s))"] lessI by blast

end

end
