(* ===== verification/Hash_Set.thy ===== *)
theory Hash_Set
  imports Bucket_Table Iteration
begin

text \<open>
  \<^verbatim>\<open>solver/fuzzy-sat/lib/set.h\<close>: the hash set with a caller-supplied hash and equality, and the
  two iterators stored in it. \<open>None\<close> is a failed assertion or an access outside a block.
\<close>

record set_iter_t =
  iter_buck_id :: nat
  iter_el_in_buck_id :: nat

abbreviation num_iterators :: nat where
  "num_iterators \<equiv> 2"

record 'a hset = "'a btable" +
  hash :: "'a \<Rightarrow> u64"
  equals :: "'a \<Rightarrow> 'a \<Rightarrow> bool"
  set_size :: nat
  iterators :: "set_iter_t list"

definition set_init :: "nat \<Rightarrow> ('a \<Rightarrow> u64) \<Rightarrow> ('a \<Rightarrow> 'a \<Rightarrow> bool) \<Rightarrow> 'a hset" where
  "set_init n_buckets h eq =
     \<lparr>buckets = replicate n_buckets da_zero, filled_buckets = malloc n_buckets,
      filled_buckets_i = 0, hash = h, equals = eq, set_size = 0,
      iterators = replicate num_iterators \<lparr>iter_buck_id = 0, iter_el_in_buck_id = 0\<rparr>\<rparr>"

definition set_bucket_id :: "'a hset \<Rightarrow> 'a \<Rightarrow> nat" where
  "set_bucket_id s x = unat (hash s x) mod length (buckets s)"

text \<open>The search loops: the index of the first element of the bucket that satisfies the test.\<close>

function set_find :: "('a \<Rightarrow> bool) \<Rightarrow> 'a da \<Rightarrow> nat \<Rightarrow> nat option option" where
  "set_find P bucket i =
     (if i < da_size bucket
      then case da_get_item bucket i of None \<Rightarrow> None
           | Some tmp \<Rightarrow> if P tmp then Some (Some i) else set_find P bucket (i + 1)
      else Some None)"
  by pat_completeness auto
termination
  by (relation "measure (\<lambda>(P, b, i). da_size b - i)") auto

declare set_find.simps [simp del]

definition set_put :: "'a hset \<Rightarrow> nat \<Rightarrow> 'a da \<Rightarrow> 'a \<Rightarrow> 'a hset option" where
  "set_put s b bucket x =
     map_option (\<lambda>bk. s\<lparr>buckets := (buckets s)[b := bk], set_size := set_size s + 1\<rparr>)
       (da_add_item bucket x)"

definition set_add :: "'a hset \<Rightarrow> 'a \<Rightarrow> 'a hset option" where
  "set_add s x =
     (let el_hash = hash s x; b = set_bucket_id s x; bucket = buckets s ! b in
      if da_data bucket = None then
        (case push_filled s b of None \<Rightarrow> None
         | Some s' \<Rightarrow> set_put s' b (da_init bucket_init_size) x)
      else if da_size bucket = 0 then
        (case push_filled s b of None \<Rightarrow> None
         | Some s' \<Rightarrow> set_put s' b bucket x)
      else
        (case set_find (\<lambda>tmp. hash s tmp = el_hash \<and> equals s tmp x) bucket 0 of None \<Rightarrow> None
         | Some (Some i) \<Rightarrow> Some s
         | Some None \<Rightarrow> set_put s b bucket x))"

definition set_check :: "'a hset \<Rightarrow> 'a \<Rightarrow> bool option" where
  "set_check s x =
     (let bucket = buckets s ! set_bucket_id s x in
      if da_data bucket = None then Some False
      else map_option (\<lambda>r. r \<noteq> None) (set_find (\<lambda>tmp. equals s tmp x) bucket 0))"

text \<open>\<^verbatim>\<open>set_find_el\<close> returns a pointer into the set or NULL; the model returns the element.\<close>

definition set_find_el :: "'a hset \<Rightarrow> 'a \<Rightarrow> 'a option option" where
  "set_find_el s x =
     (let el_hash = hash s x; bucket = buckets s ! set_bucket_id s x in
      if da_data bucket = None then Some None
      else case set_find (\<lambda>tmp. hash s tmp = el_hash \<and> equals s tmp x) bucket 0 of None \<Rightarrow> None
           | Some None \<Rightarrow> Some None
           | Some (Some i) \<Rightarrow> map_option Some (da_get_item bucket i))"

definition set_reset_iter :: "'a hset \<Rightarrow> nat \<Rightarrow> 'a hset option" where
  "set_reset_iter s iid =
     (if iid < num_iterators
      then Some (s\<lparr>iterators := (iterators s)[iid := \<lparr>iter_buck_id = 0, iter_el_in_buck_id = 0\<rparr>]\<rparr>)
      else None)"

text \<open>\<^verbatim>\<open>set_iter_next\<close> calls itself after an exhausted bucket, with the iterator moved on.\<close>

function set_iter_next :: "nat \<Rightarrow> 'a hset \<Rightarrow> ('a hset \<times> 'a option) option" where
  "set_iter_next iid s =
     (if iid \<ge> num_iterators \<or> iid \<ge> length (iterators s) then None
      else let it = iterators s ! iid in
        if iter_buck_id it \<ge> filled_buckets_i s then Some (s, None)
        else if iter_buck_id it \<ge> length (filled_buckets s) then None
        else case filled_buckets s ! iter_buck_id it of None \<Rightarrow> None
        | Some b \<Rightarrow>
            if b \<ge> length (buckets s) then None
            else let bucket = buckets s ! b in
              if iter_el_in_buck_id it \<ge> da_size bucket then
                set_iter_next iid (s\<lparr>iterators := (iterators s)[iid :=
                  \<lparr>iter_buck_id = iter_buck_id it + 1, iter_el_in_buck_id = 0\<rparr>]\<rparr>)
              else map_option
                (\<lambda>x. (s\<lparr>iterators := (iterators s)[iid :=
                         it\<lparr>iter_el_in_buck_id := iter_el_in_buck_id it + 1\<rparr>]\<rparr>, Some x))
                (da_get_item bucket (iter_el_in_buck_id it)))"
  by pat_completeness auto
termination
  by (relation "measure (\<lambda>(iid, s). filled_buckets_i s - iter_buck_id (iterators s ! iid))") auto

declare set_iter_next.simps [simp del]

definition set_remove_all :: "bool \<Rightarrow> 'a hset \<Rightarrow> ('a hset \<times> 'a list) option" where
  "set_remove_all el_free s =
     map_option (\<lambda>(r, fs). (r\<lparr>filled_buckets_i := 0, set_size := 0\<rparr>, fs))
       (clear_buckets el_free s (take (filled_buckets_i s) (filled_buckets s)))"

definition set_free :: "bool \<Rightarrow> 'a hset \<Rightarrow> ('a hset \<times> 'a list) option" where
  "set_free el_free s =
     map_option (\<lambda>fs. (s\<lparr>buckets := [], filled_buckets := [], set_size := 0\<rparr>, fs))
       (free_buckets el_free (buckets s))"

section \<open>Invariant and abstraction\<close>

text \<open>What the set relies on of its caller: \<open>eq\<close> is an equivalence that the hash respects.\<close>

definition hash_respects :: "('a \<Rightarrow> u64) \<Rightarrow> ('a \<Rightarrow> 'a \<Rightarrow> bool) \<Rightarrow> bool" where
  "hash_respects h eq \<longleftrightarrow> equivp eq \<and> (\<forall>x y. eq x y \<longrightarrow> h x = h y)"

definition set_elems :: "'a hset \<Rightarrow> 'a list" where
  "set_elems s = concat (map (\<lambda>b. da_list (buckets s ! b)) (used_buckets s))"

definition set_mem :: "'a hset \<Rightarrow> 'a \<Rightarrow> bool" where
  "set_mem s x \<longleftrightarrow> (\<exists>y \<in> set (set_elems s). equals s y x)"

text \<open>A bucket holds pairwise different elements whose hash names the bucket.\<close>

definition elems_ok :: "'a hset \<Rightarrow> nat \<Rightarrow> 'a list \<Rightarrow> bool" where
  "elems_ok s b xs \<longleftrightarrow> (\<forall>x \<in> set xs. set_bucket_id s x = b) \<and>
     (\<forall>i < length xs. \<forall>j < length xs. equals s (xs ! i) (xs ! j) \<longrightarrow> i = j)"

definition set_wf :: "'a hset \<Rightarrow> bool" where
  "set_wf s \<longleftrightarrow> bt_wf s \<and> hash_respects (hash s) (equals s) \<and>
     (\<forall>b < length (buckets s). elems_ok s b (da_list (buckets s ! b))) \<and>
     set_size s = bt_count s \<and> length (iterators s) = num_iterators"

lemma set_find_cases:
  assumes "da_wf i0 bk" "i \<le> length (da_list bk)"
  shows "(\<exists>j. set_find P bk i = Some (Some j) \<and> i \<le> j \<and> j < length (da_list bk) \<and>
             P (da_list bk ! j))
       \<or> (set_find P bk i = Some None \<and> (\<forall>m. i \<le> m \<longrightarrow> m < length (da_list bk) \<longrightarrow>
             \<not> P (da_list bk ! m)))"
  using assms
proof (induction P bk i rule: set_find.induct)
  case (1 P bk i)
  have sz: "da_size bk = length (da_list bk)"
    using "1.prems"(1) by (simp add: da_size_list)
  show ?case
  proof (cases "i < da_size bk \<and> \<not> P (da_list bk ! i)")
    case True
    then have get: "da_get_item bk i = Some (da_list bk ! i)"
      using "1.prems"(1) sz by (simp add: da_get_item_list)
    have eq: "set_find P bk i = set_find P bk (i + 1)"
      using True get by (simp add: set_find.simps [of P bk i])
    have "i + 1 \<le> length (da_list bk)" using True sz by simp
    with "1.IH" [OF _ get] True "1.prems"(1) show ?thesis
      unfolding eq by (metis Suc_eq_plus1 Suc_leD Suc_leI nat_less_le)
  next
    case False
    then show ?thesis
      using "1.prems" sz by (auto simp: set_find.simps [of P bk i] da_get_item_list)
  qed
qed

lemma set_find_ok:
  assumes "da_wf i0 bk"
  shows "(\<exists>j. set_find P bk 0 = Some (Some j) \<and> j < length (da_list bk) \<and> P (da_list bk ! j))
       \<or> (set_find P bk 0 = Some None \<and> (\<forall>y \<in> set (da_list bk). \<not> P y))"
  using set_find_cases [OF assms, of 0 P] by (auto simp: in_set_conv_nth)

lemma set_elems_buckets:
  "bt_wf s \<Longrightarrow> set (set_elems s) = (\<Union>b < length (buckets s). set (da_list (buckets s ! b)))"
  by (auto simp: set_elems_def bt_wf_def)

lemma set_bucket_id_less: "set_wf s \<Longrightarrow> set_bucket_id s x < length (buckets s)"
  by (simp add: set_wf_def bt_wf_def set_bucket_id_def)

lemma set_wf_bucket:
  assumes "set_wf s"
  shows "da_wf bucket_init_size (buckets s ! set_bucket_id s x)"
    "elems_ok s (set_bucket_id s x) (da_list (buckets s ! set_bucket_id s x))"
  using set_bucket_id_less [OF assms, of x] assms by (auto simp: set_wf_def bt_wf_def)

text \<open>An element equal to the one sought can only sit in the bucket of its hash.\<close>

lemma set_mem_bucket:
  assumes "set_wf s"
  shows "set_mem s x \<longleftrightarrow> (\<exists>y \<in> set (da_list (buckets s ! set_bucket_id s x)). equals s y x)"
proof
  assume "set_mem s x"
  then obtain y b where y: "equals s y x" "b < length (buckets s)" "y \<in> set (da_list (buckets s ! b))"
    using assms set_elems_buckets [of s] by (auto simp: set_mem_def set_wf_def)
  then have "set_bucket_id s y = b" "hash s y = hash s x"
    using assms by (auto simp: set_wf_def elems_ok_def hash_respects_def)
  then have "b = set_bucket_id s x" by (simp add: set_bucket_id_def)
  with y show "\<exists>y \<in> set (da_list (buckets s ! set_bucket_id s x)). equals s y x" by auto
next
  assume "\<exists>y \<in> set (da_list (buckets s ! set_bucket_id s x)). equals s y x"
  then show "set_mem s x"
    using assms set_elems_buckets [of s] set_bucket_id_less [OF assms, of x]
    by (auto simp: set_mem_def set_wf_def)
qed

lemma set_wf_equals:
  assumes "set_wf s"
  shows "equals s x x" "equals s x y \<Longrightarrow> equals s y x" "equals s x y \<Longrightarrow> hash s x = hash s y"
    "equals s x y \<Longrightarrow> equals s y z \<Longrightarrow> equals s x z"
  using assms unfolding set_wf_def hash_respects_def
  by (meson equivp_reflp equivp_symp equivp_transp)+

lemma set_check_mem: "set_wf s \<Longrightarrow> set_check s x = Some (set_mem s x)"
  using set_find_ok [OF set_wf_bucket(1), of s "\<lambda>tmp. equals s tmp x" x] set_mem_bucket [of s x]
    da_not_live_list [of "buckets s ! set_bucket_id s x"]
  by (auto simp: set_check_def Let_def da_live_def)

lemma set_find_el_mem:
  assumes "set_wf s"
  shows "if set_mem s x then \<exists>y \<in> set (set_elems s). set_find_el s x = Some (Some y) \<and> equals s y x
         else set_find_el s x = Some None"
proof -
  let ?bk = "buckets s ! set_bucket_id s x"
  have sub: "set (da_list ?bk) \<subseteq> set (set_elems s)"
    using set_elems_buckets [of s] set_bucket_id_less [OF assms, of x] assms
    by (auto simp: set_wf_def)
  show ?thesis
    using set_find_ok [OF set_wf_bucket(1) [OF assms], of "\<lambda>tmp. hash s tmp = hash s x \<and> equals s tmp x" x]
      set_mem_bucket [OF assms, of x] set_wf_equals(3) [OF assms] sub
      da_not_live_list [of ?bk] set_wf_bucket(1) [OF assms, of x]
    by (auto simp: set_find_el_def Let_def da_live_def da_get_item_list subset_iff)
qed

section \<open>Adding an element\<close>

lemma elems_ok_cong:
  "length (buckets s') = length (buckets s) \<Longrightarrow> hash s' = hash s \<Longrightarrow> equals s' = equals s \<Longrightarrow>
     elems_ok s' = elems_ok s"
  by (simp add: elems_ok_def set_bucket_id_def fun_eq_iff)

lemma elems_ok_snoc:
  assumes wf: "set_wf s" and ok: "elems_ok s b xs" and b: "b = set_bucket_id s x"
    and new: "\<forall>y \<in> set xs. \<not> equals s y x"
  shows "elems_ok s b (xs @ [x])"
proof -
  have "\<not> equals s x y" if "y \<in> set xs" for y
    using new that set_wf_equals(2) [OF wf] by blast
  with ok new b show ?thesis
    by (auto simp: elems_ok_def nth_append less_Suc_eq)
qed

lemma set_put_ok:
  assumes wf: "set_wf s0" and b: "b = set_bucket_id s0 x"
    and bk: "da_wf bucket_init_size bk" "da_live bk" "da_list bk = da_list (buckets s0 ! b)"
    and absent: "\<not> set_mem s0 x"
    and s: "buckets s = buckets s0" "set_size s = set_size s0" "hash s = hash s0"
      "equals s = equals s0" "iterators s = iterators s0"
      "length (filled_buckets s) = length (buckets s0)"
      "filled (filled_buckets_i s) (filled_buckets s)"
      "used_buckets s = (if da_list bk = [] then used_buckets s0 @ [b] else used_buckets s0)"
  shows "\<exists>s'. set_put s b bk x = Some s' \<and> set_wf s' \<and> hash s' = hash s0 \<and> equals s' = equals s0 \<and>
           iterators s' = iterators s0 \<and> set (set_elems s') = insert x (set (set_elems s0)) \<and>
           set_size s' = Suc (set_size s0)"
proof -
  obtain bk' where bk': "da_add_item bk x = Some bk'" "da_wf bucket_init_size bk'"
      "da_list bk' = da_list bk @ [x]"
    using da_add_item_ok [OF bk(1,2)] by blast
  let ?s = "s\<lparr>buckets := (buckets s)[b := bk'], set_size := set_size s + 1\<rparr>"
  have less: "b < length (buckets s0)"
    using set_bucket_id_less [OF wf] b by simp
  have bt0: "bt_wf s0" using wf by (simp add: set_wf_def)
  have bt: "bt_wf ?s"
    by (rule bt_wf_put [OF bt0 less bk'(2)])
      (use s bk bk' in \<open>simp_all add: used_buckets_def\<close>)
  have "\<forall>y \<in> set (da_list (buckets s0 ! b)). \<not> equals s0 y x"
    using absent set_mem_bucket [OF wf] b by blast
  then have "elems_ok s0 b (da_list bk')"
    using elems_ok_snoc [OF wf _ b] set_wf_bucket(2) [OF wf, of x] b bk' bk(3) by simp
  then have "elems_ok s0 c (da_list (buckets ?s ! c))" if "c < length (buckets s0)" for c
    using that wf s(1) by (cases "c = b") (auto simp: set_wf_def)
  moreover have "elems_ok ?s = elems_ok s0"
    by (rule elems_ok_cong) (simp_all add: s)
  moreover have "bt_count ?s = Suc (bt_count s0)"
    using bt_count_put [OF less, where t' = ?s and bk = bk'] s(1) bk' bk(3) by simp
  ultimately have wf': "set_wf ?s"
    using bt wf s by (simp add: set_wf_def)
  have "set (set_elems ?s) = insert x (set (set_elems s0))"
    using set_elems_buckets [OF bt] set_elems_buckets [OF bt0] less s(1) bk' bk(3)
    by (auto simp: nth_list_update split: if_splits)
  with wf' show ?thesis
    using bk'(1) s by (simp add: set_put_def)
qed

lemma push_filled_set:
  assumes "set_wf s" "b < length (buckets s)" "da_list (buckets s ! b) = []"
  shows "\<exists>s'. push_filled s b = Some s' \<and> buckets s' = buckets s \<and> set_size s' = set_size s \<and>
           hash s' = hash s \<and> equals s' = equals s \<and> iterators s' = iterators s \<and>
           length (filled_buckets s') = length (buckets s) \<and>
           filled (filled_buckets_i s') (filled_buckets s') \<and> used_buckets s' = used_buckets s @ [b]"
proof -
  have bt: "bt_wf s" using assms by (simp add: set_wf_def)
  obtain s' where s': "push_filled s b = Some s'" "buckets s' = buckets s"
      "length (filled_buckets s') = length (buckets s)"
      "filled (filled_buckets_i s') (filled_buckets s')" "used_buckets s' = used_buckets s @ [b]"
    using push_filled_ok [OF bt assms(2,3)] by blast
  moreover have "set_size s' = set_size s" "hash s' = hash s" "equals s' = equals s"
    "iterators s' = iterators s"
    using s'(1) by (auto simp: push_filled_def split: if_splits)
  ultimately show ?thesis by blast
qed

text \<open>The two branches of \<^verbatim>\<open>set_add\<close>: a bucket without elements, and a collision.\<close>

lemma set_add_empty:
  assumes wf: "set_wf s" and empty: "da_list (buckets s ! set_bucket_id s x) = []"
  shows "\<exists>s'. set_add s x = Some s' \<and> set_wf s' \<and> hash s' = hash s \<and> equals s' = equals s \<and>
           iterators s' = iterators s \<and> set (set_elems s') = insert x (set (set_elems s)) \<and>
           set_size s' = Suc (set_size s)"
proof -
  let ?b = "set_bucket_id s x"
  let ?bk = "buckets s ! ?b"
  note bwf = set_wf_bucket(1) [OF wf, of x]
  have absent: "\<not> set_mem s x"
    using set_mem_bucket [OF wf] empty by simp
  obtain s1 where s1: "push_filled s ?b = Some s1" "buckets s1 = buckets s" "set_size s1 = set_size s"
      "hash s1 = hash s" "equals s1 = equals s" "iterators s1 = iterators s"
      "length (filled_buckets s1) = length (buckets s)"
      "filled (filled_buckets_i s1) (filled_buckets s1)" "used_buckets s1 = used_buckets s @ [?b]"
    using push_filled_set [OF wf set_bucket_id_less [OF wf] empty] by blast
  let ?n = "if da_data ?bk = None then da_init bucket_init_size else ?bk"
  have "da_size ?bk = 0" using da_size_list [OF bwf] empty by simp
  then have eq: "set_add s x = set_put s1 ?b ?n x"
    using s1(1) by (simp add: set_add_def Let_def)
  have n: "da_wf bucket_init_size ?n" "da_live ?n" "da_list ?n = da_list ?bk"
    using bwf empty live_init [of bucket_init_size] by (auto simp: da_live_def)
  have "used_buckets s1 = (if da_list ?n = [] then used_buckets s @ [?b] else used_buckets s)"
    using s1(9) n(3) empty by simp
  with eq show ?thesis
    using set_put_ok [OF wf refl n absent s1(2-8)] by simp
qed

lemma set_add_collision:
  assumes wf: "set_wf s" and ne: "da_list (buckets s ! set_bucket_id s x) \<noteq> []"
  shows "set_add s x =
      (if set_mem s x then Some s
       else set_put s (set_bucket_id s x) (buckets s ! set_bucket_id s x) x)"
proof -
  let ?bk = "buckets s ! set_bucket_id s x"
  note bwf = set_wf_bucket(1) [OF wf, of x]
  have "da_live ?bk" and "da_size ?bk \<noteq> 0"
    using ne da_not_live_list [of ?bk] da_size_list [OF bwf, symmetric] by auto
  then have eq: "set_add s x =
      (case set_find (\<lambda>tmp. hash s tmp = hash s x \<and> equals s tmp x) ?bk 0 of None \<Rightarrow> None
       | Some (Some i) \<Rightarrow> Some s | Some None \<Rightarrow> set_put s (set_bucket_id s x) ?bk x)"
    by (auto simp: set_add_def Let_def da_live_def)
  show ?thesis
    using set_find_ok [OF bwf, of "\<lambda>tmp. hash s tmp = hash s x \<and> equals s tmp x"]
      set_mem_bucket [OF wf, of x] set_wf_equals(3) [OF wf] by (auto simp: eq)
qed

text \<open>
  \<^verbatim>\<open>set_add\<close> returns, keeps the invariant and adds the element exactly when no equal one is
  present; the hash, the equality and the iterators are left alone.
\<close>

lemma set_add_ok:
  assumes wf: "set_wf s"
  shows "\<exists>s'. set_add s x = Some s' \<and> set_wf s' \<and> hash s' = hash s \<and> equals s' = equals s \<and>
           iterators s' = iterators s \<and>
           set (set_elems s') = (if set_mem s x then set (set_elems s) else insert x (set (set_elems s))) \<and>
           set_size s' = (if set_mem s x then set_size s else Suc (set_size s))"
proof (cases "da_list (buckets s ! set_bucket_id s x) = []")
  case True
  then show ?thesis
    using set_add_empty [OF wf True] set_mem_bucket [OF wf] by simp
next
  case False
  have fields: "length (filled_buckets s) = length (buckets s)"
    "filled (filled_buckets_i s) (filled_buckets s)"
    using wf by (simp_all add: set_wf_def bt_wf_def)
  have live: "da_live (buckets s ! set_bucket_id s x)"
    using False da_not_live_list by blast
  show ?thesis
    using set_add_collision [OF wf False] wf False
      set_put_ok [OF wf refl set_wf_bucket(1) [OF wf] live refl _ refl refl refl refl refl fields]
    by (cases "set_mem s x") simp_all
qed

section \<open>Iteration\<close>

text \<open>The elements an iterator has still to return.\<close>

definition iter_rest :: "nat \<Rightarrow> 'a hset \<Rightarrow> 'a list" where
  "iter_rest iid s =
     (let it = iterators s ! iid; bs = drop (iter_buck_id it) (used_buckets s) in
      case bs of [] \<Rightarrow> []
      | b # bs' \<Rightarrow> drop (iter_el_in_buck_id it) (da_list (buckets s ! b)) @
                  concat (map (\<lambda>c. da_list (buckets s ! c)) bs'))"

lemma iter_rest_skip:
  assumes "iid < length (iterators s)" "iterators s ! iid = it" "iter_buck_id it < length (used_buckets s)"
    "length (da_list (buckets s ! (used_buckets s ! iter_buck_id it))) \<le> iter_el_in_buck_id it"
  shows "iter_rest iid (s\<lparr>iterators := (iterators s)[iid :=
           \<lparr>iter_buck_id = iter_buck_id it + 1, iter_el_in_buck_id = 0\<rparr>]\<rparr>) = iter_rest iid s"
  using assms
  by (simp add: iter_rest_def used_buckets_def Let_def Cons_nth_drop_Suc [symmetric] split: list.split)

lemma iter_rest_step:
  assumes "iid < length (iterators s)" "iterators s ! iid = it" "iter_buck_id it < length (used_buckets s)"
    "iter_el_in_buck_id it < length (da_list (buckets s ! (used_buckets s ! iter_buck_id it)))"
  shows "iter_rest iid s = da_list (buckets s ! (used_buckets s ! iter_buck_id it)) ! iter_el_in_buck_id it #
           iter_rest iid (s\<lparr>iterators := (iterators s)[iid :=
             it\<lparr>iter_el_in_buck_id := iter_el_in_buck_id it + 1\<rparr>]\<rparr>)"
  using assms
  by (simp add: iter_rest_def used_buckets_def Let_def Cons_nth_drop_Suc [symmetric])

lemma set_wf_iterators: "set_wf (s\<lparr>iterators := its\<rparr>) \<longleftrightarrow> set_wf s" if "length its = length (iterators s)"
proof -
  have "elems_ok (s\<lparr>iterators := its\<rparr>) = elems_ok s"
    by (rule elems_ok_cong) simp_all
  moreover have "bt_wf (s\<lparr>iterators := its\<rparr>) = bt_wf s"
    by (rule bt_wf_fields) simp_all
  ultimately show ?thesis
    using that by (simp add: set_wf_def bt_count_def)
qed

text \<open>The side array read by the iterator holds an index of a non-empty bucket.\<close>

lemma set_wf_used:
  assumes "set_wf s" "k < filled_buckets_i s"
  shows "k < length (used_buckets s)" "k < length (filled_buckets s)"
    "filled_buckets s ! k = Some (used_buckets s ! k)" "used_buckets s ! k < length (buckets s)"
    "da_wf bucket_init_size (buckets s ! (used_buckets s ! k))"
proof -
  have fil: "filled (filled_buckets_i s) (filled_buckets s)"
    and used: "set (used_buckets s) = {b. b < length (buckets s) \<and> da_list (buckets s ! b) \<noteq> []}"
    and bw: "\<forall>b < length (buckets s). da_wf bucket_init_size (buckets s ! b)"
    using assms(1) by (simp_all add: set_wf_def bt_wf_def)
  show k: "k < length (used_buckets s)" "k < length (filled_buckets s)"
    using assms(2) fil by (auto simp: used_buckets_def filled_def)
  have "take (filled_buckets_i s) (filled_buckets s) ! k = Some (used_buckets s ! k)"
    using take_filled_used [OF fil] k by simp
  with assms(2) show "filled_buckets s ! k = Some (used_buckets s ! k)" by simp
  show "used_buckets s ! k < length (buckets s)"
    using nth_mem [OF k(1)] used by blast
  with bw show "da_wf bucket_init_size (buckets s ! (used_buckets s ! k))" by blast
qed

text \<open>
  \<^verbatim>\<open>set_iter_next\<close> returns the next of the remaining elements, or 0 when there is none, and
  changes nothing but its own iterator.
\<close>

lemma set_iter_next_ok:
  assumes "set_wf s" "iid < num_iterators"
  shows "\<exists>it'. set_iter_next iid s = Some (s\<lparr>iterators := (iterators s)[iid := it']\<rparr>,
             case iter_rest iid s of [] \<Rightarrow> None | x # xs \<Rightarrow> Some x) \<and>
           iter_rest iid (s\<lparr>iterators := (iterators s)[iid := it']\<rparr>) = tl (iter_rest iid s)"
  using assms
proof (induction iid s rule: set_iter_next.induct)
  case (1 iid s)
  let ?it = "iterators s ! iid"
  let ?k = "iter_buck_id ?it"
  have iid: "iid < length (iterators s)"
    using "1.prems" by (simp add: set_wf_def)
  have uk: "length (used_buckets s) = filled_buckets_i s"
    using "1.prems"(1) by (auto simp: set_wf_def bt_wf_def used_buckets_def filled_def)
  show ?case
  proof (cases "?k < filled_buckets_i s")
    case False
    then have "set_iter_next iid s = Some (s, None)" "iter_rest iid s = []"
      using "1.prems" iid uk by (simp_all add: set_iter_next.simps [of iid s] iter_rest_def)
    moreover have "s\<lparr>iterators := (iterators s)[iid := ?it]\<rparr> = s" by simp
    ultimately show ?thesis by (intro exI [of _ ?it]) simp
  next
    case True
    note u = set_wf_used [OF "1.prems"(1) True]
    let ?bk = "buckets s ! (used_buckets s ! ?k)"
    have sz: "da_size ?bk = length (da_list ?bk)" using da_size_list [OF u(5)] by simp
    show ?thesis
    proof (cases "iter_el_in_buck_id ?it < length (da_list ?bk)")
      case el: True
      then have "set_iter_next iid s = Some (s\<lparr>iterators := (iterators s)[iid :=
          ?it\<lparr>iter_el_in_buck_id := iter_el_in_buck_id ?it + 1\<rparr>]\<rparr>, Some (da_list ?bk ! iter_el_in_buck_id ?it))"
        using "1.prems" iid True u sz da_get_item_list [OF u(5)]
        by (simp add: set_iter_next.simps [of iid s] Let_def)
      with iter_rest_step [OF iid refl u(1) el] show ?thesis by auto
    next
      case False
      let ?s1 = "s\<lparr>iterators := (iterators s)[iid := \<lparr>iter_buck_id = ?k + 1, iter_el_in_buck_id = 0\<rparr>]\<rparr>"
      have eq: "set_iter_next iid s = set_iter_next iid ?s1"
        using False "1.prems" iid True u sz by (simp add: set_iter_next.simps [of iid s] Let_def)
      have rest: "iter_rest iid ?s1 = iter_rest iid s"
        using iter_rest_skip [OF iid refl u(1)] False by simp
      have wf1: "set_wf ?s1" using "1.prems"(1) by (simp add: set_wf_iterators)
      show ?thesis
        using "1.IH" [OF _ refl _ _ u(3) _ refl] wf1 "1.prems" iid True u False sz
        unfolding eq rest by (auto simp: not_le not_less)
    qed
  qed
qed

lemma iter_rest_reset:
  assumes "set_wf s" "iid < num_iterators"
  shows "\<exists>s'. set_reset_iter s iid = Some s' \<and> set_wf s' \<and> iter_rest iid s' = set_elems s \<and>
           set_elems s' = set_elems s"
proof -
  have len: "iid < length (iterators s)" using assms by (simp add: set_wf_def)
  let ?s = "s\<lparr>iterators := (iterators s)[iid := \<lparr>iter_buck_id = 0, iter_el_in_buck_id = 0\<rparr>]\<rparr>"
  have "set_wf ?s" using assms by (simp add: set_wf_iterators)
  moreover have "iter_rest iid ?s = set_elems s" "set_elems ?s = set_elems s"
    using len by (simp_all add: iter_rest_def set_elems_def used_buckets_def Let_def split: list.split)
  ultimately show ?thesis
    using assms by (simp add: set_reset_iter_def)
qed

interpretation set_iter: iterator "\<lambda>s. set_wf s \<and> iid < num_iterators" "iter_rest iid" "set_iter_next iid"
  for iid
proof unfold_locales
  fix s :: "'a hset"
  assume ok: "set_wf s \<and> iid < num_iterators" and "iter_rest iid s = []"
  then show "\<exists>s'. set_iter_next iid s = Some (s', None) \<and> (set_wf s' \<and> iid < num_iterators) \<and>
      iter_rest iid s' = []"
    using set_iter_next_ok [of s iid] by (auto simp: set_wf_iterators)
next
  fix s :: "'a hset" and x xs
  assume ok: "set_wf s \<and> iid < num_iterators" and "iter_rest iid s = x # xs"
  then show "\<exists>s'. set_iter_next iid s = Some (s', Some x) \<and> (set_wf s' \<and> iid < num_iterators) \<and>
      iter_rest iid s' = xs"
    using set_iter_next_ok [of s iid] by (auto simp: set_wf_iterators)
qed

text \<open>The size is the number of elements, and no element is listed twice.\<close>

lemma bt_count_elems: "bt_wf s \<Longrightarrow> bt_count s = length (set_elems s)"
proof -
  assume wf: "bt_wf s"
  let ?f = "\<lambda>b. length (da_list (buckets s ! b))"
  have "bt_count s = sum_list (map ?f [0..<length (buckets s)])"
    unfolding bt_count_def by (metis (no_types, lifting) map_eq_conv map_map map_nth comp_apply)
  also have "\<dots> = sum ?f {0..<length (buckets s)}"
    by (simp add: sum_list_distinct_conv_sum_set)
  also have "\<dots> = sum ?f (set (used_buckets s))"
    using wf by (intro sum.mono_neutral_right) (auto simp: bt_wf_def)
  also have "\<dots> = length (set_elems s)"
    using wf by (simp add: set_elems_def length_concat comp_def sum_list_distinct_conv_sum_set bt_wf_def)
  finally show ?thesis .
qed

lemma distinct_concat_map:
  assumes "distinct bs" "\<forall>b \<in> set bs. distinct (f b)"
    "\<forall>b \<in> set bs. \<forall>c \<in> set bs. b \<noteq> c \<longrightarrow> set (f b) \<inter> set (f c) = {}"
  shows "distinct (concat (map f bs))"
  using assms by (induction bs) auto

lemma set_elems_distinct:
  assumes "set_wf s"
  shows "distinct (set_elems s)"
  unfolding set_elems_def
proof (rule distinct_concat_map)
  have ok: "elems_ok s b (da_list (buckets s ! b))" if "b \<in> set (used_buckets s)" for b
    using that assms by (auto simp: set_wf_def bt_wf_def)
  then have in_b: "set_bucket_id s x = b" if "b \<in> set (used_buckets s)" "x \<in> set (da_list (buckets s ! b))" for b x
    using that by (auto simp: elems_ok_def)
  show "distinct (used_buckets s)"
    using assms by (simp add: set_wf_def bt_wf_def)
  show "\<forall>b \<in> set (used_buckets s). distinct (da_list (buckets s ! b))"
  proof
    fix b assume "b \<in> set (used_buckets s)"
    then show "distinct (da_list (buckets s ! b))"
      using ok [of b] set_wf_equals(1) [OF assms] by (simp add: elems_ok_def distinct_conv_nth) metis
  qed
  show "\<forall>b \<in> set (used_buckets s). \<forall>c \<in> set (used_buckets s). b \<noteq> c \<longrightarrow>
      set (da_list (buckets s ! b)) \<inter> set (da_list (buckets s ! c)) = {}"
    using in_b by (metis disjoint_iff)
qed

section \<open>Creation and removal\<close>

lemma set_init_ok:
  assumes "0 < n" "hash_respects h eq"
  shows "set_wf (set_init n h eq)" "set_elems (set_init n h eq) = []"
proof -
  show "set_elems (set_init n h eq) = []"
    by (simp add: set_elems_def used_buckets_def set_init_def)
  show "set_wf (set_init n h eq)"
    using assms by (simp add: set_wf_def set_init_def bt_wf_def used_buckets_def bt_count_def elems_ok_def
        sum_list_replicate)
qed

lemma set_remove_all_ok:
  assumes wf: "set_wf s"
  shows "\<exists>s'. set_remove_all c s = Some (s', if c then set_elems s else []) \<and> set_wf s' \<and>
           set_elems s' = [] \<and> hash s' = hash s \<and> equals s' = equals s"
proof -
  have bt: "bt_wf s" using wf by (simp add: set_wf_def)
  obtain t where t: "clear_buckets c s (take (filled_buckets_i s) (filled_buckets s)) =
        Some (t, if c then set_elems s else [])"
      "bt_wf (t\<lparr>filled_buckets_i := 0\<rparr>)" "bt_count t = 0"
      "\<forall>b < length (buckets s). da_list (buckets t ! b) = []"
      "btable.more t = btable.more s" "length (buckets t) = length (buckets s)"
    using bt_clear_ok [OF bt, of c] by (auto simp: set_elems_def)
  let ?t = "t\<lparr>filled_buckets_i := 0, set_size := 0\<rparr>"
  have f: "hash t = hash s" "equals t = equals s" "iterators t = iterators s"
    using t(5) by (metis hset.select_convs hset.ext_inject hset.surjective btable.select_convs(4))+
  have "bt_wf ?t" using t(2) bt_wf_fields [of ?t "t\<lparr>filled_buckets_i := 0\<rparr>"] by simp
  then have "set_wf ?t"
    using t(3,4,6) f wf by (simp add: set_wf_def bt_count_def elems_ok_def)
  moreover have "set_elems ?t = []"
    by (simp add: set_elems_def used_buckets_def)
  ultimately show ?thesis
    using t(1) f by (simp add: set_remove_all_def)
qed

lemma set_free_ok:
  assumes "set_wf s"
  shows "\<exists>fs. set_free c s = Some (s\<lparr>buckets := [], filled_buckets := [], set_size := 0\<rparr>, fs) \<and>
           set fs = (if c then set (set_elems s) else {})"
proof -
  have bt: "bt_wf s" using assms by (simp add: set_wf_def)
  then have "\<forall>b \<in> set (buckets s). da_wf bucket_init_size b"
    by (auto simp: bt_wf_def in_set_conv_nth)
  then show ?thesis
    using free_buckets_ok [of "buckets s" c] set_elems_buckets [OF bt]
    by (auto simp: set_free_def set_conv_nth [of "buckets s"])
qed

section \<open>Properties\<close>

text \<open>
  \<^verbatim>\<open>set_add\<close> on a well-formed set adds the element unless an equal one is present, counts it
  in \<^verbatim>\<open>size\<close>, keeps the set well-formed and the iterators untouched, and \<^verbatim>\<open>set_check\<close> then answers
  yes for exactly the old members and the values equal to the new one.
\<close>

theorem set_add_then_check:
  assumes "set_wf s"
  shows "\<exists>s'. set_add s x = Some s' \<and> set_wf s' \<and> iterators s' = iterators s \<and>
           set_size s' = set_size s + (if set_mem s x then 0 else 1) \<and>
           (\<forall>y. set_check s' y = Some (set_mem s y \<or> equals s x y))"
proof -
  obtain s' where s': "set_add s x = Some s'" "set_wf s'" "equals s' = equals s" "iterators s' = iterators s"
      "set (set_elems s') = (if set_mem s x then set (set_elems s) else insert x (set (set_elems s)))"
      "set_size s' = (if set_mem s x then set_size s else Suc (set_size s))"
    using set_add_ok [OF assms, of x] by blast
  have "set_mem s' y \<longleftrightarrow> set_mem s y \<or> equals s x y" for y
    using s'(3,5) set_wf_equals(4) [OF assms] by (auto simp: set_mem_def split: if_splits)
  with s' show ?thesis by (auto simp: set_check_mem)
qed

lemma hash_respects_id: "hash_respects id (=)"
  by (simp add: hash_respects_def identity_equivp)

theorem set_add_then_check_witness:
  "\<exists>s'. set_add (set_init 8 id (=)) (3 :: u64) = Some s' \<and> set_size s' = 1 \<and>
      set_check s' 3 = Some True \<and> set_check s' 11 = Some False"
proof -
  let ?s = "set_init 8 id (=) :: u64 hset"
  have "equals ?s = (=)" "set_size ?s = 0" by (simp_all add: set_init_def)
  moreover have "\<not> set_mem ?s y" for y
    using set_init_ok(2) [OF _ hash_respects_id, of 8] by (simp add: set_mem_def)
  ultimately show ?thesis
    using set_add_then_check [of ?s 3] set_init_ok(1) [OF _ hash_respects_id, of 8] by auto
qed

text \<open>
  Resetting an iterator and calling \<^verbatim>\<open>set_iter_next\<close> until it returns 0 ends after \<^verbatim>\<open>size\<close> + 1
  calls and visits every element of the set exactly once, without changing the set.
\<close>

theorem set_iteration_visits_once:
  assumes "set_wf s" "iid < num_iterators"
  shows "\<exists>s0 s' xs. set_reset_iter s iid = Some s0 \<and>
           drain (set_iter_next iid) (set_size s + 1) s0 = Some (s', xs) \<and>
           xs = set_elems s \<and> distinct xs \<and> length xs = set_size s \<and> set_wf s'"
proof -
  obtain s0 where s0: "set_reset_iter s iid = Some s0" "set_wf s0" "iter_rest iid s0 = set_elems s"
    using iter_rest_reset [OF assms] by blast
  have size: "length (set_elems s) = set_size s"
    using assms(1) bt_count_elems [of s] by (simp add: set_wf_def)
  have "\<exists>s'. drain (set_iter_next iid) (set_size s + 1) s0 = Some (s', iter_rest iid s0) \<and>
      (set_wf s' \<and> iid < num_iterators) \<and> iter_rest iid s' = []"
    by (rule set_iter.drain_ok) (use s0 size assms(2) in auto)
  with s0 show ?thesis
    using set_elems_distinct [OF assms(1)] size by auto
qed

theorem set_iteration_visits_once_witness:
  "\<exists>s s0 s' xs. set_add (set_init 8 id (=)) (3 :: u64) = Some s \<and> set_reset_iter s 0 = Some s0 \<and>
      drain (set_iter_next 0) 2 s0 = Some (s', xs) \<and> length xs = 1"
proof -
  obtain s where s: "set_add (set_init 8 id (=)) (3 :: u64) = Some s" "set_wf s" "set_size s = 1"
    using set_add_ok [OF set_init_ok(1) [OF _ hash_respects_id, of 8], of 3]
      set_init_ok(2) [OF _ hash_respects_id, of 8] by (auto simp: set_mem_def set_init_def)
  have "\<exists>s0 s' xs. set_reset_iter s 0 = Some s0 \<and> drain (set_iter_next 0) 2 s0 = Some (s', xs) \<and> length xs = 1"
    using set_iteration_visits_once [OF s(2), of 0] s(3) by (auto simp: numeral_2_eq_2)
  with s(1) show ?thesis by blast
qed

end
