(* ===== verification/Wrapped_Interval.thy ===== *)
theory Wrapped_Interval
  imports Iteration
begin

text \<open>
  \<^verbatim>\<open>solver/fuzzy-sat/lib/wrapped_interval.c\<close>: the intervals of \<^verbatim>\<open>size\<close>-bit values, possibly wrapping
  around, that the fuzzy solver infers from comparisons with constants. An operation that
  writes through its pointer returns the new interval; \<open>None\<close> is a call of \<^verbatim>\<open>abort\<close>.
\<close>

section \<open>Operations\<close>

type_synonym optype = int

abbreviation (input) "OP_ULT \<equiv> 0 :: optype"
abbreviation (input) "OP_SLT \<equiv> 1 :: optype"
abbreviation (input) "OP_ULE \<equiv> 2 :: optype"
abbreviation (input) "OP_SLE \<equiv> 3 :: optype"
abbreviation (input) "OP_UGT \<equiv> 4 :: optype"
abbreviation (input) "OP_SGT \<equiv> 5 :: optype"
abbreviation (input) "OP_UGE \<equiv> 6 :: optype"
abbreviation (input) "OP_SGE \<equiv> 7 :: optype"
abbreviation (input) "OP_EQ \<equiv> 8 :: optype"

record wrapped_interval_t =
  wmin :: u64
  wmax :: u64
  wsize :: nat

record wrapped_interval_iter_t =
  curr_i :: u64
  max_i :: u64
  min_v :: u64
  it_mask :: u64

definition is_signed_op :: "optype \<Rightarrow> bool" where
  "is_signed_op op \<longleftrightarrow> \<not> (op = OP_ULT \<or> op = OP_ULE \<or> op = OP_UGT \<or> op = OP_UGE)"

definition sext :: "u64 \<Rightarrow> nat \<Rightarrow> u64" where
  "sext c n = (if c AND push_bit (n - 1) 1 \<noteq> 0
               then c OR push_bit n (push_bit (64 - n - 1) 2 - 1) else c)"

text \<open>\<^verbatim>\<open>get_size_mask\<close> is \<open>size_mask\<close> of the prelude.\<close>

definition get_size_mask :: "nat \<Rightarrow> u64" where
  "get_size_mask n = 0 OR size_mask n"

definition get_signed_min :: "nat \<Rightarrow> u64" where
  "get_signed_min n = (if n < 2 then 0 else push_bit (n - 1) 1)"

definition get_signed_max :: "nat \<Rightarrow> u64" where
  "get_signed_max n = (if n < 2 then 0 else get_signed_min n - 1)"

definition is_wrapping :: "wrapped_interval_t \<Rightarrow> bool" where
  "is_wrapping i \<longleftrightarrow> wmin i > wmax i"

definition is_right_of :: "u64 \<Rightarrow> u64 \<Rightarrow> nat \<Rightarrow> bool" where
  "is_right_of v1 v2 n \<longleftrightarrow> ((v1 - v2) AND get_size_mask n) \<le> ((v2 - v1) AND get_size_mask n)"

definition is_left_of :: "u64 \<Rightarrow> u64 \<Rightarrow> nat \<Rightarrow> bool" where
  "is_left_of v1 v2 n \<longleftrightarrow> \<not> is_right_of v1 v2 n"

text \<open>The last line compares with \<^verbatim>\<open>_min(int2->max, int2->max)\<close>, as the source has it.\<close>

definition wi_check_intersect :: "wrapped_interval_t \<Rightarrow> wrapped_interval_t \<Rightarrow> bool" where
  "wi_check_intersect i1 i2 \<longleftrightarrow>
     (if is_wrapping i1 \<and> is_wrapping i2 then True
      else if \<not> is_wrapping i1 \<and> is_wrapping i2 then wmin i1 \<le> wmax i2 \<or> wmax i1 \<ge> wmin i2
      else if is_wrapping i1 \<and> \<not> is_wrapping i2 then wmin i2 \<le> wmax i1 \<or> wmax i2 \<ge> wmin i1
      else max (wmin i1) (wmin i2) \<le> min (wmax i2) (wmax i2))"

definition wi_contains_element :: "wrapped_interval_t \<Rightarrow> u64 \<Rightarrow> bool" where
  "wi_contains_element i v \<longleftrightarrow>
     (if is_wrapping i
      then (wmin i \<le> v \<and> v \<le> get_size_mask (wsize i)) \<or> (0 \<le> v \<and> v \<le> wmax i)
      else wmin i \<le> v \<and> v \<le> wmax i)"

definition wi_get_range :: "wrapped_interval_t \<Rightarrow> u64" where
  "wi_get_range i =
     (let m = get_size_mask (wsize i); range = (wmax i AND m) - (wmin i AND m) in range AND m)"

definition wi_intersect :: "wrapped_interval_t \<Rightarrow> wrapped_interval_t \<Rightarrow> bool \<times> wrapped_interval_t" where
  "wi_intersect i1 i2 =
     (if \<not> wi_check_intersect i1 i2 then (False, i1)
      else if \<not> is_wrapping i1 \<and> \<not> is_wrapping i2 then
        (True, i1\<lparr>wmin := max (wmin i1) (wmin i2), wmax := min (wmax i1) (wmax i2)\<rparr>)
      else if wi_contains_element i2 (wmax i1) \<and> \<not> wi_contains_element i2 (wmin i1) then
        (True, i1\<lparr>wmin := wmin i2\<rparr>)
      else if wi_contains_element i2 (wmin i1) \<and> \<not> wi_contains_element i2 (wmax i1) then
        (True, i1\<lparr>wmax := wmax i2\<rparr>)
      else if wi_get_range i2 < wi_get_range i1 then
        (True, i1\<lparr>wmin := wmin i2, wmax := wmax i2\<rparr>)
      else (True, i1))"

definition wi_init :: "nat \<Rightarrow> wrapped_interval_t option" where
  "wi_init n = (if n \<le> 64 then Some \<lparr>wmin = 0, wmax = get_size_mask n, wsize = n\<rparr> else None)"

text \<open>The strict comparisons fall through to the non-strict ones with the constant moved by one.\<close>

definition wi_update_cmp :: "wrapped_interval_t \<Rightarrow> u64 \<Rightarrow> optype \<Rightarrow> (bool \<times> wrapped_interval_t) option" where
  "wi_update_cmp src c0 op =
     (let c = c0 AND get_size_mask (wsize src);
          cint = (\<lambda>lo hi. \<lparr>wmin = lo, wmax = hi, wsize = wsize src\<rparr>) in
      if op = OP_ULT \<or> op = OP_ULE then
        (let c = (if op = OP_ULT then c - 1 else c) in Some (wi_intersect src (cint 0 c)))
      else if op = OP_SLT \<or> op = OP_SLE then
        (let c = (if op = OP_SLT then c - 1 else c) in
         Some (wi_intersect src (cint (max (get_signed_min (wsize src)) (wmin src)) c)))
      else if op = OP_UGT \<or> op = OP_UGE then
        (let c = (if op = OP_UGT then c + 1 else c) in
         Some (wi_intersect src (cint c (min (get_size_mask (wsize src)) (wmax src)))))
      else if op = OP_SGT \<or> op = OP_SGE then
        (let c = (if op = OP_SGT then c + 1 else c) in
         Some (wi_intersect src (cint c (min (get_signed_max (wsize src)) (wmax src)))))
      else if op = OP_EQ then
        (if \<not> wi_contains_element src c then Some (False, src)
         else Some (True, src\<lparr>wmin := c, wmax := c\<rparr>))
      else None)"

definition wi_update_add :: "wrapped_interval_t \<Rightarrow> u64 \<Rightarrow> wrapped_interval_t" where
  "wi_update_add src c =
     src\<lparr>wmin := (wmin src + c) AND get_size_mask (wsize src),
         wmax := (wmax src + c) AND get_size_mask (wsize src)\<rparr>"

definition wi_update_sub :: "wrapped_interval_t \<Rightarrow> u64 \<Rightarrow> wrapped_interval_t" where
  "wi_update_sub src c =
     src\<lparr>wmin := (wmin src - c) AND get_size_mask (wsize src),
         wmax := (wmax src - c) AND get_size_mask (wsize src)\<rparr>"

text \<open>The exchange of the two ends with three exclusive ors.\<close>

definition wi_update_invert :: "wrapped_interval_t \<Rightarrow> wrapped_interval_t" where
  "wi_update_invert src =
     (let lo = (- wmin src) AND get_size_mask (wsize src);
          hi = (- wmax src) AND get_size_mask (wsize src) in
      if hi < lo then
        (let lo' = lo XOR hi; hi' = hi XOR lo'; lo'' = lo' XOR hi' in
         src\<lparr>wmin := lo'', wmax := hi'\<rparr>)
      else src\<lparr>wmin := lo, wmax := hi\<rparr>)"

definition wi_modify_size :: "wrapped_interval_t \<Rightarrow> nat \<Rightarrow> wrapped_interval_t" where
  "wi_modify_size src new_size =
     (let src' = (if new_size < wsize src
                  then snd (wi_intersect src
                         \<lparr>wmin = 0, wmax = get_size_mask new_size, wsize = wsize src\<rparr>)
                  else src) in
      src'\<lparr>wsize := new_size\<rparr>)"

definition wi_init_iter_values :: "wrapped_interval_t \<Rightarrow> wrapped_interval_iter_t" where
  "wi_init_iter_values i =
     \<lparr>curr_i = 0, max_i = wi_get_range i, min_v = wmin i, it_mask = get_size_mask (wsize i)\<rparr>"

definition wi_iter_get_next :: "wrapped_interval_iter_t \<Rightarrow> wrapped_interval_iter_t \<times> u64 option" where
  "wi_iter_get_next it =
     (if curr_i it > max_i it then (it, None)
      else (it\<lparr>curr_i := curr_i it + 1\<rparr>, Some ((min_v it + curr_i it) AND it_mask it)))"

definition op_to_string :: "optype \<Rightarrow> string option" where
  "op_to_string op =
     (if op = OP_UGT then Some ''OP_UGT'' else if op = OP_UGE then Some ''OP_UGE''
      else if op = OP_SGT then Some ''OP_SGT'' else if op = OP_SGE then Some ''OP_SGE''
      else if op = OP_ULT then Some ''OP_ULT'' else if op = OP_ULE then Some ''OP_ULE''
      else if op = OP_SLT then Some ''OP_SLT'' else if op = OP_SLE then Some ''OP_SLE''
      else None)"

section \<open>The values of an interval\<close>

definition wi_values :: "wrapped_interval_t \<Rightarrow> u64 set" where
  "wi_values i = {v. v \<le> get_size_mask (wsize i) \<and> wi_contains_element i v}"

definition wi_wf :: "wrapped_interval_t \<Rightarrow> bool" where
  "wi_wf i \<longleftrightarrow> 0 < wsize i \<and> wsize i \<le> 64 \<and>
     wmin i \<le> get_size_mask (wsize i) \<and> wmax i \<le> get_size_mask (wsize i)"

lemma get_size_mask_eq [mask_simps]: "get_size_mask n = size_mask n"
  by (simp add: get_size_mask_def)

lemma contains_uint:
  "wi_contains_element i v \<longleftrightarrow>
     (if uint (wmax i) < uint (wmin i)
      then uint (wmin i) \<le> uint v \<and> uint v \<le> uint (get_size_mask (wsize i)) \<or> uint v \<le> uint (wmax i)
      else uint (wmin i) \<le> uint v \<and> uint v \<le> uint (wmax i))"
  by (simp add: wi_contains_element_def is_wrapping_def word_le_def word_less_def)

text \<open>
  The intersection keeps every common value, and returns 0 only when there is none. No
  well-formedness of the second interval is needed: the comparisons pass in ends outside
  the width.
\<close>

lemma wi_intersect_keeps:
  assumes "wi_wf i1" "wsize i2 = wsize i1" "v \<in> wi_values i1" "v \<in> wi_values i2"
  shows "fst (wi_intersect i1 i2)" "v \<in> wi_values (snd (wi_intersect i1 i2))"
proof -
  show "fst (wi_intersect i1 i2)"
    using assms
    by (auto simp: wi_intersect_def wi_check_intersect_def is_wrapping_def wi_values_def
        wi_contains_element_def min_def max_def split: if_splits)
  show "v \<in> wi_values (snd (wi_intersect i1 i2))"
    using assms
    by (auto simp: wi_intersect_def wi_check_intersect_def is_wrapping_def wi_values_def
        wi_contains_element_def wi_wf_def min_def max_def split: if_splits)
qed

text \<open>The result lies within one of the two intervals when they have a common value.\<close>

lemma wi_overlap_within:
  assumes "wi_wf i1" "wi_wf i2" "wsize i2 = wsize i1" "is_wrapping i1 \<or> is_wrapping i2"
  shows "wi_contains_element i2 (wmax i1) \<Longrightarrow> \<not> wi_contains_element i2 (wmin i1) \<Longrightarrow>
           w \<in> wi_values (i1\<lparr>wmin := wmin i2\<rparr>) \<Longrightarrow> w \<in> wi_values i1"
    and "wi_contains_element i2 (wmin i1) \<Longrightarrow> \<not> wi_contains_element i2 (wmax i1) \<Longrightarrow>
           w \<in> wi_values (i1\<lparr>wmax := wmax i2\<rparr>) \<Longrightarrow> w \<in> wi_values i1"
  using assms
  by (auto simp: is_wrapping_def wi_values_def wi_contains_element_def wi_wf_def split: if_splits)

lemma wi_values_ends:
  "wsize i2 = wsize i1 \<Longrightarrow> wi_values (i1\<lparr>wmin := wmin i2, wmax := wmax i2\<rparr>) = wi_values i2"
  by (simp add: wi_values_def wi_contains_element_def is_wrapping_def)

lemma wi_intersect_within:
  assumes wf: "wi_wf i1" "wi_wf i2" "wsize i2 = wsize i1" and v: "v \<in> wi_values i1" "v \<in> wi_values i2"
  shows "wi_values (snd (wi_intersect i1 i2)) \<subseteq> wi_values i1 \<or>
         wi_values (snd (wi_intersect i1 i2)) \<subseteq> wi_values i2"
proof (cases "is_wrapping i1 \<or> is_wrapping i2")
  case True
  note ov = wi_overlap_within [OF wf True]
  show ?thesis
    unfolding wi_intersect_def using ov True
    by (auto simp: wi_values_ends [OF wf(3)])
next
  case False
  then have "max (wmin i1) (wmin i2) \<le> v" "v \<le> min (wmax i1) (wmax i2)"
    using v by (auto simp: is_wrapping_def wi_values_def wi_contains_element_def)
  then have "\<not> min (wmax i1) (wmax i2) < max (wmin i1) (wmin i2)" by (meson leD le_less_trans)
  with False show ?thesis
    by (auto simp: wi_intersect_def is_wrapping_def wi_values_def wi_contains_element_def)
qed

lemma wi_intersect_wf:
  assumes "wi_wf i1" "wi_wf i2" "wsize i2 = wsize i1"
  shows "wi_wf (snd (wi_intersect i1 i2))" "wsize (snd (wi_intersect i1 i2)) = wsize i1"
  using assms by (auto simp: wi_intersect_def wi_wf_def min_def max_def)

section \<open>Modular reading\<close>

text \<open>With the width \<open>n\<close>, membership is a bound on the distance from the lower end modulo \<open>2 ^ n\<close>.\<close>

lemma uint_le_mask:
  assumes "0 < n" "n \<le> 64"
  shows "v \<le> get_size_mask n \<longleftrightarrow> uint v < 2 ^ n"
  using assms by (auto simp: word_le_def get_size_mask_eq uint_size_mask)

lemma wi_wf_bounds:
  assumes "wi_wf i"
  shows "uint (wmin i) < 2 ^ wsize i" "uint (wmax i) < 2 ^ wsize i" "(0 :: int) < 2 ^ wsize i"
    "uint (get_size_mask (wsize i)) = 2 ^ wsize i - 1"
proof -
  have n: "0 < wsize i" "wsize i \<le> 64" and b: "wmin i \<le> get_size_mask (wsize i)" "wmax i \<le> get_size_mask (wsize i)"
    using assms by (simp_all add: wi_wf_def)
  show "uint (wmin i) < 2 ^ wsize i" "uint (wmax i) < 2 ^ wsize i" "(0 :: int) < 2 ^ wsize i"
    using b uint_le_mask [OF n] by simp_all
  show "uint (get_size_mask (wsize i)) = 2 ^ wsize i - 1"
    using n by (simp add: get_size_mask_eq uint_size_mask)
qed

lemma mod_diff_cases:
  fixes a b N :: int
  assumes "0 \<le> a" "a < N" "0 \<le> b" "b < N"
  shows "(a - b) mod N = (if b \<le> a then a - b else a - b + N)"
proof (cases "b \<le> a")
  case False
  have "(a - b) mod N = (a - b + N) mod N" by simp
  also have "\<dots> = a - b + N" using False assms by (intro mod_pos_pos_trivial) auto
  finally show ?thesis using False by simp
qed (use assms in auto)

lemma wrap_dist:
  fixes a l h N :: int
  assumes "0 \<le> a" "a < N" "0 \<le> l" "l < N" "0 \<le> h" "h < N"
  shows "(if h < l then l \<le> a \<and> a \<le> N - 1 \<or> a \<le> h else l \<le> a \<and> a \<le> h) \<longleftrightarrow>
     (a - l) mod N \<le> (h - l) mod N"
  using assms by (simp add: mod_diff_cases)

lemma contains_mod:
  assumes "wi_wf i" "uint v < 2 ^ wsize i"
  shows "wi_contains_element i v \<longleftrightarrow>
     (uint v - uint (wmin i)) mod 2 ^ wsize i \<le> (uint (wmax i) - uint (wmin i)) mod 2 ^ wsize i"
  unfolding contains_uint wi_wf_bounds(4) [OF assms(1)]
  by (rule wrap_dist) (use wi_wf_bounds [OF assms(1)] assms(2) in simp_all)

lemma uint_range:
  assumes "wi_wf i"
  shows "uint (wi_get_range i) = (uint (wmax i) - uint (wmin i)) mod 2 ^ wsize i"
proof -
  have n: "0 < wsize i" "wsize i \<le> 64" using assms by (simp_all add: wi_wf_def)
  then have "uint (wi_get_range i) =
      (uint (wmax i) mod 2 ^ wsize i - uint (wmin i) mod 2 ^ wsize i) mod 2 ^ 64 mod 2 ^ wsize i"
    by (simp add: wi_get_range_def Let_def get_size_mask_eq uint_and_size_mask uint_word_ariths)
  then show ?thesis
    using uint_mod_mod_size [OF n(2)] by (simp add: mod_diff_eq)
qed

text \<open>The values of a well-formed interval, by distance from the lower end.\<close>

lemma wi_values_mod:
  assumes "wi_wf i"
  shows "v \<in> wi_values i \<longleftrightarrow> uint v < 2 ^ wsize i \<and>
     (uint v - uint (wmin i)) mod 2 ^ wsize i \<le> (uint (wmax i) - uint (wmin i)) mod 2 ^ wsize i"
proof -
  have n: "0 < wsize i" "wsize i \<le> 64" using assms by (simp_all add: wi_wf_def)
  show ?thesis
    using contains_mod [OF assms] by (auto simp: wi_values_def uint_le_mask [OF n])
qed

lemma uint_add_mask:
  assumes "0 < n" "n \<le> 64"
  shows "uint ((v + c) AND get_size_mask n) = (uint v + uint c) mod 2 ^ n"
    "uint ((v - c) AND get_size_mask n) = (uint v - uint c) mod 2 ^ n"
    "uint ((- v) AND get_size_mask n) = (- uint v) mod 2 ^ n"
  using assms uint_mod_mod_size [OF assms(2)]
  by (simp_all add: get_size_mask_eq uint_and_size_mask uint_word_ariths)

section \<open>Shifting\<close>

lemma wi_update_add_wf: "wi_wf i \<Longrightarrow> wi_wf (wi_update_add i c)"
  by (auto simp: wi_wf_def wi_update_add_def uint_le_mask uint_add_mask)

lemma mod_diff_cancel: "((a + c) mod N - (b + c) mod N) mod N = (a - b) mod (N :: int)"
  by (simp add: mod_diff_eq)

lemma wi_update_sub_add: "wi_update_sub i c = wi_update_add i (- c)"
  by (simp add: wi_update_sub_def wi_update_add_def)

lemma wi_values_add:
  assumes "wi_wf i"
  shows "wi_values (wi_update_add i c) = (\<lambda>v. (v + c) AND get_size_mask (wsize i)) ` wi_values i"
proof -
  let ?m = "get_size_mask (wsize i)"
  have n: "0 < wsize i" "wsize i \<le> 64" using assms by (simp_all add: wi_wf_def)
  note mem = wi_values_mod [OF assms] wi_values_mod [OF wi_update_add_wf [OF assms, of c]]
  have shift: "(v + c) AND ?m \<in> wi_values (wi_update_add i c) \<longleftrightarrow> v \<in> wi_values i"
    if "uint v < 2 ^ wsize i" for v
    using that n unfolding mem by (simp add: wi_update_add_def uint_add_mask mod_diff_cancel)
  have inv: "((((w - c) AND ?m) + c) AND ?m) = w" if "uint w < 2 ^ wsize i" for w
    using that n by (intro word_uint_eqI) (simp add: uint_add_mask mod_simps)
  have lt: "uint ((w - c) AND ?m) < 2 ^ wsize i" for w
    using n by (simp add: uint_add_mask)
  show ?thesis
  proof (intro set_eqI iffI)
    fix w assume w: "w \<in> wi_values (wi_update_add i c)"
    then have "uint w < 2 ^ wsize i" unfolding mem(2) by (simp add: wi_update_add_def)
    then have "(w - c) AND ?m \<in> wi_values i"
      using w shift [OF lt, of w] inv by simp
    then show "w \<in> (\<lambda>v. (v + c) AND ?m) ` wi_values i"
      by (rule image_eqI [rotated]) (rule inv [OF \<open>uint w < 2 ^ wsize i\<close>, symmetric])
  next
    fix w assume "w \<in> (\<lambda>v. (v + c) AND ?m) ` wi_values i"
    then show "w \<in> wi_values (wi_update_add i c)"
      using shift by (auto simp: mem(1))
  qed
qed

section \<open>Iteration\<close>

definition wi_iter_ok :: "wrapped_interval_iter_t \<Rightarrow> bool" where
  "wi_iter_ok it \<longleftrightarrow> max_i it < - 1 \<and> curr_i it \<le> max_i it + 1"

definition wi_iter_rest :: "wrapped_interval_iter_t \<Rightarrow> u64 list" where
  "wi_iter_rest it = map (\<lambda>k. (min_v it + word_of_nat k) AND it_mask it) [unat (curr_i it)..<Suc (unat (max_i it))]"

lemma unat_succ_less: "x < - 1 \<Longrightarrow> unat (x + 1) = Suc (unat (x :: u64))"
  using unatSuc [of x] by (metis add.commute add_eq_0_iff order_less_irrefl)

interpretation wi_iter: iterator wi_iter_ok wi_iter_rest "\<lambda>it. Some (wi_iter_get_next it)"
proof unfold_locales
  fix it assume ok: "wi_iter_ok it" and "wi_iter_rest it = []"
  then have "max_i it < curr_i it"
    by (simp add: wi_iter_rest_def word_less_nat_alt split: if_splits)
  with ok show "\<exists>s'. Some (wi_iter_get_next it) = Some (s', None) \<and> wi_iter_ok s' \<and> wi_iter_rest s' = []"
    by (simp add: wi_iter_get_next_def wi_iter_rest_def word_less_nat_alt)
next
  fix it x xs assume ok: "wi_iter_ok it" and r: "wi_iter_rest it = x # xs"
  then have le: "curr_i it \<le> max_i it"
    by (auto simp: wi_iter_rest_def word_le_nat_alt split: if_splits)
  then have lt: "curr_i it < - 1" using ok by (auto simp: wi_iter_ok_def)
  have "wi_iter_rest it = ((min_v it + curr_i it) AND it_mask it) #
      wi_iter_rest (it\<lparr>curr_i := curr_i it + 1\<rparr>)"
    using le unat_succ_less [OF lt] by (simp add: wi_iter_rest_def word_le_nat_alt upt_conv_Cons del: upt_Suc)
  moreover have "wi_iter_ok (it\<lparr>curr_i := curr_i it + 1\<rparr>)"
    using ok le unat_succ_less [OF lt] unat_succ_less [of "max_i it"]
    by (simp add: wi_iter_ok_def word_le_nat_alt)
  ultimately show "\<exists>s'. Some (wi_iter_get_next it) = Some (s', Some x) \<and> wi_iter_ok s' \<and> wi_iter_rest s' = xs"
    using le r by (simp add: wi_iter_get_next_def)
qed

lemma unat_range_take:
  "wi_wf i \<Longrightarrow> k \<le> unat (wi_get_range i) \<Longrightarrow> int k < 2 ^ wsize i"
  using uint_range [of i] wi_wf_bounds(3) [of i]
  by (metis int_nat_eq le_less_trans nat_int of_nat_le_iff pos_mod_bound uint_nat unsigned_greater_eq)

lemma uint_iter_elem:
  assumes "wi_wf i" "k \<le> unat (wi_get_range i)"
  shows "uint ((wmin i + word_of_nat k) AND get_size_mask (wsize i)) = (uint (wmin i) + int k) mod 2 ^ wsize i"
proof -
  have n: "0 < wsize i" "wsize i \<le> 64" using assms by (simp_all add: wi_wf_def)
  have "int k < 2 ^ 64"
    by (rule less_le_trans [OF unat_range_take [OF assms] power_increasing [OF n(2)]]) simp
  then have "k < 2 ^ 64" by simp
  then have "uint (word_of_nat k :: u64) = int k"
    by (simp add: unsigned_of_nat take_bit_nat_eq_self)
  then show ?thesis
    by (simp add: uint_add_mask [OF n])
qed

text \<open>The iterator started on an interval visits each of its values exactly once.\<close>

lemma wi_iter_rest_values:
  assumes "wi_wf i"
  shows "set (wi_iter_rest (wi_init_iter_values i)) = wi_values i"
    "distinct (wi_iter_rest (wi_init_iter_values i))"
    "length (wi_iter_rest (wi_init_iter_values i)) = Suc (unat (wi_get_range i))"
proof -
  let ?N = "2 ^ wsize i :: int" and ?r = "unat (wi_get_range i)"
  let ?f = "\<lambda>k. (wmin i + word_of_nat k) AND get_size_mask (wsize i)"
  have n: "0 < wsize i" "wsize i \<le> 64" using assms by (simp_all add: wi_wf_def)
  have r: "int ?r = (uint (wmax i) - uint (wmin i)) mod ?N"
    using uint_range [OF assms] by simp
  have f: "uint (?f k) = (uint (wmin i) + int k) mod ?N" if "k \<le> ?r" for k
    using uint_iter_elem [OF assms that] .
  show len: "length (wi_iter_rest (wi_init_iter_values i)) = Suc ?r"
    by (simp add: wi_iter_rest_def wi_init_iter_values_def del: upt_Suc)
  have rest: "wi_iter_rest (wi_init_iter_values i) = map ?f [0..<Suc ?r]"
    by (simp add: wi_iter_rest_def wi_init_iter_values_def del: upt_Suc)
  have dist: "(uint (?f k) - uint (wmin i)) mod ?N = int k" if "k \<le> ?r" for k
    using f [OF that] unat_range_take [OF assms that] by (simp add: mod_diff_left_eq)
  then have "inj_on ?f {0..<Suc ?r}"
    by (intro inj_onI) (metis atLeastLessThan_iff less_Suc_eq_le of_nat_eq_iff)
  then show "distinct (wi_iter_rest (wi_init_iter_values i))"
    unfolding rest by (simp only: distinct_map set_upt distinct_upt)
  show "set (wi_iter_rest (wi_init_iter_values i)) = wi_values i"
  proof (intro set_eqI iffI)
    fix v assume "v \<in> set (wi_iter_rest (wi_init_iter_values i))"
    then obtain k where k: "k \<le> ?r" "v = ?f k" by (auto simp: rest less_Suc_eq_le simp del: upt_Suc)
    have "int k \<le> (uint (wmax i) - uint (wmin i)) mod ?N"
      using k(1) r by linarith
    with k show "v \<in> wi_values i"
      using dist [OF k(1)] f [OF k(1)] wi_wf_bounds(3) [OF assms] by (simp add: wi_values_mod [OF assms])
  next
    fix v assume "v \<in> wi_values i"
    then have v: "uint v < ?N" "(uint v - uint (wmin i)) mod ?N \<le> int ?r"
      by (simp_all add: wi_values_mod [OF assms] uint_range [OF assms])
    let ?k = "nat ((uint v - uint (wmin i)) mod ?N)"
    have "?k \<le> ?r" using v(2) by linarith
    moreover have "?f ?k = v"
      unfolding word_uint_eq_iff using f [OF \<open>?k \<le> ?r\<close>] v(1) wi_wf_bounds(3) [OF assms] by (simp add: mod_add_right_eq)
    ultimately show "v \<in> set (wi_iter_rest (wi_init_iter_values i))"
      unfolding rest set_map set_upt by (intro image_eqI [of _ _ ?k]) simp_all
  qed
qed

section \<open>Comparisons with a constant\<close>

text \<open>The two's complement reading of an \<open>n\<close>-bit value and what each comparison asks of \<open>x\<close>.\<close>

definition sval :: "nat \<Rightarrow> u64 \<Rightarrow> int" where
  "sval n v = (if uint v < 2 ^ (n - 1) then uint v else uint v - 2 ^ n)"

definition cmp_holds :: "nat \<Rightarrow> optype \<Rightarrow> u64 \<Rightarrow> u64 \<Rightarrow> bool" where
  "cmp_holds n op c x \<longleftrightarrow>
     (if op = OP_ULT then uint x < uint c else if op = OP_ULE then uint x \<le> uint c
      else if op = OP_UGT then uint x > uint c else if op = OP_UGE then uint x \<ge> uint c
      else if op = OP_SLT then sval n x < sval n c else if op = OP_SLE then sval n x \<le> sval n c
      else if op = OP_SGT then sval n x > sval n c else if op = OP_SGE then sval n x \<ge> sval n c
      else x = c)"

lemma uint_pred: "uint (c - 1 :: u64) = (if uint c = 0 then 2 ^ 64 - 1 else uint c - 1)"
proof (cases "uint c = 0")
  case True
  then show ?thesis by (simp add: uint_word_ariths)
next
  case False
  then have "0 \<le> uint c - 1" using uint_nonnegative [of c] by linarith
  moreover have "uint c - 1 < 2 ^ 64" using uint_u64_lt [of c] by linarith
  ultimately show ?thesis using False by (simp add: uint_word_ariths)
qed

lemma signed_ends_bounds:
  fixes v H :: int
  assumes "0 \<le> v" "v < 2 * H"
  shows "- H \<le> (if v < H then v else v - 2 * H)" "(if v < H then v else v - 2 * H) < H"
  using assms by auto

lemma uint_succ: "uint (c + 1 :: u64) = (if uint c = 2 ^ 64 - 1 then 0 else uint c + 1)"
  using uint_u64_lt [of c] by (simp add: uint_word_ariths)

lemma uint_max_min: "uint (max a b) = max (uint a) (uint b)" "uint (min a b) = min (uint a) (uint b)"
  by (simp_all add: max_def min_def word_le_def)

lemma uint_signed_ends:
  assumes "2 \<le> n" "n \<le> 64"
  shows "uint (get_signed_min n) = 2 ^ (n - 1)" "uint (get_signed_max n) = 2 ^ (n - 1) - 1"
proof -
  have "(2 :: int) ^ (n - 1) < 2 ^ 64" using assms by (intro power_strict_increasing) auto
  then have "uint (word_of_int (2 ^ (n - 1)) :: u64) = 2 ^ (n - 1)"
    using assms by (subst unsigned_of_int) (simp add: take_bit_int_eq_self)
  then show m: "uint (get_signed_min n) = 2 ^ (n - 1)"
    using assms by (simp add: get_signed_min_def)
  have "(2 :: int) ^ (n - 1) \<noteq> 0" by simp
  then show "uint (get_signed_max n) = 2 ^ (n - 1) - 1"
    using assms uint_pred [of "get_signed_min n"] m by (simp add: get_signed_max_def)
qed

text \<open>
  The interval each comparison intersects with holds every value of a non-wrapping source
  that satisfies the comparison.
\<close>

lemma cmp_interval_keeps:
  fixes C N H lo hi x :: int
  assumes "N = 2 * H" "0 < H" "0 \<le> x" "x < N" "0 \<le> C" "C < N" "N \<le> 2 ^ 64"
    "0 \<le> lo" "lo \<le> x" "x \<le> hi" "hi < N"
  defines "inside \<equiv> \<lambda>l u. if u < l then l \<le> x \<and> x \<le> N - 1 \<or> x \<le> u else l \<le> x \<and> x \<le> u"
  defines "sg \<equiv> \<lambda>v. if v < H then v else v - N"
  shows "sg x \<le> sg C \<Longrightarrow> inside (max H lo) C"
    "sg x < sg C \<Longrightarrow> inside (max H lo) (if C = 0 then 2 ^ 64 - 1 else C - 1)"
    "sg C \<le> sg x \<Longrightarrow> inside C (min (H - 1) hi)"
    "sg C < sg x \<Longrightarrow> inside (if C = 2 ^ 64 - 1 then 0 else C + 1) (min (H - 1) hi)"
  using assms(1-11) unfolding inside_def sg_def by (auto split: if_splits)

text \<open>The interval a comparison other than equality intersects with.\<close>

definition cmp_interval :: "wrapped_interval_t \<Rightarrow> u64 \<Rightarrow> optype \<Rightarrow> wrapped_interval_t" where
  "cmp_interval src c op =
     (if op = OP_ULT then \<lparr>wmin = 0, wmax = c - 1, wsize = wsize src\<rparr>
      else if op = OP_ULE then \<lparr>wmin = 0, wmax = c, wsize = wsize src\<rparr>
      else if op = OP_SLT then \<lparr>wmin = max (get_signed_min (wsize src)) (wmin src), wmax = c - 1, wsize = wsize src\<rparr>
      else if op = OP_SLE then \<lparr>wmin = max (get_signed_min (wsize src)) (wmin src), wmax = c, wsize = wsize src\<rparr>
      else if op = OP_UGT then \<lparr>wmin = c + 1, wmax = min (get_size_mask (wsize src)) (wmax src), wsize = wsize src\<rparr>
      else if op = OP_UGE then \<lparr>wmin = c, wmax = min (get_size_mask (wsize src)) (wmax src), wsize = wsize src\<rparr>
      else if op = OP_SGT then \<lparr>wmin = c + 1, wmax = min (get_signed_max (wsize src)) (wmax src), wsize = wsize src\<rparr>
      else \<lparr>wmin = c, wmax = min (get_signed_max (wsize src)) (wmax src), wsize = wsize src\<rparr>)"

lemma wi_update_cmp_interval:
  assumes "0 \<le> op" "op < 8"
  shows "wi_update_cmp src c op = Some (wi_intersect src (cmp_interval src (c AND get_size_mask (wsize src)) op))"
proof -
  have "op \<in> {0, 1, 2, 3, 4, 5, 6, 7}" using assms by auto
  then show ?thesis by (auto simp: wi_update_cmp_def cmp_interval_def Let_def)
qed

lemma wi_values_uint:
  assumes "0 < wsize i" "wsize i \<le> 64"
  shows "x \<in> wi_values i \<longleftrightarrow> uint x < 2 ^ wsize i \<and>
      (if uint (wmax i) < uint (wmin i)
       then uint (wmin i) \<le> uint x \<and> uint x \<le> 2 ^ wsize i - 1 \<or> uint x \<le> uint (wmax i)
       else uint (wmin i) \<le> uint x \<and> uint x \<le> uint (wmax i))"
proof -
  have "uint (get_size_mask (wsize i)) = 2 ^ wsize i - 1"
    using assms by (simp add: get_size_mask_eq uint_size_mask)
  then show ?thesis
    unfolding wi_values_def contains_uint mem_Collect_eq uint_le_mask [OF assms] by simp
qed

lemma cmp_interval_mem:
  assumes wf: "wi_wf src" "2 \<le> wsize src" "\<not> is_wrapping src" and x: "x \<in> wi_values src"
    and c: "uint c < 2 ^ wsize src" and op: "0 \<le> op" "op < 8" and sat: "cmp_holds (wsize src) op c x"
  shows "x \<in> wi_values (cmp_interval src c op)"
proof -
  let ?n = "wsize src"
  have n: "0 < ?n" "?n \<le> 64" "2 \<le> ?n" using wf by (simp_all add: wi_wf_def)
  have N: "(2 :: int) ^ ?n = 2 * 2 ^ (?n - 1)" using n by (simp flip: power_Suc)
  have N64: "(2 :: int) ^ ?n \<le> 2 ^ 64" using n by (intro power_increasing) auto
  have b: "uint (wmin src) \<le> uint x" "uint x \<le> uint (wmax src)" "uint x < 2 ^ ?n"
    using x wf(3) unfolding wi_values_uint [OF n(1,2)] by (auto simp: is_wrapping_def word_less_def)
  note bs = wi_wf_bounds [OF wf(1)]
  note ints = cmp_interval_keeps [OF N _ _ b(3) _ c N64 _ b(1,2) bs(2), simplified]
  note ends = uint_signed_ends [OF n(3,2)] bs(4) uint_pred uint_succ uint_max_min
  have mem: "x \<in> wi_values \<lparr>wmin = l, wmax = u, wsize = ?n\<rparr> \<longleftrightarrow>
      (if uint u < uint l then uint l \<le> uint x \<and> uint x \<le> 2 ^ ?n - 1 \<or> uint x \<le> uint u
       else uint l \<le> uint x \<and> uint x \<le> uint u)" for l u
    using wi_values_uint [of "\<lparr>wmin = l, wmax = u, wsize = ?n\<rparr>"] n b(3) by simp
  have "op \<in> {0, 1, 2, 3, 4, 5, 6, 7}" using op by auto
  then consider "op = OP_ULT" | "op = OP_ULE" | "op = OP_UGT" | "op = OP_UGE"
    | "op = OP_SLT" | "op = OP_SLE" | "op = OP_SGT" | "op = OP_SGE" by auto
  then show ?thesis
  proof cases
    case 1 then show ?thesis using sat b by (simp add: cmp_interval_def cmp_holds_def mem ends)
  next
    case 2 then show ?thesis using sat b by (simp add: cmp_interval_def cmp_holds_def mem ends)
  next
    case 3 then show ?thesis using sat b bs N64 by (simp add: cmp_interval_def cmp_holds_def mem ends)
  next
    case 4 then show ?thesis using sat b bs by (simp add: cmp_interval_def cmp_holds_def mem ends)
  next
    case 5 then show ?thesis using sat ints(2) by (simp add: cmp_interval_def cmp_holds_def mem ends sval_def split del: if_split cong: if_cong)
  next
    case 6 then show ?thesis using sat ints(1) by (simp add: cmp_interval_def cmp_holds_def mem ends sval_def split del: if_split cong: if_cong)
  next
    case 7 then show ?thesis using sat ints(4) by (simp add: cmp_interval_def cmp_holds_def mem ends sval_def split del: if_split cong: if_cong)
  next
    case 8 then show ?thesis using sat ints(3) by (simp add: cmp_interval_def cmp_holds_def mem ends sval_def split del: if_split cong: if_cong)
  qed
qed

lemma wi_update_cmp_keeps:
  assumes wf: "wi_wf src" "2 \<le> wsize src" "\<not> is_wrapping src" and x: "x \<in> wi_values src"
    and op: "0 \<le> op" "op \<le> 8" and sat: "cmp_holds (wsize src) op (c AND get_size_mask (wsize src)) x"
  shows "\<exists>r. wi_update_cmp src c op = Some (True, r) \<and> x \<in> wi_values r"
proof (cases "op = OP_EQ")
  case True
  then have "x = c AND get_size_mask (wsize src)" using sat by (simp add: cmp_holds_def)
  with True x show ?thesis
    by (auto simp: wi_update_cmp_def Let_def wi_values_def wi_contains_element_def is_wrapping_def)
next
  case False
  let ?c = "c AND get_size_mask (wsize src)"
  have op: "0 \<le> op" "op < 8" using op False by auto
  have "uint ?c < 2 ^ wsize src"
    using wf by (simp add: get_size_mask_eq uint_and_size_mask)
  then have "x \<in> wi_values (cmp_interval src ?c op)"
    using cmp_interval_mem [OF wf x _ op sat] by simp
  moreover have "wsize (cmp_interval src ?c op) = wsize src"
    by (simp add: cmp_interval_def)
  ultimately show ?thesis
    using wi_intersect_keeps [OF wf(1) _ x, of "cmp_interval src ?c op"]
    by (cases "wi_intersect src (cmp_interval src ?c op)") (simp add: wi_update_cmp_interval [OF op])
qed

section \<open>Comparisons applied to the full interval\<close>

lemma wi_init_ok:
  assumes "0 < n" "n \<le> 64"
  shows "\<exists>i. wi_init n = Some i \<and> wi_wf i \<and> wsize i = n \<and> wmin i = 0 \<and> wmax i = get_size_mask n \<and>
           wi_values i = {x. uint x < 2 ^ n}"
  using assms
  by (auto simp: wi_init_def wi_wf_def wi_values_def wi_contains_element_def is_wrapping_def uint_le_mask)

lemma wi_full_range:
  assumes "wi_wf i" "\<not> uint (wi_get_range i) < 2 ^ wsize i - 1"
  shows "wi_values i = {x. uint x < 2 ^ wsize i}"
proof -
  have "uint (wi_get_range i) = 2 ^ wsize i - 1"
    using assms uint_range [OF assms(1)] wi_wf_bounds(3) [OF assms(1)]
      pos_mod_bound [of "2 ^ wsize i" "uint (wmax i) - uint (wmin i)"] by linarith
  then have "(uint (wmax i) - uint (wmin i)) mod 2 ^ wsize i = 2 ^ wsize i - 1"
    using uint_range [OF assms(1)] by simp
  moreover have "a mod 2 ^ wsize i \<le> 2 ^ wsize i - 1" for a :: int
    using pos_mod_bound [of "2 ^ wsize i" a] by simp
  ultimately show ?thesis
    using wi_values_mod [OF assms(1)] by auto
qed

lemma wi_full_or_less:
  assumes i1: "wi_wf i1" "wmin i1 = 0" "wmax i1 = get_size_mask (wsize i1)" and i2: "wsize i2 = wsize i1"
    "is_wrapping i2 \<Longrightarrow> wmax i2 \<le> get_size_mask (wsize i1)" and wr: "is_wrapping i2"
    and top: "wi_contains_element i2 (wmax i1)" and ge: "\<not> wi_get_range i2 < wi_get_range i1"
  shows "wi_values i2 = wi_values i1"
proof -
  let ?m = "get_size_mask (wsize i1)"
  have n: "0 < wsize i1" "wsize i1 \<le> 64" using i1(1) by (simp_all add: wi_wf_def)
  have v1: "wi_values i1 = {v. v \<le> ?m}"
    using i1 by (auto simp: wi_values_def wi_contains_element_def is_wrapping_def)
  show ?thesis
  proof (cases "wmin i2 \<le> ?m")
    case True
    then have wf2: "wi_wf i2" using i2 wr n by (simp add: wi_wf_def)
    have "uint (wi_get_range i1) = 2 ^ wsize i1 - 1"
      using uint_range [OF i1(1)] i1(2,3) wi_wf_bounds(3,4) [OF i1(1)] by (simp add: zmod_minus1)
    then have "\<not> uint (wi_get_range i2) < 2 ^ wsize i2 - 1"
      using ge i2(1) by (simp add: word_less_def)
    from wi_full_range [OF wf2 this] show ?thesis
      using v1 i2(1) uint_le_mask [OF n] by simp
  next
    case False
    then have "?m \<le> wmax i2" using top i1(3) i2(1) wr by (simp add: wi_contains_element_def)
    then show ?thesis
      using wr i2(1) unfolding v1 by (auto simp: wi_values_def wi_contains_element_def)
  qed
qed

text \<open>Intersecting the full interval with another gives the other.\<close>

lemma wi_intersect_full:
  assumes i1: "wi_wf i1" "wmin i1 = 0" "wmax i1 = get_size_mask (wsize i1)" and i2: "wsize i2 = wsize i1"
    "is_wrapping i2 \<Longrightarrow> wmax i2 \<le> get_size_mask (wsize i1)" and ne: "wi_values i2 \<noteq> {}"
  shows "fst (wi_intersect i1 i2) \<and> wi_values (snd (wi_intersect i1 i2)) = wi_values i2"
proof -
  have v1: "wi_values i1 = {v. v \<le> get_size_mask (wsize i1)}"
    using i1 by (auto simp: wi_values_def wi_contains_element_def is_wrapping_def)
  have sub: "wi_values i2 \<subseteq> wi_values i1"
    unfolding v1 using i2(1) by (auto simp: wi_values_def)
  have nw: "\<not> is_wrapping i1" using i1 by (simp add: is_wrapping_def)
  obtain v where v: "v \<in> wi_values i2" using ne by blast
  have ret: "fst (wi_intersect i1 i2)" using wi_intersect_keeps(1) [OF i1(1) i2(1) _ v] sub v by blast
  then have chk: "wi_check_intersect i1 i2" by (auto simp: wi_intersect_def split: if_splits)
  have "wi_values (snd (wi_intersect i1 i2)) \<subseteq> wi_values i2"
  proof (cases "is_wrapping i2")
    case False
    then show ?thesis
      using v i1 i2(1) nw chk by (auto simp: wi_intersect_def wi_values_def wi_contains_element_def is_wrapping_def min_def)
  next
    case wr: True
    have zero: "wi_contains_element i2 0" using wr by (simp add: wi_contains_element_def)
    show ?thesis
    proof (cases "wi_contains_element i2 (wmax i1)")
      case False
      then show ?thesis
        using zero i1 i2(1) nw chk wr
        by (auto simp: wi_intersect_def wi_values_def wi_contains_element_def is_wrapping_def)
    next
      case True
      have res: "wi_values (snd (wi_intersect i1 i2)) = wi_values i2" if "wi_get_range i2 < wi_get_range i1"
        using that True zero i1(2) nw wr chk by (simp add: wi_intersect_def wi_values_ends [OF i2(1)])
      have "wi_values i2 = wi_values i1" if "\<not> wi_get_range i2 < wi_get_range i1"
        by (rule wi_full_or_less [OF i1 i2 wr True that])
      moreover have "wi_values (snd (wi_intersect i1 i2)) \<subseteq> wi_values i1"
        unfolding v1 by (auto simp: wi_values_def wi_intersect_def split: if_splits)
      ultimately show ?thesis using res by blast
    qed
  qed
  with ret sub show ?thesis
    using wi_intersect_keeps(2) [OF i1(1) i2(1)] by blast
qed

lemma cmp_interval_exact:
  fixes C N H x :: int
  assumes "N = 2 * H" "0 < H" "0 \<le> x" "x < N" "0 \<le> C" "C < N" "N \<le> 2 ^ 64"
  defines "inside \<equiv> \<lambda>l u. if u < l then l \<le> x \<and> x \<le> N - 1 \<or> x \<le> u else l \<le> x \<and> x \<le> u"
  defines "sg \<equiv> \<lambda>v. if v < H then v else v - N"
  shows "inside H C \<longleftrightarrow> sg x \<le> sg C"
    "C \<noteq> H \<Longrightarrow> inside H (if C = 0 then 2 ^ 64 - 1 else C - 1) \<longleftrightarrow> sg x < sg C"
    "inside C (H - 1) \<longleftrightarrow> sg C \<le> sg x"
    "C \<noteq> H - 1 \<Longrightarrow> inside (if C = 2 ^ 64 - 1 then 0 else C + 1) (H - 1) \<longleftrightarrow> sg C < sg x"
  using assms(1-7) unfolding inside_def sg_def by auto

lemma sval_bounds:
  assumes "2 \<le> n" "uint v < 2 ^ n"
  shows "- (2 ^ (n - 1)) \<le> sval n v" "sval n v < 2 ^ (n - 1)"
proof -
  have N: "(2 :: int) ^ n = 2 * 2 ^ (n - 1)" using assms by (simp flip: power_Suc)
  show "- (2 ^ (n - 1)) \<le> sval n v" "sval n v < 2 ^ (n - 1)"
    unfolding sval_def N by (rule signed_ends_bounds [OF uint_nonnegative assms(2) [unfolded N]])+
qed

lemma cmp_interval_top:
  assumes "is_wrapping (cmp_interval src c op)" "c \<le> get_size_mask n" "wmax src = get_size_mask n"
  shows "wmax (cmp_interval src c op) \<le> get_size_mask n"
proof -
  have "c - 1 \<le> get_size_mask n" if "l > c - 1" for l
    using that assms(2) uint_pred [of c] uint_u64_lt [of l] by (auto simp: word_le_def word_less_def split: if_splits)
  then show ?thesis
    using assms by (auto simp: cmp_interval_def is_wrapping_def split: if_splits)
qed

text \<open>On the full interval the interval of a satisfiable comparison holds exactly its solutions.\<close>

lemma cmp_interval_full:
  assumes n: "2 \<le> n" "n \<le> 64" and src: "wsize src = n" "wmin src = 0" "wmax src = get_size_mask n"
    and c: "uint c < 2 ^ n" and op: "0 \<le> op" "op < 8"
    and sol: "uint y < 2 ^ n" "cmp_holds n op c y"
    and x: "uint x < 2 ^ n"
  shows "x \<in> wi_values (cmp_interval src c op) \<longleftrightarrow> cmp_holds n op c x"
proof -
  have N: "(2 :: int) ^ n = 2 * 2 ^ (n - 1)" using n by (simp flip: power_Suc)
  have N64: "(2 :: int) ^ n \<le> 2 ^ 64" using n by (intro power_increasing) auto
  have M: "uint (get_size_mask n) = 2 ^ n - 1" using n by (simp add: get_size_mask_eq uint_size_mask)
  have H: "max (2 ^ (n - 1)) 0 = (2 ^ (n - 1) :: int)" "min (2 ^ (n - 1) - 1) (2 ^ n - 1) = (2 ^ (n - 1) - 1 :: int)"
    unfolding N by simp_all
  note ints = cmp_interval_exact [OF N _ _ x _ c N64, simplified]
  note ends = uint_signed_ends [OF n] M uint_pred uint_succ uint_max_min H [unfolded One_nat_def] src
  have mem: "x \<in> wi_values \<lparr>wmin = l, wmax = u, wsize = n\<rparr> \<longleftrightarrow>
      (if uint u < uint l then uint l \<le> uint x \<and> uint x \<le> 2 ^ n - 1 \<or> uint x \<le> uint u
       else uint l \<le> uint x \<and> uint x \<le> uint u)" for l u
    using wi_values_uint [of "\<lparr>wmin = l, wmax = u, wsize = n\<rparr>"] n x by simp
  have "op \<in> {0, 1, 2, 3, 4, 5, 6, 7}" using op by auto
  then consider "op = OP_ULT" | "op = OP_ULE" | "op = OP_UGT" | "op = OP_UGE"
    | "op = OP_SLT" | "op = OP_SLE" | "op = OP_SGT" | "op = OP_SGE" by auto
  then show ?thesis
  proof cases
    case 1
    then have "uint y < uint c" using sol by (simp add: cmp_holds_def)
    then have "0 < uint c" using uint_nonnegative [of y] by linarith
    then show ?thesis using 1 by (simp add: cmp_interval_def cmp_holds_def mem ends)
  next
    case 2 then show ?thesis by (simp add: cmp_interval_def cmp_holds_def mem ends)
  next
    case 3
    then have "uint c < 2 ^ n - 1" using sol by (simp add: cmp_holds_def)
    then show ?thesis using 3 x N64 by (simp add: cmp_interval_def cmp_holds_def mem ends) arith
  next
    case 4 then show ?thesis using x c by (simp add: cmp_interval_def cmp_holds_def mem ends)
  next
    case 5
    then have "uint c \<noteq> 2 ^ (n - 1)" using sol N sval_bounds [OF n(1), of y] by (auto simp: cmp_holds_def sval_def [of n c])
    then show ?thesis using 5 ints(2) by (simp add: cmp_interval_def cmp_holds_def mem ends sval_def split del: if_split cong: if_cong)
  next
    case 6 then show ?thesis using ints(1) by (simp add: cmp_interval_def cmp_holds_def mem ends sval_def split del: if_split cong: if_cong)
  next
    case 7
    then have "uint c \<noteq> 2 ^ (n - 1) - 1" using sol sval_bounds [OF n(1), of y] by (auto simp: cmp_holds_def sval_def [of n c])
    then show ?thesis using 7 ints(4) by (simp add: cmp_interval_def cmp_holds_def mem ends sval_def split del: if_split cong: if_cong)
  next
    case 8 then show ?thesis using ints(3) by (simp add: cmp_interval_def cmp_holds_def mem ends sval_def split del: if_split cong: if_cong)
  qed
qed

lemma wi_update_cmp_full:
  assumes n: "2 \<le> n" "n \<le> 64" and i: "wi_init n = Some i" and op: "0 \<le> op" "op \<le> 8"
    and sol: "uint y < 2 ^ n" "cmp_holds n op (c AND get_size_mask n) y"
  shows "\<exists>r. wi_update_cmp i c op = Some (True, r) \<and>
           wi_values r = {x. uint x < 2 ^ n \<and> cmp_holds n op (c AND get_size_mask n) x}"
proof -
  let ?c = "c AND get_size_mask n"
  have src: "wi_wf i" "wsize i = n" "wmin i = 0" "wmax i = get_size_mask n" "wi_values i = {x. uint x < 2 ^ n}"
    using wi_init_ok [of n] n i by auto
  have c: "uint ?c < 2 ^ n" using n by (simp add: get_size_mask_eq uint_and_size_mask)
  show ?thesis
  proof (cases "op = OP_EQ")
    case True
    have "?c \<in> wi_values i" using c src by simp
    then have "wi_update_cmp i c op = Some (True, i\<lparr>wmin := ?c, wmax := ?c\<rparr>)"
      using True src(2) by (simp add: wi_update_cmp_def Let_def wi_values_def)
    moreover have "wi_values (i\<lparr>wmin := ?c, wmax := ?c\<rparr>) = {?c}"
      using c n src(2) by (auto simp: wi_values_def wi_contains_element_def is_wrapping_def uint_le_mask)
    ultimately show ?thesis
      using True c by (auto simp: cmp_holds_def)
  next
    case False
    then have op: "0 \<le> op" "op < 8" using op by auto
    let ?i2 = "cmp_interval i ?c op"
    have eq: "wi_values ?i2 = {x. uint x < 2 ^ n \<and> cmp_holds n op ?c x}"
      using cmp_interval_full [OF n src(2,3,4) c op sol] n
      by (auto simp: wi_values_def cmp_interval_def src(2) uint_le_mask)
    have sz: "wsize ?i2 = wsize i" by (simp add: cmp_interval_def)
    have wr: "wmax ?i2 \<le> get_size_mask (wsize i)" if "is_wrapping ?i2"
      using cmp_interval_top [OF that, of n] c n src(2,4) by (simp add: uint_le_mask)
    show ?thesis
      using wi_intersect_full [OF src(1,3) _ sz wr] eq sol src(2,4)
      by (cases "wi_intersect i ?i2") (auto simp: wi_update_cmp_interval [OF op])
  qed
qed

section \<open>Changing the width and negating\<close>

text \<open>Every value of the interval that the new width can hold stays in it.\<close>

lemma wi_modify_size_keeps:
  assumes wf: "wi_wf src" and n: "0 < new_size" "new_size \<le> 64"
    and v: "v \<in> wi_values src" "uint v < 2 ^ new_size"
  shows "v \<in> wi_values (wi_modify_size src new_size)"
proof -
  have le: "v \<le> get_size_mask new_size" using v(2) n by (simp add: uint_le_mask)
  show ?thesis
  proof (cases "new_size < wsize src")
    case True
    let ?tmp = "\<lparr>wmin = 0, wmax = get_size_mask new_size, wsize = wsize src\<rparr>"
    have "v \<in> wi_values ?tmp"
      using v le by (simp add: wi_values_def wi_contains_element_def is_wrapping_def)
    then have "v \<in> wi_values (snd (wi_intersect src ?tmp))"
      using wi_intersect_keeps(2) [OF wf _ v(1)] by simp
    with True le show ?thesis
      by (auto simp: wi_modify_size_def wi_values_def wi_contains_element_def is_wrapping_def)
  next
    case False
    with v le show ?thesis
      by (auto simp: wi_modify_size_def wi_values_def wi_contains_element_def is_wrapping_def)
  qed
qed

lemma xor_exchange:
  fixes a b :: u64
  shows "b XOR (a XOR b) = a" "(a XOR b) XOR (b XOR (a XOR b)) = b"
  by (simp_all add: ac_simps)

lemma uint_neg_mask:
  assumes "0 < n" "n \<le> 64" "0 < uint v" "uint v < 2 ^ n"
  shows "uint ((- v) AND get_size_mask n) = 2 ^ n - uint v"
proof -
  have "(- uint v) mod 2 ^ n = (2 ^ n - uint v) mod 2 ^ n" by (simp flip: minus_mod_self1)
  also have "\<dots> = 2 ^ n - uint v" using assms by (intro mod_pos_pos_trivial) auto
  finally show ?thesis using uint_add_mask(3) [OF assms(1,2)] by simp
qed

text \<open>An interval that neither wraps nor contains 0 is negated exactly.\<close>

lemma wi_update_invert_ends:
  assumes wf: "wi_wf i" "0 < uint (wmin i)" "\<not> is_wrapping i"
  shows "wi_update_invert i = i\<lparr>wmin := (- wmax i) AND get_size_mask (wsize i),
           wmax := (- wmin i) AND get_size_mask (wsize i)\<rparr>"
proof -
  have n: "0 < wsize i" "wsize i \<le> 64" using wf by (simp_all add: wi_wf_def)
  have le: "uint (wmin i) \<le> uint (wmax i)" using wf(3) by (simp add: is_wrapping_def word_less_def)
  have neg: "uint ((- wmin i) AND get_size_mask (wsize i)) = 2 ^ wsize i - uint (wmin i)"
    "uint ((- wmax i) AND get_size_mask (wsize i)) = 2 ^ wsize i - uint (wmax i)"
    using uint_neg_mask [OF n] wf(2) le wi_wf_bounds [OF wf(1)] by auto
  show ?thesis
  proof (cases "wmin i = wmax i")
    case False
    then have "uint (wmin i) < uint (wmax i)" using le by (simp add: word_uint_eq_iff)
    then show ?thesis
      by (simp add: wi_update_invert_def Let_def word_less_def neg xor_exchange)
  qed (simp add: wi_update_invert_def Let_def)
qed

lemma wi_values_invert:
  assumes wf: "wi_wf i" "0 < uint (wmin i)" "\<not> is_wrapping i"
  shows "wi_values (wi_update_invert i) = (\<lambda>v. (- v) AND get_size_mask (wsize i)) ` wi_values i"
proof -
  let ?m = "get_size_mask (wsize i)" and ?N = "2 ^ wsize i :: int"
  have n: "0 < wsize i" "wsize i \<le> 64" using wf by (simp_all add: wi_wf_def)
  have le: "uint (wmin i) \<le> uint (wmax i)" using wf(3) by (simp add: is_wrapping_def word_less_def)
  note b = wi_wf_bounds [OF wf(1)]
  have neg: "uint ((- v) AND ?m) = ?N - uint v" if "0 < uint v" "uint v < ?N" for v
    using uint_neg_mask [OF n that] .
  have v1: "v \<in> wi_values i \<longleftrightarrow> uint (wmin i) \<le> uint v \<and> uint v \<le> uint (wmax i)" for v
    using le b unfolding wi_values_uint [OF n] by auto
  have v2: "v \<in> wi_values (wi_update_invert i) \<longleftrightarrow> ?N - uint (wmax i) \<le> uint v \<and> uint v \<le> ?N - uint (wmin i)" for v
    unfolding wi_update_invert_ends [OF wf] using le b wf(2) n
    by (subst wi_values_uint) (auto simp: neg)
  have inv: "(- ((- w) AND ?m)) AND ?m = w" if "0 < uint w" "uint w < ?N" for w
    using neg [OF that] neg [of "(- w) AND ?m"] that by (simp add: word_uint_eq_iff)
  show ?thesis
  proof (intro set_eqI iffI)
    fix w assume "w \<in> wi_values (wi_update_invert i)"
    then have w: "?N - uint (wmax i) \<le> uint w" "uint w \<le> ?N - uint (wmin i)" unfolding v2 by simp_all
    then have r: "0 < uint w" "uint w < ?N" using b wf(2) by linarith+
    have "(- w) AND ?m \<in> wi_values i" unfolding v1 neg [OF r] using w by simp
    then show "w \<in> (\<lambda>v. (- v) AND ?m) ` wi_values i"
      by (rule image_eqI [rotated]) (simp add: inv [OF r])
  next
    fix w assume "w \<in> (\<lambda>v. (- v) AND ?m) ` wi_values i"
    then obtain v where v: "w = (- v) AND ?m" "uint (wmin i) \<le> uint v" "uint v \<le> uint (wmax i)" by (auto simp: v1)
    then have "uint w = ?N - uint v" using neg [of v] wf(2) b by simp
    with v show "w \<in> wi_values (wi_update_invert i)" unfolding v2 by simp
  qed
qed

lemma wi_invert_zero:
  assumes "wi_wf i" "wmin i = 0" "0 < uint (wmax i)" "0 < uint v" "uint v < uint (wmax i)"
  shows "v \<in> wi_values i \<and> (- v) AND get_size_mask (wsize i) \<notin> wi_values (wi_update_invert i)"
proof -
  let ?m = "get_size_mask (wsize i)"
  have n: "0 < wsize i" "wsize i \<le> 64" using assms(1) by (simp_all add: wi_wf_def)
  note b = wi_wf_bounds [OF assms(1)]
  have hi: "uint ((- wmax i) AND ?m) = 2 ^ wsize i - uint (wmax i)"
    using uint_neg_mask [OF n assms(3) b(2)] .
  have nv: "uint ((- v) AND ?m) = 2 ^ wsize i - uint v"
    using uint_neg_mask [OF n assms(4)] assms(5) b(2) by simp
  have inv: "wi_update_invert i = i\<lparr>wmin := 0, wmax := (- wmax i) AND ?m\<rparr>"
    using assms(2) by (simp add: wi_update_invert_def Let_def)
  have "v \<in> wi_values i"
    unfolding wi_values_uint [OF n] using assms b by simp
  moreover have "(- v) AND ?m \<notin> wi_values (wi_update_invert i)"
    unfolding inv using n assms(5) b(2) by (subst wi_values_uint) (simp_all add: hi nv)
  ultimately show ?thesis by simp
qed

section \<open>Properties\<close>

text \<open>
  C25. \<^verbatim>\<open>wi_intersect\<close> over-approximates: every value in both intervals is in the result, 0 is
  returned only when there is none, and when there is one the result lies within one of the
  two intervals.
\<close>

theorem wi_intersect_sound:
  assumes "wi_wf i1" "wi_wf i2" "wsize i2 = wsize i1" "wi_intersect i1 i2 = (ret, r)"
  shows "wi_values i1 \<inter> wi_values i2 \<subseteq> wi_values r \<and> (\<not> ret \<longrightarrow> wi_values i1 \<inter> wi_values i2 = {}) \<and>
    (wi_values i1 \<inter> wi_values i2 \<noteq> {} \<longrightarrow> wi_values r \<subseteq> wi_values i1 \<or> wi_values r \<subseteq> wi_values i2) \<and>
    wi_wf r"
proof -
  have r: "ret = fst (wi_intersect i1 i2)" "r = snd (wi_intersect i1 i2)" using assms(4) by simp_all
  show ?thesis
    unfolding r using wi_intersect_keeps [OF assms(1,3)] wi_intersect_within [OF assms(1-3)]
      wi_intersect_wf(1) [OF assms(1-3)] by blast
qed

theorem wi_intersect_sound_witness:
  "wi_values \<lparr>wmin = 5, wmax = 20, wsize = 8\<rparr> \<inter> wi_values \<lparr>wmin = 10, wmax = 40, wsize = 8\<rparr> \<subseteq>
     wi_values \<lparr>wmin = 10, wmax = 20, wsize = 8\<rparr>"
proof -
  let ?i = "\<lparr>wmin = 5, wmax = 20, wsize = 8\<rparr>" and ?j = "\<lparr>wmin = 10, wmax = 40, wsize = 8\<rparr>"
  have "wi_wf ?i" "wi_wf ?j" "wi_intersect ?i ?j = (True, \<lparr>wmin = 10, wmax = 20, wsize = 8\<rparr>)"
    by code_simp+
  with wi_intersect_sound [of ?i ?j] show ?thesis by simp
qed

text \<open>
  The test for disjointness of two intervals that do not wrap uses the second upper end
  twice: for an interval below the other, \<^verbatim>\<open>wi_intersect\<close> reports an intersection and leaves a
  wrapping interval that holds every value outside the gap between them.
\<close>

theorem wi_intersect_disjoint_below:
  assumes "wi_wf i1" "wi_wf i2" "wsize i2 = wsize i1" "\<not> is_wrapping i1" "\<not> is_wrapping i2"
    "wmax i1 < wmin i2"
  shows "wi_values i1 \<inter> wi_values i2 = {} \<and>
    wi_intersect i1 i2 = (True, i1\<lparr>wmin := wmin i2, wmax := wmax i1\<rparr>) \<and>
    wi_values (snd (wi_intersect i1 i2)) = {v. v \<le> get_size_mask (wsize i1)} - {wmax i1 <..< wmin i2}"
proof -
  have o: "wmin i1 \<le> wmax i1" "wmin i2 \<le> wmax i2" "wmin i1 \<le> wmin i2" "wmax i1 \<le> wmax i2"
    using assms(4-6) by (auto simp: is_wrapping_def)
  have disj: "wi_values i1 \<inter> wi_values i2 = {}"
    using assms(4-6) by (auto simp: wi_values_def wi_contains_element_def)
  have eq: "wi_intersect i1 i2 = (True, i1\<lparr>wmin := wmin i2, wmax := wmax i1\<rparr>)"
    using assms(4,5) o by (simp add: wi_intersect_def wi_check_intersect_def max_absorb2 min_absorb1)
  have "wi_values (i1\<lparr>wmin := wmin i2, wmax := wmax i1\<rparr>) =
      {v. v \<le> get_size_mask (wsize i1)} - {wmax i1 <..< wmin i2}"
    using assms(6) by (auto simp: wi_values_def wi_contains_element_def is_wrapping_def)
  with disj eq show ?thesis by simp
qed

theorem wi_intersect_disjoint_below_witness:
  "wi_intersect \<lparr>wmin = 0, wmax = 5, wsize = 8\<rparr> \<lparr>wmin = 10, wmax = 20, wsize = 8\<rparr> =
     (True, \<lparr>wmin = 10, wmax = 5, wsize = 8\<rparr>)"
proof -
  let ?i = "\<lparr>wmin = 0, wmax = 5, wsize = 8\<rparr>" and ?j = "\<lparr>wmin = 10, wmax = 20, wsize = 8\<rparr>"
  have "wi_wf ?i" "wi_wf ?j" "\<not> is_wrapping ?i" "\<not> is_wrapping ?j" "wmax ?i < wmin ?j" by code_simp+
  with wi_intersect_disjoint_below [of ?i ?j] show ?thesis by simp
qed

text \<open>
  C12. Applied to the full interval of a width of 2 to 64 bits, \<^verbatim>\<open>wi_update_cmp\<close> with a
  satisfiable comparison returns 1 and leaves exactly the solutions, for all nine operators
  and with the two's complement reading for the signed ones.
\<close>

theorem wi_update_cmp_exact:
  assumes "2 \<le> n" "n \<le> 64" "0 \<le> op" "op \<le> 8"
    "uint y < 2 ^ n" "cmp_holds n op (c AND get_size_mask n) y"
  shows "\<exists>i r. wi_init n = Some i \<and> wi_update_cmp i c op = Some (True, r) \<and>
           wi_values r = {x. uint x < 2 ^ n \<and> cmp_holds n op (c AND get_size_mask n) x}"
proof -
  obtain i where i: "wi_init n = Some i" using assms(2) by (simp add: wi_init_def)
  show ?thesis using wi_update_cmp_full [OF assms(1,2) i assms(3-6)] i by simp
qed

theorem wi_update_cmp_exact_witness:
  "\<exists>i r. wi_init 8 = Some i \<and> wi_update_cmp i 3 OP_SLT = Some (True, r) \<and>
     wi_values r = {x. uint x < 256 \<and> cmp_holds 8 OP_SLT 3 x}"
proof -
  have "cmp_holds 8 OP_SLT (3 AND get_size_mask 8) 0" "3 AND get_size_mask 8 = (3 :: u64)" by code_simp+
  with wi_update_cmp_exact [of 8 OP_SLT 0 3] show ?thesis by simp
qed

text \<open>
  On any interval that does not wrap, \<^verbatim>\<open>wi_update_cmp\<close> keeps every value of the interval
  that satisfies the comparison, and returns 1 when there is such a value.
\<close>

theorem wi_update_cmp_sound:
  assumes "wi_wf src" "2 \<le> wsize src" "\<not> is_wrapping src" "x \<in> wi_values src" "0 \<le> op" "op \<le> 8"
    "cmp_holds (wsize src) op (c AND get_size_mask (wsize src)) x"
  shows "\<exists>r. wi_update_cmp src c op = Some (True, r) \<and> x \<in> wi_values r"
  by (rule wi_update_cmp_keeps [OF assms])

theorem wi_update_cmp_sound_witness:
  "\<exists>r. wi_update_cmp \<lparr>wmin = 5, wmax = 200, wsize = 8\<rparr> 3 OP_SLE = Some (True, r) \<and> 150 \<in> wi_values r"
proof -
  let ?i = "\<lparr>wmin = 5, wmax = 200, wsize = 8\<rparr>"
  have "wi_wf ?i" "\<not> is_wrapping ?i" "cmp_holds 8 OP_SLE (3 AND get_size_mask 8) 150" by code_simp+
  moreover have "150 \<in> wi_values ?i" unfolding wi_values_def mem_Collect_eq by code_simp
  ultimately show ?thesis using wi_update_cmp_sound [of ?i 150 OP_SLE 3] by simp
qed

text \<open>
  On an interval that wraps, \<^verbatim>\<open>OP_UGE\<close> with a constant not above the upper end drops the
  whole upper part of the interval although all of it satisfies the comparison.
\<close>

theorem wi_update_cmp_wrapping_drops:
  assumes "wi_wf src" "is_wrapping src" "c AND get_size_mask (wsize src) \<le> wmax src"
  shows "\<exists>r. wi_update_cmp src c OP_UGE = Some (True, r) \<and>
    (\<forall>x. wmin src \<le> x \<and> x \<le> get_size_mask (wsize src) \<longrightarrow>
       x \<in> wi_values src \<and> cmp_holds (wsize src) OP_UGE (c AND get_size_mask (wsize src)) x \<and>
       x \<notin> wi_values r)"
proof -
  let ?c = "c AND get_size_mask (wsize src)"
  have m: "min (get_size_mask (wsize src)) (wmax src) = wmax src" using assms(1) by (simp add: wi_wf_def min_absorb2)
  have o: "wmax src < wmin src" using assms(2) by (simp add: is_wrapping_def)
  have "wi_update_cmp src c OP_UGE = Some (True, src\<lparr>wmin := ?c\<rparr>)"
    using assms o m by (auto simp: wi_update_cmp_def Let_def wi_intersect_def wi_check_intersect_def
        wi_contains_element_def is_wrapping_def)
  moreover have "x \<in> wi_values src \<and> cmp_holds (wsize src) OP_UGE ?c x \<and> x \<notin> wi_values (src\<lparr>wmin := ?c\<rparr>)"
    if x: "wmin src \<le> x" "x \<le> get_size_mask (wsize src)" for x
  proof -
    have lt: "wmax src < x" using o x(1) by (rule less_le_trans)
    then have "?c \<le> x" using assms(3) by auto
    moreover have "\<not> wmax src < ?c" using assms(3) by auto
    ultimately show ?thesis
      using x lt assms(2) by (auto simp: wi_values_def wi_contains_element_def is_wrapping_def cmp_holds_def
          word_le_def word_less_def)
  qed
  ultimately show ?thesis by blast
qed

theorem wi_update_cmp_wrapping_drops_witness:
  "\<exists>r. wi_update_cmp \<lparr>wmin = 200, wmax = 100, wsize = 8\<rparr> 50 OP_UGE = Some (True, r) \<and> 220 \<notin> wi_values r"
proof -
  let ?i = "\<lparr>wmin = 200, wmax = 100, wsize = 8\<rparr>"
  have "wi_wf ?i" "is_wrapping ?i" "50 AND get_size_mask 8 \<le> wmax ?i" "220 \<le> get_size_mask 8" by code_simp+
  with wi_update_cmp_wrapping_drops [of ?i 50] show ?thesis by force
qed

text \<open>
  Adding or subtracting a constant shifts the set of values exactly, modulo the width.
\<close>

theorem wi_shift_exact:
  assumes "wi_wf i"
  shows "wi_values (wi_update_add i c) = (\<lambda>v. (v + c) AND get_size_mask (wsize i)) ` wi_values i \<and>
    wi_values (wi_update_sub i c) = (\<lambda>v. (v - c) AND get_size_mask (wsize i)) ` wi_values i \<and>
    wi_wf (wi_update_add i c) \<and> wi_wf (wi_update_sub i c)"
  using wi_values_add [OF assms, of c] wi_values_add [OF assms, of "- c"] wi_update_add_wf [OF assms]
  by (simp add: wi_update_sub_add)

theorem wi_shift_exact_witness:
  "wi_values (wi_update_add \<lparr>wmin = 250, wmax = 255, wsize = 8\<rparr> 10) =
     (\<lambda>v. (v + 10) AND get_size_mask 8) ` wi_values \<lparr>wmin = 250, wmax = 255, wsize = 8\<rparr>"
proof -
  let ?i = "\<lparr>wmin = 250, wmax = 255, wsize = 8\<rparr>"
  have "wi_wf ?i" by code_simp
  from wi_shift_exact [OF this, of 10] show ?thesis by simp
qed

text \<open>
  Unless the range is that of all 64-bit values, the loop over \<^verbatim>\<open>wi_iter_get_next\<close> ends and
  yields each value of the interval exactly once, \<^verbatim>\<open>wi_get_range\<close> + 1 values in all.
\<close>

theorem wi_iteration_exact:
  assumes "wi_wf i" "wi_get_range i < - 1"
  shows "\<exists>it xs. drain (\<lambda>it. Some (wi_iter_get_next it)) (unat (wi_get_range i) + 2) (wi_init_iter_values i) =
           Some (it, xs) \<and> set xs = wi_values i \<and> distinct xs \<and> length xs = unat (wi_get_range i) + 1"
proof -
  have "wi_iter_ok (wi_init_iter_values i)"
    using assms(2) by (simp add: wi_iter_ok_def wi_init_iter_values_def)
  from wi_iter.drain_ok [OF this, of "unat (wi_get_range i) + 2"] show ?thesis
    using wi_iter_rest_values [OF assms(1)] by auto
qed

theorem wi_iteration_exact_witness:
  "\<exists>it xs. drain (\<lambda>it. Some (wi_iter_get_next it)) 6
      (wi_init_iter_values \<lparr>wmin = 254, wmax = 2, wsize = 8\<rparr>) = Some (it, xs) \<and>
     set xs = wi_values \<lparr>wmin = 254, wmax = 2, wsize = 8\<rparr> \<and> distinct xs"
proof -
  let ?i = "\<lparr>wmin = 254, wmax = 2, wsize = 8\<rparr>"
  have "wi_wf ?i" "wi_get_range ?i = 4" by code_simp+
  with wi_iteration_exact [of ?i] show ?thesis by auto
qed

text \<open>
  \<^verbatim>\<open>wi_update_invert\<close>, used for a constraint on a constant minus the input, negates every value
  of an interval that does not wrap and does not hold 0.
\<close>

theorem wi_invert_exact:
  assumes "wi_wf i" "\<not> is_wrapping i" "0 < wmin i"
  shows "wi_values (wi_update_invert i) = (\<lambda>v. (- v) AND get_size_mask (wsize i)) ` wi_values i"
  by (rule wi_values_invert) (use assms in \<open>simp_all add: word_less_def\<close>)

theorem wi_invert_exact_witness:
  "wi_values (wi_update_invert \<lparr>wmin = 3, wmax = 5, wsize = 8\<rparr>) =
     (\<lambda>v. (- v) AND get_size_mask 8) ` wi_values \<lparr>wmin = 3, wmax = 5, wsize = 8\<rparr>"
proof -
  let ?i = "\<lparr>wmin = 3, wmax = 5, wsize = 8\<rparr>"
  have "wi_wf ?i" "\<not> is_wrapping ?i" "0 < wmin ?i" by code_simp+
  from wi_invert_exact [OF this] show ?thesis by simp
qed

text \<open>
  For an interval from 0 to a positive upper end,
  \<^verbatim>\<open>wi_update_invert\<close> yields the interval from 0 to the negated upper end, which misses the
  negation of every smaller positive value.
\<close>

theorem wi_invert_zero_wrong:
  assumes "wi_wf i" "wmin i = 0" "0 < uint (wmax i)" "0 < uint v" "uint v < uint (wmax i)"
  shows "v \<in> wi_values i \<and> (- v) AND get_size_mask (wsize i) \<notin> wi_values (wi_update_invert i)"
  by (rule wi_invert_zero [OF assms])

theorem wi_invert_zero_wrong_witness:
  "3 \<in> wi_values \<lparr>wmin = 0, wmax = 5, wsize = 8\<rparr> \<and>
     253 \<notin> wi_values (wi_update_invert \<lparr>wmin = 0, wmax = 5, wsize = 8\<rparr>)"
proof -
  let ?i = "\<lparr>wmin = 0, wmax = 5, wsize = 8\<rparr>"
  have "wi_wf ?i" "(- 3) AND get_size_mask 8 = (253 :: u64)" by code_simp+
  with wi_invert_zero_wrong [of ?i 3] show ?thesis by simp
qed

end
