(* ===== verification/Z3_Eval.thy ===== *)
theory Z3_Eval
  imports Prelude "HOL-Library.Signed_Division"
begin

text \<open>
  \<^verbatim>\<open>solver/fuzzy-sat/fuzzolic-z3/src/api/api_ast.cpp\<close>: the concrete evaluator the project adds to
  its copy of Z3, \<^verbatim>\<open>Z3_custom_eval\<close>. It runs an explicit stack of frames over the expression
  graph, with a cache keyed by node id. This theory has the expressions it reads, the frame
  machine as the source writes it and, below it, the direct recursion \<open>ev\<close> that the machine is
  proved equal to. Undefined behaviour of the C++ code (a shift by the width or more, a
  division that overflows, an access outside \<^verbatim>\<open>data\<close>) is the error \<open>Undefined\<close>; \<^verbatim>\<open>ERROR(...)\<close> is \<open>Fatal\<close>.
\<close>

section \<open>Expressions\<close>

text \<open>
  What the evaluator reads of an \<^verbatim>\<open>app\<close>: its id, its sort (\<^verbatim>\<open>SIZE\<close>, \<^verbatim>\<open>IS_BOOL\<close>), its declaration (a
  null \<^verbatim>\<open>func_decl_info\<close> is an input symbol, otherwise family 6 or the basic family, with kind
  and parameters) and its arguments. Kinds the evaluator does not name are \<open>OP_BV_OTHER\<close> and
  \<open>OP_BASIC_OTHER\<close>.
\<close>

datatype z3_sort = BoolSort | BvSort nat

datatype bv_kind =
    OP_BV_NUM | OP_BIT1 | OP_BIT0
  | OP_BNEG | OP_BNOT | OP_SIGN_EXT | OP_ZERO_EXT | OP_EXTRACT | OP_ROTATE_LEFT | OP_ROTATE_RIGHT
  | OP_BUREM0
  | OP_BADD | OP_BSUB | OP_BMUL | OP_BSDIV | OP_BUDIV | OP_BSREM | OP_BUREM
  | OP_ULEQ | OP_SLEQ | OP_UGEQ | OP_SGEQ | OP_ULT | OP_SLT | OP_UGT | OP_SGT
  | OP_BAND | OP_BOR | OP_BXOR | OP_CONCAT | OP_BSHL | OP_BLSHR | OP_BASHR
  | OP_BSDIV_I | OP_BUDIV_I | OP_BSREM_I | OP_BUREM_I
  | OP_BV_OTHER nat

datatype basic_kind =
    OP_TRUE | OP_FALSE | OP_NOT | OP_ITE | OP_AND | OP_OR | OP_EQ | OP_BASIC_OTHER nat

datatype z3_decl = Symbol int | BvDecl bv_kind "int list" | BasicDecl basic_kind

datatype z3_expr = App (e_id: nat) (e_sort: z3_sort) (e_decl: z3_decl) (e_args: "z3_expr list")

datatype eval_error = Fatal string | Undefined

type_synonym 'a eval_result = "eval_error + 'a"

definition eval_bind :: "'a eval_result \<Rightarrow> ('a \<Rightarrow> 'b eval_result) \<Rightarrow> 'b eval_result" where
  "eval_bind m f = (case m of Inl err \<Rightarrow> Inl err | Inr x \<Rightarrow> f x)"

lemma eval_bind_simps [simp]: "eval_bind (Inl err) f = Inl err" "eval_bind (Inr x) f = f x"
  by (simp_all add: eval_bind_def)

section \<open>Macros\<close>

definition IS_BOOL :: "z3_expr \<Rightarrow> bool" where
  "IS_BOOL e \<longleftrightarrow> e_sort e = BoolSort"

text \<open>\<^verbatim>\<open>SIZE\<close> reads the first parameter of the sort, which a Boolean sort does not have.\<close>

definition SIZE :: "z3_expr \<Rightarrow> nat eval_result" where
  "SIZE e = (case e_sort e of BvSort n \<Rightarrow> Inr n | BoolSort \<Rightarrow> Inl Undefined)"

text \<open>\<^verbatim>\<open>MASK(s)\<close> shifts by \<^verbatim>\<open>s - 1\<close>, which must be below 64.\<close>

definition MASK :: "nat \<Rightarrow> u64 eval_result" where
  "MASK s = (if 1 \<le> s \<and> s \<le> 64 then Inr (size_mask s) else Inl Undefined)"

definition MASK_SIZE :: "z3_expr \<Rightarrow> u64 eval_result" where
  "MASK_SIZE e = eval_bind (SIZE e) MASK"

definition masked :: "z3_expr \<Rightarrow> u64 \<Rightarrow> u64 eval_result" where
  "masked e v = eval_bind (MASK_SIZE e) (\<lambda>m. Inr (v AND m))"

definition of_bool64 :: "bool \<Rightarrow> u64" where
  "of_bool64 b = (if b then 1 else 0)"

text \<open>\<^verbatim>\<open>a << n\<close> and \<^verbatim>\<open>a >> n\<close> on \<^verbatim>\<open>uint64_t\<close>, the amount being a \<^verbatim>\<open>uint64_t\<close> as well.\<close>

definition c_shl :: "u64 \<Rightarrow> u64 \<Rightarrow> u64 eval_result" where
  "c_shl a n = (if unat n < 64 then Inr (push_bit (unat n) a) else Inl Undefined)"

definition c_shr :: "u64 \<Rightarrow> u64 \<Rightarrow> u64 eval_result" where
  "c_shr a n = (if unat n < 64 then Inr (drop_bit (unat n) a) else Inl Undefined)"

text \<open>
  The operators passed to \<^verbatim>\<open>OPERATION\<close>, on signed values of the type both operands are promoted
  to, \<^verbatim>\<open>w\<close> bits wide.
\<close>

datatype c_operator = C_DIV | C_REM | C_LE | C_GE | C_LT | C_GT | C_SHR

definition c_apply :: "c_operator \<Rightarrow> nat \<Rightarrow> int \<Rightarrow> int \<Rightarrow> int eval_result" where
  "c_apply operator w a b =
     (case operator of
        C_DIV \<Rightarrow> if b = 0 \<or> (a = - (2 ^ (w - 1)) \<and> b = - 1) then Inl Undefined else Inr (a sdiv b)
      | C_REM \<Rightarrow> if b = 0 \<or> (a = - (2 ^ (w - 1)) \<and> b = - 1) then Inl Undefined else Inr (a smod b)
      | C_LE \<Rightarrow> Inr (of_bool (a \<le> b))
      | C_GE \<Rightarrow> Inr (of_bool (a \<ge> b))
      | C_LT \<Rightarrow> Inr (of_bool (a < b))
      | C_GT \<Rightarrow> Inr (of_bool (a > b))
      | C_SHR \<Rightarrow> if b < 0 \<or> int w \<le> b then Inl Undefined else Inr (a div 2 ^ nat b))"

text \<open>A cast to \<^verbatim>\<open>int8_t\<close>, \<^verbatim>\<open>int16_t\<close>, \<^verbatim>\<open>int32_t\<close> or \<^verbatim>\<open>int64_t\<close>.\<close>

definition c_int :: "nat \<Rightarrow> u64 \<Rightarrow> int" where
  "c_int w a = signed_take_bit (w - 1) (uint a)"

definition sext_bits :: "nat \<Rightarrow> u64 \<Rightarrow> u64" where
  "sext_bits width a =
     (if a AND push_bit (width - 1) 1 \<noteq> 0 then a OR push_bit width (size_mask (64 - width)) else a)"

definition OPERATION :: "u64 \<Rightarrow> u64 \<Rightarrow> nat \<Rightarrow> c_operator \<Rightarrow> u64 eval_result" where
  "OPERATION a b width operator =
     (if width = 8 \<or> width = 16 \<or> width = 32 then
        eval_bind (c_apply operator 32 (c_int width a) (c_int width b))
          (\<lambda>r. Inr (word_of_int r AND size_mask width))
      else if width = 64 then
        eval_bind (c_apply operator 64 (c_int 64 a) (c_int 64 b)) (\<lambda>r. Inr (word_of_int r AND size_mask 64))
      else if width = 0 then Inl Undefined
      else if width < 64 then
        eval_bind (c_apply operator 64 (c_int 64 (sext_bits width a)) (c_int 64 (sext_bits width b)))
          (\<lambda>r. Inr (word_of_int r AND size_mask width))
      else Inl (Fatal ''unexpected size [signed operation]''))"

text \<open>\<^verbatim>\<open>__rolb\<close> ... \<^verbatim>\<open>__rolq\<close>: the operand is cut to the width of the instruction and rotated.\<close>

definition rotate_left :: "nat \<Rightarrow> u64 \<Rightarrow> int \<Rightarrow> u64 eval_result" where
  "rotate_left width v amount =
     (let k = nat (amount mod int width) in
      if width = 8 then Inr (ucast (word_rotl k (ucast v :: u8)))
      else if width = 16 then Inr (ucast (word_rotl k (ucast v :: u16)))
      else if width = 32 then Inr (ucast (word_rotl k (ucast v :: u32)))
      else if width = 64 then Inr (word_rotl k v)
      else Inl (Fatal ''unexpected size''))"

definition rotate_right :: "nat \<Rightarrow> u64 \<Rightarrow> int \<Rightarrow> u64 eval_result" where
  "rotate_right width v amount =
     (let k = nat (amount mod int width) in
      if width = 8 then Inr (ucast (word_rotr k (ucast v :: u8)))
      else if width = 16 then Inr (ucast (word_rotr k (ucast v :: u16)))
      else if width = 32 then Inr (ucast (word_rotr k (ucast v :: u32)))
      else if width = 64 then Inr (word_rotr k v)
      else Inl (Fatal ''unexpected size''))"

section \<open>One pass over a frame\<close>

text \<open>
  A frame of the stack. \<open>m_init\<close> is \<^verbatim>\<open>m_fid != null_family_id\<close>; the other fields the constructor and
  the first pass fill in (\<^verbatim>\<open>m_decl\<close>, \<^verbatim>\<open>m_info\<close>, \<^verbatim>\<open>m_fid\<close>, \<^verbatim>\<open>m_decl_kind\<close>, \<^verbatim>\<open>m_num_args\<close>) are read off \<open>m_curr\<close>.
\<close>

record eval_frame =
  m_curr :: z3_expr
  m_init :: bool
  m_res :: u64
  m_curr_arg :: nat

definition mk_frame :: "z3_expr \<Rightarrow> eval_frame" where
  "mk_frame e = \<lparr>m_curr = e, m_init = False, m_res = 0, m_curr_arg = 0\<rparr>"

text \<open>\<^verbatim>\<open>m_num_args == 0\<close>: the value, and whether it is entered in the cache.\<close>

definition eval_nullary :: "z3_expr \<Rightarrow> (u64 \<times> bool) eval_result" where
  "eval_nullary e =
     (case e_decl e of
        BvDecl OP_BV_NUM ps \<Rightarrow> (case ps of r # _ \<Rightarrow> Inr (word_of_int r, True) | [] \<Rightarrow> Inl Undefined)
      | BvDecl OP_BIT1 _ \<Rightarrow> Inr (1, False)
      | BvDecl OP_BIT0 _ \<Rightarrow> Inr (0, False)
      | BvDecl _ _ \<Rightarrow> Inl (Fatal ''Zero params in BV'')
      | BasicDecl OP_TRUE \<Rightarrow> Inr (1, False)
      | BasicDecl OP_FALSE \<Rightarrow> Inr (0, False)
      | _ \<Rightarrow> Inl (Fatal ''Zero params in BASE''))"

text \<open>
  What the \<^verbatim>\<open>switch\<close> of a pass decides: \<open>Done\<close> is the early exit of \<^verbatim>\<open>and\<close> and \<^verbatim>\<open>or\<close> with the current
  result, \<open>Next k r\<close> goes on with \<^verbatim>\<open>m_curr_arg = k\<close> and \<^verbatim>\<open>res = r\<close>.
\<close>

datatype outcome = Done | Next nat u64

definition next_arg :: "nat \<Rightarrow> u64 eval_result \<Rightarrow> outcome eval_result" where
  "next_arg k m = eval_bind m (\<lambda>r. Inr (Next k r))"

text \<open>\<^verbatim>\<open>m_curr_arg == 1\<close>, family 6. \<^verbatim>\<open>param\<close> is \<^verbatim>\<open>get_parameters()[i].get_int()\<close>.\<close>

definition param :: "int list \<Rightarrow> nat \<Rightarrow> int eval_result" where
  "param ps i = (if i < length ps then Inr (ps ! i) else Inl Undefined)"

definition eval_sign_ext :: "z3_expr \<Rightarrow> int list \<Rightarrow> u64 \<Rightarrow> u64 eval_result" where
  "eval_sign_ext e ps res =
     eval_bind (param ps 0) (\<lambda>n_bits. eval_bind (SIZE (e_args e ! 0)) (\<lambda>s.
       if s = 0 \<or> s > 64 then Inl Undefined
       else if res AND push_bit (s - 1) 1 \<noteq> 0
       then eval_bind (MASK (nat n_bits)) (\<lambda>m.
              if s < 64 then Inr (res OR push_bit s m) else Inl Undefined)
       else Inr res))"

definition eval_extract :: "int list \<Rightarrow> u64 \<Rightarrow> u64 eval_result" where
  "eval_extract ps res =
     eval_bind (param ps 0) (\<lambda>high. eval_bind (param ps 1) (\<lambda>low.
       if low < 0 \<or> low \<ge> 64 then Inl Undefined
       else eval_bind (MASK (nat (high - low + 1))) (\<lambda>m. Inr (drop_bit (nat low) res AND m))))"

definition eval_first_bv :: "z3_expr \<Rightarrow> bv_kind \<Rightarrow> int list \<Rightarrow> u64 \<Rightarrow> u64 eval_result" where
  "eval_first_bv e kind ps res =
     (case kind of
        OP_BNEG \<Rightarrow> masked e (- res)
      | OP_BNOT \<Rightarrow> masked e (NOT res)
      | OP_SIGN_EXT \<Rightarrow> eval_sign_ext e ps res
      | OP_ZERO_EXT \<Rightarrow> Inr res
      | OP_EXTRACT \<Rightarrow> eval_extract ps res
      | OP_ROTATE_LEFT \<Rightarrow> eval_bind (param ps 0) (\<lambda>amount. eval_bind (SIZE e) (\<lambda>s. rotate_left s res amount))
      | OP_ROTATE_RIGHT \<Rightarrow> eval_bind (param ps 0) (\<lambda>amount. eval_bind (SIZE e) (\<lambda>s. rotate_right s res amount))
      | OP_BUREM0 \<Rightarrow> Inr res
      | _ \<Rightarrow> if length (e_args e) = 1 then Inl (Fatal ''Unknown unary BV operator'') else Inr res)"

definition eval_first_basic :: "z3_expr \<Rightarrow> basic_kind \<Rightarrow> nat \<Rightarrow> u64 \<Rightarrow> outcome eval_result" where
  "eval_first_basic e kind k res =
     (case kind of
        OP_NOT \<Rightarrow> Inr (Next k (of_bool64 (res = 0)))
      | OP_ITE \<Rightarrow> Inr (Next (if res = 0 then k + 1 else k) res)
      | OP_AND \<Rightarrow> Inr (if res = 0 then Done else Next k res)
      | OP_OR \<Rightarrow> Inr (if res \<noteq> 0 then Done else Next k res)
      | _ \<Rightarrow> if length (e_args e) = 1 then Inl (Fatal ''Unknown unary BASE operator'') else Inr (Next k res))"

text \<open>\<^verbatim>\<open>m_curr_arg > 1\<close>, family 6: \<open>a\<close> is \<^verbatim>\<open>m_res\<close>, \<open>b\<close> is \<^verbatim>\<open>res\<close>.\<close>

definition eval_sdiv :: "z3_expr \<Rightarrow> u64 \<Rightarrow> u64 \<Rightarrow> u64 eval_result" where
  "eval_sdiv e a b =
     eval_bind (SIZE e) (\<lambda>width.
       if b = 0
       then if width = 0 \<or> width > 64 then Inl Undefined
            else if a AND push_bit (width - 1) 1 \<noteq> 0 then Inr 1 else MASK width
       else OPERATION a b width C_DIV)"

definition eval_udiv :: "z3_expr \<Rightarrow> u64 \<Rightarrow> u64 \<Rightarrow> u64 eval_result" where
  "eval_udiv e a b = (if b = 0 then MASK_SIZE e else masked e (a div b))"

definition eval_srem :: "z3_expr \<Rightarrow> u64 \<Rightarrow> u64 \<Rightarrow> u64 eval_result" where
  "eval_srem e a b = (if b = 0 then masked e a else eval_bind (SIZE e) (\<lambda>width. OPERATION a b width C_REM))"

definition eval_urem :: "z3_expr \<Rightarrow> u64 \<Rightarrow> u64 \<Rightarrow> u64 eval_result" where
  "eval_urem e a b = (if b = 0 then masked e a else masked e (a mod b))"

definition eval_signed :: "z3_expr \<Rightarrow> c_operator \<Rightarrow> u64 \<Rightarrow> u64 \<Rightarrow> u64 eval_result" where
  "eval_signed e operator a b = eval_bind (SIZE (e_args e ! 0)) (\<lambda>width. OPERATION a b width operator)"

definition eval_concat :: "z3_expr \<Rightarrow> nat \<Rightarrow> u64 \<Rightarrow> u64 \<Rightarrow> u64 eval_result" where
  "eval_concat e k a b =
     eval_bind (SIZE (e_args e ! (k - 1))) (\<lambda>s. eval_bind (c_shl a (word_of_nat s)) (\<lambda>h. Inr (h OR b)))"

definition eval_later_bv :: "z3_expr \<Rightarrow> bv_kind \<Rightarrow> nat \<Rightarrow> u64 \<Rightarrow> u64 \<Rightarrow> u64 eval_result" where
  "eval_later_bv e kind k a b =
     (case kind of
        OP_BADD \<Rightarrow> masked e (a + b)
      | OP_BSUB \<Rightarrow> masked e (a - b)
      | OP_BMUL \<Rightarrow> masked e (a * b)
      | OP_BSDIV \<Rightarrow> eval_sdiv e a b
      | OP_BUDIV \<Rightarrow> eval_udiv e a b
      | OP_BSREM \<Rightarrow> eval_srem e a b
      | OP_BUREM \<Rightarrow> eval_urem e a b
      | OP_ULEQ \<Rightarrow> Inr (of_bool64 (a \<le> b))
      | OP_SLEQ \<Rightarrow> eval_signed e C_LE a b
      | OP_UGEQ \<Rightarrow> Inr (of_bool64 (a \<ge> b))
      | OP_SGEQ \<Rightarrow> eval_signed e C_GE a b
      | OP_ULT \<Rightarrow> Inr (of_bool64 (a < b))
      | OP_SLT \<Rightarrow> eval_signed e C_LT a b
      | OP_UGT \<Rightarrow> Inr (of_bool64 (a > b))
      | OP_SGT \<Rightarrow> eval_signed e C_GT a b
      | OP_BAND \<Rightarrow> masked e (a AND b)
      | OP_BOR \<Rightarrow> masked e (a OR b)
      | OP_BXOR \<Rightarrow> masked e (a XOR b)
      | OP_CONCAT \<Rightarrow> eval_concat e k a b
      | OP_BSHL \<Rightarrow> eval_bind (c_shl a b) (masked e)
      | OP_BLSHR \<Rightarrow> eval_bind (c_shr a b) (masked e)
      | OP_BASHR \<Rightarrow> eval_bind (SIZE e) (\<lambda>width. OPERATION a b width C_SHR)
      | OP_BSDIV_I \<Rightarrow> eval_sdiv e a b
      | OP_BUDIV_I \<Rightarrow> eval_udiv e a b
      | OP_BSREM_I \<Rightarrow> eval_srem e a b
      | OP_BUREM_I \<Rightarrow> eval_urem e a b
      | _ \<Rightarrow> Inl (Fatal ''Unknown BV operator''))"

definition eval_later_basic :: "basic_kind \<Rightarrow> nat \<Rightarrow> u64 \<Rightarrow> u64 \<Rightarrow> outcome eval_result" where
  "eval_later_basic kind k a b =
     (case kind of
        OP_EQ \<Rightarrow> Inr (Next k (of_bool64 (a = b)))
      | OP_ITE \<Rightarrow> Inr (Next (k + 1) b)
      | OP_AND \<Rightarrow> Inr (if b = 0 then Done else Next k b)
      | OP_OR \<Rightarrow> Inr (if b \<noteq> 0 then Done else Next k b)
      | _ \<Rightarrow> Inl (Fatal ''Unknown BASE operator''))"

text \<open>The two \<^verbatim>\<open>switch\<close> statements together, for a node with arguments; nothing happens at \<^verbatim>\<open>m_curr_arg == 0\<close>.\<close>

definition eval_combine :: "z3_expr \<Rightarrow> nat \<Rightarrow> u64 \<Rightarrow> u64 \<Rightarrow> outcome eval_result" where
  "eval_combine e k a res =
     (if k = 0 then Inr (Next k res)
      else if k = 1 then
        (case e_decl e of
           BvDecl kind ps \<Rightarrow> next_arg k (eval_first_bv e kind ps res)
         | BasicDecl kind \<Rightarrow> eval_first_basic e kind k res
         | Symbol i \<Rightarrow> Inl Undefined)
      else
        (case e_decl e of
           BvDecl kind ps \<Rightarrow> next_arg k (eval_later_bv e kind k a res)
         | BasicDecl kind \<Rightarrow> eval_later_basic kind k a res
         | Symbol i \<Rightarrow> Inl Undefined))"

section \<open>The frame machine\<close>

text \<open>
  The state of \<^verbatim>\<open>Z3_custom_eval_internal_iter\<close>: \<^verbatim>\<open>m_frame_stack\<close> (the top first), \<^verbatim>\<open>res\<close> and \<^verbatim>\<open>cache\<close>. The inputs
  are \<^verbatim>\<open>data\<close> and \<^verbatim>\<open>Z3_internal_eval\<close>, the call of Z3's own model evaluation on a node.
\<close>

record eval_state =
  stack :: "eval_frame list"
  es_res :: u64
  cache :: "nat \<rightharpoonup> u64"

record eval_input =
  data :: "u64 list"
  z3_internal_eval :: "z3_expr \<Rightarrow> u64 eval_result"

definition wide :: "z3_expr \<Rightarrow> bool" where
  "wide e \<longleftrightarrow> (case e_sort e of BvSort n \<Rightarrow> n > 64 | BoolSort \<Rightarrow> False)"

definition eval_symbol :: "eval_input \<Rightarrow> z3_expr \<Rightarrow> int \<Rightarrow> u64 eval_result" where
  "eval_symbol inp e i =
     (if 0 \<le> i \<and> nat i < length (data inp) then masked e (data inp ! nat i) else Inl Undefined)"

text \<open>\<^verbatim>\<open>cache.insert(f.m_id, res); m_frame_stack.pop_back();\<close>\<close>

definition finish :: "eval_state \<Rightarrow> z3_expr \<Rightarrow> eval_frame list \<Rightarrow> u64 \<Rightarrow> eval_state" where
  "finish s e rest v = \<lparr>stack = rest, es_res = v, cache = (cache s)(e_id e \<mapsto> v)\<rparr>"

text \<open>The part of a pass after the \<^verbatim>\<open>switch\<close>: save the partial result, then the next argument or the end.\<close>

definition eval_advance ::
  "eval_input \<Rightarrow> eval_state \<Rightarrow> eval_frame list \<Rightarrow> z3_expr \<Rightarrow> nat \<Rightarrow> u64 \<Rightarrow> eval_state eval_result"
where
  "eval_advance inp s rest e k r =
     (let f = \<lparr>m_curr = e, m_init = True, m_res = r, m_curr_arg = k\<rparr> in
      if k < length (e_args e) then
        (let arg = e_args e ! k in
         case cache s (e_id arg) of
           Some v \<Rightarrow> Inr (s\<lparr>stack := f\<lparr>m_curr_arg := k + 1\<rparr> # rest, es_res := v\<rparr>)
         | None \<Rightarrow>
             if wide arg then eval_bind (z3_internal_eval inp e) (\<lambda>v. Inr (finish s e rest v))
             else Inr (s\<lparr>stack := mk_frame arg # f\<lparr>m_curr_arg := k + 1\<rparr> # rest, es_res := r\<rparr>))
      else Inr (finish s e rest r))"

text \<open>One turn of the \<^verbatim>\<open>while\<close> loop.\<close>

definition eval_step :: "eval_input \<Rightarrow> eval_state \<Rightarrow> eval_state eval_result" where
  "eval_step inp s =
     (case stack s of [] \<Rightarrow> Inr s
      | f # rest \<Rightarrow>
          (let e = m_curr f in
           case e_decl e of
             Symbol i \<Rightarrow> eval_bind (eval_symbol inp e i) (\<lambda>v. Inr (finish s e rest v))
           | _ \<Rightarrow>
             (let k = (if m_init f then m_curr_arg f else 0);
                  res = (if m_init f then es_res s else 0) in
              if e_args e = [] then
                eval_bind (eval_nullary e) (\<lambda>(v, keep).
                  Inr (if keep then finish s e rest v else s\<lparr>stack := rest, es_res := v\<rparr>))
              else
                eval_bind (eval_combine e k (m_res f) res) (\<lambda>out.
                  case out of
                    Done \<Rightarrow> Inr (finish s e rest res)
                  | Next k' r \<Rightarrow> eval_advance inp s rest e k' r))))"

text \<open>The loop with fuel: \<open>None\<close> is fuel running out.\<close>

fun eval_run :: "eval_input \<Rightarrow> nat \<Rightarrow> eval_state \<Rightarrow> eval_state eval_result option" where
  "eval_run inp 0 s = None"
| "eval_run inp (Suc n) s =
     (if stack s = [] then Some (Inr s)
      else case eval_step inp s of
             Inl err \<Rightarrow> Some (Inl err)
           | Inr s' \<Rightarrow> eval_run inp n s')"

text \<open>
  The whole function: the cache first, then the loop on a stack with the root's frame. The
  result carries the cache, which outlives the call.
\<close>

definition Z3_custom_eval_internal_iter ::
  "eval_input \<Rightarrow> nat \<Rightarrow> (nat \<rightharpoonup> u64) \<Rightarrow> z3_expr \<Rightarrow> (u64 \<times> (nat \<rightharpoonup> u64)) eval_result option"
where
  "Z3_custom_eval_internal_iter inp fuel c e =
     (case c (e_id e) of
        Some v \<Rightarrow> Some (Inr (v, c))
      | None \<Rightarrow> map_option (\<lambda>m. eval_bind m (\<lambda>s. Inr (es_res s, cache s)))
                 (eval_run inp fuel \<lparr>stack = [mk_frame e], es_res = 0, cache = c\<rparr>))"

text \<open>\<^verbatim>\<open>Z3_custom_eval\<close>: the cache is empty at the call and reset after it.\<close>

definition Z3_custom_eval :: "eval_input \<Rightarrow> nat \<Rightarrow> z3_expr \<Rightarrow> u64 eval_result option" where
  "Z3_custom_eval inp fuel e =
     map_option (\<lambda>m. eval_bind m (\<lambda>(v, c). Inr v)) (Z3_custom_eval_internal_iter inp fuel Map.empty e)"

text \<open>
  \<^verbatim>\<open>Z3_custom_eval_depth\<close>: the conjuncts of a conjunction one after the other, with one cache,
  counting those that hold. The result is the pair of value and depth; depth 0 for an
  expression that is not a conjunction.
\<close>

fun eval_conjuncts ::
  "eval_input \<Rightarrow> nat \<Rightarrow> (nat \<rightharpoonup> u64) \<Rightarrow> z3_expr list \<Rightarrow> nat \<Rightarrow> (u64 \<times> nat) eval_result option"
where
  "eval_conjuncts inp fuel c [] depth = Some (Inr (1, depth))"
| "eval_conjuncts inp fuel c (e # es) depth =
     (case Z3_custom_eval_internal_iter inp fuel c e of
        None \<Rightarrow> None
      | Some (Inl err) \<Rightarrow> Some (Inl err)
      | Some (Inr (v, c')) \<Rightarrow> if v = 0 then Some (Inr (0, depth)) else eval_conjuncts inp fuel c' es (depth + 1))"

definition Z3_custom_eval_depth :: "eval_input \<Rightarrow> nat \<Rightarrow> z3_expr \<Rightarrow> (u64 \<times> nat) eval_result option" where
  "Z3_custom_eval_depth inp fuel e =
     (if e_decl e = BasicDecl OP_AND
      then if e_args e = [] then Some (Inl Undefined) else eval_conjuncts inp fuel Map.empty (e_args e) 0
      else map_option (\<lambda>m. eval_bind m (\<lambda>v. Inr (v, 0))) (Z3_custom_eval inp fuel e))"

section \<open>Direct recursion\<close>

lemma size_arg_less: "k < length (e_args e) \<Longrightarrow> size (e_args e ! k) < size e"
  by (cases e) (auto simp: less_Suc_eq_le dest!: nth_mem intro: size_list_estimation' order_refl)

text \<open>
  The value of an expression by recursion on its arguments, without stack and cache:
  \<open>ev_args e k a r\<close> is the pass with \<^verbatim>\<open>m_curr_arg = k\<close>, \<^verbatim>\<open>m_res = a\<close> and \<^verbatim>\<open>res = r\<close>.
\<close>

lemma eval_combine_mono: "eval_combine e k a r = Inr (Next k' r') \<Longrightarrow> k \<le> k'"
  by (auto simp: eval_combine_def next_arg_def eval_bind_def eval_first_basic_def eval_later_basic_def
      split: if_splits z3_decl.splits basic_kind.splits sum.splits)

function (sequential) ev :: "eval_input \<Rightarrow> z3_expr \<Rightarrow> u64 eval_result"
  and ev_args :: "eval_input \<Rightarrow> z3_expr \<Rightarrow> nat \<Rightarrow> u64 \<Rightarrow> u64 \<Rightarrow> u64 eval_result" where
  "ev inp e =
     (case e_decl e of
        Symbol i \<Rightarrow> eval_symbol inp e i
      | _ \<Rightarrow> if e_args e = [] then eval_bind (eval_nullary e) (\<lambda>(v, keep). Inr v) else ev_args inp e 0 0 0)"
| "ev_args inp e k a r =
     (case eval_combine e k a r of
        Inl err \<Rightarrow> Inl err
      | Inr Done \<Rightarrow> Inr r
      | Inr (Next k' r') \<Rightarrow>
          if k' < length (e_args e) then
            (let arg = e_args e ! k' in
             if wide arg then z3_internal_eval inp e
             else case ev inp arg of Inl err \<Rightarrow> Inl err | Inr v \<Rightarrow> ev_args inp e (k' + 1) r' v)
          else Inr r')"
  by pat_completeness auto
termination
  by (relation "measures [case_sum (\<lambda>(inp, e). 2 * size e + 1) (\<lambda>(inp, e, k, a, r). 2 * size e),
                          case_sum (\<lambda>_. 0) (\<lambda>(inp, e, k, a, r). length (e_args e) - k)]")
    (auto dest: size_arg_less eval_combine_mono)

declare ev.simps [simp del] ev_args.simps [simp del]

section \<open>The machine computes the direct recursion\<close>

text \<open>
  The expressions of a context: closed under arguments, and with distinct ids, as Z3's
  hash-consing of live nodes provides. The cache only holds values of such expressions.
\<close>

definition shared_ctx :: "z3_expr set \<Rightarrow> bool" where
  "shared_ctx U \<longleftrightarrow> inj_on e_id U \<and> (\<forall>e \<in> U. set (e_args e) \<subseteq> U)"

definition cache_ok :: "eval_input \<Rightarrow> z3_expr set \<Rightarrow> (nat \<rightharpoonup> u64) \<Rightarrow> bool" where
  "cache_ok inp U c \<longleftrightarrow> (\<forall>e \<in> U. \<forall>v. c (e_id e) = Some v \<longrightarrow> \<not> wide e \<and> ev inp e = Inr v)"

fun nodes :: "z3_expr \<Rightarrow> nat" where
  "nodes (App i s d es) = Suc (sum_list (map nodes es))"

lemma cache_ok_empty [simp]: "cache_ok inp U Map.empty"
  by (simp add: cache_ok_def)

lemma cache_ok_insert:
  "shared_ctx U \<Longrightarrow> cache_ok inp U c \<Longrightarrow> e \<in> U \<Longrightarrow> \<not> wide e \<Longrightarrow> ev inp e = Inr v \<Longrightarrow>
     cache_ok inp U (c(e_id e \<mapsto> v))"
  by (auto simp: cache_ok_def shared_ctx_def dest: inj_onD)

text \<open>From state \<open>s\<close> the machine needs at most \<open>b\<close> turns to fail as \<open>out\<close> says, or to leave \<open>stk\<close> and the value.\<close>

definition lands ::
  "eval_input \<Rightarrow> z3_expr set \<Rightarrow> nat \<Rightarrow> eval_state \<Rightarrow> eval_frame list \<Rightarrow> u64 eval_result \<Rightarrow> bool"
where
  "lands inp U b s stk out \<longleftrightarrow> (\<exists>n \<le> b.
     (case out of
        Inl err \<Rightarrow> \<forall>m. eval_run inp (n + m) s = Some (Inl err)
      | Inr v \<Rightarrow> \<exists>c'. cache_ok inp U c' \<and>
          (\<forall>m. eval_run inp (n + m) s = eval_run inp m \<lparr>stack = stk, es_res = v, cache = c'\<rparr>)))"

lemma lands_mono: "lands inp U b s stk out \<Longrightarrow> b \<le> b' \<Longrightarrow> lands inp U b' s stk out"
  by (auto simp: lands_def intro: order_trans)

lemma lands_here: "cache_ok inp U c \<Longrightarrow> lands inp U b \<lparr>stack = stk, es_res = v, cache = c\<rparr> stk (Inr v)"
  unfolding lands_def by (rule exI [of _ 0]) auto

lemma lands_fail:
  assumes "stack s \<noteq> []" "eval_step inp s = Inl err"
  shows "lands inp U (Suc b) s stk (Inl err)"
  unfolding lands_def using assms by (intro exI [of _ 1]) simp

lemma lands_step:
  assumes "stack s \<noteq> []" "eval_step inp s = Inr s'" "lands inp U b s' stk out"
  shows "lands inp U (Suc b) s stk out"
proof -
  obtain n where n: "n \<le> b" "case out of Inl err \<Rightarrow> \<forall>m. eval_run inp (n + m) s' = Some (Inl err)
      | Inr v \<Rightarrow> \<exists>c'. cache_ok inp U c' \<and>
          (\<forall>m. eval_run inp (n + m) s' = eval_run inp m \<lparr>stack = stk, es_res = v, cache = c'\<rparr>)"
    using assms(3) unfolding lands_def by blast
  have "eval_run inp (Suc n + m) s = eval_run inp (n + m) s'" for m
    using assms(1,2) by simp
  with n show ?thesis
    unfolding lands_def by (intro exI [of _ "Suc n"]) (cases out; simp)
qed

lemma lands_trans:
  assumes "lands inp U b1 s stk1 (Inr v)"
    "\<And>c. cache_ok inp U c \<Longrightarrow> lands inp U b2 \<lparr>stack = stk1, es_res = v, cache = c\<rparr> stk out"
  shows "lands inp U (b1 + b2) s stk out"
proof -
  obtain n1 c where n1: "n1 \<le> b1" "cache_ok inp U c"
      "\<And>m. eval_run inp (n1 + m) s = eval_run inp m \<lparr>stack = stk1, es_res = v, cache = c\<rparr>"
    using assms(1) unfolding lands_def by auto
  obtain n2 where n2: "n2 \<le> b2" "case out of
        Inl err \<Rightarrow> \<forall>m. eval_run inp (n2 + m) \<lparr>stack = stk1, es_res = v, cache = c\<rparr> = Some (Inl err)
      | Inr w \<Rightarrow> \<exists>c'. cache_ok inp U c' \<and> (\<forall>m. eval_run inp (n2 + m) \<lparr>stack = stk1, es_res = v, cache = c\<rparr> =
          eval_run inp m \<lparr>stack = stk, es_res = w, cache = c'\<rparr>)"
    using assms(2) [OF n1(2)] unfolding lands_def by blast
  have "eval_run inp (n1 + n2 + m) s =
      eval_run inp (n2 + m) \<lparr>stack = stk1, es_res = v, cache = c\<rparr>" for m
    using n1(3) [of "n2 + m"] by (simp add: add.assoc)
  with n1(1) n2 show ?thesis
    unfolding lands_def by (intro exI [of _ "n1 + n2"]) (cases out; simp)
qed

lemma lands_fail_first:
  "lands inp U b1 s stk1 (Inl err) \<Longrightarrow> lands inp U (b1 + b2) s stk (Inl err)"
  unfolding lands_def by (auto intro: trans_le_add1)

text \<open>The turns spent on the arguments from index \<open>k\<close> on, and one for the end of the frame.\<close>

definition turns :: "z3_expr \<Rightarrow> nat \<Rightarrow> nat" where
  "turns e k = Suc (2 * sum_list (map nodes (drop k (e_args e))))"

lemma turns_nodes: "turns e 0 = 2 * nodes e - 1"
  by (cases e) (simp add: turns_def)

lemma turns_next: "k < length (e_args e) \<Longrightarrow> turns e k = 2 * nodes (e_args e ! k) + turns e (Suc k)"
  by (simp add: turns_def Cons_nth_drop_Suc [symmetric])

lemma turns_pos: "turns e k = Suc (turns e k - 1)"
  by (simp add: turns_def)

lemma sum_list_drop_mono:
  fixes f :: "'a \<Rightarrow> nat"
  shows "k \<le> k' \<Longrightarrow> sum_list (map f (drop k' xs)) \<le> sum_list (map f (drop k xs))"
  by (metis append_take_drop_id drop_drop le_add2 le_add_diff_inverse2 map_append sum_list_append)

lemma turns_mono: "k \<le> k' \<Longrightarrow> turns e k' \<le> turns e k"
  by (simp add: turns_def sum_list_drop_mono)

text \<open>A pass over an initialised frame of a node with arguments, unfolded.\<close>

definition in_frame :: "z3_expr \<Rightarrow> nat \<Rightarrow> u64 \<Rightarrow> eval_frame list \<Rightarrow> u64 \<Rightarrow> (nat \<rightharpoonup> u64) \<Rightarrow> eval_state" where
  "in_frame e k a stk r c =
     \<lparr>stack = \<lparr>m_curr = e, m_init = True, m_res = a, m_curr_arg = k\<rparr> # stk, es_res = r, cache = c\<rparr>"

lemma eval_step_in_frame:
  assumes "e_args e \<noteq> []" "\<And>i. e_decl e \<noteq> Symbol i"
  shows "eval_step inp (in_frame e k a stk r c) =
    (case eval_combine e k a r of
       Inl err \<Rightarrow> Inl err
     | Inr Done \<Rightarrow> Inr (finish (in_frame e k a stk r c) e stk r)
     | Inr (Next k' r') \<Rightarrow> eval_advance inp (in_frame e k a stk r c) stk e k' r')"
  using assms
  by (auto simp: eval_step_def in_frame_def eval_bind_def split: z3_decl.splits sum.splits outcome.splits)

text \<open>The first pass over a fresh frame is the pass with no argument evaluated yet.\<close>

lemma eval_step_fresh:
  assumes "e_args e \<noteq> []" "\<And>i. e_decl e \<noteq> Symbol i"
  shows "eval_step inp \<lparr>stack = mk_frame e # stk, es_res = r, cache = c\<rparr> = eval_step inp (in_frame e 0 0 stk 0 c)"
  using assms
  by (auto simp: eval_step_def in_frame_def mk_frame_def eval_combine_def eval_advance_def finish_def Let_def
      split: z3_decl.splits option.splits)

lemma shared_arg: "shared_ctx U \<Longrightarrow> e \<in> U \<Longrightarrow> k < length (e_args e) \<Longrightarrow> e_args e ! k \<in> U"
  unfolding shared_ctx_def using nth_mem by blast

lemma nodes_pos: "0 < nodes e"
  by (cases e) simp

lemma turns_arg:
  assumes "k \<le> k'" "k' < length (e_args e)"
  shows "Suc (2 * nodes (e_args e ! k') - 1 + turns e (k' + 1)) \<le> turns e k" "Suc (turns e (k' + 1)) \<le> turns e k"
  using turns_mono [OF assms(1), of e] turns_next [OF assms(2)] nodes_pos [of "e_args e ! k'"] by simp_all

text \<open>Leaving a frame with the value of its expression keeps the cache right.\<close>

lemma lands_finish:
  assumes "shared_ctx U" "cache_ok inp U c" "e \<in> U" "\<not> wide e" "ev inp e = Inr v"
  shows "lands inp U b (finish (in_frame e k a stk r c) e stk v) stk (Inr v)"
  unfolding finish_def by (rule lands_here) (use assms in \<open>simp add: in_frame_def cache_ok_insert\<close>)

text \<open>The three ways a pass goes on to an argument: from the cache, to Z3, or by a new frame.\<close>

lemma lands_next_arg:
  assumes U: "shared_ctx U" "e \<in> U" "\<not> wide e" and c: "cache_ok inp U c"
    and e: "e_args e \<noteq> []" "\<And>i. e_decl e \<noteq> Symbol i" and val: "ev inp e = ev_args inp e k a r"
    and k': "k \<le> k'" "k' < length (e_args e)" "eval_combine e k a r = Inr (Next k' r')"
    and adv: "eval_step inp (in_frame e k a stk r c) = eval_advance inp (in_frame e k a stk r c) stk e k' r'"
    and fin: "\<And>v. ev_args inp e k a r = Inr v \<Longrightarrow>
        eval_step inp (in_frame e k a stk r c) = Inr (finish (in_frame e k a stk r c) e stk v) \<Longrightarrow>
        lands inp U (turns e k) (in_frame e k a stk r c) stk (Inr v)"
    and err: "\<And>x. eval_step inp (in_frame e k a stk r c) = Inl x \<Longrightarrow>
        lands inp U (turns e k) (in_frame e k a stk r c) stk (Inl x)"
    and arg: "\<And>stk r0 c. \<not> wide (e_args e ! k') \<Longrightarrow> cache_ok inp U c \<Longrightarrow>
        lands inp U (2 * nodes (e_args e ! k') - 1) \<lparr>stack = mk_frame (e_args e ! k') # stk, es_res = r0, cache = c\<rparr>
          stk (ev inp (e_args e ! k'))"
    and rest: "\<And>v c. \<not> wide (e_args e ! k') \<Longrightarrow> ev inp (e_args e ! k') = Inr v \<Longrightarrow> cache_ok inp U c \<Longrightarrow>
        lands inp U (turns e (k' + 1)) (in_frame e (k' + 1) r' stk v c) stk (ev_args inp e (k' + 1) r' v)"
  shows "lands inp U (turns e k) (in_frame e k a stk r c) stk (ev_args inp e k a r)"
proof -
  let ?s = "in_frame e k a stk r c" and ?x = "e_args e ! k'"
  have ne: "stack ?s \<noteq> []" by (simp add: in_frame_def)
  have xU: "?x \<in> U" using shared_arg [OF U(1,2) k'(2)] .
  have eva: "ev_args inp e k a r = (if wide ?x then z3_internal_eval inp e
      else case ev inp ?x of Inl y \<Rightarrow> Inl y | Inr v \<Rightarrow> ev_args inp e (k' + 1) r' v)"
    using k' by (simp add: ev_args.simps [of inp e k a r])
  note turn = turns_arg [OF k'(1,2)]
  show ?thesis
  proof (cases "c (e_id ?x)")
    case (Some v)
    then have x: "\<not> wide ?x" "ev inp ?x = Inr v" using c xU by (auto simp: cache_ok_def)
    have "eval_step inp ?s = Inr (in_frame e (k' + 1) r' stk v c)"
      using adv k'(2) Some by (simp add: eval_advance_def in_frame_def)
    from lands_step [OF ne this rest [OF x c]] show ?thesis
      using x turn(2) by (simp add: eva lands_mono)
  next
    case None
    show ?thesis
    proof (cases "wide ?x")
      case True
      then show ?thesis
        using fin err adv k'(2) None
        by (cases "z3_internal_eval inp e") (auto simp: eva eval_advance_def in_frame_def)
    next
      case nw: False
      let ?f = "\<lparr>m_curr = e, m_init = True, m_res = r', m_curr_arg = k' + 1\<rparr>"
      have step: "eval_step inp ?s = Inr \<lparr>stack = mk_frame ?x # ?f # stk, es_res = r', cache = c\<rparr>"
        using adv k'(2) None nw by (simp add: eval_advance_def in_frame_def)
      have "lands inp U (2 * nodes ?x - 1 + turns e (k' + 1))
          \<lparr>stack = mk_frame ?x # ?f # stk, es_res = r', cache = c\<rparr> stk (ev_args inp e k a r)"
      proof (cases "ev inp ?x")
        case (Inl y)
        with arg [OF nw c, of "?f # stk" r'] nw show ?thesis by (simp add: eva lands_fail_first)
      next
        case (Inr v)
        show ?thesis
          using lands_trans [OF arg [OF nw c, of "?f # stk" r', unfolded Inr]] rest [OF nw Inr] nw Inr
          by (simp add: eva in_frame_def)
      qed
      from lands_mono [OF lands_step [OF ne step this] turn(1)] show ?thesis .
    qed
  qed
qed

text \<open>One pass, given what the passes after it and the evaluation of the next argument do.\<close>

lemma lands_pass:
  assumes U: "shared_ctx U" "e \<in> U" "\<not> wide e" and c: "cache_ok inp U c"
    and e: "e_args e \<noteq> []" "\<And>i. e_decl e \<noteq> Symbol i" and val: "ev inp e = ev_args inp e k a r"
    and arg: "\<And>k' r' stk r0 c. eval_combine e k a r = Inr (Next k' r') \<Longrightarrow> k' < length (e_args e) \<Longrightarrow>
        \<not> wide (e_args e ! k') \<Longrightarrow> cache_ok inp U c \<Longrightarrow>
        lands inp U (2 * nodes (e_args e ! k') - 1) \<lparr>stack = mk_frame (e_args e ! k') # stk, es_res = r0, cache = c\<rparr>
          stk (ev inp (e_args e ! k'))"
    and rest: "\<And>k' r' v c. eval_combine e k a r = Inr (Next k' r') \<Longrightarrow> k' < length (e_args e) \<Longrightarrow>
        \<not> wide (e_args e ! k') \<Longrightarrow> ev inp (e_args e ! k') = Inr v \<Longrightarrow> cache_ok inp U c \<Longrightarrow>
        lands inp U (turns e (k' + 1)) (in_frame e (k' + 1) r' stk v c) stk (ev_args inp e (k' + 1) r' v)"
  shows "lands inp U (turns e k) (in_frame e k a stk r c) stk (ev_args inp e k a r)"
proof -
  let ?s = "in_frame e k a stk r c"
  have ne: "stack ?s \<noteq> []" by (simp add: in_frame_def)
  note step = eval_step_in_frame [OF e, of inp k a stk r c]
  have fin: "lands inp U (turns e k) ?s stk (Inr v)"
    if "ev_args inp e k a r = Inr v" "eval_step inp ?s = Inr (finish ?s e stk v)" for v
    by (subst turns_pos) (rule lands_step [OF ne that(2) lands_finish [OF U(1) c U(2,3)]], simp add: val that(1))
  have err: "lands inp U (turns e k) ?s stk (Inl x)" if "eval_step inp ?s = Inl x" for x
    by (subst turns_pos) (rule lands_fail [OF ne that])
  consider x where "eval_combine e k a r = Inl x" | "eval_combine e k a r = Inr Done"
    | k' r' where "eval_combine e k a r = Inr (Next k' r')"
    by (metis outcome.exhaust sum.exhaust)
  then show ?thesis
  proof cases
    case 1 then show ?thesis using err [of x] by (simp add: step ev_args.simps [of inp e k a r])
  next
    case 2 then show ?thesis using fin [of r] by (simp add: step ev_args.simps [of inp e k a r])
  next
    case 3
    then have le: "k \<le> k'" by (rule eval_combine_mono)
    have adv: "eval_step inp ?s = eval_advance inp ?s stk e k' r'" using 3 by (simp add: step)
    show ?thesis
    proof (cases "k' < length (e_args e)")
      case False
      then show ?thesis using fin [of r'] 3 by (simp add: adv eval_advance_def ev_args.simps [of inp e k a r])
    next
      case lt: True
      show ?thesis
        using lands_next_arg [OF U c e val le lt 3 adv fin err arg [OF 3 lt] rest [OF 3 lt]] .
    qed
  qed
qed

text \<open>A node that is a symbol or has no arguments takes one turn.\<close>

lemma lands_leaf:
  assumes U: "shared_ctx U" "e \<in> U" "\<not> wide e" and c: "cache_ok inp U c"
    and leaf: "e_args e = [] \<or> (\<exists>i. e_decl e = Symbol i)"
  shows "lands inp U (2 * nodes e - 1) \<lparr>stack = mk_frame e # stk, es_res = r, cache = c\<rparr> stk (ev inp e)"
proof -
  let ?s = "\<lparr>stack = mk_frame e # stk, es_res = r, cache = c\<rparr>"
  have b: "2 * nodes e - 1 = Suc (2 * nodes e - 2)" using nodes_pos [of e] by simp
  have ne: "stack ?s \<noteq> []" by simp
  show ?thesis
  proof (cases "ev inp e")
    case (Inl x)
    then have "eval_step inp ?s = Inl x"
      using leaf by (auto simp: ev.simps eval_step_def mk_frame_def eval_bind_def split: z3_decl.splits sum.splits)
    then show ?thesis unfolding b Inl by (rule lands_fail [OF ne])
  next
    case (Inr v)
    then have "eval_step inp ?s = Inr \<lparr>stack = stk, es_res = v, cache = c\<rparr> \<or>
        eval_step inp ?s = Inr \<lparr>stack = stk, es_res = v, cache = c(e_id e \<mapsto> v)\<rparr>"
      using leaf by (auto simp: ev.simps eval_step_def mk_frame_def eval_bind_def finish_def
          split: z3_decl.splits sum.splits)
    then obtain c' where step: "eval_step inp ?s = Inr \<lparr>stack = stk, es_res = v, cache = c'\<rparr>"
        "c' = c \<or> c' = c(e_id e \<mapsto> v)" by blast
    then have "cache_ok inp U c'" using cache_ok_insert [OF U(1) c U(2,3) Inr] c by auto
    then show ?thesis unfolding b Inr by (rule lands_step [OF ne step(1) lands_here])
  qed
qed

lemma lands_fresh:
  assumes "e_args e \<noteq> []" "\<And>i. e_decl e \<noteq> Symbol i"
    "lands inp U b (in_frame e 0 0 stk 0 c) stk out"
  shows "lands inp U b \<lparr>stack = mk_frame e # stk, es_res = r, cache = c\<rparr> stk out"
proof -
  have "eval_run inp m \<lparr>stack = mk_frame e # stk, es_res = r, cache = c\<rparr> = eval_run inp m (in_frame e 0 0 stk 0 c)" for m
    using eval_step_fresh [OF assms(1,2), of inp stk r c] by (cases m) (simp_all add: in_frame_def)
  with assms(3) show ?thesis unfolding lands_def by (cases out) simp_all
qed

lemma lands_ev_both:
  assumes U: "shared_ctx U"
  shows "e \<in> U \<Longrightarrow> \<not> wide e \<Longrightarrow> cache_ok inp U c \<Longrightarrow>
      lands inp U (2 * nodes e - 1) \<lparr>stack = mk_frame e # stk, es_res = r0, cache = c\<rparr> stk (ev inp e)"
    and "e \<in> U \<Longrightarrow> \<not> wide e \<Longrightarrow> cache_ok inp U c \<Longrightarrow> e_args e \<noteq> [] \<Longrightarrow> (\<And>i. e_decl e \<noteq> Symbol i) \<Longrightarrow>
      ev inp e = ev_args inp e k a r \<Longrightarrow>
      lands inp U (turns e k) (in_frame e k a stk r c) stk (ev_args inp e k a r)"
proof (induction inp e and inp e k a r arbitrary: stk r0 c and stk c rule: ev_ev_args.induct)
  case (1 inp e)
  show ?case
  proof (cases "e_args e = [] \<or> (\<exists>i. e_decl e = Symbol i)")
    case True
    then show ?thesis by (rule lands_leaf [OF U "1.prems"])
  next
    case False
    have val: "ev inp e = ev_args inp e 0 0 0"
      using False by (auto simp: ev.simps split: z3_decl.splits)
    have "lands inp U (turns e 0) (in_frame e 0 0 stk 0 c) stk (ev_args inp e 0 0 0)"
      using "1.IH" False "1.prems" val by (cases "e_decl e") auto
    then show ?thesis
      using False unfolding val turns_nodes [symmetric] by (intro lands_fresh) auto
  qed
next
  case (2 inp e k a r)
  show ?case
  proof (rule lands_pass [OF U "2.prems"])
    fix k' r' stk r0 c
    assume n: "eval_combine e k a r = Inr (Next k' r')" "k' < length (e_args e)" "\<not> wide (e_args e ! k')"
      "cache_ok inp U c"
    then show "lands inp U (2 * nodes (e_args e ! k') - 1)
        \<lparr>stack = mk_frame (e_args e ! k') # stk, es_res = r0, cache = c\<rparr> stk (ev inp (e_args e ! k'))"
      using "2.IH"(1) [OF n(1) refl n(2) refl n(3) shared_arg [OF U "2.prems"(1) n(2)] n(3,4)] by simp
  next
    fix k' r' v c
    assume n: "eval_combine e k a r = Inr (Next k' r')" "k' < length (e_args e)" "\<not> wide (e_args e ! k')"
      "ev inp (e_args e ! k') = Inr v" "cache_ok inp U c"
    then have "ev inp e = ev_args inp e (k' + 1) r' v"
      using "2.prems"(6) by (simp add: ev_args.simps [of inp e k a r])
    then show "lands inp U (turns e (k' + 1)) (in_frame e (k' + 1) r' stk v c) stk (ev_args inp e (k' + 1) r' v)"
      using "2.IH"(2) [OF n(1) refl n(2) refl n(3,4) "2.prems"(1,2) n(5) "2.prems"(4,5)] by simp
  qed
qed

text \<open>Twice the number of nodes is enough fuel, and the call then agrees with \<open>ev\<close>.\<close>

lemma eval_iter_ev:
  assumes "shared_ctx U" "e \<in> U" "\<not> wide e" "cache_ok inp U c" "2 * nodes e \<le> fuel"
  shows "case ev inp e of
           Inl err \<Rightarrow> Z3_custom_eval_internal_iter inp fuel c e = Some (Inl err)
         | Inr v \<Rightarrow> \<exists>c'. cache_ok inp U c' \<and> Z3_custom_eval_internal_iter inp fuel c e = Some (Inr (v, c'))"
proof (cases "c (e_id e)")
  case (Some v)
  then have "ev inp e = Inr v" using assms(2,4) by (simp add: cache_ok_def)
  with Some assms(4) show ?thesis by (simp add: Z3_custom_eval_internal_iter_def)
next
  case None
  have "lands inp U (2 * nodes e - 1) \<lparr>stack = [mk_frame e], es_res = 0, cache = c\<rparr> [] (ev inp e)"
    by (rule lands_ev_both(1) [OF assms(1-4)])
  then obtain n where n: "n \<le> 2 * nodes e - 1" "case ev inp e of
        Inl err \<Rightarrow> \<forall>m. eval_run inp (n + m) \<lparr>stack = [mk_frame e], es_res = 0, cache = c\<rparr> = Some (Inl err)
      | Inr v \<Rightarrow> \<exists>c'. cache_ok inp U c' \<and> (\<forall>m. eval_run inp (n + m) \<lparr>stack = [mk_frame e], es_res = 0, cache = c\<rparr> =
          eval_run inp m \<lparr>stack = [], es_res = v, cache = c'\<rparr>)"
    unfolding lands_def by blast
  have "n < fuel" using n(1) assms(5) nodes_pos [of e] by linarith
  then obtain m where m: "fuel = n + Suc m" using less_imp_Suc_add [of n fuel] by auto
  show ?thesis
  proof (cases "ev inp e")
    case (Inl err)
    then have "eval_run inp fuel \<lparr>stack = [mk_frame e], es_res = 0, cache = c\<rparr> = Some (Inl err)"
      using n(2) unfolding Inl m sum.case by blast
    with Inl None show ?thesis by (simp add: Z3_custom_eval_internal_iter_def)
  next
    case (Inr v)
    obtain c' where c': "cache_ok inp U c'" "eval_run inp fuel \<lparr>stack = [mk_frame e], es_res = 0, cache = c\<rparr> =
        eval_run inp (Suc m) \<lparr>stack = [], es_res = v, cache = c'\<rparr>"
      using n(2) unfolding Inr m sum.case by blast
    with Inr None show ?thesis by (simp add: Z3_custom_eval_internal_iter_def)
  qed
qed

text \<open>The conjuncts counted by \<open>ev\<close>, stopping at the first that is false or fails.\<close>

fun ev_depth :: "eval_input \<Rightarrow> z3_expr list \<Rightarrow> nat \<Rightarrow> (u64 \<times> nat) eval_result" where
  "ev_depth inp [] depth = Inr (1, depth)"
| "ev_depth inp (e # es) depth =
     (case ev inp e of Inl err \<Rightarrow> Inl err
      | Inr v \<Rightarrow> if v = 0 then Inr (0, depth) else ev_depth inp es (depth + 1))"

lemma eval_conjuncts_ev:
  assumes "shared_ctx U" "set es \<subseteq> U" "\<forall>e \<in> set es. \<not> wide e" "cache_ok inp U c"
    "\<forall>e \<in> set es. 2 * nodes e \<le> fuel"
  shows "eval_conjuncts inp fuel c es depth = Some (ev_depth inp es depth)"
  using assms(2-5)
proof (induction es arbitrary: c depth)
  case Nil
  then show ?case by simp
next
  case (Cons e es)
  have "case ev inp e of
         Inl err \<Rightarrow> Z3_custom_eval_internal_iter inp fuel c e = Some (Inl err)
       | Inr v \<Rightarrow> \<exists>c'. cache_ok inp U c' \<and> Z3_custom_eval_internal_iter inp fuel c e = Some (Inr (v, c'))"
    using eval_iter_ev [OF assms(1) _ _ Cons.prems(3)] Cons.prems by simp
  with Cons.IH Cons.prems show ?case by (cases "ev inp e") auto
qed

lemma Z3_custom_eval_ev:
  assumes "shared_ctx U" "e \<in> U" "\<not> wide e" "2 * nodes e \<le> fuel"
  shows "Z3_custom_eval inp fuel e = Some (ev inp e)"
  using eval_iter_ev [OF assms(1-3) cache_ok_empty assms(4), of inp]
  by (cases "ev inp e") (auto simp: Z3_custom_eval_def)

section \<open>Expressions as trees with distinct ids\<close>

text \<open>The subexpressions of an expression form a context when ids identify them.\<close>

fun subexprs :: "z3_expr \<Rightarrow> z3_expr list" where
  "subexprs (App i s d es) = App i s d es # concat (map subexprs es)"

lemma subexprs_self: "e \<in> set (subexprs e)"
  by (cases e) simp

lemma subexprs_args: "x \<in> set (subexprs e) \<Longrightarrow> a \<in> set (e_args x) \<Longrightarrow> a \<in> set (subexprs e)"
  by (induction e rule: subexprs.induct) (auto intro: subexprs_self)

definition ids_distinct :: "z3_expr \<Rightarrow> bool" where
  "ids_distinct e \<longleftrightarrow> (\<forall>x \<in> set (subexprs e). \<forall>y \<in> set (subexprs e). e_id x = e_id y \<longrightarrow> x = y)"

lemma shared_subexprs: "ids_distinct e \<Longrightarrow> shared_ctx (set (subexprs e))"
  unfolding shared_ctx_def ids_distinct_def inj_on_def using subexprs_args by blast

end
