(* ===== verification/Z3_Semantics.thy ===== *)
theory Z3_Semantics
  imports Z3_Eval
begin

text \<open>
  The meaning of the expressions \<^verbatim>\<open>Z3_custom_eval\<close> evaluates, after the SMT-LIB theory of
  fixed-size bit vectors, on integers without a bound on the width, and the proof that the
  evaluator computes it wherever the C++ operators it uses are defined.
\<close>

section \<open>Meaning of the operators\<close>

text \<open>The two's complement reading of an \<open>n\<close>-bit value.\<close>

definition sgn_val :: "nat \<Rightarrow> int \<Rightarrow> int" where
  "sgn_val n a = (if a < 2 ^ (n - 1) then a else a - 2 ^ n)"

definition smt_sdiv :: "nat \<Rightarrow> int \<Rightarrow> int \<Rightarrow> int" where
  "smt_sdiv n a b =
     (if b = 0 then if sgn_val n a < 0 then 1 else 2 ^ n - 1 else (sgn_val n a sdiv sgn_val n b) mod 2 ^ n)"

definition smt_srem :: "nat \<Rightarrow> int \<Rightarrow> int \<Rightarrow> int" where
  "smt_srem n a b = (if b = 0 then a else (sgn_val n a smod sgn_val n b) mod 2 ^ n)"

definition smt_udiv :: "nat \<Rightarrow> int \<Rightarrow> int \<Rightarrow> int" where
  "smt_udiv n a b = (if b = 0 then 2 ^ n - 1 else a div b)"

definition smt_urem :: "int \<Rightarrow> int \<Rightarrow> int" where
  "smt_urem a b = (if b = 0 then a else a mod b)"

definition smt_rotr :: "nat \<Rightarrow> nat \<Rightarrow> int \<Rightarrow> int" where
  "smt_rotr n k a = (let r = k mod n in (a mod 2 ^ r) * 2 ^ (n - r) + a div 2 ^ r)"

definition smt_rotl :: "nat \<Rightarrow> nat \<Rightarrow> int \<Rightarrow> int" where
  "smt_rotl n k a = smt_rotr n (n - k mod n) a"

text \<open>
  The first argument alone: the result of a unary operator, the argument itself for the
  others. \<open>n\<close> is the width of the result, \<open>m\<close> that of the argument.
\<close>

definition smt_first :: "bv_kind \<Rightarrow> int list \<Rightarrow> nat \<Rightarrow> nat \<Rightarrow> int \<Rightarrow> int" where
  "smt_first kind ps n m a =
     (case kind of
        OP_BNEG \<Rightarrow> (- a) mod 2 ^ n
      | OP_BNOT \<Rightarrow> 2 ^ n - 1 - a
      | OP_SIGN_EXT \<Rightarrow> sgn_val m a mod 2 ^ n
      | OP_EXTRACT \<Rightarrow> (a div 2 ^ nat (ps ! 1)) mod 2 ^ n
      | OP_ROTATE_LEFT \<Rightarrow> smt_rotl n (nat (ps ! 0)) a
      | OP_ROTATE_RIGHT \<Rightarrow> smt_rotr n (nat (ps ! 0)) a
      | _ \<Rightarrow> a)"

text \<open>
  A further argument \<open>b\<close> of width \<open>m\<close>, after the value \<open>a\<close> of those before it: the binary
  operators, the associative ones from the left. For comparisons \<open>m\<close> is the common width.
\<close>

definition smt_later :: "bv_kind \<Rightarrow> nat \<Rightarrow> nat \<Rightarrow> int \<Rightarrow> int \<Rightarrow> int" where
  "smt_later kind n m a b =
     (case kind of
        OP_BADD \<Rightarrow> (a + b) mod 2 ^ n
      | OP_BSUB \<Rightarrow> (a - b) mod 2 ^ n
      | OP_BMUL \<Rightarrow> (a * b) mod 2 ^ n
      | OP_BSDIV \<Rightarrow> smt_sdiv n a b | OP_BSDIV_I \<Rightarrow> smt_sdiv n a b
      | OP_BUDIV \<Rightarrow> smt_udiv n a b | OP_BUDIV_I \<Rightarrow> smt_udiv n a b
      | OP_BSREM \<Rightarrow> smt_srem n a b | OP_BSREM_I \<Rightarrow> smt_srem n a b
      | OP_BUREM \<Rightarrow> smt_urem a b | OP_BUREM_I \<Rightarrow> smt_urem a b
      | OP_ULEQ \<Rightarrow> of_bool (a \<le> b) | OP_UGEQ \<Rightarrow> of_bool (a \<ge> b)
      | OP_ULT \<Rightarrow> of_bool (a < b) | OP_UGT \<Rightarrow> of_bool (a > b)
      | OP_SLEQ \<Rightarrow> of_bool (sgn_val m a \<le> sgn_val m b) | OP_SGEQ \<Rightarrow> of_bool (sgn_val m a \<ge> sgn_val m b)
      | OP_SLT \<Rightarrow> of_bool (sgn_val m a < sgn_val m b) | OP_SGT \<Rightarrow> of_bool (sgn_val m a > sgn_val m b)
      | OP_BAND \<Rightarrow> a AND b | OP_BOR \<Rightarrow> a OR b | OP_BXOR \<Rightarrow> a XOR b
      | OP_CONCAT \<Rightarrow> a * 2 ^ m + b
      | OP_BSHL \<Rightarrow> (a * 2 ^ nat b) mod 2 ^ n
      | OP_BLSHR \<Rightarrow> a div 2 ^ nat b
      | OP_BASHR \<Rightarrow> (sgn_val n a div 2 ^ nat b) mod 2 ^ n
      | _ \<Rightarrow> b)"

fun bv_width :: "z3_sort \<Rightarrow> nat" where
  "bv_width (BvSort n) = n"
| "bv_width BoolSort = 1"

text \<open>The value of an operator on the widths and values of its arguments.\<close>

definition smt_bv :: "bv_kind \<Rightarrow> int list \<Rightarrow> nat \<Rightarrow> (nat \<times> int) list \<Rightarrow> int" where
  "smt_bv kind ps n mvs =
     (case mvs of
        [] \<Rightarrow> (case kind of OP_BV_NUM \<Rightarrow> ps ! 0 | OP_BIT1 \<Rightarrow> 1 | _ \<Rightarrow> 0)
      | (m, v) # rest \<Rightarrow> foldl (\<lambda>a (m', b). smt_later kind n m' a b) (smt_first kind ps n m v) rest)"

definition smt_basic :: "basic_kind \<Rightarrow> int list \<Rightarrow> int" where
  "smt_basic kind vs =
     (case kind of
        OP_TRUE \<Rightarrow> 1
      | OP_FALSE \<Rightarrow> 0
      | OP_NOT \<Rightarrow> of_bool (vs ! 0 = 0)
      | OP_ITE \<Rightarrow> if vs ! 0 \<noteq> 0 then vs ! 1 else vs ! 2
      | OP_AND \<Rightarrow> of_bool (\<forall>v \<in> set vs. v \<noteq> 0)
      | OP_OR \<Rightarrow> of_bool (\<exists>v \<in> set vs. v \<noteq> 0)
      | OP_EQ \<Rightarrow> of_bool (vs ! 0 = vs ! 1)
      | OP_BASIC_OTHER _ \<Rightarrow> 0)"

text \<open>The value of an expression; Booleans are 0 and 1. \<open>env\<close> gives the input symbols.\<close>

fun smt :: "(nat \<Rightarrow> int) \<Rightarrow> z3_expr \<Rightarrow> int" where
  "smt env (App i s d es) =
     (case d of
        Symbol j \<Rightarrow> env (nat j) mod 2 ^ bv_width s
      | BvDecl kind ps \<Rightarrow> smt_bv kind ps (bv_width s) (map (\<lambda>e. (bv_width (e_sort e), smt env e)) es)
      | BasicDecl kind \<Rightarrow> smt_basic kind (map (smt env) es))"

section \<open>Sorts\<close>

definition compare_kind :: "bv_kind \<Rightarrow> bool" where
  "compare_kind kind \<longleftrightarrow> kind \<in> {OP_ULEQ, OP_SLEQ, OP_UGEQ, OP_SGEQ, OP_ULT, OP_SLT, OP_UGT, OP_SGT}"

definition arith_kind :: "bv_kind \<Rightarrow> bool" where
  "arith_kind kind \<longleftrightarrow> kind \<in> {OP_BADD, OP_BSUB, OP_BMUL, OP_BSDIV, OP_BUDIV, OP_BSREM, OP_BUREM, OP_BAND,
     OP_BOR, OP_BXOR, OP_BSHL, OP_BLSHR, OP_BASHR, OP_BSDIV_I, OP_BUDIV_I, OP_BSREM_I, OP_BUREM_I}"

text \<open>Well-sorted applications of the bit-vector operators, by result sort and argument sorts.\<close>

definition wt_bv :: "bv_kind \<Rightarrow> int list \<Rightarrow> z3_sort \<Rightarrow> z3_sort list \<Rightarrow> bool" where
  "wt_bv kind ps s ss =
     (case ss of
        [] \<Rightarrow> (case s of BvSort n \<Rightarrow> 1 \<le> n \<and>
                (kind = OP_BV_NUM \<and> ps \<noteq> [] \<and> 0 \<le> ps ! 0 \<and> ps ! 0 < 2 ^ n \<or>
                 n = 1 \<and> (kind = OP_BIT1 \<or> kind = OP_BIT0))
              | BoolSort \<Rightarrow> False)
      | s1 # ss' \<Rightarrow>
          (case s1 of BoolSort \<Rightarrow> False
           | BvSort m \<Rightarrow>
             if compare_kind kind then s = BoolSort \<and> ss' = [s1]
             else case s of BoolSort \<Rightarrow> False
             | BvSort n \<Rightarrow>
                 if kind \<in> {OP_BNEG, OP_BNOT} then ss' = [] \<and> n = m
                 else if kind \<in> {OP_ROTATE_LEFT, OP_ROTATE_RIGHT} then ss' = [] \<and> n = m \<and> ps \<noteq> [] \<and> 0 \<le> ps ! 0
                 else if kind \<in> {OP_SIGN_EXT, OP_ZERO_EXT} then ss' = [] \<and> ps \<noteq> [] \<and> 0 \<le> ps ! 0 \<and> n = m + nat (ps ! 0)
                 else if kind = OP_EXTRACT then
                   ss' = [] \<and> 2 \<le> length ps \<and> 0 \<le> ps ! 1 \<and> ps ! 1 \<le> ps ! 0 \<and> ps ! 0 < int m \<and>
                   int n = ps ! 0 - ps ! 1 + 1
                 else if kind = OP_CONCAT then
                   ss' \<noteq> [] \<and> (\<forall>t \<in> set ss'. t \<noteq> BoolSort) \<and> n = sum_list (map bv_width ss)
                 else arith_kind kind \<and> n = m \<and> ss' \<noteq> [] \<and> (\<forall>t \<in> set ss'. t = s) \<and>
                   (length ss' = 1 \<or> kind \<in> {OP_BADD, OP_BMUL, OP_BAND, OP_BOR, OP_BXOR})))"

definition wt_basic :: "basic_kind \<Rightarrow> z3_sort \<Rightarrow> z3_sort list \<Rightarrow> bool" where
  "wt_basic kind s ss =
     (case kind of
        OP_TRUE \<Rightarrow> s = BoolSort \<and> ss = []
      | OP_FALSE \<Rightarrow> s = BoolSort \<and> ss = []
      | OP_NOT \<Rightarrow> s = BoolSort \<and> ss = [BoolSort]
      | OP_ITE \<Rightarrow> ss = [BoolSort, s, s]
      | OP_AND \<Rightarrow> s = BoolSort \<and> ss \<noteq> [] \<and> (\<forall>t \<in> set ss. t = BoolSort)
      | OP_OR \<Rightarrow> s = BoolSort \<and> ss \<noteq> [] \<and> (\<forall>t \<in> set ss. t = BoolSort)
      | OP_EQ \<Rightarrow> s = BoolSort \<and> (\<exists>t. ss = [t, t])
      | OP_BASIC_OTHER _ \<Rightarrow> False)"

definition wt_node :: "nat \<Rightarrow> z3_expr \<Rightarrow> bool" where
  "wt_node n_data e \<longleftrightarrow>
     (case e_sort e of BvSort n \<Rightarrow> 1 \<le> n | BoolSort \<Rightarrow> True) \<and>
     (case e_decl e of
        Symbol i \<Rightarrow> e_args e = [] \<and> e_sort e \<noteq> BoolSort \<and> 0 \<le> i \<and> nat i < n_data
      | BvDecl kind ps \<Rightarrow> wt_bv kind ps (e_sort e) (map e_sort (e_args e))
      | BasicDecl kind \<Rightarrow> wt_basic kind (e_sort e) (map e_sort (e_args e)))"

definition well_sorted :: "nat \<Rightarrow> z3_expr \<Rightarrow> bool" where
  "well_sorted n_data e \<longleftrightarrow> (\<forall>x \<in> set (subexprs e). wt_node n_data x)"

section \<open>Where the C++ operators are defined\<close>

text \<open>
  The operands on which the operators the evaluator uses have defined behaviour: shift amounts
  below the width of the promoted type, no signed division that overflows, rotations of
  machine widths, sign extension by at least one bit.
\<close>

definition c_defined :: "bv_kind \<Rightarrow> int list \<Rightarrow> nat \<Rightarrow> int list \<Rightarrow> bool" where
  "c_defined kind ps n vs =
     (case kind of
        OP_SIGN_EXT \<Rightarrow> 1 \<le> ps ! 0
      | OP_ROTATE_LEFT \<Rightarrow> n \<in> {8, 16, 32, 64}
      | OP_ROTATE_RIGHT \<Rightarrow> n \<in> {8, 16, 32, 64}
      | OP_BSHL \<Rightarrow> vs ! 1 < 64
      | OP_BLSHR \<Rightarrow> vs ! 1 < 64
      | OP_BASHR \<Rightarrow> 0 \<le> sgn_val n (vs ! 1) \<and> sgn_val n (vs ! 1) < (if n \<in> {8, 16, 32} then 32 else 64)
      | _ \<Rightarrow> kind \<in> {OP_BSDIV, OP_BSDIV_I, OP_BSREM, OP_BSREM_I} \<and> n \<in> {32, 64} \<longrightarrow>
               \<not> (sgn_val n (vs ! 0) = - (2 ^ (n - 1)) \<and> sgn_val n (vs ! 1) = - 1))"

definition ub_free :: "(nat \<Rightarrow> int) \<Rightarrow> z3_expr \<Rightarrow> bool" where
  "ub_free env e \<longleftrightarrow> (\<forall>x \<in> set (subexprs e).
     case e_decl x of
       BvDecl kind ps \<Rightarrow> \<not> wide x \<and> (\<forall>a \<in> set (e_args x). \<not> wide a) \<longrightarrow>
         c_defined kind ps (bv_width (e_sort x)) (map (smt env) (e_args x))
     | _ \<Rightarrow> True)"

section \<open>The operators on words\<close>

lemma uint_bound_mod: "uint a < 2 ^ n \<Longrightarrow> uint a mod 2 ^ n = uint (a :: u64)"
  by simp

lemma uint_of_bool64 [simp]: "uint (of_bool64 b) = of_bool b"
  by (simp add: of_bool64_def)

lemma masked_eq:
  assumes "e_sort e = BvSort n" "1 \<le> n" "n \<le> 64"
  shows "masked e v = Inr (v AND size_mask n)" "uint (v AND size_mask n) = uint v mod 2 ^ n"
  using assms by (simp_all add: masked_def MASK_SIZE_def SIZE_def MASK_def uint_and_size_mask)

text \<open>Cutting a signed result to the width.\<close>

lemma uint_word_of_int_mask:
  assumes "1 \<le> n" "n \<le> 64"
  shows "uint ((word_of_int r :: u64) AND size_mask n) = r mod 2 ^ n"
proof -
  have "uint (word_of_int r :: u64) = r mod 2 ^ 64"
    by (subst unsigned_of_int) (simp add: take_bit_eq_mod)
  then show ?thesis
    using assms uint_mod_mod_size [of n r] by (simp add: uint_and_size_mask)
qed

lemma signed_take_bit_sgn_val:
  assumes "1 \<le> n" "0 \<le> a" "a < 2 ^ n"
  shows "signed_take_bit (n - 1) a = sgn_val n a"
proof -
  have N: "(2 :: int) ^ n = 2 * 2 ^ (n - 1)" using assms(1) by (simp flip: power_Suc)
  have "take_bit n (a + 2 ^ (n - 1)) = (a + 2 ^ (n - 1)) mod 2 ^ n" by (simp add: take_bit_eq_mod)
  also have "\<dots> = (if a < 2 ^ (n - 1) then a + 2 ^ (n - 1) else a + 2 ^ (n - 1) - 2 ^ n)"
  proof (cases "a < 2 ^ (n - 1)")
    case False
    have "(a + 2 ^ (n - 1)) mod 2 ^ n = (a + 2 ^ (n - 1) - 2 ^ n) mod 2 ^ n" by simp
    also have "\<dots> = a + 2 ^ (n - 1) - 2 ^ n" using False assms N by (intro mod_pos_pos_trivial) auto
    finally show ?thesis using False by simp
  qed (use assms N in auto)
  finally have "take_bit n (a + 2 ^ (n - 1)) - 2 ^ (n - 1) = sgn_val n a"
    by (auto simp: sgn_val_def)
  then show ?thesis
    using assms(1) signed_take_bit_eq_take_bit_shift [of "n - 1" a] by simp
qed

lemma c_int_sgn_val: "1 \<le> n \<Longrightarrow> uint a < 2 ^ n \<Longrightarrow> c_int n a = sgn_val n (uint a)"
  unfolding c_int_def by (rule signed_take_bit_sgn_val) simp_all

lemma bit_uint64: "bit (uint (a :: u64)) i = bit a i"
  using bit_imp_le_length [of a i] by (auto simp: bit_unsigned_iff)

lemma not_bit_beyond: "uint (a :: u64) < 2 ^ n \<Longrightarrow> n \<le> i \<Longrightarrow> \<not> bit a i"
  by (metis bit_uint64 bit_take_bit_iff linorder_not_le take_bit_int_eq_self uint_nonnegative)

lemma and_bit_test: "((a :: u64) AND push_bit k 1 \<noteq> 0) = bit a k"
  by (simp add: and_exp_eq_0_iff_not_bit)

lemma bit_top_sgn:
  assumes "1 \<le> n" "uint (a :: u64) < 2 ^ n"
  shows "bit a (n - 1) = (sgn_val n (uint a) < 0)"
proof -
  have N: "(2 :: int) ^ n = 2 * 2 ^ (n - 1)" using assms(1) by (simp flip: power_Suc)
  have "bit (uint a) (n - 1) = (2 ^ (n - 1) \<le> uint a)"
  proof (cases "uint a < 2 ^ (n - 1)")
    case True
    then show ?thesis by (simp add: bit_iff_odd)
  next
    case False
    then have "uint a div 2 ^ (n - 1) = 1"
      using assms(2) N div_pos_pos_trivial [of "uint a - 2 ^ (n - 1)" "2 ^ (n - 1)"]
        div_add_self2 [of "2 ^ (n - 1)" "uint a - 2 ^ (n - 1)"] by simp
    with False show ?thesis by (simp add: bit_iff_odd)
  qed
  then show ?thesis
    using assms by (auto simp: bit_uint64 sgn_val_def)
qed

lemma c_int_sext_bits:
  assumes "1 \<le> n" "n < 64" "uint a < 2 ^ n"
  shows "c_int 64 (sext_bits n a) = sgn_val n (uint a)"
proof -
  have m: "size_mask (64 - n) = mask (64 - n)" using assms by (simp add: size_mask_eq)
  have ext: "sext_bits n a = (if bit a (n - 1) then a OR push_bit n (mask (64 - n)) else a)"
    unfolding sext_bits_def and_bit_test m ..
  have high: "bit (sext_bits n a) j = bit a (n - 1)" if "n \<le> j" "j < 64" for j
    using that not_bit_beyond [OF assms(3) that(1)]
    by (auto simp: ext bit_or_iff bit_push_bit_iff bit_mask_iff)
  have low: "bit (sext_bits n a) j = bit a j" if "j < n" for j
    using that by (simp add: ext bit_or_iff bit_push_bit_iff)
  have "signed_take_bit 63 (uint (sext_bits n a)) = signed_take_bit (n - 1) (uint a)"
  proof (rule bit_eqI)
    fix i
    show "bit (signed_take_bit 63 (uint (sext_bits n a))) i = bit (signed_take_bit (n - 1) (uint a)) i"
    proof (cases "i < n")
      case True
      then have "min 63 i = i" "min (n - 1) i = i" using assms by auto
      with low [OF True] show ?thesis by (simp add: bit_signed_take_bit_iff bit_uint64)
    next
      case False
      then have "n \<le> min 63 i" "min 63 i < 64" "min (n - 1) i = n - 1" using assms by auto
      with high [of "min 63 i"] show ?thesis by (simp add: bit_signed_take_bit_iff bit_uint64)
    qed
  qed
  then show ?thesis
    using signed_take_bit_sgn_val [OF assms(1) _ assms(3)] by (simp add: c_int_def)
qed

text \<open>\<^verbatim>\<open>OPERATION\<close> applies the C operator to the signed readings and cuts the result to the width.\<close>

lemma OPERATION_eq:
  assumes "1 \<le> n" "n \<le> 64" "uint a < 2 ^ n" "uint b < 2 ^ n"
    and "c_apply operator (if n \<in> {8, 16, 32} then 32 else 64) (sgn_val n (uint a)) (sgn_val n (uint b)) = Inr r"
  shows "OPERATION a b n operator = Inr (word_of_int r AND size_mask n)"
    "uint ((word_of_int r :: u64) AND size_mask n) = r mod 2 ^ n"
proof -
  show "OPERATION a b n operator = Inr (word_of_int r AND size_mask n)"
    using assms c_int_sgn_val [of n] c_int_sext_bits [of n]
    by (auto simp: OPERATION_def split: if_splits)
  show "uint ((word_of_int r :: u64) AND size_mask n) = r mod 2 ^ n"
    by (rule uint_word_of_int_mask [OF assms(1,2)])
qed

section \<open>Each operator computes its meaning\<close>

text \<open>\<open>computes m v\<close>: the C++ expression returns, with the integer \<open>v\<close>.\<close>

definition computes :: "u64 eval_result \<Rightarrow> int \<Rightarrow> bool" where
  "computes m v \<longleftrightarrow> (\<exists>r. m = Inr r \<and> uint r = v)"

lemma computes_masked:
  assumes "e_sort e = BvSort n" "1 \<le> n" "n \<le> 64" "uint v mod 2 ^ n = x"
  shows "computes (masked e v) x"
  unfolding computes_def using masked_eq [OF assms(1-3), of v] assms(4) by simp

lemma uint_arith_mod:
  assumes "n \<le> 64"
  shows "uint (a + b :: u64) mod 2 ^ n = (uint a + uint b) mod 2 ^ n"
    "uint (a - b :: u64) mod 2 ^ n = (uint a - uint b) mod 2 ^ n"
    "uint (a * b :: u64) mod 2 ^ n = (uint a * uint b) mod 2 ^ n"
    "uint (- a :: u64) mod 2 ^ n = (- uint a) mod 2 ^ n"
  using uint_mod_mod_size [OF assms] by (simp_all add: uint_word_ariths)

lemma uint_not_mod:
  assumes "n \<le> 64" "uint (a :: u64) < 2 ^ n"
  shows "uint (NOT a) mod 2 ^ n = 2 ^ n - 1 - uint a"
proof -
  have "NOT a = - a - 1" by (simp add: not_eq_complement)
  then have "uint (NOT a) mod 2 ^ n = (- uint a - 1) mod 2 ^ n"
    using uint_arith_mod(2,4) [OF assms(1)] by (simp add: mod_diff_left_eq) (metis mod_diff_left_eq)
  also have "\<dots> = (2 ^ n - 1 - uint a) mod 2 ^ n"
    using mod_add_self2 [of "- uint a - 1" "2 ^ n"] by (simp add: algebra_simps)
  also have "\<dots> = 2 ^ n - 1 - uint a"
    using assms(2) uint_nonnegative [of a] by (intro mod_pos_pos_trivial; linarith)
  finally show ?thesis .
qed

lemma uint_bitops:
  "uint (a AND b :: u64) = uint a AND uint b" "uint (a OR b :: u64) = uint a OR uint b"
  "uint (a XOR b :: u64) = uint a XOR uint b"
  by (simp_all add: unsigned_and_eq unsigned_or_eq unsigned_xor_eq)

lemma bitops_mod:
  fixes a b :: int
  assumes "0 \<le> a" "a < 2 ^ n" "0 \<le> b" "b < 2 ^ n"
  shows "(a AND b) mod 2 ^ n = a AND b" "(a OR b) mod 2 ^ n = a OR b" "(a XOR b) mod 2 ^ n = a XOR b"
proof -
  have t: "take_bit n a = a" "take_bit n b = b" using assms by (simp_all add: take_bit_int_eq_self)
  show "(a AND b) mod 2 ^ n = a AND b" "(a OR b) mod 2 ^ n = a OR b" "(a XOR b) mod 2 ^ n = a XOR b"
    using t by (simp_all flip: take_bit_eq_mod add: take_bit_and take_bit_or take_bit_xor)
qed

lemma c_shl_uint:
  assumes "uint b < 64" "n \<le> 64"
  shows "\<exists>r. c_shl a b = Inr r \<and> uint r mod 2 ^ n = (uint a * 2 ^ nat (uint b)) mod 2 ^ n"
proof -
  have b: "unat b < 64" "nat (uint b) = unat b"
    using assms(1) of_nat_less_iff [of "unat b" 64, where 'a = int] by simp_all
  have "uint (push_bit (unat b) a) = (uint a * 2 ^ unat b) mod 2 ^ 64"
    by (subst unsigned_push_bit_eq) (simp add: push_bit_eq_mult take_bit_eq_mod)
  then have "uint (push_bit (unat b) a) mod 2 ^ n = (uint a * 2 ^ unat b) mod 2 ^ n"
    using uint_mod_mod_size [OF assms(2)] by simp
  with b show ?thesis by (simp add: c_shl_def)
qed

lemma uint_drop_bit64: "uint (drop_bit k (a :: u64)) = uint a div 2 ^ k"
  using uint_u64_lt [of a] by (subst unsigned_drop_bit_eq) (simp add: drop_bit_eq_div take_bit_int_eq_self)

lemma c_shr_uint:
  assumes "uint b < 64"
  shows "\<exists>r. c_shr a b = Inr r \<and> uint r = uint a div 2 ^ nat (uint b)"
proof -
  have b: "unat b < 64" "nat (uint b) = unat b"
    using assms(1) of_nat_less_iff [of "unat b" 64, where 'a = int] by simp_all
  with uint_drop_bit64 [of "unat b" a] show ?thesis by (simp add: c_shr_def)
qed

lemma computes_OPERATION:
  assumes "1 \<le> n" "n \<le> 64" "uint a < 2 ^ n" "uint b < 2 ^ n"
    and "c_apply operator (if n \<in> {8, 16, 32} then 32 else 64) (sgn_val n (uint a)) (sgn_val n (uint b)) = Inr r"
    and "x = r mod 2 ^ n"
  shows "computes (OPERATION a b n operator) x"
  unfolding computes_def using OPERATION_eq [OF assms(1-5)] assms(6) by simp

lemma sgn_val_eq_0_iff: "1 \<le> n \<Longrightarrow> 0 \<le> a \<Longrightarrow> a < 2 ^ n \<Longrightarrow> sgn_val n a = 0 \<longleftrightarrow> a = 0"
  by (auto simp: sgn_val_def)

lemma sgn_val_bounds:
  assumes "1 \<le> n" "0 \<le> a" "a < 2 ^ n"
  shows "- (2 ^ (n - 1)) \<le> sgn_val n a" "sgn_val n a < 2 ^ (n - 1)"
proof -
  have "(2 :: int) ^ n = 2 * 2 ^ (n - 1)" using assms(1) by (simp flip: power_Suc)
  then show "- (2 ^ (n - 1)) \<le> sgn_val n a" "sgn_val n a < 2 ^ (n - 1)"
    using assms(2,3) by (auto simp: sgn_val_def)
qed

text \<open>The signed division of the promoted type does not overflow unless the width is 32 or 64.\<close>

lemma c_division_defined:
  assumes "1 \<le> n" "n \<le> 64" "0 \<le> a" "a < 2 ^ n"
    and "n \<in> {32, 64} \<longrightarrow> \<not> (sgn_val n a = - (2 ^ (n - 1)) \<and> sgn_val n b = - 1)"
  shows "\<not> (sgn_val n a = - (2 ^ ((if n \<in> {8, 16, 32} then 32 else 64) - 1)) \<and> sgn_val n b = - 1)"
proof -
  let ?w = "(if n \<in> {8, 16, 32} then 32 else 64) :: nat"
  show ?thesis
  proof (cases "n = ?w")
    case True
    then show ?thesis using assms(5) by (auto split: if_splits)
  next
    case False
    then have "n - 1 < ?w - 1" using assms(1,2) by (auto split: if_splits)
    then have "(2 :: int) ^ (n - 1) < 2 ^ (?w - 1)" by (intro power_strict_increasing) auto
    then have "- (2 ^ (?w - 1)) < sgn_val n a" using sgn_val_bounds(1) [OF assms(1,3,4)] by linarith
    then show ?thesis by (metis less_irrefl)
  qed
qed

lemma computes_sdiv:
  assumes e: "e_sort e = BvSort n" "1 \<le> n" "n \<le> 64" and ab: "uint a < 2 ^ n" "uint b < 2 ^ n"
    and ok: "n \<in> {32, 64} \<longrightarrow> \<not> (sgn_val n (uint a) = - (2 ^ (n - 1)) \<and> sgn_val n (uint b) = - 1)"
  shows "computes (eval_sdiv e a b) (smt_sdiv n (uint a) (uint b))"
proof (cases "b = 0")
  case True
  then show ?thesis
    using e bit_top_sgn [OF e(2) ab(1)] uint_size_mask [of n]
    by (auto simp: computes_def eval_sdiv_def SIZE_def smt_sdiv_def and_bit_test MASK_def simp del: push_bit_of_1)
next
  case False
  then have "uint b \<noteq> 0" by (simp add: uint_0_iff)
  then have "c_apply C_DIV (if n \<in> {8, 16, 32} then 32 else 64) (sgn_val n (uint a)) (sgn_val n (uint b)) =
      Inr (sgn_val n (uint a) sdiv sgn_val n (uint b))"
    using c_division_defined [OF e(2,3) _ ab(1) ok] sgn_val_eq_0_iff [OF e(2) _ ab(2)]
    unfolding c_apply_def by simp
  from computes_OPERATION [OF e(2,3) ab this] show ?thesis
    using False e(1) \<open>uint b \<noteq> 0\<close> by (simp add: eval_sdiv_def SIZE_def smt_sdiv_def)
qed

lemma computes_srem:
  assumes e: "e_sort e = BvSort n" "1 \<le> n" "n \<le> 64" and ab: "uint a < 2 ^ n" "uint b < 2 ^ n"
    and ok: "n \<in> {32, 64} \<longrightarrow> \<not> (sgn_val n (uint a) = - (2 ^ (n - 1)) \<and> sgn_val n (uint b) = - 1)"
  shows "computes (eval_srem e a b) (smt_srem n (uint a) (uint b))"
proof (cases "b = 0")
  case True
  then show ?thesis
    using computes_masked [OF e, of a "uint a"] ab(1) by (simp add: eval_srem_def smt_srem_def)
next
  case False
  then have "uint b \<noteq> 0" by (simp add: uint_0_iff)
  then have "c_apply C_REM (if n \<in> {8, 16, 32} then 32 else 64) (sgn_val n (uint a)) (sgn_val n (uint b)) =
      Inr (sgn_val n (uint a) smod sgn_val n (uint b))"
    using c_division_defined [OF e(2,3) _ ab(1) ok] sgn_val_eq_0_iff [OF e(2) _ ab(2)]
    unfolding c_apply_def by simp
  from computes_OPERATION [OF e(2,3) ab this] show ?thesis
    using False e(1) \<open>uint b \<noteq> 0\<close> by (simp add: eval_srem_def SIZE_def smt_srem_def)
qed

lemma div_mod_bound:
  fixes x y N :: int
  assumes "0 \<le> x" "x < N" "0 \<le> y"
  shows "(x div y) mod N = x div y" "(x mod y) mod N = x mod y"
proof -
  have "x div y \<le> x" using assms zdiv_mono2 [of x 1 y] by (cases "y = 0") auto
  moreover have "0 \<le> x div y" using assms by (cases "y = 0") (simp_all add: pos_imp_zdiv_nonneg_iff)
  ultimately show "(x div y) mod N = x div y" using assms by (intro mod_pos_pos_trivial) auto
  have "x mod y \<le> x" using assms by (simp add: zmod_le_nonneg_dividend)
  moreover have "0 \<le> x mod y" using assms by (cases "y = 0") auto
  ultimately show "(x mod y) mod N = x mod y" using assms by (intro mod_pos_pos_trivial) auto
qed

lemma computes_unsigned_division:
  assumes e: "e_sort e = BvSort n" "1 \<le> n" "n \<le> 64" and ab: "uint a < 2 ^ n" "uint b < 2 ^ n"
  shows "computes (eval_udiv e a b) (smt_udiv n (uint a) (uint b))"
    "computes (eval_urem e a b) (smt_urem (uint a) (uint b))"
proof -
  have d: "uint (a div b) mod 2 ^ n = uint a div uint b" "uint (a mod b) mod 2 ^ n = uint a mod uint b"
    using div_mod_bound [OF uint_nonnegative ab(1) uint_nonnegative, of b] by (simp_all add: uint_div uint_mod)
  have z: "b = 0 \<longleftrightarrow> uint b = 0" by (simp add: uint_0_iff)
  show "computes (eval_udiv e a b) (smt_udiv n (uint a) (uint b))"
    using computes_masked [OF e d(1)] e uint_size_mask [of n]
    by (auto simp: eval_udiv_def smt_udiv_def z computes_def MASK_SIZE_def SIZE_def MASK_def)
  show "computes (eval_urem e a b) (smt_urem (uint a) (uint b))"
    using computes_masked [OF e d(2)] computes_masked [OF e, of a "uint a"] ab(1)
    by (auto simp: eval_urem_def smt_urem_def z)
qed

lemma computes_ashr:
  assumes e: "e_sort e = BvSort n" "1 \<le> n" "n \<le> 64" and ab: "uint a < 2 ^ n" "uint b < 2 ^ n"
    and ok: "0 \<le> sgn_val n (uint b)" "sgn_val n (uint b) < (if n \<in> {8, 16, 32} then 32 else 64)"
  shows "computes (eval_bind (SIZE e) (\<lambda>width. OPERATION a b width C_SHR))
    ((sgn_val n (uint a) div 2 ^ nat (uint b)) mod 2 ^ n)"
proof -
  have sv: "sgn_val n (uint b) = uint b" using ok(1) ab(2) by (auto simp: sgn_val_def split: if_splits)
  have "c_apply C_SHR (if n \<in> {8, 16, 32} then 32 else 64) (sgn_val n (uint a)) (sgn_val n (uint b)) =
      Inr (sgn_val n (uint a) div 2 ^ nat (uint b))"
    using ok(2) unfolding c_apply_def sv by (auto split: if_splits)
  from computes_OPERATION [OF e(2,3) ab this] show ?thesis
    using e(1) by (simp add: SIZE_def)
qed

text \<open>The arithmetic and bitwise binary operators.\<close>

lemma computes_arith:
  assumes e: "e_sort e = BvSort n" "1 \<le> n" "n \<le> 64" and ab: "uint a < 2 ^ n" "uint b < 2 ^ n"
    and kind: "arith_kind kind" "c_defined kind ps n [uint a, uint b]"
  shows "computes (eval_later_bv e kind k a b) (smt_later kind n m (uint a) (uint b))"
proof -
  note msk = computes_masked [OF e]
  note bit = bitops_mod [OF uint_nonnegative ab(1) uint_nonnegative ab(2)]
  have shl: "computes (eval_bind (c_shl a b) (masked e)) ((uint a * 2 ^ nat (uint b)) mod 2 ^ n)" if lt: "uint b < 64"
  proof -
    obtain r where r: "c_shl a b = Inr r" "uint r mod 2 ^ n = (uint a * 2 ^ nat (uint b)) mod 2 ^ n"
      using c_shl_uint [OF lt e(3)] by blast
    show ?thesis using msk [OF r(2)] r(1) by simp
  qed
  have shr: "computes (eval_bind (c_shr a b) (masked e)) (uint a div 2 ^ nat (uint b))" if lt: "uint b < 64"
  proof -
    obtain r where r: "c_shr a b = Inr r" "uint r = uint a div 2 ^ nat (uint b)"
      using c_shr_uint [OF lt] by blast
    have "uint r mod 2 ^ n = uint a div 2 ^ nat (uint b)"
      unfolding r(2) by (rule div_mod_bound(1) [OF uint_nonnegative ab(1)]) simp
    from msk [OF this] r(1) show ?thesis by simp
  qed
  note ring = msk [OF uint_arith_mod(1) [OF e(3), of a b]] msk [OF uint_arith_mod(2) [OF e(3), of a b]]
    msk [OF uint_arith_mod(3) [OF e(3), of a b]]
  have bits: "computes (masked e (a AND b)) (uint a AND uint b)" "computes (masked e (a OR b)) (uint a OR uint b)"
    "computes (masked e (a XOR b)) (uint a XOR uint b)"
    by (rule msk; simp add: uint_bitops bit)+
  show ?thesis
    using kind ring bits shl shr computes_unsigned_division [OF e ab]
      computes_sdiv [OF e ab] computes_srem [OF e ab] computes_ashr [OF e ab]
    by (cases kind) (simp_all add: arith_kind_def eval_later_bv_def smt_later_def c_defined_def)
qed

lemma computes_compare:
  assumes e: "e_sort (e_args e ! 0) = BvSort m" "1 \<le> m" "m \<le> 64" and ab: "uint a < 2 ^ m" "uint b < 2 ^ m"
    and kind: "compare_kind kind"
  shows "computes (eval_later_bv e kind k a b) (smt_later kind n m (uint a) (uint b))"
proof -
  have one: "(of_bool P :: int) = of_bool P mod 2 ^ m" for P using e(2) by (simp add: one_mod_2_pow_eq)
  have signed: "computes (eval_signed e operator a b) (of_bool P)"
    if "\<And>w. c_apply operator w (sgn_val m (uint a)) (sgn_val m (uint b)) = Inr (of_bool P)" for operator P
    using computes_OPERATION [OF e(2,3) ab that one] e(1) by (simp add: eval_signed_def SIZE_def)
  note cmp = signed [of C_LE "sgn_val m (uint a) \<le> sgn_val m (uint b)"]
    signed [of C_GE "sgn_val m (uint b) \<le> sgn_val m (uint a)"]
    signed [of C_LT "sgn_val m (uint a) < sgn_val m (uint b)"]
    signed [of C_GT "sgn_val m (uint b) < sgn_val m (uint a)"]
  have inr: "computes (Inr (of_bool64 P)) (of_bool P)" for P by (simp add: computes_def)
  show ?thesis
    using kind cmp inr
    by (cases kind) (simp_all add: compare_kind_def eval_later_bv_def smt_later_def c_apply_def word_le_def
        word_less_def)
qed

text \<open>Joining a high part to a low part that fits below it.\<close>

lemma uint_or_push_bit:
  assumes "uint (b :: u64) < 2 ^ m" "uint a * 2 ^ m < 2 ^ 64"
  shows "uint (push_bit m a OR b) = uint a * 2 ^ m + uint b"
proof -
  have pb: "uint (push_bit m a) = push_bit m (uint a)"
    using assms(2) by (subst unsigned_push_bit_eq) (simp add: push_bit_eq_mult take_bit_int_eq_self)
  have "\<not> bit (push_bit m (uint a)) i \<or> \<not> bit (uint b) i" for i
    using not_bit_beyond [OF assms(1), of i] by (auto simp: bit_push_bit_iff bit_uint64)
  then have "push_bit m (uint a) + uint b = push_bit m (uint a) OR uint b"
    by (intro disjunctive_add) simp
  then show ?thesis
    by (simp only: uint_bitops(2) pb) (simp add: push_bit_eq_mult)
qed

lemma mult_exp_less:
  fixes a :: int
  assumes "a < 2 ^ p" "p + m \<le> 64"
  shows "a * 2 ^ m < 2 ^ 64"
proof -
  have "a * 2 ^ m < 2 ^ p * 2 ^ m" using assms(1) by (intro mult_strict_right_mono) simp_all
  also have "\<dots> = 2 ^ (p + m)" by (simp add: power_add)
  also have "\<dots> \<le> 2 ^ 64" using assms(2) by (intro power_increasing) simp_all
  finally show ?thesis .
qed

lemma computes_concat:
  assumes "e_sort (e_args e ! (k - 1)) = BvSort m" "uint b < 2 ^ m" "uint a < 2 ^ p" "1 \<le> p" "p + m \<le> 64"
  shows "computes (eval_concat e k a b) (uint a * 2 ^ m + uint b)"
proof -
  have "unat (word_of_nat m :: u64) = m" using assms(4,5) by (simp add: unat_of_nat)
  then have "eval_concat e k a b = Inr (push_bit m a OR b)"
    using assms(1,4,5) by (simp add: eval_concat_def SIZE_def c_shl_def)
  then show ?thesis
    unfolding computes_def using uint_or_push_bit [OF assms(2) mult_exp_less [OF assms(3,5)]] by simp
qed

lemma computes_sign_ext:
  assumes "e_sort (e_args e ! 0) = BvSort m" "1 \<le> m" "uint a < 2 ^ m" "ps \<noteq> []" "1 \<le> ps ! 0"
    "n = m + nat (ps ! 0)" "n \<le> 64"
  shows "computes (eval_sign_ext e ps a) (sgn_val m (uint a) mod 2 ^ n)"
proof -
  let ?k = "nat (ps ! 0)"
  have k: "1 \<le> ?k" "?k \<le> 64" "m < 64" using assms(2,5,6,7) by auto
  have top: "bit a (m - 1) = (sgn_val m (uint a) < 0)" by (rule bit_top_sgn [OF assms(2,3)])
  have eq: "eval_sign_ext e ps a = Inr (if bit a (m - 1) then push_bit m (size_mask ?k) OR a else a)"
    unfolding eval_sign_ext_def and_bit_test
    using assms(1,2,4) k by (simp add: param_def SIZE_def MASK_def or.commute)
  have mN: "(2 :: int) ^ n = 2 ^ ?k * 2 ^ m" using assms(6) by (simp add: power_add)
  have le: "(2 :: int) ^ m \<le> 2 ^ n" using assms(6) by (intro power_increasing) auto
  show ?thesis
  proof (cases "bit a (m - 1)")
    case True
    then have neg: "sgn_val m (uint a) = uint a - 2 ^ m" using top by (auto simp: sgn_val_def split: if_splits)
    have mk: "uint (size_mask ?k) = 2 ^ ?k - 1" using k by (intro uint_size_mask) auto
    have "uint (push_bit m (size_mask ?k) OR a) = (2 ^ ?k - 1) * 2 ^ m + uint a"
      using uint_or_push_bit [OF assms(3), of "size_mask ?k"] mult_exp_less [of "2 ^ ?k - 1" ?k m] assms(6,7)
      by (simp add: mk)
    also have "\<dots> = uint a - 2 ^ m + 2 ^ n" by (simp add: mN algebra_simps)
    also have "\<dots> = (uint a - 2 ^ m + 2 ^ n) mod 2 ^ n"
      using assms(3) le uint_nonnegative [of a] by (intro mod_pos_pos_trivial [symmetric]; linarith)
    finally show ?thesis using True by (simp add: computes_def eq neg)
  next
    case False
    then have "sgn_val m (uint a) = uint a" using top assms(3) by (auto simp: sgn_val_def split: if_splits)
    moreover have "uint a mod 2 ^ n = uint a"
      using less_le_trans [OF assms(3) le] by (intro mod_pos_pos_trivial) simp_all
    ultimately show ?thesis using False by (simp add: computes_def eq)
  qed
qed

lemma computes_extract:
  assumes "2 \<le> length ps" "0 \<le> ps ! 1" "ps ! 1 \<le> ps ! 0" "ps ! 0 < 64" "int n = ps ! 0 - ps ! 1 + 1"
  shows "computes (eval_extract ps a) ((uint a div 2 ^ nat (ps ! 1)) mod 2 ^ n)"
proof -
  have n: "nat (ps ! 0 - ps ! 1 + 1) = n" "1 \<le> n" "n \<le> 64" using assms by auto
  have ne: "ps \<noteq> []" using assms(1) by auto
  have "eval_extract ps a = Inr (drop_bit (nat (ps ! 1)) a AND size_mask n)"
    using assms n ne by (simp add: eval_extract_def param_def MASK_def)
  moreover have "uint (drop_bit (nat (ps ! 1)) a AND size_mask n) = (uint a div 2 ^ nat (ps ! 1)) mod 2 ^ n"
    using n by (subst uint_and_size_mask) (simp_all add: uint_drop_bit64)
  ultimately show ?thesis by (simp add: computes_def)
qed

lemma div_less_of_less_mult:
  fixes a b c :: int
  assumes "a < b * c" "0 < c"
  shows "a div c < b"
  using assms by (metis mult.commute pos_mod_sign linorder_not_le mult_div_mod_eq mult_le_cancel_left_pos
      order_trans le_add_same_cancel1)

text \<open>Rotation of a word of the instruction's width.\<close>

lemma uint_rotr:
  fixes w :: "'a :: len word"
  shows "uint (word_rotr k w) = smt_rotr LENGTH('a) k (uint w)"
proof -
  let ?n = "LENGTH('a)" and ?r = "k mod LENGTH('a)"
  have "uint (take_bit ?r w) = uint w mod 2 ^ ?r"
    by (metis unsigned_take_bit_eq take_bit_eq_mod)
  moreover have "uint w div 2 ^ ?r < 2 ^ (?n - ?r)"
  proof -
    have "uint w < 2 ^ (?n - ?r) * 2 ^ ?r"
      using uint_lt2p [of w] by (simp flip: power_add)
    then show ?thesis by (intro div_less_of_less_mult) simp_all
  qed
  moreover have "0 \<le> uint w div 2 ^ ?r" by (simp add: pos_imp_zdiv_nonneg_iff)
  ultimately show ?thesis
    by (simp add: uint_word_rotr_eq smt_rotr_def Let_def concat_bit_eq drop_bit_eq_div push_bit_eq_mult
        take_bit_int_eq_self)
qed

lemma uint_rotl:
  fixes w :: "'a :: len word"
  shows "uint (word_rotl k w) = smt_rotl LENGTH('a) k (uint w)"
  by (simp add: word_rotl_eq_word_rotr uint_rotr smt_rotl_def)

lemma uint_ucast_narrow:
  fixes v :: u64
  assumes "uint v < 2 ^ LENGTH('a)"
  shows "uint (ucast v :: 'a :: len word) = uint v"
  using assms by (simp add: unsigned_ucast_eq take_bit_int_eq_self)

lemma uint_ucast_wide:
  fixes w :: "'a :: len word"
  assumes "LENGTH('a) \<le> 64"
  shows "uint (ucast w :: u64) = uint w"
proof -
  have "uint w < 2 ^ 64" by (rule less_le_trans [OF uint_lt2p power_increasing [OF assms]]) simp
  then show ?thesis by (simp add: unsigned_ucast_eq take_bit_int_eq_self)
qed

lemma smt_rot_amount:
  assumes "0 \<le> amount"
  shows "smt_rotr n (nat (amount mod int n)) a = smt_rotr n (nat amount) a"
    "smt_rotl n (nat (amount mod int n)) a = smt_rotl n (nat amount) a"
proof -
  have "nat (amount mod int n) mod n = nat amount mod n"
    using assms by (cases "n = 0") (simp_all add: nat_mod_distrib)
  then show "smt_rotr n (nat (amount mod int n)) a = smt_rotr n (nat amount) a"
    "smt_rotl n (nat (amount mod int n)) a = smt_rotl n (nat amount) a"
    by (simp_all add: smt_rotr_def smt_rotl_def)
qed

lemma computes_rotate:
  assumes "n \<in> {8, 16, 32, 64}" "uint a < 2 ^ n" "0 \<le> amount"
  shows "computes (rotate_left n a amount) (smt_rotl n (nat amount) (uint a))"
    "computes (rotate_right n a amount) (smt_rotr n (nat amount) (uint a))"
  using assms smt_rot_amount [OF assms(3), of n "uint a"]
  by (auto simp: computes_def rotate_left_def rotate_right_def Let_def uint_ucast_wide uint_ucast_narrow
      uint_rotl uint_rotr)

text \<open>The unary operators.\<close>

lemma computes_first:
  assumes e: "e_args e = [x]" "e_sort e = BvSort n" "e_sort x = BvSort m" "1 \<le> n" "n \<le> 64" "1 \<le> m" "m \<le> 64"
    and wt: "wt_bv kind ps (BvSort n) [BvSort m]" and a: "uint a < 2 ^ m"
    and ok: "c_defined kind ps n [uint a]"
  shows "computes (eval_first_bv e kind ps a) (smt_first kind ps n m (uint a))"
proof -
  have neg: "n = m \<Longrightarrow> computes (masked e (- a)) ((- uint a) mod 2 ^ n)"
    using computes_masked [OF e(2,4,5) uint_arith_mod(4) [OF e(5)]] by simp
  have cpl: "n = m \<Longrightarrow> computes (masked e (NOT a)) (2 ^ n - 1 - uint a)"
    using computes_masked [OF e(2,4,5) uint_not_mod [OF e(5)]] a by simp
  have rot: "computes (rotate_left n a (ps ! 0)) (smt_rotl n (nat (ps ! 0)) (uint a))"
    "computes (rotate_right n a (ps ! 0)) (smt_rotr n (nat (ps ! 0)) (uint a))"
    if "n = m" "n \<in> {8, 16, 32, 64}" "0 \<le> ps ! 0"
    using computes_rotate [OF that(2) _ that(3), of a] a that(1) by simp_all
  have sx: "computes (eval_sign_ext e ps a) (sgn_val m (uint a) mod 2 ^ n)"
    if "ps \<noteq> []" "1 \<le> ps ! 0" "n = m + nat (ps ! 0)"
    using computes_sign_ext [OF _ e(6) a that e(5)] e(1,3) by simp
  have ex: "computes (eval_extract ps a) ((uint a div 2 ^ nat (ps ! 1)) mod 2 ^ n)"
    if "2 \<le> length ps" "0 \<le> ps ! 1" "ps ! 1 \<le> ps ! 0" "ps ! 0 < int m" "int n = ps ! 0 - ps ! 1 + 1"
    using computes_extract [OF that(1-3) _ that(5)] that(4) e(7) by simp
  have id: "computes (Inr a) (uint a)" by (simp add: computes_def)
  show ?thesis
    using wt ok neg cpl rot sx ex id e(2)
    by (cases kind) (simp_all add: wt_bv_def compare_kind_def arith_kind_def eval_first_bv_def smt_first_def
        c_defined_def param_def SIZE_def)
qed

section \<open>Values are in the range of their sort\<close>

definition in_range :: "nat \<Rightarrow> int \<Rightarrow> bool" where
  "in_range n v \<longleftrightarrow> 0 \<le> v \<and> v < 2 ^ n"

lemma in_range_mod [simp]: "in_range n (v mod 2 ^ n)"
  by (simp add: in_range_def)

lemma in_range_bool [simp]: "in_range n (of_bool b) \<longleftrightarrow> 1 \<le> n \<or> \<not> b"
  using one_less_power [of "2 :: int" n] by (cases "n = 0") (auto simp: in_range_def)

lemma in_range_div: "in_range n a \<Longrightarrow> 0 \<le> b \<Longrightarrow> in_range n (a div b)" "in_range n a \<Longrightarrow> 0 \<le> b \<Longrightarrow> in_range n (a mod b)"
  using div_mod_bound [of a "2 ^ n" b] in_range_mod [of n "a div b"] in_range_mod [of n "a mod b"]
  by (simp_all add: in_range_def [of n a])

lemma in_range_rotr:
  assumes "in_range n a" "1 \<le> n"
  shows "in_range n (smt_rotr n k a)"
proof -
  let ?r = "k mod n"
  have r: "?r < n" using assms(2) by simp
  have N: "(2 :: int) ^ n = 2 ^ ?r * 2 ^ (n - ?r)" using r by (simp flip: power_add)
  have d: "a div 2 ^ ?r < 2 ^ (n - ?r)" "0 \<le> a div 2 ^ ?r"
    using assms(1) by (auto simp: in_range_def N mult.commute pos_imp_zdiv_nonneg_iff intro!: div_less_of_less_mult)
  have "a mod 2 ^ ?r \<le> 2 ^ ?r - 1" by (simp add: zle_diff1_eq)
  then have "a mod 2 ^ ?r * 2 ^ (n - ?r) \<le> (2 ^ ?r - 1) * 2 ^ (n - ?r)" by (intro mult_right_mono) simp_all
  then have "a mod 2 ^ ?r * 2 ^ (n - ?r) + a div 2 ^ ?r < 2 ^ n" using d(1) by (simp add: N left_diff_distrib)
  with d(2) show ?thesis by (simp add: in_range_def smt_rotr_def Let_def)
qed

lemma in_range_first:
  assumes "wt_bv kind ps (BvSort n) [BvSort m]" "in_range m a" "1 \<le> n"
  shows "in_range n (smt_first kind ps n m a)"
proof -
  have "n = m \<Longrightarrow> in_range n (2 ^ n - 1 - a)" using assms(2) by (simp add: in_range_def)
  moreover have "in_range n a" if "m \<le> n"
    using assms(2) less_le_trans [OF _ power_increasing [OF that], of a 2] by (simp add: in_range_def)
  ultimately show ?thesis
    using assms in_range_rotr [of n a]
    by (cases kind) (auto simp: wt_bv_def compare_kind_def arith_kind_def smt_first_def smt_rotl_def)
qed

lemma in_range_bitops:
  assumes "in_range n a" "in_range n b"
  shows "in_range n (a AND b)" "in_range n (a OR b)" "in_range n (a XOR b)"
  using assms bitops_mod [of a n b] in_range_mod [of n "a AND b"] in_range_mod [of n "a OR b"]
    in_range_mod [of n "a XOR b"] by (simp_all add: in_range_def)

lemma in_range_arith:
  assumes "arith_kind kind" "in_range n a" "in_range n b" "1 \<le> n"
  shows "in_range n (smt_later kind n m a b)"
proof -
  have "in_range n (2 ^ n - 1)" "in_range n 1"
    using assms(4) by (auto simp: in_range_def one_less_power)
  moreover have "0 \<le> b" using assms(3) by (simp add: in_range_def)
  ultimately show ?thesis
    using assms in_range_bitops [OF assms(2,3)] in_range_div [OF assms(2)]
    by (cases kind) (simp_all add: arith_kind_def smt_later_def smt_sdiv_def smt_srem_def smt_udiv_def smt_urem_def)
qed

lemma in_range_concat: "in_range p a \<Longrightarrow> in_range m b \<Longrightarrow> in_range (p + m) (a * 2 ^ m + b)"
proof -
  assume a: "in_range p a" and b: "in_range m b"
  then have "a * 2 ^ m \<le> (2 ^ p - 1) * 2 ^ m" by (intro mult_right_mono) (simp_all add: in_range_def)
  with a b show ?thesis by (simp add: in_range_def power_add left_diff_distrib)
qed

text \<open>The value after one more argument.\<close>

lemma smt_bv_snoc:
  assumes "mvs \<noteq> []"
  shows "smt_bv kind ps n (mvs @ [(m, b)]) = smt_later kind n m (smt_bv kind ps n mvs) b"
  using assms by (cases mvs) (auto simp: smt_bv_def)

lemma smt_bv_one: "smt_bv kind ps n [(m, v)] = smt_first kind ps n m v"
  by (simp add: smt_bv_def)

text \<open>The widths a well-sorted operator allows for its first argument and for the later ones.\<close>

lemma wt_bv_multi:
  assumes "wt_bv kind ps s (s1 # s2 # ss)"
  shows "compare_kind kind \<and> s = BoolSort \<and> s1 \<noteq> BoolSort \<and> s2 = s1 \<and> ss = [] \<or>
    arith_kind kind \<and> s \<noteq> BoolSort \<and> s1 = s \<and> (\<forall>t \<in> set (s2 # ss). t = s) \<and>
      (ss = [] \<or> kind \<in> {OP_BADD, OP_BMUL, OP_BAND, OP_BOR, OP_BXOR}) \<or>
    kind = OP_CONCAT \<and> s = BvSort (sum_list (map bv_width (s1 # s2 # ss))) \<and>
      (\<forall>t \<in> set (s1 # s2 # ss). t \<noteq> BoolSort)"
  using assms by (auto simp: wt_bv_def split: z3_sort.splits if_splits)

lemma smt_first_multi:
  "compare_kind kind \<or> arith_kind kind \<or> kind = OP_CONCAT \<Longrightarrow> smt_first kind ps n m a = a"
  by (cases kind) (auto simp: compare_kind_def arith_kind_def smt_first_def)

lemma eval_first_multi:
  "compare_kind kind \<or> arith_kind kind \<or> kind = OP_CONCAT \<Longrightarrow> length (e_args e) \<noteq> 1 \<Longrightarrow>
     eval_first_bv e kind ps a = Inr a"
  by (cases kind) (auto simp: compare_kind_def arith_kind_def eval_first_bv_def)

lemma in_range_fold_arith:
  assumes "arith_kind kind" "1 \<le> n" "in_range n a" "\<forall>(m, b) \<in> set mvs. in_range n b"
  shows "in_range n (foldl (\<lambda>a (m, b). smt_later kind n m a b) a mvs)"
  using assms by (induction mvs arbitrary: a) (auto simp: in_range_arith)

lemma in_range_fold_concat:
  assumes "in_range p a" "\<forall>(m, b) \<in> set mvs. in_range m b"
  shows "in_range (p + sum_list (map fst mvs)) (foldl (\<lambda>a (m, b). smt_later OP_CONCAT n m a b) a mvs)"
  using assms
proof (induction mvs arbitrary: a p)
  case (Cons mv mvs)
  obtain m b where mv: "mv = (m, b)" by force
  have "in_range (p + m) (smt_later OP_CONCAT n m a b)"
    using Cons.prems mv by (simp add: smt_later_def in_range_concat)
  from Cons.IH [OF this] Cons.prems(2) mv show ?case by (simp add: add.assoc)
qed simp

lemma smt_bv_range:
  assumes wt: "wt_bv kind ps s (map fst svs)" and s: "\<And>n. s = BvSort n \<Longrightarrow> 1 \<le> n"
    and vs: "\<forall>(t, v) \<in> set svs. in_range (bv_width t) v"
  shows "in_range (bv_width s) (smt_bv kind ps (bv_width s) (map (\<lambda>(t, v). (bv_width t, v)) svs))"
proof -
  consider "svs = []" | t v where "svs = [(t, v)]" | t v t2 v2 rest where "svs = (t, v) # (t2, v2) # rest"
    by (metis list.exhaust surj_pair)
  then show ?thesis
  proof cases
    case 1
    then show ?thesis
      using wt one_less_power [of "2 :: int" "bv_width s"]
      by (auto simp: wt_bv_def smt_bv_def in_range_def split: z3_sort.splits)
  next
    case 2
    then obtain n m where "s = BvSort n" "t = BvSort m"
      using wt by (auto simp: wt_bv_def split: z3_sort.splits if_splits)
    then show ?thesis
      using in_range_first [of kind ps n m v] wt s vs 2 by (simp add: smt_bv_one)
  next
    case 3
    let ?mvs = "map (\<lambda>(t, v). (bv_width t, v)) ((t2, v2) # rest)"
    have w: "wt_bv kind ps s (t # t2 # map fst rest)" using wt 3 by simp
    have eq: "smt_bv kind ps (bv_width s) (map (\<lambda>(t, v). (bv_width t, v)) svs) =
        foldl (\<lambda>a (m', b). smt_later kind (bv_width s) m' a b) (smt_first kind ps (bv_width s) (bv_width t) v) ?mvs"
      using 3 by (simp add: smt_bv_def)
    have v: "in_range (bv_width t) v" "\<forall>(m, b) \<in> set ?mvs. in_range m b" using vs 3 by auto
    from wt_bv_multi [OF w] consider (cmp) "compare_kind kind" "s = BoolSort" "map fst rest = []"
      | (arith) "arith_kind kind" "s \<noteq> BoolSort" "t = s" "\<forall>u \<in> set (t2 # map fst rest). u = s"
      | (concat) "kind = OP_CONCAT" "s = BvSort (sum_list (map bv_width (t # t2 # map fst rest)))"
      by blast
    then show ?thesis
    proof cases
      case cmp
      then show ?thesis unfolding eq by (cases kind) (auto simp: compare_kind_def smt_later_def)
    next
      case c: arith
      then have all: "\<forall>(m, b) \<in> set ?mvs. in_range (bv_width s) b" using v(2) by (fastforce simp: image_iff)
      have pos: "1 \<le> bv_width s" using s c(2) by (cases s) auto
      have "smt_first kind ps (bv_width s) (bv_width t) v = v" using c(1) by (simp add: smt_first_multi)
      then show ?thesis
        unfolding eq using in_range_fold_arith [OF c(1) pos _ all, of v] v(1) c(3) by (simp only:)
    next
      case c: concat
      have "bv_width s = bv_width t + sum_list (map fst ?mvs)" using c(2) by (simp add: comp_def case_prod_unfold)
      then show ?thesis
        using in_range_fold_concat [OF v] c(1) unfolding eq by (simp add: smt_first_multi)
    qed
  qed
qed

lemma smt_basic_range:
  assumes wt: "wt_basic kind s (map fst svs)" and vs: "\<forall>(t, v) \<in> set svs. in_range (bv_width t) v"
  shows "in_range (bv_width s) (smt_basic kind (map snd svs))"
proof (cases "kind = OP_ITE")
  case True
  then obtain v0 v1 v2 where "svs = [(BoolSort, v0), (s, v1), (s, v2)]"
    using wt by (auto simp: wt_basic_def map_eq_Cons_conv)
  then show ?thesis using True vs by (simp add: smt_basic_def)
next
  case False
  then have "s = BoolSort" using wt by (auto simp: wt_basic_def split: basic_kind.splits)
  then show ?thesis using False by (cases kind) (auto simp: smt_basic_def in_range_def)
qed

lemma well_sorted_node: "well_sorted n e \<Longrightarrow> wt_node n e"
  by (simp add: well_sorted_def subexprs_self)

lemma subexprs_trans: "y \<in> set (subexprs x) \<Longrightarrow> x \<in> set (subexprs e) \<Longrightarrow> y \<in> set (subexprs e)"
  by (induction e rule: subexprs.induct) auto

lemma well_sorted_arg: "well_sorted n e \<Longrightarrow> a \<in> set (e_args e) \<Longrightarrow> well_sorted n a"
  unfolding well_sorted_def using subexprs_args [OF subexprs_self] subexprs_trans by blast

lemma ub_free_arg: "ub_free env e \<Longrightarrow> a \<in> set (e_args e) \<Longrightarrow> ub_free env a"
  unfolding ub_free_def using subexprs_args [OF subexprs_self] subexprs_trans by blast

lemma smt_unfold:
  "smt env e =
     (case e_decl e of
        Symbol j \<Rightarrow> env (nat j) mod 2 ^ bv_width (e_sort e)
      | BvDecl kind ps \<Rightarrow> smt_bv kind ps (bv_width (e_sort e)) (map (\<lambda>e. (bv_width (e_sort e), smt env e)) (e_args e))
      | BasicDecl kind \<Rightarrow> smt_basic kind (map (smt env) (e_args e)))"
  by (cases e) (simp split: z3_decl.split)

text \<open>A well-sorted expression has a value of its sort.\<close>

lemma smt_range: "well_sorted n e \<Longrightarrow> in_range (bv_width (e_sort e)) (smt env e)"
proof (induction e rule: subexprs.induct)
  case (1 i s d es)
  let ?e = "App i s d es"
  let ?svs = "map (\<lambda>x. (e_sort x, smt env x)) es"
  have node: "wt_node n ?e" using "1.prems" by (rule well_sorted_node)
  have args: "\<forall>(t, v) \<in> set ?svs. in_range (bv_width t) v"
    using "1.IH" well_sorted_arg [OF "1.prems"] by auto
  show ?case
  proof (cases d)
    case (Symbol j)
    then show ?thesis by simp
  next
    case (BvDecl kind ps)
    have "wt_bv kind ps s (map fst ?svs)" "\<And>m. s = BvSort m \<Longrightarrow> 1 \<le> m"
      using node BvDecl by (simp_all add: wt_node_def comp_def)
    from smt_bv_range [OF this args] show ?thesis by (simp add: BvDecl comp_def)
  next
    case (BasicDecl kind)
    have "wt_basic kind s (map fst ?svs)" using node BasicDecl by (simp add: wt_node_def comp_def)
    from smt_basic_range [OF this args] show ?thesis by (simp add: BasicDecl comp_def)
  qed
qed

section \<open>A pass computes the value of the arguments so far\<close>

definition arg_vals :: "(nat \<Rightarrow> int) \<Rightarrow> z3_expr \<Rightarrow> (nat \<times> int) list" where
  "arg_vals env e = map (\<lambda>x. (bv_width (e_sort x), smt env x)) (e_args e)"

lemma length_arg_vals [simp]: "length (arg_vals env e) = length (e_args e)"
  by (simp add: arg_vals_def)

lemma arg_vals_nth: "i < length (e_args e) \<Longrightarrow> arg_vals env e ! i = (bv_width (e_sort (e_args e ! i)), smt env (e_args e ! i))"
  by (simp add: arg_vals_def)

lemma arg_vals_range: "well_sorted n e \<Longrightarrow> \<forall>(m, v) \<in> set (arg_vals env e). in_range m v"
  using well_sorted_arg smt_range by (fastforce simp: arg_vals_def)

lemma take_Suc_arg_vals:
  "k < length (e_args e) \<Longrightarrow> take (Suc k) (arg_vals env e) =
     take k (arg_vals env e) @ [(bv_width (e_sort (e_args e ! k)), smt env (e_args e ! k))]"
  by (simp add: take_Suc_conv_app_nth arg_vals_nth)

text \<open>Ranges of the partial results of the associative operators and of concatenation.\<close>

lemma prefix_range_arith:
  assumes "arith_kind kind" "1 \<le> n" "mvs \<noteq> []" "\<forall>(m, v) \<in> set mvs. in_range n v"
  shows "in_range n (smt_bv kind ps n mvs)"
  using assms in_range_fold_arith [OF assms(1,2)]
  by (cases mvs) (auto simp: smt_bv_def smt_first_multi)

lemma prefix_range_concat:
  assumes "mvs \<noteq> []" "\<forall>(m, v) \<in> set mvs. in_range m v"
  shows "in_range (sum_list (map fst mvs)) (smt_bv OP_CONCAT ps n mvs)"
  using assms in_range_fold_concat [of "fst (hd mvs)" "snd (hd mvs)" "tl mvs" n]
  by (cases mvs) (auto simp: smt_bv_def smt_first_multi)

text \<open>
  The state of a pass: which arguments have been evaluated (for a conditional, which branch),
  and what \<^verbatim>\<open>m_res\<close> and \<^verbatim>\<open>res\<close> hold.
\<close>

definition pass_ok :: "(nat \<Rightarrow> int) \<Rightarrow> z3_expr \<Rightarrow> nat \<Rightarrow> u64 \<Rightarrow> u64 \<Rightarrow> bool" where
  "pass_ok env e k a r \<longleftrightarrow> k \<le> length (e_args e) \<and>
     (1 \<le> k \<longrightarrow> \<not> wide (e_args e ! (k - 1)) \<and> uint r = smt env (e_args e ! (k - 1))) \<and>
     (case e_decl e of
        Symbol i \<Rightarrow> True
      | BvDecl kind ps \<Rightarrow> (\<forall>i < k. \<not> wide (e_args e ! i)) \<and>
          (2 \<le> k \<longrightarrow> uint a = smt_bv kind ps (bv_width (e_sort e)) (take (k - 1) (arg_vals env e)))
      | BasicDecl kind \<Rightarrow>
          (case kind of
             OP_ITE \<Rightarrow> k \<le> 1 \<or> (k = 2 \<and> smt env (e_args e ! 0) \<noteq> 0) \<or> (k = 3 \<and> smt env (e_args e ! 0) = 0)
           | OP_AND \<Rightarrow> \<forall>i < k - 1. smt env (e_args e ! i) \<noteq> 0
           | OP_OR \<Rightarrow> \<forall>i < k - 1. smt env (e_args e ! i) = 0
           | OP_EQ \<Rightarrow> k = 2 \<longrightarrow> uint a = smt env (e_args e ! 0)
           | _ \<Rightarrow> True))"

lemma computes_Next:
  assumes "computes m v"
  shows "\<exists>r. next_arg k m = Inr (Next k r) \<and> uint r = v"
  using assms by (auto simp: computes_def next_arg_def)

lemma not_wide_width: "\<not> wide e \<Longrightarrow> e_sort e = BvSort n \<Longrightarrow> n \<le> 64"
  by (simp add: wide_def)

lemma wt_node_width: "wt_node n e \<Longrightarrow> e_sort e = BvSort m \<Longrightarrow> 1 \<le> m"
  by (simp add: wt_node_def)

text \<open>The widths and the range of an argument.\<close>

lemma arg_facts:
  assumes "well_sorted nd e" "i < length (e_args e)" "e_sort (e_args e ! i) = BvSort m" "\<not> wide (e_args e ! i)"
  shows "1 \<le> m" "m \<le> 64" "in_range m (smt env (e_args e ! i))"
proof -
  have ws: "well_sorted nd (e_args e ! i)" using well_sorted_arg [OF assms(1)] assms(2) by simp
  show "1 \<le> m" using wt_node_width [OF well_sorted_node [OF ws] assms(3)] .
  show "m \<le> 64" using not_wide_width [OF assms(4,3)] .
  show "in_range m (smt env (e_args e ! i))" using smt_range [OF ws, of env] assms(3) by simp
qed

text \<open>What well-sortedness and definedness say of a node whose arguments are all narrow.\<close>

lemma ub_free_node:
  assumes "ub_free env e" "e_decl e = BvDecl kind ps" "\<not> wide e" "\<forall>a \<in> set (e_args e). \<not> wide a"
  shows "c_defined kind ps (bv_width (e_sort e)) (map (smt env) (e_args e))"
proof -
  have "e \<in> set (subexprs e)" by (rule subexprs_self)
  with assms show ?thesis unfolding ub_free_def by fastforce
qed

lemma combine_bv_first:
  assumes ws: "well_sorted nd e" and d: "e_decl e = BvDecl kind ps" and nw: "\<not> wide e" and ub: "ub_free env e"
    and p: "pass_ok env e 1 a r" and ne: "e_args e \<noteq> []"
  shows "\<exists>r'. eval_combine e 1 a r = Inr (Next 1 r') \<and>
    uint r' = smt_bv kind ps (bv_width (e_sort e)) (take 1 (arg_vals env e))"
proof -
  have r: "uint r = smt env (e_args e ! 0)" "\<not> wide (e_args e ! 0)" using p by (auto simp: pass_ok_def)
  have wt: "wt_bv kind ps (e_sort e) (map e_sort (e_args e))"
    using well_sorted_node [OF ws] d by (simp add: wt_node_def)
  have pre: "take 1 (arg_vals env e) = [(bv_width (e_sort (e_args e ! 0)), smt env (e_args e ! 0))]"
    using ne take_Suc_arg_vals [of 0 e env] by simp
  have comb: "eval_combine e 1 a r = next_arg 1 (eval_first_bv e kind ps r)" using d by (simp add: eval_combine_def)
  have "computes (eval_first_bv e kind ps r)
      (smt_first kind ps (bv_width (e_sort e)) (bv_width (e_sort (e_args e ! 0))) (uint r))"
  proof (cases "e_args e")
    case Nil
    then show ?thesis using ne by simp
  next
    case (Cons x xs)
    show ?thesis
    proof (cases xs)
      case Nil
      then have x: "e_args e = [x]" using Cons by simp
      obtain n m where sorts: "e_sort e = BvSort n" "e_sort x = BvSort m"
        using wt x by (auto simp: wt_bv_def split: z3_sort.splits if_splits)
      have m: "1 \<le> m" "m \<le> 64" "in_range m (smt env x)" using arg_facts [OF ws, where i = 0 and m = m] x sorts r by auto
      have n: "1 \<le> n" "n \<le> 64"
        using wt_node_width [OF well_sorted_node [OF ws] sorts(1)] not_wide_width [OF nw sorts(1)] .
      have "c_defined kind ps n [uint r]" using ub_free_node [OF ub d nw] x r sorts by simp
      then show ?thesis
        using computes_first [OF x sorts n m(1,2), of kind ps r] wt x sorts m(3) r by (simp add: in_range_def)
    next
      case (Cons y ys)
      then have "compare_kind kind \<or> arith_kind kind \<or> kind = OP_CONCAT" "length (e_args e) \<noteq> 1"
        using wt_bv_multi wt \<open>e_args e = x # xs\<close> by (auto dest: wt_bv_multi)
      then show ?thesis by (simp add: eval_first_multi smt_first_multi computes_def)
    qed
  qed
  from computes_Next [OF this, of 1] show ?thesis unfolding comb pre smt_bv_one r(1) .
qed

text \<open>The later arguments, one kind of operator at a time.\<close>

lemma later_compare:
  assumes ws: "well_sorted nd e" and k: "k = 2" "length (e_args e) = 2"
    and c: "compare_kind kind" "e_sort (e_args e ! 1) = e_sort (e_args e ! 0)" "e_sort (e_args e ! 0) \<noteq> BoolSort"
    and nw: "\<not> wide (e_args e ! 0)" "\<not> wide (e_args e ! 1)"
    and ar: "uint a = smt env (e_args e ! 0)" "uint r = smt env (e_args e ! 1)"
  shows "computes (eval_later_bv e kind k a r)
    (smt_later kind n (bv_width (e_sort (e_args e ! 1))) (uint a) (uint r))"
proof -
  obtain m where m: "e_sort (e_args e ! 0) = BvSort m" using c(3) by (cases "e_sort (e_args e ! 0)") auto
  then have m1: "e_sort (e_args e ! 1) = BvSort m" using c(2) by simp
  note f0 = arg_facts [OF ws _ m nw(1)] and f1 = arg_facts [OF ws _ m1 nw(2)]
  have "uint a < 2 ^ m" "uint r < 2 ^ m" using f0(3) f1(3) k ar by (simp_all add: in_range_def)
  then show ?thesis
    using computes_compare [OF m _ _ _ _ c(1), of a r k n] f0(1,2) k m1 by simp
qed

lemma take_arg_vals:
  assumes "2 \<le> k" "k \<le> length (e_args e)" "\<forall>mv \<in> set (arg_vals env e). P mv"
  shows "take (k - 1) (arg_vals env e) \<noteq> []" "\<forall>mv \<in> set (take (k - 1) (arg_vals env e)). P mv"
  using assms length_arg_vals [of env e] by (auto dest: in_set_takeD simp del: length_arg_vals)

lemma later_arith:
  assumes ws: "well_sorted nd e" and k: "2 \<le> k" "k \<le> length (e_args e)" and s: "e_sort e = BvSort n" "\<not> wide e"
    and c: "arith_kind kind" "\<forall>x \<in> set (e_args e). e_sort x = BvSort n"
    and def: "c_defined kind ps n [uint a, uint r]"
    and ar: "uint a = smt_bv kind ps n (take (k - 1) (arg_vals env e))" "uint r = smt env (e_args e ! (k - 1))"
  shows "computes (eval_later_bv e kind k a r) (smt_later kind n m (uint a) (uint r))"
proof -
  have n: "1 \<le> n" "n \<le> 64"
    using wt_node_width [OF well_sorted_node [OF ws] s(1)] not_wide_width [OF s(2,1)] .
  have all: "\<forall>(m, v) \<in> set (arg_vals env e). in_range n v"
    using arg_vals_range [OF ws, of env] c(2) by (fastforce simp: arg_vals_def)
  have "uint a < 2 ^ n"
    using prefix_range_arith [OF c(1) n(1) take_arg_vals [OF k all], of ps]
    by (simp only: ar(1) in_range_def)
  moreover have "uint r < 2 ^ n"
    using smt_range [OF well_sorted_arg [OF ws], of "e_args e ! (k - 1)" env] k c(2) by (simp add: ar(2) in_range_def)
  ultimately show ?thesis by (rule computes_arith [OF s(1) n _ _ c(1) def])
qed

lemma arg_width_pos: "well_sorted nd e \<Longrightarrow> x \<in> set (e_args e) \<Longrightarrow> 1 \<le> bv_width (e_sort x)"
  using wt_node_width [OF well_sorted_node [OF well_sorted_arg]] by (cases "e_sort x") auto

lemma later_concat:
  assumes ws: "well_sorted nd e" and k: "2 \<le> k" "k \<le> length (e_args e)" and s: "e_sort e = BvSort n" "\<not> wide e"
    and c: "n = sum_list (map bv_width (map e_sort (e_args e)))" "\<forall>x \<in> set (e_args e). e_sort x \<noteq> BoolSort"
    and ar: "uint a = smt_bv OP_CONCAT ps n (take (k - 1) (arg_vals env e))" "uint r = smt env (e_args e ! (k - 1))"
  shows "computes (eval_later_bv e OP_CONCAT k a r)
    (smt_later OP_CONCAT n (bv_width (e_sort (e_args e ! (k - 1)))) (uint a) (uint r))"
proof -
  let ?p = "sum_list (map fst (take (k - 1) (arg_vals env e)))"
  obtain m where m: "e_sort (e_args e ! (k - 1)) = BvSort m"
    using c(2) k by (cases "e_sort (e_args e ! (k - 1))") auto
  have r: "uint r < 2 ^ m"
    using smt_range [OF well_sorted_arg [OF ws], of "e_args e ! (k - 1)" env] k m by (simp add: ar(2) in_range_def)
  have a: "uint a < 2 ^ ?p"
    using prefix_range_concat [OF take_arg_vals [OF k arg_vals_range [OF ws, of env]], of ps n]
    by (simp only: ar(1) in_range_def)
  have sum: "n = sum_list (map fst (arg_vals env e))" using c(1) by (simp add: arg_vals_def comp_def)
  have "take k (arg_vals env e) = take (k - 1) (arg_vals env e) @ [(m, smt env (e_args e ! (k - 1)))]"
    using take_Suc_arg_vals [of "k - 1" e env] k m by simp
  then have "sum_list (map fst (take k (arg_vals env e))) = ?p + m" by simp
  then have "?p + m \<le> sum_list (map fst (arg_vals env e))"
    by (metis append_take_drop_id le_add1 map_append sum_list_append)
  then have pm: "?p + m \<le> 64" using sum not_wide_width [OF s(2,1)] by simp
  have "\<forall>mv \<in> set (arg_vals env e). 1 \<le> fst mv"
    using arg_width_pos [OF ws] c(2) by (auto simp: arg_vals_def)
  from take_arg_vals [OF k this] have p1: "1 \<le> ?p"
    by (cases "take (k - 1) (arg_vals env e)") auto
  from computes_concat [OF m r a p1 pm] show ?thesis
    using m by (simp add: eval_later_bv_def smt_later_def)
qed

lemma smt_bv_take_one:
  assumes "e_args e \<noteq> []" "compare_kind kind \<or> arith_kind kind \<or> kind = OP_CONCAT"
  shows "smt_bv kind ps n (take (Suc 0) (arg_vals env e)) = smt env (e_args e ! 0)"
proof -
  have "take (Suc 0) (arg_vals env e) = [(bv_width (e_sort (e_args e ! 0)), smt env (e_args e ! 0))]"
    using take_Suc_arg_vals [of 0 e env] assms(1) by simp
  then show ?thesis using assms(2) by (simp add: smt_bv_one smt_first_multi)
qed

lemma later_defined:
  assumes d: "e_decl e = BvDecl kind ps" "arith_kind kind" and nw: "\<not> wide e" "\<forall>i < 2. \<not> wide (e_args e ! i)"
    and ub: "ub_free env e" and two: "length (e_args e) = 2"
    and ar: "uint a = smt env (e_args e ! 0)" "uint r = smt env (e_args e ! 1)"
  shows "c_defined kind ps (bv_width (e_sort e)) [uint a, uint r]"
proof -
  have "\<forall>x \<in> set (e_args e). \<not> wide x" using nw(2) two by (auto simp: in_set_conv_nth)
  from ub_free_node [OF ub d(1) nw(1) this]
  show ?thesis using two ar by (cases "e_args e"; cases "tl (e_args e)") auto
qed

lemma combine_bv_later:
  assumes ws: "well_sorted nd e" and d: "e_decl e = BvDecl kind ps" and nw: "\<not> wide e" and ub: "ub_free env e"
    and p: "pass_ok env e k a r" and k: "2 \<le> k"
  shows "\<exists>r'. eval_combine e k a r = Inr (Next k r') \<and>
    uint r' = smt_bv kind ps (bv_width (e_sort e)) (take k (arg_vals env e))"
proof -
  let ?n = "bv_width (e_sort e)" and ?m = "bv_width (e_sort (e_args e ! (k - 1)))"
  have len: "k \<le> length (e_args e)" and r: "uint r = smt env (e_args e ! (k - 1))"
    and narrow: "\<forall>i < k. \<not> wide (e_args e ! i)" and a: "uint a = smt_bv kind ps ?n (take (k - 1) (arg_vals env e))"
    using p k d by (auto simp: pass_ok_def)
  have wt: "wt_bv kind ps (e_sort e) (map e_sort (e_args e))"
    using well_sorted_node [OF ws] d by (simp add: wt_node_def)
  have pre: "smt_bv kind ps ?n (take k (arg_vals env e)) = smt_later kind ?n ?m (uint a) (uint r)"
    using take_Suc_arg_vals [of "k - 1" e env] take_arg_vals(1) [OF k len, of env "\<lambda>_. True"] k len
    by (simp add: smt_bv_snoc a r)
  have comb: "eval_combine e k a r = next_arg k (eval_later_bv e kind k a r)" using d k by (simp add: eval_combine_def)
  obtain s1 s2 ss where sorts: "map e_sort (e_args e) = s1 # s2 # ss"
    using k len by (cases "e_args e"; cases "tl (e_args e)") auto
  then have s12: "s1 = e_sort (e_args e ! 0)" "s2 = e_sort (e_args e ! 1)" "length ss = length (e_args e) - 2"
    by (auto simp: map_eq_Cons_conv)
  from wt_bv_multi [OF wt [unfolded sorts]]
  consider (cmp) "compare_kind kind" "s1 \<noteq> BoolSort" "s2 = s1" "ss = []"
    | (arith) "arith_kind kind" "e_sort e \<noteq> BoolSort" "\<forall>t \<in> set (s1 # s2 # ss). t = e_sort e"
        "ss = [] \<or> kind \<in> {OP_BADD, OP_BMUL, OP_BAND, OP_BOR, OP_BXOR}"
    | (concat) "kind = OP_CONCAT" "e_sort e = BvSort (sum_list (map bv_width (s1 # s2 # ss)))"
        "\<forall>t \<in> set (s1 # s2 # ss). t \<noteq> BoolSort"
    by auto
  then have "computes (eval_later_bv e kind k a r) (smt_later kind ?n ?m (uint a) (uint r))"
  proof cases
    case cmp
    then have two: "length (e_args e) = 2" "k = 2" using arg_cong [OF sorts, of length] k len by auto
    then have "e_args e \<noteq> []" by auto
    then have "uint a = smt env (e_args e ! 0)" using a two cmp(1) by (simp add: smt_bv_take_one)
    then show ?thesis
      using later_compare [OF ws two(2,1) cmp(1)] cmp s12 narrow two r by simp
  next
    case arith
    then obtain n where n: "e_sort e = BvSort n" by (cases "e_sort e") auto
    have all: "\<forall>x \<in> set (e_args e). e_sort x = BvSort n"
      using arith(3) n arg_cong [OF sorts, of set] by auto
    have "c_defined kind ps n [uint a, uint r]"
    proof (cases "ss = []")
      case True
      then have two: "length (e_args e) = 2" "k = 2" "e_args e \<noteq> []" using arg_cong [OF sorts, of length] k len by auto
      then show ?thesis
        using later_defined [OF d arith(1) nw _ ub two(1), of a r] narrow a r arith(1) n by (simp add: smt_bv_take_one)
    next
      case False
      then show ?thesis using arith(4) by (auto simp: c_defined_def)
    qed
    then show ?thesis
      using later_arith [OF ws k len n nw arith(1) all] a r n by simp
  next
    case concat
    have "\<forall>x \<in> set (e_args e). e_sort x \<noteq> BoolSort"
      using concat(3) arg_cong [OF sorts, of set] by auto
    then show ?thesis
      using later_concat [OF ws k len concat(2) nw _ _ _ r, of a ps] a concat(1,2) sorts by simp
  qed
  from computes_Next [OF this, of k] show ?thesis unfolding comb pre .
qed

section \<open>The evaluator computes the meaning\<close>

text \<open>
  What a pass leads to: the value of the expression, or a state from which the next argument
  can be evaluated.
\<close>

definition pass_goes_on :: "(nat \<Rightarrow> int) \<Rightarrow> z3_expr \<Rightarrow> outcome eval_result \<Rightarrow> u64 \<Rightarrow> bool" where
  "pass_goes_on env e m r \<longleftrightarrow>
     (m = Inr Done \<and> uint r = smt env e) \<or>
     (\<exists>k r'. m = Inr (Next k r') \<and>
        (if k < length (e_args e)
         then \<forall>v. \<not> wide (e_args e ! k) \<and> uint v = smt env (e_args e ! k) \<longrightarrow> pass_ok env e (k + 1) r' v
         else uint r' = smt env e))"

lemma pass_bv:
  assumes "well_sorted nd e" "e_decl e = BvDecl kind ps" "\<not> wide e" "ub_free env e" "pass_ok env e k a r"
    "e_args e \<noteq> []"
  shows "pass_goes_on env e (eval_combine e k a r) r"
proof (cases "k = 0")
  case True
  then show ?thesis using assms by (simp add: pass_goes_on_def eval_combine_def pass_ok_def Suc_le_eq)
next
  case False
  then have "\<exists>r'. eval_combine e k a r = Inr (Next k r') \<and>
      uint r' = smt_bv kind ps (bv_width (e_sort e)) (take k (arg_vals env e))"
    using combine_bv_first [OF assms(1-4) _ assms(6), of a r] combine_bv_later [OF assms(1-5)] assms(5)
    by (cases "k = 1") auto
  then obtain r' where r': "eval_combine e k a r = Inr (Next k r')"
    "uint r' = smt_bv kind ps (bv_width (e_sort e)) (take k (arg_vals env e))" by blast
  have len: "k \<le> length (e_args e)" "\<forall>i < k. \<not> wide (e_args e ! i)" using assms(2,5) by (simp_all add: pass_ok_def)
  show ?thesis
  proof (cases "k < length (e_args e)")
    case True
    then show ?thesis using r' len assms(2) False by (auto simp: pass_goes_on_def pass_ok_def less_Suc_eq)
  next
    case last: False
    then have "take k (arg_vals env e) = arg_vals env e" by simp
    then have "uint r' = smt env e" using r'(2) assms(2) by (simp add: smt_unfold [of env e] arg_vals_def)
    with last r' show ?thesis by (simp add: pass_goes_on_def)
  qed
qed

lemma bool_arg_value:
  assumes "well_sorted nd e" "x \<in> set (e_args e)" "e_sort x = BoolSort"
  shows "smt env x = of_bool (smt env x \<noteq> 0)"
  using smt_range [OF well_sorted_arg [OF assms(1,2)], of env] assms(3) by (auto simp: in_range_def)

lemma pass_and_or:
  assumes ws: "well_sorted nd e" and d: "e_decl e = BasicDecl kind" "kind = OP_AND \<or> kind = OP_OR"
    and p: "pass_ok env e k a r"
  shows "pass_goes_on env e (eval_combine e k a r) r"
proof -
  have wt: "e_args e \<noteq> []" "\<forall>x \<in> set (e_args e). e_sort x = BoolSort"
    using well_sorted_node [OF ws] d by (auto simp: wt_node_def wt_basic_def)
  note bool = bool_arg_value [OF ws]
  show ?thesis
  proof (cases "k = 0")
    case True
    then show ?thesis using wt p d by (auto simp: pass_goes_on_def eval_combine_def pass_ok_def Suc_le_eq)
  next
    case False
    let ?x = "e_args e ! (k - 1)"
    have k: "k \<le> length (e_args e)" "?x \<in> set (e_args e)" "uint r = smt env ?x"
      using p False by (auto simp: pass_ok_def)
    have z: "uint r = 0 \<longleftrightarrow> r = 0" by (simp add: uint_0_iff)
    have "uint r = of_bool (uint r \<noteq> 0)" unfolding k(3) by (rule bool [OF k(2)]) (use wt(2) k(2) in simp)
    then have r01: "uint r = of_bool (r \<noteq> 0)" by (simp only: z)
    have zero: "smt env ?x = 0 \<longleftrightarrow> r = 0" using z k(3) by simp
    have prev: "kind = OP_AND \<Longrightarrow> i < k - 1 \<Longrightarrow> smt env (e_args e ! i) \<noteq> 0"
      "kind = OP_OR \<Longrightarrow> i < k - 1 \<Longrightarrow> smt env (e_args e ! i) = 0" for i
      using p d by (auto simp: pass_ok_def)
    have comb: "eval_combine e k a r = Inr (if (r = 0) = (kind = OP_AND) then Done else Next k r)"
      using d False by (auto simp: eval_combine_def eval_first_basic_def eval_later_basic_def)
    have val: "smt env e = (if kind = OP_AND then of_bool (\<forall>x \<in> set (e_args e). smt env x \<noteq> 0)
        else of_bool (\<exists>x \<in> set (e_args e). smt env x \<noteq> 0))"
      using d by (auto simp: smt_unfold [of env e] smt_basic_def)
    show ?thesis
    proof (cases "(r = 0) = (kind = OP_AND)")
      case True
      then have "uint r = smt env e" using d(2) k(2) zero r01 unfolding val by auto
      with True comb show ?thesis by (simp add: pass_goes_on_def)
    next
      case go: False
      have so_far: "kind = OP_AND \<Longrightarrow> i < k \<Longrightarrow> smt env (e_args e ! i) \<noteq> 0"
        "kind = OP_OR \<Longrightarrow> i < k \<Longrightarrow> smt env (e_args e ! i) = 0" for i
        using prev [of i] zero go by (cases "i = k - 1"; auto)+
      show ?thesis
      proof (cases "k < length (e_args e)")
        case True
        then show ?thesis using comb go d so_far by (auto simp: pass_goes_on_def pass_ok_def)
      next
        case False
        then have "uint r = smt env e"
          using d(2) so_far k(1) go r01 unfolding val by (auto simp: in_set_conv_nth)
        with False comb go show ?thesis by (simp add: pass_goes_on_def)
      qed
    qed
  qed
qed

lemma pass_not_eq:
  assumes ws: "well_sorted nd e" and d: "e_decl e = BasicDecl kind" "kind = OP_NOT \<or> kind = OP_EQ"
    and p: "pass_ok env e k a r"
  shows "pass_goes_on env e (eval_combine e k a r) r"
proof -
  have z: "uint r = 0 \<longleftrightarrow> r = 0" by (simp add: uint_0_iff)
  have wt: "wt_basic kind (e_sort e) (map e_sort (e_args e))"
    using well_sorted_node [OF ws] d by (simp add: wt_node_def)
  show ?thesis
  proof (cases "kind = OP_NOT")
    case True
    then obtain x where x: "e_args e = [x]" using wt by (auto simp: wt_basic_def)
    then have k: "k = 0 \<or> k = 1" using p by (auto simp: pass_ok_def)
    show ?thesis
      using k p d True x z by (auto simp: pass_goes_on_def eval_combine_def eval_first_basic_def pass_ok_def
          smt_unfold [of env e] smt_basic_def)
  next
    case False
    then obtain x y where x: "e_args e = [x, y]" "kind = OP_EQ" using wt d(2) by (auto simp: wt_basic_def)
    then have k: "k = 0 \<or> k = 1 \<or> k = 2" using p by (auto simp: pass_ok_def)
    have eq: "a = r \<longleftrightarrow> uint a = uint r" by (simp add: word_uint_eq_iff)
    have val: "smt env e = of_bool (smt env x = smt env y)"
      using d x by (simp add: smt_unfold [of env e] smt_basic_def)
    show ?thesis
      using k p d x val eq by (elim disjE) (auto simp: pass_goes_on_def eval_combine_def eval_first_basic_def
          eval_later_basic_def pass_ok_def)
  qed
qed

lemma pass_ite:
  assumes ws: "well_sorted nd e" and d: "e_decl e = BasicDecl OP_ITE" and p: "pass_ok env e k a r"
  shows "pass_goes_on env e (eval_combine e k a r) r"
proof -
  have z: "uint r = 0 \<longleftrightarrow> r = 0" by (simp add: uint_0_iff)
  have "wt_basic OP_ITE (e_sort e) (map e_sort (e_args e))"
    using well_sorted_node [OF ws] d by (simp add: wt_node_def)
  then obtain c x y where x: "e_args e = [c, x, y]" by (auto simp: wt_basic_def)
  have val: "smt env e = (if smt env c \<noteq> 0 then smt env x else smt env y)"
    using d x by (simp add: smt_unfold [of env e] smt_basic_def)
  have "k = 0 \<or> k = 1 \<or> (k = 2 \<and> smt env c \<noteq> 0) \<or> (k = 3 \<and> smt env c = 0)"
    using p d x by (auto simp: pass_ok_def)
  then show ?thesis
    using p d x z val
    by (elim disjE) (auto simp: pass_goes_on_def eval_combine_def eval_first_basic_def eval_later_basic_def
        pass_ok_def)
qed

lemma pass_ok_step:
  assumes "well_sorted nd e" "\<not> wide e" "ub_free env e" "pass_ok env e k a r" "e_args e \<noteq> []"
  shows "pass_goes_on env e (eval_combine e k a r) r"
proof (cases "e_decl e")
  case (Symbol i)
  then show ?thesis using well_sorted_node [OF assms(1)] assms(5) by (simp add: wt_node_def)
next
  case (BvDecl kind ps)
  then show ?thesis using pass_bv [OF assms(1) _ assms(2-5)] by blast
next
  case (BasicDecl kind)
  moreover have "wt_basic kind (e_sort e) (map e_sort (e_args e))"
    using well_sorted_node [OF assms(1)] BasicDecl by (simp add: wt_node_def)
  ultimately show ?thesis
    using pass_and_or [OF assms(1) _ _ assms(4), of kind] pass_not_eq [OF assms(1) _ _ assms(4), of kind]
      pass_ite [OF assms(1) _ assms(4)] assms(5) by (cases kind) (simp_all add: wt_basic_def)
qed

text \<open>
  What the evaluator relies on: \<^verbatim>\<open>data\<close> holds the values of the input symbols, and Z3's model
  evaluation, called on a node with an argument wider than 64 bits, returns the value of the node.
\<close>

locale z3_model =
  fixes inp :: eval_input and env :: "nat \<Rightarrow> int"
  assumes data_env: "i < length (data inp) \<Longrightarrow> env i = uint (data inp ! i)"
    and z3_value: "well_sorted (length (data inp)) e \<Longrightarrow> \<not> wide e \<Longrightarrow> a \<in> set (e_args e) \<Longrightarrow> wide a \<Longrightarrow>
      computes (z3_internal_eval inp e) (smt env e)"
begin

lemma symbol_value:
  assumes ws: "well_sorted (length (data inp)) e" and d: "e_decl e = Symbol i" and nw: "\<not> wide e"
  shows "computes (eval_symbol inp e i) (smt env e)"
proof -
  have wt: "e_sort e \<noteq> BoolSort" "0 \<le> i" "nat i < length (data inp)"
    using well_sorted_node [OF ws] d by (auto simp: wt_node_def)
  then obtain n where n: "e_sort e = BvSort n" by (cases "e_sort e") auto
  have "1 \<le> n" "n \<le> 64" using wt_node_width [OF well_sorted_node [OF ws] n] not_wide_width [OF nw n] .
  from computes_masked [OF n this, of "data inp ! nat i"] show ?thesis
    using wt d n data_env [OF wt(3)] by (simp add: eval_symbol_def smt_unfold [of env e])
qed

lemma nullary_value:
  assumes ws: "well_sorted (length (data inp)) e" and d: "\<And>i. e_decl e \<noteq> Symbol i" "e_args e = []"
    and nw: "\<not> wide e"
  shows "computes (eval_bind (eval_nullary e) (\<lambda>(v, keep). Inr v)) (smt env e)"
proof (cases "e_decl e")
  case (BvDecl kind ps)
  then have wt: "wt_bv kind ps (e_sort e) []" using well_sorted_node [OF ws] d(2) by (simp add: wt_node_def)
  have range: "0 \<le> smt env e" "smt env e < 2 ^ bv_width (e_sort e)"
    using smt_range [OF ws, of env] by (simp_all add: in_range_def)
  have "(2 :: int) ^ bv_width (e_sort e) \<le> 2 ^ 64"
    using nw by (intro power_increasing) (auto simp: wide_def split: z3_sort.splits)
  then have small: "smt env e < 2 ^ 64" using range by linarith
  then have "uint (word_of_int (smt env e) :: u64) = smt env e"
    using range by (subst unsigned_of_int) (simp add: take_bit_int_eq_self)
  then show ?thesis
    using wt BvDecl d(2)
    by (auto simp: wt_bv_def eval_nullary_def computes_def smt_unfold [of env e] smt_bv_def neq_Nil_conv
        split: z3_sort.splits)
next
  case (BasicDecl kind)
  then have "wt_basic kind (e_sort e) []" using well_sorted_node [OF ws] d(2) by (simp add: wt_node_def)
  then show ?thesis
    using BasicDecl d(2) by (cases kind) (auto simp: wt_basic_def eval_nullary_def computes_def
        smt_unfold [of env e] smt_basic_def)
qed (use d in simp)

lemma args_value_step:
  assumes ws: "well_sorted (length (data inp)) e" and ub: "ub_free env e" and nw: "\<not> wide e"
    and p: "pass_ok env e k a r" and args: "e_args e \<noteq> []"
    and arg: "\<And>k' r'. eval_combine e k a r = Inr (Next k' r') \<Longrightarrow> k' < length (e_args e) \<Longrightarrow>
      \<not> wide (e_args e ! k') \<Longrightarrow> computes (ev inp (e_args e ! k')) (smt env (e_args e ! k'))"
    and rest: "\<And>k' r' v. eval_combine e k a r = Inr (Next k' r') \<Longrightarrow> k' < length (e_args e) \<Longrightarrow>
      \<not> wide (e_args e ! k') \<Longrightarrow> ev inp (e_args e ! k') = Inr v \<Longrightarrow> pass_ok env e (k' + 1) r' v \<Longrightarrow>
      computes (ev_args inp e (k' + 1) r' v) (smt env e)"
  shows "computes (ev_args inp e k a r) (smt env e)"
proof -
  have "pass_goes_on env e (eval_combine e k a r) r" using pass_ok_step [OF ws nw ub p args] .
  then consider (fin) "eval_combine e k a r = Inr Done" "uint r = smt env e"
    | (last) k' r' where "eval_combine e k a r = Inr (Next k' r')" "\<not> k' < length (e_args e)" "uint r' = smt env e"
    | (more) k' r' where "eval_combine e k a r = Inr (Next k' r')" "k' < length (e_args e)"
        "\<And>v. \<not> wide (e_args e ! k') \<Longrightarrow> uint v = smt env (e_args e ! k') \<Longrightarrow> pass_ok env e (k' + 1) r' v"
    unfolding pass_goes_on_def by (elim disjE exE conjE) (simp, metis)
  then show ?thesis
  proof cases
    case fin
    then show ?thesis by (simp add: ev_args.simps [of inp e k a r] computes_def)
  next
    case last
    then show ?thesis by (simp add: ev_args.simps [of inp e k a r] computes_def)
  next
    case more
    let ?x = "e_args e ! k'"
    show ?thesis
    proof (cases "wide ?x")
      case True
      then show ?thesis using z3_value [OF ws nw nth_mem [OF more(2)] True] more(1,2)
        by (simp add: ev_args.simps [of inp e k a r])
    next
      case False
      then obtain v where v: "ev inp ?x = Inr v" "uint v = smt env ?x"
        using arg [OF more(1,2)] by (auto simp: computes_def)
      show ?thesis using rest [OF more(1,2) False v(1) more(3) [OF False v(2)]] more(1,2) False v(1)
        by (simp add: ev_args.simps [of inp e k a r])
    qed
  qed
qed

lemma ev_value_both:
  shows "inp' = inp \<Longrightarrow> well_sorted (length (data inp)) e \<Longrightarrow> ub_free env e \<Longrightarrow> \<not> wide e \<Longrightarrow>
      computes (ev inp' e) (smt env e)"
    and "inp' = inp \<Longrightarrow> well_sorted (length (data inp)) e \<Longrightarrow> ub_free env e \<Longrightarrow> \<not> wide e \<Longrightarrow>
      e_args e \<noteq> [] \<Longrightarrow> pass_ok env e k a r \<Longrightarrow> computes (ev_args inp' e k a r) (smt env e)"
proof (induction inp' e and inp' e k a r rule: ev_ev_args.induct)
  case (1 inp' e)
  note prems = "1.prems"
  show ?case
  proof (cases "\<exists>i. e_decl e = Symbol i")
    case True
    then show ?thesis using symbol_value [OF prems(2) _ prems(4)] prems(1) by (auto simp: ev.simps)
  next
    case False
    then have unfold: "ev inp' e = (if e_args e = [] then eval_bind (eval_nullary e) (\<lambda>(v, keep). Inr v)
        else ev_args inp' e 0 0 0)"
      by (auto simp: ev.simps split: z3_decl.splits)
    have "e_args e \<noteq> [] \<Longrightarrow> computes (ev_args inp' e 0 0 0) (smt env e)"
      using "1.IH" prems False by (cases "e_decl e") (auto simp: pass_ok_def split: basic_kind.splits)
    then show ?thesis using nullary_value [OF prems(2) _ _ prems(4)] False unfold by auto
  qed
next
  case (2 inp' e k a r)
  note prems = "2.prems"
  have "computes (ev_args inp e k a r) (smt env e)"
  proof (rule args_value_step [OF prems(2,3,4,6,5)])
    fix k' r'
    assume n: "eval_combine e k a r = Inr (Next k' r')" "k' < length (e_args e)" "\<not> wide (e_args e ! k')"
    then show "computes (ev inp (e_args e ! k')) (smt env (e_args e ! k'))"
      using "2.IH"(1) [OF n(1) refl n(2) refl n(3) prems(1) well_sorted_arg [OF prems(2)] ub_free_arg [OF prems(3)]]
        prems(1) by simp
  next
    fix k' r' v
    assume n: "eval_combine e k a r = Inr (Next k' r')" "k' < length (e_args e)" "\<not> wide (e_args e ! k')"
      "ev inp (e_args e ! k') = Inr v" "pass_ok env e (k' + 1) r' v"
    show "computes (ev_args inp e (k' + 1) r' v) (smt env e)"
      using "2.IH"(2) [OF n(1) refl n(2) refl n(3)] n(4,5) prems by simp
  qed
  then show ?case using prems(1) by simp
qed

lemma ev_value:
  "well_sorted (length (data inp)) e \<Longrightarrow> ub_free env e \<Longrightarrow> \<not> wide e \<Longrightarrow> computes (ev inp e) (smt env e)"
  by (rule ev_value_both(1) [OF refl])

text \<open>The conjuncts of \<^verbatim>\<open>Z3_custom_eval_depth\<close>: the depth is the number that hold before the first that does not.\<close>

lemma ev_depth_value:
  assumes "\<forall>x \<in> set es. well_sorted (length (data inp)) x \<and> ub_free env x \<and> \<not> wide x"
  shows "ev_depth inp es d =
    Inr (of_bool (\<forall>x \<in> set es. smt env x \<noteq> 0), d + length (takeWhile (\<lambda>x. smt env x \<noteq> 0) es))"
  using assms
proof (induction es arbitrary: d)
  case (Cons x es)
  then obtain v where v: "ev inp x = Inr v" "uint v = smt env x" using ev_value [of x] by (auto simp: computes_def)
  then have "v = 0 \<longleftrightarrow> smt env x = 0" by (metis uint_0_iff)
  with Cons v show ?case by auto
qed simp

end

text \<open>
  The contract is met by the model evaluation that returns the value of the node: the
  assumption on Z3 says no more than that its evaluation is the one of SMT-LIB.
\<close>

definition exact_input :: "u64 list \<Rightarrow> eval_input" where
  "exact_input ds = \<lparr>data = ds, z3_internal_eval = \<lambda>e. Inr (word_of_int (smt (\<lambda>i. uint (ds ! i)) e))\<rparr>"

lemma smt_not_wide:
  assumes "well_sorted nd e" "\<not> wide e"
  shows "0 \<le> smt env e" "smt env e < 2 ^ 64"
proof -
  have range: "0 \<le> smt env e" "smt env e < 2 ^ bv_width (e_sort e)"
    using smt_range [OF assms(1), of env] by (simp_all add: in_range_def)
  have "(2 :: int) ^ bv_width (e_sort e) \<le> 2 ^ 64"
    using assms(2) by (intro power_increasing) (auto simp: wide_def split: z3_sort.splits)
  then show "0 \<le> smt env e" "smt env e < 2 ^ 64" using range by linarith+
qed

interpretation exact_z3: z3_model "exact_input ds" "\<lambda>i. uint (ds ! i)" for ds
proof unfold_locales
  fix e a assume "well_sorted (length (data (exact_input ds))) e" "\<not> wide e"
  from smt_not_wide [OF this, of "\<lambda>i. uint (ds ! i)"]
  show "computes (z3_internal_eval (exact_input ds) e) (smt (\<lambda>i. uint (ds ! i)) e)"
    by (simp add: computes_def exact_input_def unsigned_of_int take_bit_int_eq_self)
qed (simp add: exact_input_def)

end
