(* ===== verification/Z3_Eval_Spec.thy ===== *)
theory Z3_Eval_Spec
  imports Z3_Semantics
begin

text \<open>
  The properties of the evaluator of \<^verbatim>\<open>api_ast.cpp\<close>: the frame machine returns within twice
  the number of nodes and agrees with the recursion it unrolls, its value is the SMT-LIB value
  wherever the C++ operators are defined, \<^verbatim>\<open>Z3_custom_eval_depth\<close> counts conjuncts, and the
  operands on which the C++ operators are not defined although the SMT-LIB operators are.
\<close>

section \<open>An example expression\<close>

text \<open>\<open>(x + y) udiv 3 <\<^sub>u 5\<close> and \<open>not (y = 0)\<close> on two 8-bit input symbols.\<close>

definition ex_sym :: "nat \<Rightarrow> z3_expr" where
  "ex_sym i = App i (BvSort 8) (Symbol (int i)) []"

definition ex_num :: "nat \<Rightarrow> int \<Rightarrow> z3_expr" where
  "ex_num i v = App i (BvSort 8) (BvDecl OP_BV_NUM [v]) []"

definition ex_lt :: z3_expr where
  "ex_lt = App 9 BoolSort (BvDecl OP_ULT []) [
     App 8 (BvSort 8) (BvDecl OP_BUDIV []) [
       App 7 (BvSort 8) (BvDecl OP_BADD []) [ex_sym 0, ex_sym 1], ex_num 5 3], ex_num 6 5]"

definition ex_ne :: z3_expr where
  "ex_ne = App 12 BoolSort (BasicDecl OP_NOT) [App 11 BoolSort (BasicDecl OP_EQ) [ex_sym 1, ex_num 10 0]]"

definition ex_and :: z3_expr where
  "ex_and = App 13 BoolSort (BasicDecl OP_AND) [ex_lt, ex_ne]"

lemmas ex_defs = ex_sym_def ex_num_def ex_lt_def ex_ne_def ex_and_def

lemma ex_and_ok:
  "ids_distinct ex_and" "\<not> wide ex_and" "well_sorted (Suc (Suc 0)) ex_and" "ub_free env ex_and" "nodes ex_and = 12"
  by (simp_all add: ex_defs ids_distinct_def wide_def well_sorted_def wt_node_def wt_bv_def wt_basic_def
      compare_kind_def arith_kind_def ub_free_def c_defined_def)

lemma ex_and_args:
  "e_args ex_and = [ex_lt, ex_ne]" "e_decl ex_and = BasicDecl OP_AND" "\<forall>x \<in> set (e_args ex_and). \<not> wide x"
  by (simp_all add: ex_defs wide_def)

section \<open>Properties\<close>

text \<open>
  C23. The explicit-stack evaluator with its cache returns within \<open>2 * nodes e\<close> turns of its loop,
  on every expression of at most 64 bits whose node ids identify them, and returns what the
  direct recursion on the arguments returns, errors included: neither the stack discipline
  nor the memoisation changes a result.
\<close>

theorem custom_eval_is_direct_recursion:
  assumes "ids_distinct e" "\<not> wide e" "2 * nodes e \<le> fuel"
  shows "Z3_custom_eval inp fuel e = Some (ev inp e)"
  using Z3_custom_eval_ev [OF shared_subexprs [OF assms(1)] subexprs_self assms(2,3)] .

theorem custom_eval_is_direct_recursion_witness:
  "ids_distinct ex_and \<and> \<not> wide ex_and \<and> 2 * nodes ex_and \<le> 24 \<and>
   Z3_custom_eval (exact_input [4, 9]) 24 ex_and = Some (ev (exact_input [4, 9]) ex_and)"
  using custom_eval_is_direct_recursion [of ex_and 24 "exact_input [4, 9]"] by (simp add: ex_and_ok)

lemma custom_eval_value:
  assumes model: "z3_model inp env"
    and e: "well_sorted (length (data inp)) e" "ids_distinct e" "\<not> wide e" "ub_free env e" "2 * nodes e \<le> fuel"
  shows "\<exists>v. Z3_custom_eval inp fuel e = Some (Inr v) \<and> uint v = smt env e"
proof -
  from z3_model.ev_value [OF model e(1,4,3)]
  obtain v where "ev inp e = Inr v" "uint v = smt env e" by (auto simp: computes_def)
  then show ?thesis
    using Z3_custom_eval_ev [OF shared_subexprs [OF e(2)] subexprs_self e(3,5), of inp] by simp
qed

text \<open>
  C1. On a well-sorted expression the evaluator returns the value SMT-LIB gives it, provided
  the input array holds the values of the symbols, Z3's own evaluation of the nodes with
  arguments over 64 bits is right, and no operator is applied where C++ leaves it undefined.
\<close>

theorem custom_eval_computes_smt_value:
  assumes data: "\<And>i. i < length (data inp) \<Longrightarrow> env i = uint (data inp ! i)"
    and z3: "\<And>x a. well_sorted (length (data inp)) x \<Longrightarrow> \<not> wide x \<Longrightarrow> a \<in> set (e_args x) \<Longrightarrow> wide a \<Longrightarrow>
      computes (z3_internal_eval inp x) (smt env x)"
    and e: "well_sorted (length (data inp)) e" "ids_distinct e" "\<not> wide e" "ub_free env e" "2 * nodes e \<le> fuel"
  shows "\<exists>v. Z3_custom_eval inp fuel e = Some (Inr v) \<and> uint v = smt env e"
  by (rule custom_eval_value [OF z3_model.intro [OF data z3] e])

theorem custom_eval_computes_smt_value_witness:
  "\<exists>v. Z3_custom_eval (exact_input [4, 9]) 24 ex_and = Some (Inr v) \<and>
       uint v = smt (\<lambda>i. uint (([4, 9] :: u64 list) ! i)) ex_and"
  by (rule custom_eval_computes_smt_value [OF exact_z3.data_env exact_z3.z3_value])
    (simp_all add: ex_and_ok exact_input_def)

text \<open>
  On a conjunction \<^verbatim>\<open>Z3_custom_eval_depth\<close> returns the truth of the conjunction and, as depth,
  the number of conjuncts that hold before the first that does not.
\<close>

theorem custom_eval_depth_counts:
  assumes data: "\<And>i. i < length (data inp) \<Longrightarrow> env i = uint (data inp ! i)"
    and z3: "\<And>x a. well_sorted (length (data inp)) x \<Longrightarrow> \<not> wide x \<Longrightarrow> a \<in> set (e_args x) \<Longrightarrow> wide a \<Longrightarrow>
      computes (z3_internal_eval inp x) (smt env x)"
    and e: "well_sorted (length (data inp)) e" "ids_distinct e" "e_decl e = BasicDecl OP_AND" "ub_free env e"
      "2 * nodes e \<le> fuel"
  shows "Z3_custom_eval_depth inp fuel e =
    Some (Inr (word_of_int (smt env e), length (takeWhile (\<lambda>x. smt env x \<noteq> 0) (e_args e))))"
proof -
  have model: "z3_model inp env" using data z3 by (rule z3_model.intro)
  have wt: "e_args e \<noteq> []" "\<forall>x \<in> set (e_args e). e_sort x = BoolSort"
    using well_sorted_node [OF e(1)] e(3) by (auto simp: wt_node_def wt_basic_def)
  have sub: "set (e_args e) \<subseteq> set (subexprs e)" using subexprs_args [OF subexprs_self] by blast
  have bnd: "\<forall>x \<in> set (e_args e). 2 * nodes x \<le> fuel"
  proof
    fix x assume "x \<in> set (e_args e)"
    then have "nodes x \<le> nodes e" by (cases e) (auto intro!: le_SucI member_le_sum_list)
    then show "2 * nodes x \<le> fuel" using e(5) by simp
  qed
  have args: "\<forall>x \<in> set (e_args e). well_sorted (length (data inp)) x \<and> ub_free env x \<and> \<not> wide x"
    using well_sorted_arg [OF e(1)] ub_free_arg [OF e(4)] wt(2) by (auto simp: wide_def)
  have "smt env e = of_bool (\<forall>x \<in> set (e_args e). smt env x \<noteq> 0)"
    using e(3) by (simp add: smt_unfold [of env e] smt_basic_def)
  then show ?thesis
    using eval_conjuncts_ev [OF shared_subexprs [OF e(2)] sub _ cache_ok_empty bnd, of inp 0] args wt(1) e(3)
      z3_model.ev_depth_value [OF model args, of 0]
    by (simp add: Z3_custom_eval_depth_def)
qed

theorem custom_eval_depth_counts_witness:
  "Z3_custom_eval_depth (exact_input [40, 9]) 24 ex_and = Some (Inr (0, 0)) \<and>
   Z3_custom_eval_depth (exact_input [4, 0]) 24 ex_and = Some (Inr (0, 1))"
  using custom_eval_depth_counts [where inp = "exact_input [40, 9]" and e = ex_and and fuel = 24,
      OF exact_z3.data_env exact_z3.z3_value]
    custom_eval_depth_counts [where inp = "exact_input [4, 0]" and e = ex_and and fuel = 24,
      OF exact_z3.data_env exact_z3.z3_value]
  by (simp add: ex_and_ok(1,3,4,5) ex_and_args(2) exact_input_def)
    (simp add: ex_defs smt_bv_def smt_first_def smt_later_def smt_basic_def smt_udiv_def)

text \<open>
  A left or logical right shift by 64 or more applies the C++ shift operator outside its
  range: the result is undefined, whereas SMT-LIB gives 0.
\<close>

theorem shift_amount_over_63_undefined:
  assumes e: "e_decl e = BvDecl kind ps" "kind = OP_BSHL \<or> kind = OP_BLSHR" "e_args e = [x, y]"
      "e_sort e = BvSort n" "n \<le> 64"
    and args: "\<not> wide x" "\<not> wide y" "ev inp x = Inr a" "ev inp y = Inr b" "64 \<le> uint b" "uint a < 2 ^ n"
    and fuel: "ids_distinct e" "2 * nodes e \<le> fuel"
  shows "Z3_custom_eval inp fuel e = Some (Inl Undefined) \<and> smt_later kind n n (uint a) (uint b) = 0"
proof -
  have nw: "\<not> wide e" using e(4,5) by (simp add: wide_def)
  have run: "ev inp e = eval_bind (eval_later_bv e kind (Suc (Suc 0)) a b) Inr"
    using e args by (auto simp: ev.simps [of inp e] ev_args.simps eval_combine_def eval_first_bv_def next_arg_def
        eval_bind_def split: sum.splits)
  have big: "\<not> unat b < 64" using args(5) of_nat_less_iff [where 'a = int, of "unat b" 64] by simp
  have undef: "eval_later_bv e kind (Suc (Suc 0)) a b = Inl Undefined"
    using e(2) big by (auto simp: eval_later_bv_def c_shl_def c_shr_def)
  have n: "n \<le> nat (uint b)" using e(5) args(5) by linarith
  then have "(2 :: int) ^ n \<le> 2 ^ nat (uint b)" by (intro power_increasing) simp_all
  then have "uint a < 2 ^ nat (uint b)" using args(6) by linarith
  then have "uint a div 2 ^ nat (uint b) = 0" by (intro div_pos_pos_trivial) simp_all
  moreover have "(uint a * 2 ^ nat (uint b)) mod 2 ^ n = 0"
    using n by (simp add: le_imp_power_dvd dvd_imp_mod_0 del: nat_uint_eq)
  ultimately have "smt_later kind n n (uint a) (uint b) = 0"
    using e(2) by (elim disjE) (simp_all add: smt_later_def del: nat_uint_eq)
  then show ?thesis
    using undef run Z3_custom_eval_ev [OF shared_subexprs [OF fuel(1)] subexprs_self nw fuel(2), of inp] by simp
qed

text \<open>\<open>x << 200\<close> on an 8-bit symbol.\<close>

definition ex_shl :: z3_expr where
  "ex_shl = App 2 (BvSort 8) (BvDecl OP_BSHL []) [ex_sym 0, ex_num 1 200]"

theorem shift_amount_over_63_undefined_witness:
  "Z3_custom_eval (exact_input [1]) 6 ex_shl = Some (Inl Undefined) \<and> smt_later OP_BSHL 8 8 1 200 = 0"
  using shift_amount_over_63_undefined [of ex_shl OP_BSHL "[]" "ex_sym 0" "ex_num 1 200" 8 "exact_input [1]" 1 200 6]
  by (simp add: ex_shl_def ex_sym_def ex_num_def wide_def ev.simps eval_symbol_def eval_nullary_def exact_input_def
      masked_def MASK_SIZE_def SIZE_def MASK_def size_mask_def ids_distinct_def)

text \<open>
  The 32 and 64-bit signed division of the least value by -1 overflows the C++ division:
  the result is undefined, whereas SMT-LIB gives the least value back.
\<close>

theorem sdiv_least_by_minus_one_undefined:
  assumes "e_sort e = BvSort n" "n \<in> {32, 64}"
  shows "eval_sdiv e (push_bit (n - 1) 1) (size_mask n) = Inl Undefined \<and>
    smt_sdiv n (2 ^ (n - 1)) (2 ^ n - 1) = 2 ^ (n - 1)"
  using assms by (auto simp: eval_sdiv_def SIZE_def OPERATION_def c_apply_def c_int_def size_mask_def
      smt_sdiv_def sgn_val_def)

theorem sdiv_least_by_minus_one_undefined_witness:
  "eval_sdiv (App 0 (BvSort 32) (BvDecl OP_BSDIV []) []) (push_bit 31 1) (size_mask 32) = Inl Undefined \<and>
   smt_sdiv 32 (2 ^ 31) (2 ^ 32 - 1) = 2 ^ 31"
  using sdiv_least_by_minus_one_undefined [of "App 0 (BvSort 32) (BvDecl OP_BSDIV []) []" 32] by simp

end
