(* ===== verification/C_Text.thy ===== *)
theory C_Text
  imports Prelude "HOL-Library.Sublist"
begin

text \<open>
  C strings and the parts of the C library that \<^verbatim>\<open>libsbsv\<close> uses. A C string is the list of its
  characters before the terminator; \<^verbatim>\<open>ctype.h\<close> is that of the C locale, which the program never
  changes. \<^verbatim>\<open>strtoll\<close> and \<^verbatim>\<open>strtoull\<close> return the value, whether \<^verbatim>\<open>errno\<close> is \<^verbatim>\<open>ERANGE\<close>, and the rest
  of the string at \<^verbatim>\<open>end_ptr\<close>.
\<close>

named_theorems ctext_simps \<open>defining equations that evaluate text\<close>

abbreviation NUL :: char where "NUL \<equiv> CHR 0x00"
abbreviation BSLASH :: char where "BSLASH \<equiv> CHR 0x5C"
abbreviation QUOTE :: char where "QUOTE \<equiv> CHR 0x22"
abbreviation NEWLINE :: char where "NEWLINE \<equiv> CHR 0x0A"
abbreviation DOLLAR :: char where "DOLLAR \<equiv> CHR 0x24"

section \<open>Characters\<close>

definition is_space :: "char \<Rightarrow> bool" where
  "is_space ch \<longleftrightarrow> ch = CHR '' '' \<or> ch = CHR 0x09 \<or> ch = CHR 0x0A \<or> ch = CHR 0x0D \<or> ch = CHR 0x0C \<or> ch = CHR 0x0B"

definition in_chars :: "char \<Rightarrow> char \<Rightarrow> char \<Rightarrow> bool" where
  "in_chars lo hi ch \<longleftrightarrow> (of_char lo :: nat) \<le> of_char ch \<and> (of_char ch :: nat) \<le> of_char hi"

definition is_digit :: "char \<Rightarrow> bool" where
  "is_digit ch = in_chars CHR ''0'' CHR ''9'' ch"

definition is_alnum :: "char \<Rightarrow> bool" where
  "is_alnum ch \<longleftrightarrow> is_digit ch \<or> in_chars CHR ''A'' CHR ''Z'' ch \<or> in_chars CHR ''a'' CHR ''z'' ch"

definition to_lower :: "char \<Rightarrow> char" where
  "to_lower ch = (if in_chars CHR ''A'' CHR ''Z'' ch then char_of (of_char ch + 32 :: nat) else ch)"

section \<open>Strings\<close>

definition trim_left :: "string \<Rightarrow> string" where
  "trim_left s = dropWhile is_space s"

definition trim_right :: "string \<Rightarrow> string" where
  "trim_right s = rev (dropWhile is_space (rev s))"

definition trim :: "string \<Rightarrow> string" where
  "trim s = trim_right (trim_left s)"

text \<open>\<^verbatim>\<open>strchr\<close>: the text before the first occurrence and the text after it.\<close>

definition split_char :: "char \<Rightarrow> string \<Rightarrow> (string \<times> string) option" where
  "split_char c s = (if c \<in> set s then Some (takeWhile (\<lambda>x. x \<noteq> c) s, tl (dropWhile (\<lambda>x. x \<noteq> c) s)) else None)"

text \<open>The characters of a buffer from an offset on, up to the terminator.\<close>

definition c_string_at :: "string \<Rightarrow> nat \<Rightarrow> string" where
  "c_string_at buf i = takeWhile (\<lambda>c. c \<noteq> NUL) (drop i buf)"

declare is_space_def [ctext_simps] in_chars_def [ctext_simps] is_digit_def [ctext_simps] is_alnum_def [ctext_simps]
  trim_left_def [ctext_simps] trim_right_def [ctext_simps] trim_def [ctext_simps] split_char_def [ctext_simps]

lemma trim_right_append: "s \<noteq> [] \<Longrightarrow> \<not> is_space (last s) \<Longrightarrow> trim_right (r @ s) = r @ s"
  by (cases s rule: rev_cases) (auto simp: trim_right_def)

lemma trim_id:
  assumes "s = [] \<or> (\<not> is_space (hd s) \<and> \<not> is_space (last s))"
  shows "trim s = s"
proof (cases s)
  case (Cons c cs)
  then show ?thesis using assms trim_right_append [of s "[]"] by (simp add: trim_def trim_left_def)
qed (simp add: trim_def trim_left_def trim_right_def)

lemma length_trim_le: "length (trim s) \<le> length s"
proof -
  have "length (dropWhile is_space (rev (dropWhile is_space s))) \<le> length (rev (dropWhile is_space s))"
    by (rule length_dropWhile_le)
  also have "\<dots> \<le> length s" by (simp add: length_dropWhile_le)
  finally show ?thesis by (simp add: trim_def trim_left_def trim_right_def)
qed

lemma set_trim: "set (trim s) \<subseteq> set s"
  by (auto simp: trim_def trim_left_def trim_right_def dest!: set_dropWhileD)

lemma trim_prefix: "prefix (trim s) (dropWhile is_space s)"
proof -
  have "suffix (dropWhile is_space (rev (dropWhile is_space s))) (rev (dropWhile is_space s))"
    by (rule suffix_dropWhile)
  then show ?thesis by (simp add: trim_def trim_left_def trim_right_def suffix_to_prefix)
qed

lemma hd_trim: "trim s \<noteq> [] \<Longrightarrow> hd (trim s) = hd (dropWhile is_space s)"
  using trim_prefix [of s] by (metis hd_append2 prefix_def)

lemma trim_ends: "trim s = [] \<or> (\<not> is_space (hd (trim s)) \<and> \<not> is_space (last (trim s)))"
proof (cases "trim s = []")
  case False
  then have "dropWhile is_space s \<noteq> []" using trim_prefix [of s] by (metis prefix_bot.extremum_uniqueI)
  then have "\<not> is_space (hd (trim s))" using False by (simp add: hd_trim hd_dropWhile)
  moreover have "\<not> is_space (last (trim s))"
    using False hd_dropWhile [of is_space "rev (trim_left s)"] by (simp add: trim_def trim_right_def last_rev)
  ultimately show ?thesis by simp
qed simp

lemma trim_idem [simp]: "trim (trim s) = trim s"
  by (rule trim_id) (rule trim_ends)

lemma c_string_at_token:
  "NUL \<notin> set s \<Longrightarrow> c_string_at (a @ s @ NUL # b) (length a) = s"
  by (simp add: c_string_at_def takeWhile_append)

section \<open>Printing numbers\<close>

text \<open>The conversion \<^verbatim>\<open>%zu\<close>.\<close>

definition digit_char :: "nat \<Rightarrow> char" where
  "digit_char d = char_of (48 + d)"

fun show_nat :: "nat \<Rightarrow> string" where
  "show_nat n = (if n < 10 then [digit_char n] else show_nat (n div 10) @ [digit_char (n mod 10)])"

declare show_nat.simps [simp del]

definition show_int :: "int \<Rightarrow> string" where
  "show_int z = (if z < 0 then CHR ''-'' # show_nat (nat (- z)) else show_nat (nat z))"

section \<open>Reading numbers\<close>

text \<open>The value of a digit in bases up to 16.\<close>

definition digit_val :: "char \<Rightarrow> nat option" where
  "digit_val ch =
     (if is_digit ch then Some (of_char ch - 48)
      else if in_chars CHR ''a'' CHR ''f'' ch then Some (of_char ch - 87)
      else if in_chars CHR ''A'' CHR ''F'' ch then Some (of_char ch - 55)
      else None)"

definition base_digit :: "nat \<Rightarrow> char \<Rightarrow> bool" where
  "base_digit b ch = (case digit_val ch of Some d \<Rightarrow> d < b | None \<Rightarrow> False)"

fun digits_val :: "nat \<Rightarrow> nat \<Rightarrow> string \<Rightarrow> nat" where
  "digits_val b acc [] = acc"
| "digits_val b acc (c # cs) = digits_val b (acc * b + the (digit_val c)) cs"

text \<open>
  The subject sequence: white space, a sign, in base 16 a \<^verbatim>\<open>0x\<close> that a digit follows, and digits.
  The result is the sign, the magnitude and the rest; \<open>None\<close> when there is no digit.
\<close>

definition skip_sign :: "string \<Rightarrow> bool \<times> string" where
  "skip_sign s = (case s of c # cs \<Rightarrow> if c = CHR ''-'' then (True, cs) else if c = CHR ''+'' then (False, cs) else (False, s)
                  | [] \<Rightarrow> (False, s))"

definition skip_0x :: "nat \<Rightarrow> string \<Rightarrow> string" where
  "skip_0x b s = (case s of z # x # d # cs \<Rightarrow>
       if b = 16 \<and> z = CHR ''0'' \<and> (x = CHR ''x'' \<or> x = CHR ''X'') \<and> base_digit b d then d # cs else s
     | _ \<Rightarrow> s)"

definition subject_seq :: "nat \<Rightarrow> string \<Rightarrow> (bool \<times> nat \<times> string) option" where
  "subject_seq b s =
     (let (neg, s1) = skip_sign (dropWhile is_space s); s2 = skip_0x b s1; ds = takeWhile (base_digit b) s2 in
      if ds = [] then None else Some (neg, digits_val b 0 ds, dropWhile (base_digit b) s2))"

definition LLONG_MAX :: int where "LLONG_MAX = 2 ^ 63 - 1"
definition LLONG_MIN :: int where "LLONG_MIN = - (2 ^ 63)"
definition ULLONG_MAX :: nat where "ULLONG_MAX = 2 ^ 64 - 1"

definition strtoll :: "string \<Rightarrow> nat \<Rightarrow> int \<times> bool \<times> string" where
  "strtoll s b =
     (case subject_seq b s of
        None \<Rightarrow> (0, False, s)
      | Some (neg, m, rest) \<Rightarrow>
          (let v = (if neg then - int m else int m) in
           if v > LLONG_MAX then (LLONG_MAX, True, rest)
           else if v < LLONG_MIN then (LLONG_MIN, True, rest)
           else (v, False, rest)))"

text \<open>\<^verbatim>\<open>strtoull\<close> negates in the unsigned type after a minus sign.\<close>

definition strtoull :: "string \<Rightarrow> nat \<Rightarrow> nat \<times> bool \<times> string" where
  "strtoull s b =
     (case subject_seq b s of
        None \<Rightarrow> (0, False, s)
      | Some (neg, m, rest) \<Rightarrow>
          if m > ULLONG_MAX then (ULLONG_MAX, True, rest)
          else (if neg then (2 ^ 64 - m) mod 2 ^ 64 else m, False, rest))"

section \<open>Reading what was printed\<close>

lemma digits_val_append: "digits_val b acc (xs @ ys) = digits_val b (digits_val b acc xs) ys"
  by (induction xs arbitrary: acc) simp_all

lemma digit_char_cases:
  assumes "d < 10"
  shows "digit_val (digit_char d) = Some d" "\<not> is_space (digit_char d)"
    "digit_char d \<noteq> CHR ''-''" "digit_char d \<noteq> CHR ''+''"
proof -
  consider "d = 0" | "d = 1" | "d = 2" | "d = 3" | "d = 4" | "d = 5" | "d = 6" | "d = 7" | "d = 8" | "d = 9"
    using assms by (auto simp: less_Suc_eq numeral_eq_Suc)
  then have "digit_val (digit_char d) = Some d \<and> \<not> is_space (digit_char d) \<and>
      digit_char d \<noteq> CHR ''-'' \<and> digit_char d \<noteq> CHR ''+''"
    by cases (simp_all add: digit_char_def digit_val_def is_digit_def in_chars_def is_space_def char_of_def bit_0)
  then show "digit_val (digit_char d) = Some d" "\<not> is_space (digit_char d)"
    "digit_char d \<noteq> CHR ''-''" "digit_char d \<noteq> CHR ''+''" by auto
qed

lemma digits_val_show_nat: "digits_val 10 0 (show_nat n) = n"
proof (induction n rule: show_nat.induct)
  case (1 n)
  then show ?case
    by (cases "n < 10") (simp_all add: show_nat.simps [of n] digit_char_cases digits_val_append)
qed

lemma show_nat_digits: "show_nat n \<noteq> []" "\<forall>c \<in> set (show_nat n). \<exists>d < 10. c = digit_char d"
proof (induction n rule: show_nat.induct)
  case (1 n)
  show "show_nat n \<noteq> []" by (simp add: show_nat.simps [of n])
  show "\<forall>c \<in> set (show_nat n). \<exists>d < 10. c = digit_char d"
    using "1.IH" mod_less_divisor [of 10 n] by (cases "n < 10") (auto simp: show_nat.simps [of n] simp del: mod_less_divisor)
qed

lemma subject_seq_show_int: "subject_seq 10 (show_int z) = Some (z < 0, nat \<bar>z\<bar>, [])"
proof -
  define ds where "ds = show_nat (nat \<bar>z\<bar>)"
  have all: "\<forall>c \<in> set ds. base_digit 10 c" and hd: "\<exists>d < 10. hd ds = digit_char d"
    using show_nat_digits [of "nat \<bar>z\<bar>"] by (auto simp: ds_def base_digit_def digit_char_cases)
  have ne: "ds \<noteq> []" unfolding ds_def by (rule show_nat_digits)
  then obtain c cs where ds: "ds = c # cs" by (cases ds) auto
  have c: "\<not> is_space c" "c \<noteq> CHR ''-''" "c \<noteq> CHR ''+''" using hd digit_char_cases by (auto simp: ds)
  have sign: "skip_sign (dropWhile is_space (show_int z)) = (z < 0, ds)"
  proof (cases "z < 0")
    case True
    then show ?thesis by (simp add: show_int_def skip_sign_def is_space_def ds_def)
  next
    case False
    then have "show_int z = c # cs" using ds by (simp add: show_int_def ds_def)
    then show ?thesis using False c ds by (simp add: skip_sign_def)
  qed
  have no_hex: "skip_0x 10 ds = ds" by (simp add: skip_0x_def split: list.splits)
  have split: "takeWhile (base_digit 10) ds = ds" "dropWhile (base_digit 10) ds = []" using all by simp_all
  show ?thesis using ne digits_val_show_nat [of "nat \<bar>z\<bar>"]
    unfolding subject_seq_def sign prod.case Let_def no_hex split by (simp add: ds_def)
qed

lemma strtoll_show_int:
  "strtoll (show_int z) 10 =
     (if z > LLONG_MAX then (LLONG_MAX, True, []) else if z < LLONG_MIN then (LLONG_MIN, True, []) else (z, False, []))"
  by (simp add: strtoll_def subject_seq_show_int Let_def)

end
