(* ===== verification/Sbsv_Escape.thy ===== *)
theory Sbsv_Escape
  imports C_Text
begin

text \<open>
  \<^verbatim>\<open>solver/libsbsv/src/sbsv.c\<close>, the escaping of values: \<^verbatim>\<open>sbsv_escape_str\<close> and \<^verbatim>\<open>sbsv_unescape_str\<close>. Memory
  allocation is taken to succeed; a \<^verbatim>\<open>NULL\<close> argument is \<open>None\<close>.
\<close>

datatype sbsv_status = SBSV_OK | SBSV_ERR_INVALID_ARG | SBSV_ERR_ALLOC

definition sbsv_status_str :: "sbsv_status \<Rightarrow> string" where
  "sbsv_status_str status =
     (case status of
        SBSV_OK \<Rightarrow> ''ok'' | SBSV_ERR_INVALID_ARG \<Rightarrow> ''invalid argument'' | SBSV_ERR_ALLOC \<Rightarrow> ''allocation failed'')"

section \<open>Replacements\<close>

definition sbsv_escape_replacement :: "char \<Rightarrow> string option" where
  "sbsv_escape_replacement ch =
     (if ch = CHR 0x08 then Some [BSLASH, CHR ''b'']
      else if ch = CHR 0x09 then Some [BSLASH, CHR ''t'']
      else if ch = CHR 0x0A then Some [BSLASH, CHR ''n'']
      else if ch = CHR 0x0C then Some [BSLASH, CHR ''f'']
      else if ch = CHR 0x0D then Some [BSLASH, CHR ''r'']
      else if ch = QUOTE then Some [BSLASH, QUOTE]
      else if ch = BSLASH then Some [BSLASH, BSLASH]
      else if ch = CHR ''['' then Some [BSLASH, CHR ''['']
      else if ch = CHR '']'' then Some [BSLASH, CHR '']'']
      else None)"

definition sbsv_unescape_char :: "char \<Rightarrow> char option" where
  "sbsv_unescape_char escaped =
     (if escaped = CHR ''b'' then Some (CHR 0x08)
      else if escaped = CHR ''t'' then Some (CHR 0x09)
      else if escaped = CHR ''n'' then Some (CHR 0x0A)
      else if escaped = CHR ''f'' then Some (CHR 0x0C)
      else if escaped = CHR ''r'' then Some (CHR 0x0D)
      else if escaped = QUOTE then Some QUOTE
      else if escaped = BSLASH then Some BSLASH
      else if escaped = CHR ''['' then Some (CHR ''['')
      else if escaped = CHR '']'' then Some (CHR '']'')
      else None)"

section \<open>Escaping\<close>

text \<open>
  The first pass: a stack of the indices of open brackets, and a flag for each bracket that
  has no partner; the brackets left on the stack are flagged at the end.
\<close>

fun match_brackets :: "string \<Rightarrow> nat \<Rightarrow> nat list \<Rightarrow> bool list \<Rightarrow> nat list \<times> bool list" where
  "match_brackets [] index stack flags = (stack, flags)"
| "match_brackets (c # cs) index stack flags =
     (if c = CHR ''['' then match_brackets cs (index + 1) (index # stack) flags
      else if c = CHR '']'' then
        (case stack of
           [] \<Rightarrow> match_brackets cs (index + 1) [] (flags[index := True])
         | _ # stack' \<Rightarrow> match_brackets cs (index + 1) stack' flags)
      else match_brackets cs (index + 1) stack flags)"

fun flag_open :: "nat list \<Rightarrow> bool list \<Rightarrow> bool list" where
  "flag_open [] flags = flags"
| "flag_open (i # stack) flags = flag_open stack (flags[i := True])"

definition escape_bracket :: "string \<Rightarrow> bool list" where
  "escape_bracket input =
     (let (stack, flags) = match_brackets input 0 [] (replicate (length input) False) in flag_open stack flags)"

text \<open>The second pass: what is appended for each character.\<close>

definition escape_char :: "char \<Rightarrow> bool \<Rightarrow> string" where
  "escape_char ch flag =
     (if (ch = CHR ''['' \<or> ch = CHR '']'') \<and> \<not> flag then [ch]
      else case sbsv_escape_replacement ch of Some r \<Rightarrow> r | None \<Rightarrow> [ch])"

definition escape_text :: "string \<Rightarrow> string" where
  "escape_text input = concat (map2 escape_char input (escape_bracket input))"

definition sbsv_escape_str :: "string option \<Rightarrow> sbsv_status \<times> string option" where
  "sbsv_escape_str input =
     (case input of None \<Rightarrow> (SBSV_ERR_INVALID_ARG, None) | Some s \<Rightarrow> (SBSV_OK, Some (escape_text s)))"

section \<open>Unescaping\<close>

text \<open>The check of a quoted value: every escape is known, no bare quote inside.\<close>

fun quoted_ok :: "bool \<Rightarrow> string \<Rightarrow> bool" where
  "quoted_ok escape [] = (\<not> escape)"
| "quoted_ok escape (c # cs) =
     (if escape then sbsv_unescape_char c \<noteq> None \<and> quoted_ok False cs
      else if c = BSLASH then quoted_ok True cs
      else c \<noteq> QUOTE \<and> quoted_ok False cs)"

fun unescape_loop :: "bool \<Rightarrow> string \<Rightarrow> string option" where
  "unescape_loop strict [] = Some []"
| "unescape_loop strict [c] = (if c = BSLASH \<and> strict then None else Some [c])"
| "unescape_loop strict (c # d # cs) =
     (if c = BSLASH then
        (case sbsv_unescape_char d of
           Some r \<Rightarrow> map_option (Cons r) (unescape_loop strict cs)
         | None \<Rightarrow> if strict then None else map_option (Cons c) (unescape_loop strict (d # cs)))
      else map_option (Cons c) (unescape_loop strict (d # cs)))"

text \<open>The part of the input between the quotes of a quoted value, and whether there are any.\<close>

definition unquote :: "string \<Rightarrow> (string \<times> bool) option" where
  "unquote input =
     (let t = trim input in
      if t \<noteq> [] \<and> hd t = QUOTE
      then if length t < 2 \<or> last t \<noteq> QUOTE then None else Some (butlast (tl t), True)
      else Some (input, False))"

definition unescape_text :: "string \<Rightarrow> string option" where
  "unescape_text input =
     (case unquote input of
        None \<Rightarrow> None
      | Some (src, strict) \<Rightarrow> if strict \<and> \<not> quoted_ok False src then None else unescape_loop strict src)"

definition sbsv_unescape_str :: "string option \<Rightarrow> sbsv_status \<times> string option" where
  "sbsv_unescape_str input =
     (case input of
        None \<Rightarrow> (SBSV_ERR_INVALID_ARG, None)
      | Some s \<Rightarrow> (case unescape_text s of None \<Rightarrow> (SBSV_ERR_INVALID_ARG, None) | Some r \<Rightarrow> (SBSV_OK, Some r)))"

section \<open>Round trip\<close>

lemma length_match_brackets: "length (snd (match_brackets cs i st fl)) = length fl"
  by (induction cs i st fl rule: match_brackets.induct) (auto split: list.splits)

lemma length_flag_open [simp]: "length (flag_open st fl) = length fl"
  by (induction st fl rule: flag_open.induct) auto

lemma length_escape_bracket [simp]: "length (escape_bracket s) = length s"
  using length_match_brackets [of s 0 "[]" "replicate (length s) False"]
  by (cases "match_brackets s 0 [] (replicate (length s) False)") (simp add: escape_bracket_def)

text \<open>Either a character stands for itself, or for a backslash and a character that unescapes to it.\<close>

lemma escape_replacement_Some:
  assumes "sbsv_escape_replacement c = Some r"
  shows "r = [BSLASH, r ! 1] \<and> sbsv_unescape_char (r ! 1) = Some c"
proof -
  have "c \<in> {CHR 0x08, CHR 0x09, CHR 0x0A, CHR 0x0C, CHR 0x0D, QUOTE, BSLASH, CHR ''['', CHR '']''}"
    using assms by (rule contrapos_pp) (simp add: sbsv_escape_replacement_def)
  then show ?thesis
    using assms by (elim insertE emptyE; auto simp: sbsv_escape_replacement_def sbsv_unescape_char_def)
qed

lemma escape_char_cases:
  obtains (plain) "escape_char c f = [c]" "c \<noteq> BSLASH" "c \<noteq> QUOTE"
  | (esc) d where "escape_char c f = [BSLASH, d]" "sbsv_unescape_char d = Some c"
proof (cases "sbsv_escape_replacement c")
  case None
  then have "c \<noteq> BSLASH" "c \<noteq> QUOTE" by (auto simp: sbsv_escape_replacement_def)
  with None plain show thesis by (simp add: escape_char_def)
next
  case (Some r)
  show thesis
  proof (cases "(c = CHR ''['' \<or> c = CHR '']'') \<and> \<not> f")
    case True
    then have "escape_char c f = [c]" by (simp add: escape_char_def)
    then show thesis using True plain by auto
  next
    case False
    then have "escape_char c f = r" using Some unfolding escape_char_def if_not_P [OF False] by simp
    then show thesis using escape_replacement_Some [OF Some] esc by metis
  qed
qed

lemma unescape_loop_plain: "c \<noteq> BSLASH \<Longrightarrow> unescape_loop strict (c # cs) = map_option (Cons c) (unescape_loop strict cs)"
  by (cases cs) auto

lemma unescape_loop_escape_char:
  "unescape_loop strict (escape_char c f @ cs) = map_option (Cons c) (unescape_loop strict cs)"
  by (rule escape_char_cases [of c f]) (auto simp: unescape_loop_plain)

lemma unescape_loop_escapes:
  "length fs = length cs \<Longrightarrow> unescape_loop strict (concat (map2 escape_char cs fs)) = Some cs"
  by (induction cs fs rule: list_induct2') (simp_all add: unescape_loop_escape_char)

lemma hd_escapes_no_quote:
  "dropWhile is_space (concat (map2 escape_char cs fs)) = [] \<or>
   hd (dropWhile is_space (concat (map2 escape_char cs fs))) \<noteq> QUOTE"
proof (induction cs fs rule: list_induct2')
  case (4 c cs f fs)
  then show ?case by (cases rule: escape_char_cases [of c f]) (auto simp: is_space_def)
qed simp_all

lemma unquote_escape_text: "unquote (escape_text s) = Some (escape_text s, False)"
proof -
  have "trim (escape_text s) = [] \<or> hd (trim (escape_text s)) \<noteq> QUOTE"
    using hd_escapes_no_quote [of s "escape_bracket s"] hd_trim [of "escape_text s"] trim_prefix [of "escape_text s"]
    unfolding escape_text_def [symmetric] by (metis prefix_bot.extremum_uniqueI)
  then show ?thesis by (auto simp: unquote_def Let_def)
qed

lemma unescape_escape: "unescape_text (escape_text s) = Some s"
  unfolding unescape_text_def unquote_escape_text by (simp add: escape_text_def unescape_loop_escapes)

section \<open>The brackets that stay are balanced\<close>

fun bracket_level :: "(char \<times> bool) list \<Rightarrow> nat \<Rightarrow> nat option" where
  "bracket_level [] l = Some l"
| "bracket_level ((c, flag) # cs) l =
     (if flag then bracket_level cs l
      else if c = CHR ''['' then bracket_level cs (l + 1)
      else if c = CHR '']'' then (if l = 0 then None else bracket_level cs (l - 1))
      else bracket_level cs l)"

lemma flag_open_nth: "j < length fl \<Longrightarrow> flag_open st fl ! j \<longleftrightarrow> j \<in> set st \<or> fl ! j"
proof (induction st fl rule: flag_open.induct)
  case (2 i st fl)
  then show ?case by (cases "i = j") (auto simp: nth_list_update)
qed simp

lemma match_brackets_balanced:
  assumes "match_brackets cs i st fl = (st', fl')" "F = flag_open st' fl'" "length fl = i + length cs"
    "distinct st" "\<forall>x \<in> set st. x < i \<and> \<not> fl ! x" "\<forall>j < length fl. i \<le> j \<longrightarrow> \<not> fl ! j"
  shows "(\<forall>j < i. j \<notin> set st \<longrightarrow> F ! j = fl ! j) \<and>
    bracket_level (zip cs (drop i F)) (length (filter (\<lambda>x. \<not> F ! x) st)) = Some 0"
  using assms
proof (induction cs i st fl rule: match_brackets.induct)
  case (1 i st fl)
  then show ?case by (auto simp: flag_open_nth)
next
  case (2 c cs i st fl)
  note prems = "2.prems"
  have "length fl' = length fl" using length_match_brackets [of "c # cs" i st fl] prems(1) by simp
  then have lenF: "length F = i + Suc (length cs)" using prems(2,3) by simp
  then have dr: "zip (c # cs) (drop i F) = (c, F ! i) # zip cs (drop (Suc i) F)"
    by (simp add: Cons_nth_drop_Suc [symmetric])
  have i: "\<not> fl ! i" using prems(3,6) by simp
  consider (op) "c = CHR ''[''" | (cl) "c = CHR '']''" "st = []" | (pop) x st0 where "c = CHR '']''" "st = x # st0"
    | (oth) "c \<noteq> CHR ''[''" "c \<noteq> CHR '']''"
    by (cases st) auto
  then show ?case
  proof cases
    case op
    have "(\<forall>j < i + 1. j \<notin> set (i # st) \<longrightarrow> F ! j = fl ! j) \<and>
        bracket_level (zip cs (drop (i + 1) F)) (length (filter (\<lambda>x. \<not> F ! x) (i # st))) = Some 0"
      by (rule "2.IH"(1)) (use op prems i in \<open>auto simp: less_Suc_eq\<close>)
    then show ?thesis unfolding dr using op by (cases "F ! i") auto
  next
    case cl
    let ?fl = "fl[i := True]"
    have "(\<forall>j < i + 1. j \<notin> set [] \<longrightarrow> F ! j = ?fl ! j) \<and>
        bracket_level (zip cs (drop (i + 1) F)) (length (filter (\<lambda>x. \<not> F ! x) [])) = Some 0"
      by (rule "2.IH"(2)) (use cl prems in \<open>auto simp: nth_list_update\<close>)
    moreover from this have "F ! i" using prems(3) by simp
    ultimately show ?thesis unfolding dr using cl by (auto simp: less_Suc_eq)
  next
    case pop
    have ih: "(\<forall>j < i + 1. j \<notin> set st0 \<longrightarrow> F ! j = fl ! j) \<and>
        bracket_level (zip cs (drop (i + 1) F)) (length (filter (\<lambda>x. \<not> F ! x) st0)) = Some 0"
      by (rule "2.IH"(3)) (use pop prems in \<open>auto simp: less_Suc_eq\<close>)
    have "x \<notin> set st0" "i \<notin> set st0" "x < i" "\<not> fl ! x" using prems(4,5) pop by auto
    with ih i have "\<not> F ! x" "\<not> F ! i" by auto
    with ih show ?thesis unfolding dr using pop by auto
  next
    case oth
    have ih: "(\<forall>j < i + 1. j \<notin> set st \<longrightarrow> F ! j = fl ! j) \<and>
        bracket_level (zip cs (drop (i + 1) F)) (length (filter (\<lambda>x. \<not> F ! x) st)) = Some 0"
      by (rule "2.IH"(4)) (use oth prems in \<open>auto simp: less_Suc_eq\<close>)
    then show ?thesis unfolding dr using oth by auto
  qed
qed

lemma bracket_level_add: "bracket_level cs l = Some m \<Longrightarrow> bracket_level cs (l + k) = Some (m + k)"
  by (induction cs l rule: bracket_level.induct) (auto split: if_splits)

lemma escape_bracket_balanced: "bracket_level (zip s (escape_bracket s)) l = Some l"
proof -
  obtain st fl where m: "match_brackets s 0 [] (replicate (length s) False) = (st, fl)" by fastforce
  then have "bracket_level (zip s (drop 0 (escape_bracket s))) 0 = Some 0"
    using match_brackets_balanced [OF m refl] by (simp add: escape_bracket_def)
  from bracket_level_add [OF this, of l] show ?thesis by simp
qed

end
