(* ===== verification/Sbsv_Tokenizer.thy ===== *)
theory Sbsv_Tokenizer
  imports Sbsv_Escape
begin

text \<open>
  \<^verbatim>\<open>solver/libsbsv/src/sbsv.c\<close>, the tokenizer. One allocation holds the array of token pointers and
  the text of the tokens; \<open>tk_buf\<close> is the text written so far (\<^verbatim>\<open>write_cursor\<close> is its end), and a
  pointer into it is an offset. The fast loop, taken when the line has neither a backslash nor a
  quote, and the general loop are separate definitions, as in the source. \<^verbatim>\<open>level\<close> is unbounded
  here: it cannot exceed the length of the line, so that the \<^verbatim>\<open>int\<close> of the source, which would
  overflow, differs only on lines with more than \<open>2 ^ 31 - 1\<close> open brackets.
\<close>

record tok_state =
  tk_buf :: string
  tk_start :: "nat option"
  tk_level :: int
  tk_escape :: bool
  tk_quote :: bool
  tk_items :: "nat list"

definition tok_init :: tok_state where
  "tok_init = \<lparr>tk_buf = [], tk_start = None, tk_level = 0, tk_escape = False, tk_quote = False, tk_items = []\<rparr>"

section \<open>When a quote may start\<close>

fun count_words :: "bool \<Rightarrow> string \<Rightarrow> nat" where
  "count_words in_word [] = 0"
| "count_words in_word (c # cs) =
     (if is_space c then count_words False cs
      else if \<not> in_word then Suc (count_words True cs)
      else count_words in_word cs)"

definition sbsv_can_start_quote :: "string \<Rightarrow> bool" where
  "sbsv_can_start_quote current =
     (let t = trim current in
      if t = [] then True
      else if current = [] \<or> \<not> is_space (last current) then False
      else count_words False t = 1)"

section \<open>The loops\<close>

definition tok_put :: "char \<Rightarrow> tok_state \<Rightarrow> tok_state" where
  "tok_put ch t = t\<lparr>tk_buf := tk_buf t @ [ch]\<rparr>"

text \<open>The text of the open token; \<^verbatim>\<open>token_start\<close> is \<^verbatim>\<open>NULL\<close> outside of a token.\<close>

definition tok_current :: "tok_state \<Rightarrow> string" where
  "tok_current t = (case tk_start t of None \<Rightarrow> [] | Some i \<Rightarrow> drop i (tk_buf t))"

text \<open>The end of a token: trimmed in place and terminated.\<close>

definition tok_finish :: "tok_state \<Rightarrow> tok_state" where
  "tok_finish t =
     (case tk_start t of
        None \<Rightarrow> t
      | Some i \<Rightarrow> t\<lparr>tk_buf := take i (tk_buf t) @ trim (drop i (tk_buf t)) @ [NUL], tk_items := tk_items t @ [i],
                   tk_start := None\<rparr>)"

definition tok_open :: "char \<Rightarrow> tok_state \<Rightarrow> tok_state" where
  "tok_open ch t =
     (let t = t\<lparr>tk_level := tk_level t + 1\<rparr> in
      if tk_level t = 1 then t\<lparr>tk_start := Some (length (tk_buf t))\<rparr> else tok_put ch t)"

definition tok_close :: "bool \<Rightarrow> char \<Rightarrow> tok_state \<Rightarrow> tok_state option" where
  "tok_close strict ch t =
     (let t = t\<lparr>tk_level := tk_level t - 1\<rparr> in
      if tk_level t < 0 then if strict then None else Some (t\<lparr>tk_level := 0, tk_start := None\<rparr>)
      else if tk_level t = 0 then Some (tok_finish t)
      else Some (tok_put ch t))"

definition tok_fast_step :: "bool \<Rightarrow> char \<Rightarrow> tok_state \<Rightarrow> tok_state option" where
  "tok_fast_step strict ch t =
     (if ch = CHR ''['' then Some (tok_open ch t)
      else if ch = CHR '']'' then tok_close strict ch t
      else if tk_level t > 0 then Some (tok_put ch t)
      else Some t)"

definition tok_step :: "bool \<Rightarrow> char \<Rightarrow> tok_state \<Rightarrow> tok_state option" where
  "tok_step strict ch t =
     (if tk_escape t then Some (tok_put ch (t\<lparr>tk_escape := False\<rparr>))
      else if ch = BSLASH \<and> tk_level t > 0 then Some (tok_put ch (t\<lparr>tk_escape := True\<rparr>))
      else if ch = QUOTE \<and> tk_level t > 0 \<and> (tk_quote t \<or> sbsv_can_start_quote (tok_current t))
        then Some (tok_put ch (t\<lparr>tk_quote := \<not> tk_quote t\<rparr>))
      else if ch = CHR ''['' \<and> \<not> tk_quote t then Some (tok_open ch t)
      else if ch = CHR '']'' \<and> \<not> tk_quote t then tok_close strict ch t
      else if tk_level t > 0 then Some (tok_put ch t)
      else Some t)"

fun tok_run :: "(char \<Rightarrow> tok_state \<Rightarrow> tok_state option) \<Rightarrow> string \<Rightarrow> tok_state \<Rightarrow> tok_state option" where
  "tok_run step [] t = Some t"
| "tok_run step (c # cs) t = (case step c t of None \<Rightarrow> None | Some t' \<Rightarrow> tok_run step cs t')"

section \<open>The function\<close>

definition SIZE_MAX :: nat where "SIZE_MAX = 2 ^ 64 - 1"

definition max_tokens :: "nat \<Rightarrow> nat" where
  "max_tokens len = len div 2 + 1"

definition tok_alloc_ok :: "nat \<Rightarrow> bool" where
  "tok_alloc_ok len \<longleftrightarrow> \<not> (max_tokens len > SIZE_MAX div 8 \<or> max_tokens len * 8 > SIZE_MAX - len - 1)"

definition tok_plain :: "string \<Rightarrow> bool" where
  "tok_plain line \<longleftrightarrow> BSLASH \<notin> set line \<and> QUOTE \<notin> set line"

definition tok_loop :: "bool \<Rightarrow> string \<Rightarrow> tok_state option" where
  "tok_loop strict line =
     (if tok_plain line then
        (case tok_run (tok_fast_step strict) line tok_init of
           None \<Rightarrow> None | Some t \<Rightarrow> if tk_level t > 0 then None else Some t)
      else
        (case tok_run (tok_step strict) line tok_init of
           None \<Rightarrow> None | Some t \<Rightarrow> if tk_quote t \<or> tk_level t > 0 then None else Some t))"

definition sbsv_tokenize_line_internal :: "string option \<Rightarrow> bool \<Rightarrow> sbsv_status \<times> string list" where
  "sbsv_tokenize_line_internal line strict =
     (case line of
        None \<Rightarrow> (SBSV_ERR_INVALID_ARG, [])
      | Some line \<Rightarrow>
          if \<not> tok_alloc_ok (length line) then (SBSV_ERR_ALLOC, [])
          else (case tok_loop strict line of
                  None \<Rightarrow> (SBSV_ERR_INVALID_ARG, [])
                | Some t \<Rightarrow> (SBSV_OK, map (c_string_at (tk_buf t)) (tk_items t))))"

definition sbsv_tokenize_line :: "string option \<Rightarrow> sbsv_status \<times> string list" where
  "sbsv_tokenize_line line = sbsv_tokenize_line_internal line False"

definition sbsv_tokenize_line_strict :: "string option \<Rightarrow> sbsv_status \<times> string list" where
  "sbsv_tokenize_line_strict line = sbsv_tokenize_line_internal line True"

lemma tok_alloc_ok_small: "len < 2 ^ 60 \<Longrightarrow> tok_alloc_ok len"
  unfolding tok_alloc_ok_def max_tokens_def SIZE_MAX_def by auto

section \<open>The buffer is large enough\<close>

text \<open>After \<open>n\<close> characters: a token is open exactly inside brackets, every byte and every pointer is paid for.\<close>

definition tok_inv :: "nat \<Rightarrow> tok_state \<Rightarrow> bool" where
  "tok_inv n t \<longleftrightarrow> 0 \<le> tk_level t \<and> (0 < tk_level t \<longleftrightarrow> tk_start t \<noteq> None) \<and>
     (\<forall>i. tk_start t = Some i \<longrightarrow> i \<le> length (tk_buf t)) \<and>
     length (tk_buf t) + of_bool (tk_start t \<noteq> None) \<le> n \<and> 2 * length (tk_items t) + of_bool (tk_start t \<noteq> None) \<le> n \<and>
     (tk_escape t \<or> tk_quote t \<longrightarrow> 0 < tk_level t)"

lemma tok_inv_init: "tok_inv 0 tok_init"
  by (simp add: tok_inv_def tok_init_def)

lemma tok_inv_skip: "tok_inv n t \<Longrightarrow> tok_inv (Suc n) t"
  by (auto simp: tok_inv_def)

lemma tok_inv_put: "tok_inv n t \<Longrightarrow> 0 < tk_level t \<Longrightarrow> tok_inv (Suc n) (tok_put ch t)"
  by (auto simp: tok_inv_def tok_put_def)

lemma tok_inv_open: "tok_inv n t \<Longrightarrow> tok_inv (Suc n) (tok_open ch t)"
  by (auto simp: tok_inv_def tok_open_def tok_put_def Let_def)

lemma tok_inv_close:
  assumes "tok_inv n t" "tok_close strict ch t = Some t'" "\<not> tk_escape t" "\<not> tk_quote t"
  shows "tok_inv (Suc n) t'"
proof (cases "tk_start t")
  case (Some i)
  have "length (trim (drop i (tk_buf t))) \<le> length (tk_buf t) - i" using length_trim_le [of "drop i (tk_buf t)"] by simp
  with Some assms show ?thesis
    by (auto simp: tok_inv_def tok_close_def tok_finish_def tok_put_def Let_def split: if_splits)
qed (use assms in \<open>auto simp: tok_inv_def tok_close_def Let_def split: if_splits\<close>)

lemma tok_inv_escape: "tok_inv n t \<Longrightarrow> 0 < tk_level t \<Longrightarrow> tok_inv n (t\<lparr>tk_escape := b\<rparr>) \<and> tok_inv n (t\<lparr>tk_quote := b\<rparr>)"
  by (auto simp: tok_inv_def)

lemma tok_inv_step:
  assumes inv: "tok_inv n t" and step: "tok_step strict ch t = Some t'"
  shows "tok_inv (Suc n) t'"
proof -
  have lev: "tk_escape t \<Longrightarrow> 0 < tk_level t" using inv unfolding tok_inv_def by blast
  show ?thesis
    using step inv lev tok_inv_close [OF inv, of strict ch t']
    by (auto simp: tok_step_def tok_inv_open tok_inv_put tok_inv_skip tok_inv_escape split: if_splits)
qed

lemma tok_inv_run: "tok_run (tok_step strict) cs t = Some t' \<Longrightarrow> tok_inv n t \<Longrightarrow> tok_inv (n + length cs) t'"
  by (induction cs arbitrary: t n) (force split: option.splits dest: tok_inv_step)+

section \<open>The two loops agree\<close>

lemma tok_fast_step_eq:
  "ch \<noteq> BSLASH \<Longrightarrow> ch \<noteq> QUOTE \<Longrightarrow> \<not> tk_escape t \<Longrightarrow> \<not> tk_quote t \<Longrightarrow> tok_step strict ch t = tok_fast_step strict ch t"
  by (simp add: tok_step_def tok_fast_step_def)

lemma tok_fast_step_flags:
  "tok_fast_step strict ch t = Some t' \<Longrightarrow> tk_escape t' = tk_escape t \<and> tk_quote t' = tk_quote t"
  by (auto simp: tok_fast_step_def tok_open_def tok_close_def tok_finish_def tok_put_def Let_def
      split: if_splits option.splits)

lemma tok_run_fast:
  "tok_plain cs \<Longrightarrow> \<not> tk_escape t \<Longrightarrow> \<not> tk_quote t \<Longrightarrow>
     tok_run (tok_fast_step strict) cs t = tok_run (tok_step strict) cs t"
proof (induction cs arbitrary: t)
  case (Cons c cs)
  then have "tok_plain cs" "tok_step strict c t = tok_fast_step strict c t" by (auto simp: tok_plain_def tok_fast_step_eq)
  with Cons tok_fast_step_flags [of strict c t] show ?case by (simp split: option.splits)
qed simp

lemma tok_run_fast_flags:
  "tok_run (tok_fast_step strict) cs t = Some t' \<Longrightarrow> tk_quote t' = tk_quote t"
  by (induction cs arbitrary: t) (auto dest: tok_fast_step_flags split: option.splits)

lemma tok_loop_general:
  "tok_loop strict line =
     (case tok_run (tok_step strict) line tok_init of
        None \<Rightarrow> None | Some t \<Rightarrow> if tk_quote t \<or> tk_level t > 0 then None else Some t)"
proof (cases "tok_plain line")
  case True
  then show ?thesis
    using tok_run_fast [OF True, of tok_init strict] tok_run_fast_flags [of strict line tok_init]
    by (auto simp: tok_loop_def tok_init_def split: option.splits)
qed (simp add: tok_loop_def)

section \<open>Reading printed tokens back\<close>

lemma tok_run_append:
  "tok_run step (cs @ ds) t = (case tok_run step cs t of None \<Rightarrow> None | Some t' \<Rightarrow> tok_run step ds t')"
  by (induction cs arbitrary: t) (auto split: option.splits)

text \<open>Inside a token, outside quotes and escapes.\<close>

definition tok_inside :: "tok_state \<Rightarrow> bool" where
  "tok_inside t \<longleftrightarrow> 1 \<le> tk_level t \<and> \<not> tk_escape t \<and> \<not> tk_quote t"

text \<open>Text that the general loop copies into the open token.\<close>

definition inert :: "string \<Rightarrow> bool" where
  "inert s \<longleftrightarrow> (\<forall>strict t. tok_inside t \<longrightarrow> tok_run (tok_step strict) s t = Some (t\<lparr>tk_buf := tk_buf t @ s\<rparr>))"

lemma inertD: "inert s \<Longrightarrow> tok_inside t \<Longrightarrow> tok_run (tok_step strict) s t = Some (t\<lparr>tk_buf := tk_buf t @ s\<rparr>)"
  by (simp add: inert_def)

lemma inert_append: "inert a \<Longrightarrow> inert b \<Longrightarrow> inert (a @ b)"
  by (simp add: inert_def tok_run_append) (simp add: tok_inside_def)

lemma inert_plain: "\<forall>c \<in> set s. c \<notin> {BSLASH, QUOTE, CHR ''['', CHR '']''} \<Longrightarrow> inert s"
  by (induction s) (auto simp: inert_def tok_inside_def tok_step_def tok_put_def)

text \<open>The escaped text of a value: each step keeps the level that the unescaped brackets give.\<close>

lemma tok_run_escape_char:
  assumes "tok_inside t" "\<not> (\<not> f \<and> (c = CHR ''['' \<or> c = CHR '']''))"
  shows "tok_run (tok_step strict) (escape_char c f) t = Some (t\<lparr>tk_buf := tk_buf t @ escape_char c f\<rparr>)"
proof (cases rule: escape_char_cases [of c f])
  case plain
  then have "c \<noteq> CHR ''[''" "c \<noteq> CHR '']''" using assms(2) by (auto simp: escape_char_def sbsv_escape_replacement_def)
  with plain assms show ?thesis by (simp add: tok_step_def tok_inside_def tok_put_def)
next
  case (esc d)
  then show ?thesis using assms by (simp add: tok_step_def tok_inside_def tok_put_def)
qed

lemma tok_run_escapes:
  assumes "bracket_level zs l = Some m" "tok_inside t" "tk_level t = int l + 1"
  shows "tok_run (tok_step strict) (concat (map (\<lambda>(c, f). escape_char c f) zs)) t =
    Some (t\<lparr>tk_buf := tk_buf t @ concat (map (\<lambda>(c, f). escape_char c f) zs), tk_level := int m + 1\<rparr>)"
  using assms
proof (induction zs l arbitrary: t rule: bracket_level.induct)
  case (2 c f cs l)
  show ?case
  proof (cases "\<not> f \<and> (c = CHR ''['' \<or> c = CHR '']'')")
    case False
    then have "bracket_level cs l = Some m" using "2.prems"(1) by (auto split: if_splits)
    moreover have "tok_inside (t\<lparr>tk_buf := tk_buf t @ escape_char c f\<rparr>)" using "2.prems"(2) by (simp add: tok_inside_def)
    ultimately show ?thesis
      using False "2.IH"(1,4) "2.prems"(3) tok_run_escape_char [OF "2.prems"(2) False, of strict]
      by (cases f) (auto simp: tok_run_append)
  next
    case True
    then have e: "escape_char c f = [c]" by (simp add: escape_char_def)
    consider "c = CHR ''[''" | "c = CHR '']''" "l \<noteq> 0" using True "2.prems"(1) by (auto split: if_splits)
    then show ?thesis
    proof cases
      case 1
      let ?t = "t\<lparr>tk_buf := tk_buf t @ [c], tk_level := int (l + 1) + 1\<rparr>"
      have "tok_step strict c t = Some ?t"
        using 1 "2.prems" by (simp add: tok_step_def tok_inside_def tok_open_def tok_put_def)
      moreover have "tok_inside ?t" using "2.prems"(2) by (simp add: tok_inside_def)
      ultimately show ?thesis using 1 True e "2.IH"(2) [of ?t] "2.prems"(1) by simp
    next
      case 2
      let ?t = "t\<lparr>tk_buf := tk_buf t @ [c], tk_level := int (l - 1) + 1\<rparr>"
      have "tok_step strict c t = Some ?t"
        using 2 "2.prems" by (simp add: tok_step_def tok_inside_def tok_close_def tok_put_def of_nat_diff)
      moreover have "tok_inside ?t" using "2.prems"(2) by (simp add: tok_inside_def)
      ultimately show ?thesis using 2 True e "2.IH"(3) [of ?t] "2.prems"(1) by simp
    qed
  qed
qed simp

lemma inert_escape_text: "inert (escape_text v)"
  unfolding inert_def
proof (intro allI impI)
  fix strict t assume t: "tok_inside t"
  then have l: "tk_level t = int (nat (tk_level t - 1)) + 1" by (simp add: tok_inside_def)
  have "map2 escape_char v (escape_bracket v) = map (\<lambda>(c, f). escape_char c f) (zip v (escape_bracket v))" by simp
  then show "tok_run (tok_step strict) (escape_text v) t = Some (t\<lparr>tk_buf := tk_buf t @ escape_text v\<rparr>)"
    using tok_run_escapes [OF escape_bracket_balanced [of v] t l, of strict] l by (simp add: escape_text_def)
qed

text \<open>A line of bracketed tokens.\<close>

definition render_tokens :: "string list \<Rightarrow> string" where
  "render_tokens ss = concat (map (\<lambda>s. CHR ''['' # s @ [CHR '']'']) ss)"

definition tok_bytes :: "string list \<Rightarrow> string" where
  "tok_bytes ts = concat (map (\<lambda>s. s @ [NUL]) ts)"

definition tok_outside :: "tok_state \<Rightarrow> bool" where
  "tok_outside t \<longleftrightarrow> tk_level t = 0 \<and> \<not> tk_escape t \<and> \<not> tk_quote t \<and> tk_start t = None"

lemma tok_run_token:
  assumes "tok_outside t" "inert s"
  shows "tok_run (tok_step strict) (CHR ''['' # s @ [CHR '']'']) t =
    Some (t\<lparr>tk_buf := tk_buf t @ trim s @ [NUL], tk_items := tk_items t @ [length (tk_buf t)]\<rparr>)"
proof -
  let ?t = "t\<lparr>tk_level := 1, tk_start := Some (length (tk_buf t))\<rparr>"
  have "tok_step strict (CHR ''['') t = Some ?t"
    using assms(1) by (simp add: tok_step_def tok_outside_def tok_open_def)
  moreover have "tok_inside ?t" using assms(1) by (simp add: tok_inside_def tok_outside_def)
  ultimately show ?thesis using assms(1)
    by (simp add: tok_run_append inertD [OF assms(2)])
      (simp add: tok_step_def tok_close_def tok_finish_def tok_outside_def)
qed

lemma tok_run_tokens:
  assumes "tok_outside t" "\<forall>s \<in> set ss. inert s \<and> NUL \<notin> set s"
    "tk_buf t = tok_bytes ts" "map (c_string_at (tok_bytes ts)) (tk_items t) = ts"
    "\<forall>i \<in> set (tk_items t). \<forall>more. c_string_at (tok_bytes ts @ more) i = c_string_at (tok_bytes ts) i"
  shows "\<exists>t'. tok_run (tok_step strict) (render_tokens ss) t = Some t' \<and> tok_outside t' \<and>
    map (c_string_at (tk_buf t')) (tk_items t') = ts @ map trim ss"
  using assms
proof (induction ss arbitrary: t ts)
  case Nil
  then show ?case by (auto simp: render_tokens_def)
next
  case (Cons s ss)
  let ?t = "t\<lparr>tk_buf := tk_buf t @ trim s @ [NUL], tk_items := tk_items t @ [length (tk_buf t)]\<rparr>"
  let ?ts = "ts @ [trim s]"
  have nul: "NUL \<notin> set (trim s)" using Cons.prems(2) set_trim [of s] by auto
  have bytes: "tk_buf ?t = tok_bytes ?ts" using Cons.prems(3) by (simp add: tok_bytes_def)
  have app: "tok_bytes ?ts = tok_bytes ts @ trim s @ NUL # []" by (simp add: tok_bytes_def)
  have last: "c_string_at (tok_bytes ?ts @ more) (length (tok_bytes ts)) = trim s" for more
    using c_string_at_token [OF nul, of "tok_bytes ts" more] by (simp add: app)
  have old: "c_string_at (tok_bytes ?ts @ more) i = c_string_at (tok_bytes ts) i" if "i \<in> set (tk_items t)" for i more
    using Cons.prems(5) that by (simp add: app)
  have items: "map (c_string_at (tok_bytes ?ts)) (tk_items ?t) = ?ts"
    using old [of _ "[]"] last [of "[]"] Cons.prems(3,4) by (simp cong: map_cong)
  have keep: "\<forall>i \<in> set (tk_items ?t). \<forall>more. c_string_at (tok_bytes ?ts @ more) i = c_string_at (tok_bytes ?ts) i"
    using old last last [of "[]"] old [of _ "[]"] Cons.prems(3) by auto
  have "tok_outside ?t" using Cons.prems(1) by (simp add: tok_outside_def)
  from Cons.IH [OF this _ bytes items keep] Cons.prems(2)
  obtain t' where t': "tok_run (tok_step strict) (render_tokens ss) ?t = Some t'" "tok_outside t'"
      "map (c_string_at (tk_buf t')) (tk_items t') = ?ts @ map trim ss" by auto
  have "render_tokens (s # ss) = (CHR ''['' # s @ [CHR '']'']) @ render_tokens ss" by (simp add: render_tokens_def)
  then have "tok_run (tok_step strict) (render_tokens (s # ss)) t = Some t'"
    using tok_run_token [OF Cons.prems(1), of s strict] Cons.prems(2) t'(1)
    by (simp only: tok_run_append) simp
  with t' show ?case by auto
qed

lemma tokenize_render:
  assumes "\<forall>s \<in> set ss. inert s \<and> NUL \<notin> set s" "length (render_tokens ss) < 2 ^ 60"
  shows "sbsv_tokenize_line_internal (Some (render_tokens ss)) strict = (SBSV_OK, map trim ss)"
proof -
  obtain t where t: "tok_run (tok_step strict) (render_tokens ss) tok_init = Some t" "tok_outside t"
      "map (c_string_at (tk_buf t)) (tk_items t) = map trim ss"
    using tok_run_tokens [of tok_init ss "[]" strict] assms(1) by (auto simp: tok_outside_def tok_init_def tok_bytes_def)
  then have "tok_loop strict (render_tokens ss) = Some t" by (simp add: tok_loop_general tok_outside_def)
  with t tok_alloc_ok_small [OF assms(2)] show ?thesis by (simp add: sbsv_tokenize_line_internal_def)
qed

end
