(* ===== verification/Sbsv_Value.thy ===== *)
theory Sbsv_Value
  imports Sbsv_Tokenizer
begin

text \<open>
  \<^verbatim>\<open>solver/libsbsv/src/sbsv_parser.c\<close>, names, types and values. A \<^verbatim>\<open>double\<close> is its 64 bits; \<^verbatim>\<open>strtod\<close> is
  an argument, and so are the converters of the custom types, which are code of the library's
  user. A conversion that fails is \<open>Inl\<close> with the status and, where the code calls
  \<^verbatim>\<open>sbsv_parser_set_error\<close>, the message.
\<close>

section \<open>Values\<close>

datatype sbsv_value =
    V_NULL | V_INT int | V_FLOAT u64 | V_BOOL bool | V_STRING string | V_LIST "sbsv_value list"
  | V_CUSTOM nat "nat option" | V_BIG_INT string | V_BIG_HEX string | V_UINT nat

text \<open>\<^verbatim>\<open>sbsv_value_clear\<close> resets the value; observable are the calls of \<^verbatim>\<open>custom_free\<close> it makes on the way.\<close>

fun sbsv_value_clear :: "sbsv_value \<Rightarrow> (nat \<times> nat) list \<times> sbsv_value" where
  "sbsv_value_clear (V_LIST vs) = (concat (map (\<lambda>v. fst (sbsv_value_clear v)) vs), V_NULL)"
| "sbsv_value_clear (V_CUSTOM p f) = (case f of Some f \<Rightarrow> if p \<noteq> 0 then [(f, p)] else [] | None \<Rightarrow> [], V_NULL)"
| "sbsv_value_clear v = ([], V_NULL)"

definition sbsv_value_set_string :: "sbsv_value \<Rightarrow> string option \<Rightarrow> sbsv_status \<times> sbsv_value" where
  "sbsv_value_set_string v s = (case s of None \<Rightarrow> (SBSV_ERR_INVALID_ARG, v) | Some s \<Rightarrow> (SBSV_OK, V_STRING s))"

definition sbsv_value_set_custom_ptr :: "sbsv_value \<Rightarrow> nat \<Rightarrow> nat option \<Rightarrow> sbsv_status \<times> sbsv_value" where
  "sbsv_value_set_custom_ptr v p f = (SBSV_OK, V_CUSTOM p f)"

section \<open>Names\<close>

definition sbsv_validate_name :: "string \<Rightarrow> bool" where
  "sbsv_validate_name name \<longleftrightarrow> name \<noteq> [] \<and> (\<forall>ch \<in> set name. is_alnum ch \<or> ch = CHR ''_'' \<or> ch = CHR ''-'')"

text \<open>The parts of a name between \<^verbatim>\<open>$\<close> signs; at least one.\<close>

fun dollar_parts :: "string \<Rightarrow> string list" where
  "dollar_parts [] = [[]]"
| "dollar_parts (c # cs) =
     (if c = DOLLAR then [] # dollar_parts cs
      else case dollar_parts cs of p # ps \<Rightarrow> (c # p) # ps | [] \<Rightarrow> [[c]])"

definition sbsv_validate_tagged_field_name :: "string \<Rightarrow> bool" where
  "sbsv_validate_tagged_field_name name \<longleftrightarrow> name \<noteq> [] \<and> (\<forall>p \<in> set (dollar_parts name). sbsv_validate_name p)"

text \<open>The comparison of two schema names part by part, up to the end of the shorter.\<close>

fun parts_conflict :: "string list \<Rightarrow> string list \<Rightarrow> bool" where
  "parts_conflict (l # ls) (r # rs) = (l = r \<and> (ls = [] \<or> rs = [] \<or> parts_conflict ls rs))"
| "parts_conflict _ _ = True"

definition sbsv_schema_names_conflict :: "string \<Rightarrow> string \<Rightarrow> bool" where
  "sbsv_schema_names_conflict left right = parts_conflict (dollar_parts left) (dollar_parts right)"

section \<open>Types\<close>

type_synonym value_result = "(sbsv_status \<times> string option) + sbsv_value"

record sbsv_custom_type =
  ct_name :: string
  ct_converter :: "string \<Rightarrow> sbsv_status \<times> sbsv_value"

definition sbsv_find_custom_type :: "sbsv_custom_type list \<Rightarrow> string \<Rightarrow> sbsv_custom_type option" where
  "sbsv_find_custom_type types type_name = find (\<lambda>ct. ct_name ct = type_name) types"

definition sbsv_type_is_builtin :: "string \<Rightarrow> bool" where
  "sbsv_type_is_builtin type_name \<longleftrightarrow> type_name \<in> {''int'', ''float'', ''str'', ''bool'', ''null'', ''hex''}"

text \<open>\<^verbatim>\<open>list[...]\<close>, and the text between the brackets.\<close>

definition list_shape :: "string \<Rightarrow> bool" where
  "list_shape type_name \<longleftrightarrow> 7 \<le> length type_name \<and> take 5 type_name = ''list['' \<and> last type_name = CHR '']''"

definition list_subtype :: "string \<Rightarrow> string" where
  "list_subtype type_name = take (length type_name - 6) (drop 5 type_name)"

function sbsv_type_is_supported :: "sbsv_custom_type list \<Rightarrow> string \<Rightarrow> bool" where
  "sbsv_type_is_supported types type_name =
     (if type_name = [] then False
      else if sbsv_type_is_builtin type_name then True
      else if take 4 type_name = ''list'' then
        (if \<not> list_shape type_name then False else sbsv_type_is_supported types (list_subtype type_name))
      else sbsv_find_custom_type types type_name \<noteq> None)"
  by pat_completeness auto
termination
  by (relation "measure (\<lambda>(types, n). length n)") (auto simp: list_subtype_def list_shape_def)

declare sbsv_type_is_supported.simps [simp del]

section \<open>Scalars\<close>

definition sbsv_ascii_equal_case :: "string \<Rightarrow> string \<Rightarrow> bool" where
  "sbsv_ascii_equal_case value expected \<longleftrightarrow> map to_lower value = map to_lower expected"

definition skip_plus_minus :: "string \<Rightarrow> string" where
  "skip_plus_minus s = (case s of c # cs \<Rightarrow> if c = CHR ''+'' \<or> c = CHR ''-'' then cs else s | [] \<Rightarrow> s)"

definition sbsv_float_syntax_supported :: "string \<Rightarrow> bool" where
  "sbsv_float_syntax_supported value =
     (let s = skip_plus_minus value in
      if sbsv_ascii_equal_case s ''inf'' \<or> sbsv_ascii_equal_case s ''infinity'' \<or> sbsv_ascii_equal_case s ''nan'' then True
      else
        let int_part = takeWhile is_digit s; s = dropWhile is_digit s;
            dot = (s \<noteq> [] \<and> hd s = CHR ''.''); s = (if dot then tl s else s);
            frac_part = (if dot then takeWhile is_digit s else []); s = (if dot then dropWhile is_digit s else s) in
        if int_part = [] \<and> frac_part = [] then False
        else if s \<noteq> [] \<and> (hd s = CHR ''e'' \<or> hd s = CHR ''E'') then
          (let s = skip_plus_minus (tl s) in takeWhile is_digit s \<noteq> [] \<and> dropWhile is_digit s = [])
        else s = [])"

definition sbsv_parse_bool :: "string \<Rightarrow> bool option" where
  "sbsv_parse_bool value =
     (let lowered = map to_lower value in
      if length value \<ge> 16 then None
      else if lowered \<in> {''t'', ''true'', ''y'', ''yes'', ''1''} then Some True
      else if lowered \<in> {''f'', ''false'', ''n'', ''no'', ''0''} then Some False
      else None)"

definition conv_error :: "string \<Rightarrow> value_result" where
  "conv_error msg = Inl (SBSV_ERR_INVALID_ARG, Some msg)"

definition parse_int :: "string \<Rightarrow> value_result" where
  "parse_int value =
     (let (parsed, erange, rest) = strtoll value 10 in
      if erange \<and> rest = [] then Inr (V_BIG_INT value)
      else if erange \<or> rest \<noteq> [] then conv_error (''Invalid int value: '' @ value)
      else Inr (V_INT parsed))"

text \<open>\<^verbatim>\<open>end_ptr != value\<close>: something was read.\<close>

definition parse_hex :: "string \<Rightarrow> value_result" where
  "parse_hex value =
     (if value \<noteq> [] \<and> hd value = CHR ''-'' then
        (let (parsed, erange, rest) = strtoll value 16 in
         if \<not> erange \<and> rest \<noteq> value \<and> rest = [] then Inr (V_INT parsed)
         else if erange \<and> rest \<noteq> value \<and> rest = [] then Inr (V_BIG_HEX value)
         else conv_error (''Invalid hex value: '' @ value))
      else
        (let (parsed, erange, rest) = strtoull value 16 in
         if \<not> erange \<and> rest \<noteq> value \<and> rest = [] then
           (if int parsed \<le> LLONG_MAX then Inr (V_INT (int parsed)) else Inr (V_UINT parsed))
         else if erange \<and> rest \<noteq> value \<and> rest = [] then Inr (V_BIG_HEX value)
         else conv_error (''Invalid hex value: '' @ value)))"

type_synonym strtod_fn = "string \<Rightarrow> u64 \<times> bool \<times> string"

definition parse_float :: "strtod_fn \<Rightarrow> string \<Rightarrow> value_result" where
  "parse_float strtod value =
     (if \<not> sbsv_float_syntax_supported value then conv_error (''Invalid float value: '' @ value)
      else let (parsed, err, rest) = strtod value in
           if err \<or> rest \<noteq> [] then conv_error (''Invalid float value: '' @ value) else Inr (V_FLOAT parsed))"

definition parse_null :: "string \<Rightarrow> value_result" where
  "parse_null value =
     (if length value \<ge> 8 \<or> map to_lower value \<noteq> ''null'' then conv_error (''Invalid null value: '' @ value)
      else Inr V_NULL)"

text \<open>The value after unescaping, which only happens when it starts with a quote or has a backslash.\<close>

definition decode_raw :: "string \<Rightarrow> string option" where
  "decode_raw raw = (if (raw \<noteq> [] \<and> hd raw = QUOTE) \<or> BSLASH \<in> set raw then unescape_text raw else Some raw)"

definition parse_scalar :: "strtod_fn \<Rightarrow> sbsv_custom_type list \<Rightarrow> string \<Rightarrow> string \<Rightarrow> value_result" where
  "parse_scalar strtod types type_name raw =
     (case decode_raw raw of
        None \<Rightarrow> conv_error (''Invalid string value: '' @ raw)
      | Some value \<Rightarrow>
          if type_name = ''int'' then parse_int value
          else if type_name = ''hex'' then parse_hex value
          else if type_name = ''float'' then parse_float strtod value
          else if type_name = ''str'' then Inr (V_STRING value)
          else if type_name = ''bool'' then
            (case sbsv_parse_bool value of
               None \<Rightarrow> conv_error (''Invalid boolean value: '' @ value) | Some b \<Rightarrow> Inr (V_BOOL b))
          else if type_name = ''null'' then parse_null value
          else case sbsv_find_custom_type types type_name of
            Some ct \<Rightarrow> (let (st, v) = ct_converter ct value in if st = SBSV_OK then Inr v else Inl (st, None))
          | None \<Rightarrow> conv_error (''Unsupported type: '' @ type_name))"

section \<open>Lists\<close>

fun convert_all :: "(string \<Rightarrow> value_result) \<Rightarrow> string list \<Rightarrow> (sbsv_status \<times> string option) + sbsv_value list" where
  "convert_all f [] = Inr []"
| "convert_all f (s # ss) =
     (case f s of Inl e \<Rightarrow> Inl e
      | Inr v \<Rightarrow> (case convert_all f ss of Inl e \<Rightarrow> Inl e | Inr vs \<Rightarrow> Inr (v # vs)))"

function sbsv_parse_value :: "strtod_fn \<Rightarrow> sbsv_custom_type list \<Rightarrow> string \<Rightarrow> string \<Rightarrow> value_result"
  and sbsv_parse_list_value :: "strtod_fn \<Rightarrow> sbsv_custom_type list \<Rightarrow> string \<Rightarrow> string \<Rightarrow> value_result"
where
  "sbsv_parse_value strtod types type_name raw =
     (if take 5 type_name = ''list['' then sbsv_parse_list_value strtod types type_name raw
      else parse_scalar strtod types type_name raw)"
| "sbsv_parse_list_value strtod types type_name raw =
     (if \<not> list_shape type_name then Inl (SBSV_ERR_INVALID_ARG, None)
      else case sbsv_tokenize_line_strict (Some raw) of
        (SBSV_OK, toks) \<Rightarrow>
          (case convert_all (\<lambda>s. sbsv_parse_value strtod types (list_subtype type_name) s) toks of
             Inl e \<Rightarrow> Inl e | Inr vs \<Rightarrow> Inr (V_LIST vs))
      | (st, _) \<Rightarrow> Inl (st, None))"
  by pat_completeness auto
termination
  by (relation "measure (case_sum (\<lambda>(f, ts, n, raw). 2 * length n + 1) (\<lambda>(f, ts, n, raw). 2 * length n))")
    (auto simp: list_shape_def list_subtype_def)

declare sbsv_parse_value.simps [simp del] sbsv_parse_list_value.simps [simp del]

section \<open>The value of a declared type\<close>

definition long_long :: "int \<Rightarrow> bool" where
  "long_long z \<longleftrightarrow> LLONG_MIN \<le> z \<and> z \<le> LLONG_MAX"

definition scalar_of_type :: "sbsv_custom_type list \<Rightarrow> string \<Rightarrow> sbsv_value \<Rightarrow> bool" where
  "scalar_of_type types t v \<longleftrightarrow>
     (if t = ''int'' then (\<exists>z. v = V_INT z \<and> long_long z) \<or> (\<exists>s. v = V_BIG_INT s)
      else if t = ''hex'' then (\<exists>z. v = V_INT z \<and> long_long z) \<or>
        (\<exists>n. v = V_UINT n \<and> LLONG_MAX < int n \<and> n \<le> ULLONG_MAX) \<or> (\<exists>s. v = V_BIG_HEX s)
      else if t = ''float'' then \<exists>d. v = V_FLOAT d
      else if t = ''str'' then \<exists>s. v = V_STRING s
      else if t = ''bool'' then \<exists>b. v = V_BOOL b
      else if t = ''null'' then v = V_NULL
      else \<exists>ct s. sbsv_find_custom_type types t = Some ct \<and> ct_converter ct s = (SBSV_OK, v))"

function value_of_type :: "sbsv_custom_type list \<Rightarrow> string \<Rightarrow> sbsv_value \<Rightarrow> bool" where
  "value_of_type types t v =
     (if take 5 t = ''list['' then
        (if list_shape t
         then case v of V_LIST vs \<Rightarrow> list_all (\<lambda>x. value_of_type types (list_subtype t) x) vs | _ \<Rightarrow> False
         else False)
      else scalar_of_type types t v)"
  by pat_completeness auto
termination
  by (relation "measure (\<lambda>(types, t, v). length t)") (auto simp: list_shape_def list_subtype_def)

declare value_of_type.simps [simp del]

lemma strtoll_range: "strtoll s b = (v, e, r) \<Longrightarrow> long_long v"
  by (auto simp: strtoll_def long_long_def LLONG_MAX_def LLONG_MIN_def Let_def split: option.splits if_splits)

lemma strtoull_range: "strtoull s b = (v, e, r) \<Longrightarrow> v \<le> ULLONG_MAX"
  by (auto simp: strtoull_def ULLONG_MAX_def less_Suc_eq_le [symmetric] split: option.splits if_splits)

lemma parse_int_type: "parse_int s = Inr v \<Longrightarrow> scalar_of_type types ''int'' v"
  by (auto simp: parse_int_def scalar_of_type_def conv_error_def dest: strtoll_range split: prod.splits if_splits)

lemma parse_hex_type: "parse_hex s = Inr v \<Longrightarrow> scalar_of_type types ''hex'' v"
  by (auto simp: parse_hex_def scalar_of_type_def conv_error_def long_long_def LLONG_MIN_def
      dest: strtoll_range strtoull_range split: prod.splits if_splits)

lemma parse_scalar_type:
  assumes "parse_scalar strtod types t raw = Inr v"
  shows "scalar_of_type types t v"
proof -
  obtain s where s: "decode_raw raw = Some s"
    using assms by (cases "decode_raw raw") (auto simp: parse_scalar_def conv_error_def)
  consider "t = ''int''" | "t = ''hex''" | "t \<noteq> ''int''" "t \<noteq> ''hex''" by blast
  then show ?thesis
  proof cases
    case 1
    then show ?thesis using assms s parse_int_type by (simp add: parse_scalar_def)
  next
    case 2
    then show ?thesis using assms s parse_hex_type by (simp add: parse_scalar_def)
  next
    case 3
    then show ?thesis using assms s
      by (auto simp: parse_scalar_def scalar_of_type_def parse_float_def parse_null_def conv_error_def
          split: if_splits option.splits prod.splits)
  qed
qed

lemma convert_all_Inr: "convert_all f ss = Inr vs \<Longrightarrow> list_all2 (\<lambda>s v. f s = Inr v) ss vs"
  by (induction ss arbitrary: vs) (auto split: sum.splits)

lemma convert_all_map: "\<forall>s \<in> set ss. f (g s) = Inr (h s) \<Longrightarrow> convert_all f (map g ss) = Inr (map h ss)"
  by (induction ss) simp_all

lemma parse_value_type_both:
  "sbsv_parse_value strtod types t raw = Inr v \<Longrightarrow> value_of_type types t v"
  "sbsv_parse_list_value strtod types t raw = Inr v \<Longrightarrow> take 5 t = ''list['' \<Longrightarrow> value_of_type types t v"
proof (induction strtod types t raw and strtod types t raw arbitrary: v and v
    rule: sbsv_parse_value_sbsv_parse_list_value.induct)
  case (1 strtod types t raw)
  then show ?case
    by (auto simp: sbsv_parse_value.simps [of strtod types t raw] value_of_type.simps [of types t]
        intro: parse_scalar_type split: if_splits)
next
  case (2 strtod types t raw)
  obtain toks vs where vs: "list_shape t" "sbsv_tokenize_line_strict (Some raw) = (SBSV_OK, toks)" "v = V_LIST vs"
      "convert_all (\<lambda>s. sbsv_parse_value strtod types (list_subtype t) s) toks = Inr vs"
    using "2.prems"(1)
    by (auto simp: sbsv_parse_list_value.simps [of strtod types t raw] split: if_splits prod.splits
        sbsv_status.splits sum.splits)
  have "value_of_type types (list_subtype t) x" if "x \<in> set vs" for x
    using convert_all_Inr [OF vs(4)] that "2.IH" [OF _ vs(2) [symmetric]] vs(1)
    by (auto simp: list_all2_conv_all_nth in_set_conv_nth)
  with vs(1,3) "2.prems"(2) show ?case by (simp add: value_of_type.simps [of types t] list_all_iff)
qed

section \<open>Reading printed values back\<close>

lemma show_int_chars: "c \<in> set (show_int z) \<Longrightarrow> c = CHR ''-'' \<or> (\<exists>d < 10. c = digit_char d)"
  using show_nat_digits by (auto simp: show_int_def split: if_splits)

lemma digit_char_plain:
  assumes "d < 10"
  shows "digit_char d \<notin> {BSLASH, QUOTE, CHR ''['', CHR '']'', NUL}"
proof -
  have "digit_val (digit_char d) = Some d" using digit_char_cases [OF assms] by simp
  moreover have "digit_val BSLASH = None" "digit_val QUOTE = None" "digit_val (CHR ''['') = None"
    "digit_val (CHR '']'') = None" "digit_val NUL = None"
    by (simp_all add: digit_val_def is_digit_def in_chars_def)
  ultimately show ?thesis by auto
qed

lemma show_int_plain: "\<forall>c \<in> set (show_int z). c \<notin> {BSLASH, QUOTE, CHR ''['', CHR '']'', NUL}"
proof
  fix c assume "c \<in> set (show_int z)"
  then consider "c = CHR ''-''" | d where "d < 10" "c = digit_char d" using show_int_chars by blast
  then show "c \<notin> {BSLASH, QUOTE, CHR ''['', CHR '']'', NUL}"
  proof cases
    case 1
    then show ?thesis by simp
  next
    case 2
    show ?thesis unfolding 2(2) by (rule digit_char_plain [OF 2(1)])
  qed
qed

lemma show_int_nonempty: "show_int z \<noteq> []"
  using show_nat_digits(1) by (simp add: show_int_def)

lemma decode_show_int: "decode_raw (show_int z) = Some (show_int z)"
  using show_int_plain [of z] show_int_nonempty [of z] hd_in_set [of "show_int z"] by (auto simp: decode_raw_def)

lemma parse_value_show_int:
  "sbsv_parse_value strtod types ''int'' (show_int z) =
     (if long_long z then Inr (V_INT z) else Inr (V_BIG_INT (show_int z)))"
  by (auto simp: sbsv_parse_value.simps parse_scalar_def decode_show_int parse_int_def strtoll_show_int long_long_def
      LLONG_MAX_def LLONG_MIN_def)

lemma unescape_loop_no_bslash: "BSLASH \<notin> set s \<Longrightarrow> unescape_loop strict s = Some s"
  by (induction s) (auto simp: unescape_loop_plain)

lemma decode_escape_text: "decode_raw (escape_text v) = Some v"
proof (cases "(escape_text v \<noteq> [] \<and> hd (escape_text v) = QUOTE) \<or> BSLASH \<in> set (escape_text v)")
  case True
  then show ?thesis by (simp add: decode_raw_def unescape_escape)
next
  case False
  have "unescape_loop False (escape_text v) = Some v" by (simp add: escape_text_def unescape_loop_escapes)
  with False unescape_loop_no_bslash [of "escape_text v" False] show ?thesis
    unfolding decode_raw_def if_not_P [OF False] by simp
qed

lemma parse_value_escape_text: "sbsv_parse_value strtod types ''str'' (escape_text v) = Inr (V_STRING v)"
  by (simp add: sbsv_parse_value.simps parse_scalar_def decode_escape_text)

end
