(* ===== verification/Sbsv_Schema.thy ===== *)
theory Sbsv_Schema
  imports Sbsv_Value
begin

text \<open>
  \<^verbatim>\<open>solver/libsbsv/src/sbsv_parser.c\<close>, the parser object and its configuration: schemas, custom
  types, the ignored prefix, groups, and the schema of a body parser. Arrays are lists; their
  capacity (\<^verbatim>\<open>sbsv_grow_array\<close>) is modelled apart, and growing is taken to succeed. A row is stored
  by value in the parser and in its schema: the code never changes a row after appending it.
  Parser pointers are not null; a null string argument is \<open>None\<close>.
\<close>

section \<open>Data\<close>

record sbsv_schema_field =
  sf_tagged :: string
  sf_name :: string
  sf_type :: string
  sf_nullable :: bool

record sbsv_field =
  fd_tagged :: string
  fd_name :: string
  fd_value :: sbsv_value

record sbsv_row =
  row_schema :: string
  row_id :: nat
  row_fields :: "sbsv_field list"

record sbsv_schema =
  sc_name :: string
  sc_fields :: "sbsv_schema_field list"
  sc_rows :: "sbsv_row list"

record sbsv_index_range =
  rg_start :: nat
  rg_end :: nat

record sbsv_group =
  gr_name :: string
  gr_start_schema :: nat
  gr_end_schema :: nat
  gr_ranges :: "sbsv_index_range list"
  gr_start :: int

datatype sbsv_ignore_prefix_token = Literal string | Capture sbsv_schema_field

record sbsv_parser =
  ignore_unknown :: bool
  last_error :: "string option"
  schemas :: "sbsv_schema list"
  custom_types :: "sbsv_custom_type list"
  groups :: "sbsv_group list"
  ignored_prefix :: "sbsv_ignore_prefix_token list"
  save_ignored_prefix :: bool
  rows :: "sbsv_row list"

text \<open>A failing call: the status and the message of \<^verbatim>\<open>sbsv_parser_set_error\<close>, if it was called.\<close>

type_synonym failure = "sbsv_status \<times> string option"

definition sbsv_parser_set_error :: "sbsv_parser \<Rightarrow> string option \<Rightarrow> sbsv_parser" where
  "sbsv_parser_set_error p msg = (case msg of None \<Rightarrow> p | Some m \<Rightarrow> p\<lparr>last_error := Some m\<rparr>)"

definition quoted :: "string \<Rightarrow> string" where
  "quoted s = CHR 0x27 # s @ [CHR 0x27]"

definition sbsv_parser_new :: "nat \<Rightarrow> sbsv_parser" where
  "sbsv_parser_new flags =
     \<lparr>ignore_unknown = even flags, last_error = None, schemas = [], custom_types = [], groups = [],
      ignored_prefix = [], save_ignored_prefix = False, rows = []\<rparr>"

section \<open>Capacity of an array\<close>

text \<open>
  The doubling loop; \<open>None\<close> is the status \<^verbatim>\<open>SBSV_ERR_ALLOC\<close>. The first doubling is not checked in the
  source: an allocated array has fewer than \<open>2 ^ 63\<close> elements.
\<close>

function double_until :: "nat \<Rightarrow> nat \<Rightarrow> nat option" where
  "double_until cap needed =
     (if cap = 0 \<or> needed \<le> cap then Some cap
      else if cap > SIZE_MAX div 2 then None
      else double_until (2 * cap) needed)"
  by pat_completeness auto
termination
  by (relation "measure (\<lambda>(cap, needed). needed - cap)") auto

declare double_until.simps [simp del]

definition sbsv_grow_array :: "nat \<Rightarrow> nat \<Rightarrow> nat \<Rightarrow> nat option" where
  "sbsv_grow_array elem_size capacity needed =
     (if needed \<le> capacity then Some capacity
      else case double_until (if capacity = 0 then 4 else 2 * capacity) needed of
             None \<Rightarrow> None
           | Some c \<Rightarrow> if elem_size \<noteq> 0 \<and> c > SIZE_MAX div elem_size then None else Some c)"

section \<open>Splitting a token\<close>

text \<open>\<^verbatim>\<open>sbsv_split_token_default\<close>: key and value at the first white space; \<open>None\<close> when the key does not unescape.\<close>

definition sbsv_split_token_default :: "string \<Rightarrow> (string \<times> string) option" where
  "sbsv_split_token_default token =
     (let key = takeWhile (\<lambda>c. \<not> is_space c) token; rest = dropWhile (\<lambda>c. \<not> is_space c) token in
      case unescape_text (trim key) of
        None \<Rightarrow> None
      | Some k \<Rightarrow> Some (k, trim (dropWhile is_space rest)))"

definition sbsv_split_token_schema :: "string \<Rightarrow> (string \<times> string) option" where
  "sbsv_split_token_schema token =
     (case split_char (CHR '':'') token of
        None \<Rightarrow> map_option (\<lambda>k. (k, [])) (unescape_text (trim token))
      | Some (key, value) \<Rightarrow> map_option (\<lambda>k. (k, trim value)) (unescape_text (trim key)))"

section \<open>Schemas\<close>

definition sbsv_parser_add_schema_name_suffix :: "string \<Rightarrow> string \<Rightarrow> string" where
  "sbsv_parser_add_schema_name_suffix name sfx = name @ [DOLLAR] @ sfx"

definition before_dollar :: "string \<Rightarrow> string" where
  "before_dollar s = takeWhile (\<lambda>c. c \<noteq> DOLLAR) s"

text \<open>The field a token with a type annotation declares.\<close>

definition schema_field_of :: "sbsv_custom_type list \<Rightarrow> string \<Rightarrow> failure + sbsv_schema_field" where
  "schema_field_of types token =
     (case sbsv_split_token_schema token of
        None \<Rightarrow> Inl (SBSV_ERR_ALLOC, None)
      | Some (key, value) \<Rightarrow>
          let nullable = (key \<noteq> [] \<and> last key = CHR ''?''); key = (if nullable then butlast key else key) in
          if \<not> sbsv_validate_tagged_field_name key then
            Inl (SBSV_ERR_INVALID_ARG, Some (''Invalid schema field name '' @ quoted key @
                 '': use only [A-Za-z0-9_-] and optional $ tags''))
          else if \<not> sbsv_type_is_supported types value then
            Inl (SBSV_ERR_INVALID_ARG, Some (''Unsupported type: '' @ value))
          else Inr \<lparr>sf_tagged = key, sf_name = before_dollar key, sf_type = value, sf_nullable = nullable\<rparr>)"

text \<open>The loop over the tokens after the first: name parts, then fields.\<close>

fun schema_tokens ::
  "sbsv_custom_type list \<Rightarrow> string \<Rightarrow> string list \<Rightarrow> string \<Rightarrow> sbsv_schema_field list \<Rightarrow> bool \<Rightarrow>
   failure + string \<times> sbsv_schema_field list"
where
  "schema_tokens types expr [] name flds body_started = Inr (name, flds)"
| "schema_tokens types expr (token # toks) name flds body_started =
     (case sbsv_split_token_default token of
        None \<Rightarrow> Inl (SBSV_ERR_ALLOC, None)
      | Some (key, value) \<Rightarrow>
          if key = [] then Inl (SBSV_ERR_INVALID_ARG, Some (''Invalid schema '' @ token @ '': empty name''))
          else if CHR '':'' \<notin> set token then
            (if body_started \<or> value \<noteq> [] then
               Inl (SBSV_ERR_INVALID_ARG, Some (''Invalid schema token ['' @ token @ '']: missing type annotation''))
             else if \<not> sbsv_validate_name key then
               Inl (SBSV_ERR_INVALID_ARG, Some (''Invalid sub-schema name '' @ quoted key @ '': use only [A-Za-z0-9_-]''))
             else schema_tokens types expr toks (sbsv_parser_add_schema_name_suffix name key) flds body_started)
          else
            (case schema_field_of types token of
               Inl e \<Rightarrow> Inl e
             | Inr field \<Rightarrow>
                 if flds = [] \<and> sf_nullable field then
                   Inl (SBSV_ERR_INVALID_ARG, Some (''Invalid schema '' @ expr @ '': first body field '' @
                        quoted (sf_tagged field) @ '' cannot be nullable''))
                 else schema_tokens types expr toks name (flds @ [field]) True))"

text \<open>The first schema in the way of a new name.\<close>

definition conflicting_schema :: "string \<Rightarrow> sbsv_schema list \<Rightarrow> sbsv_schema option" where
  "conflicting_schema name scs = find (\<lambda>sc. sbsv_schema_names_conflict name (sc_name sc)) scs"

definition parse_schema_expr :: "sbsv_parser \<Rightarrow> string \<Rightarrow> failure + sbsv_schema" where
  "parse_schema_expr p expr =
     (case sbsv_tokenize_line_strict (Some expr) of
        (SBSV_OK, toks) \<Rightarrow>
          (case toks of
             [] \<Rightarrow> Inl (SBSV_ERR_INVALID_ARG, Some (''Invalid schema '' @ expr @ '': too short''))
           | name # rest \<Rightarrow>
               if \<not> sbsv_validate_name name then
                 Inl (SBSV_ERR_INVALID_ARG, Some (''Invalid schema name '' @ quoted name @ '': use only [A-Za-z0-9_-]''))
               else case schema_tokens (custom_types p) expr rest name [] False of
                 Inl e \<Rightarrow> Inl e
               | Inr (name, flds) \<Rightarrow>
                   (case conflicting_schema name (schemas p) of
                      Some sc \<Rightarrow> Inl (SBSV_ERR_INVALID_ARG, Some (''Schema '' @ quoted name @
                                   '' conflicts with existing schema '' @ quoted (sc_name sc)))
                    | None \<Rightarrow> Inr \<lparr>sc_name = name, sc_fields = flds, sc_rows = []\<rparr>))
      | (st, _) \<Rightarrow> Inl (st, Some ''Invalid schema: failed to tokenize''))"

definition sbsv_parser_add_schema :: "sbsv_parser \<Rightarrow> string option \<Rightarrow> sbsv_status \<times> sbsv_parser" where
  "sbsv_parser_add_schema p expr =
     (case expr of
        None \<Rightarrow> (SBSV_ERR_INVALID_ARG, p)
      | Some expr \<Rightarrow>
          (case parse_schema_expr p expr of
             Inl (st, msg) \<Rightarrow> (st, sbsv_parser_set_error p msg)
           | Inr sc \<Rightarrow> (SBSV_OK, p\<lparr>schemas := schemas p @ [sc]\<rparr>)))"

section \<open>Custom types\<close>

text \<open>A converter replaces that of an existing type of the name, or is added.\<close>

fun put_custom_type :: "sbsv_custom_type list \<Rightarrow> sbsv_custom_type \<Rightarrow> sbsv_custom_type list" where
  "put_custom_type [] ct = [ct]"
| "put_custom_type (x # xs) ct = (if ct_name x = ct_name ct then ct # xs else x # put_custom_type xs ct)"

definition custom_type_error :: "bool \<Rightarrow> string \<Rightarrow> string \<Rightarrow> string option" where
  "custom_type_error late before type_name =
     (if late then Some (''add_custom_type() must be called before '' @ before)
      else if \<not> sbsv_validate_name type_name then
        Some (''Invalid custom type name '' @ quoted type_name @ '': use only [A-Za-z0-9_-]'')
      else if sbsv_type_is_builtin type_name then Some (''Cannot replace built-in type '' @ quoted type_name)
      else None)"

definition sbsv_parser_add_custom_type ::
  "sbsv_parser \<Rightarrow> string option \<Rightarrow> (string \<Rightarrow> sbsv_status \<times> sbsv_value) option \<Rightarrow> sbsv_status \<times> sbsv_parser"
where
  "sbsv_parser_add_custom_type p type_name converter =
     (case (type_name, converter) of
        (Some n, Some f) \<Rightarrow>
          (case custom_type_error (schemas p \<noteq> []) ''add_schema()'' n of
             Some msg \<Rightarrow> (SBSV_ERR_INVALID_ARG, sbsv_parser_set_error p (Some msg))
           | None \<Rightarrow> (SBSV_OK, p\<lparr>custom_types := put_custom_type (custom_types p) \<lparr>ct_name = n, ct_converter = f\<rparr>\<rparr>))
      | _ \<Rightarrow> (SBSV_ERR_INVALID_ARG, p))"

section \<open>The ignored prefix\<close>

definition prefix_token_of :: "sbsv_custom_type list \<Rightarrow> string \<Rightarrow> failure + sbsv_ignore_prefix_token" where
  "prefix_token_of types token =
     (case sbsv_split_token_schema token of
        None \<Rightarrow> Inl (SBSV_ERR_ALLOC, None)
      | Some (key, value) \<Rightarrow>
          if key = [] then
            Inl (SBSV_ERR_INVALID_ARG, Some (''Invalid ignore prefix token ['' @ token @ '']: empty name''))
          else if hd key \<noteq> DOLLAR then Inr (Literal token)
          else if \<not> sbsv_validate_name (tl key) then
            Inl (SBSV_ERR_INVALID_ARG, Some (''Invalid ignored prefix name '' @ quoted (tl key) @
                 '': use only [A-Za-z0-9_-]''))
          else let value = (if value = [] then ''str'' else value) in
            if \<not> sbsv_type_is_supported types value then
              Inl (SBSV_ERR_INVALID_ARG, Some (''Unsupported type: '' @ value))
            else Inr (Capture \<lparr>sf_tagged = key, sf_name = key, sf_type = value, sf_nullable = False\<rparr>))"

fun prefix_tokens_of :: "sbsv_custom_type list \<Rightarrow> string list \<Rightarrow> failure + sbsv_ignore_prefix_token list" where
  "prefix_tokens_of types [] = Inr []"
| "prefix_tokens_of types (t # ts) =
     (case prefix_token_of types t of Inl e \<Rightarrow> Inl e
      | Inr x \<Rightarrow> (case prefix_tokens_of types ts of Inl e \<Rightarrow> Inl e | Inr xs \<Rightarrow> Inr (x # xs)))"

definition sbsv_parser_ignore_prefix :: "sbsv_parser \<Rightarrow> string option \<Rightarrow> bool \<Rightarrow> sbsv_status \<times> sbsv_parser" where
  "sbsv_parser_ignore_prefix p pre save_ignored =
     (case pre of
        None \<Rightarrow> (SBSV_ERR_INVALID_ARG, p)
      | Some pre \<Rightarrow>
          if schemas p \<noteq> [] then
            (SBSV_ERR_INVALID_ARG, sbsv_parser_set_error p (Some ''ignore_prefix() must be called before add_schema()''))
          else
            (let (st, toks) = sbsv_tokenize_line_strict (Some pre) in
             if st \<noteq> SBSV_OK \<or> toks = [] then
               (if st = SBSV_OK then SBSV_ERR_INVALID_ARG else st,
                sbsv_parser_set_error p (Some (''Invalid ignore prefix '' @ pre @ '': too short'')))
             else case prefix_tokens_of (custom_types p) toks of
               Inl (st, msg) \<Rightarrow> (st, sbsv_parser_set_error p msg)
             | Inr xs \<Rightarrow> (SBSV_OK, p\<lparr>ignored_prefix := xs, save_ignored_prefix := save_ignored\<rparr>)))"

section \<open>Groups\<close>

definition sbsv_schema_need_parsing :: "string \<Rightarrow> bool" where
  "sbsv_schema_need_parsing name \<longleftrightarrow> 2 \<le> length name \<and> hd name = CHR ''['' \<and> last name = CHR '']''"

text \<open>The parts of the name end at the first token with a value.\<close>

fun name_tokens :: "string list \<Rightarrow> string \<Rightarrow> sbsv_status + string" where
  "name_tokens [] name = Inr name"
| "name_tokens (t # ts) name =
     (case sbsv_split_token_default t of
        None \<Rightarrow> Inl SBSV_ERR_ALLOC
      | Some (key, value) \<Rightarrow> if value = [] then name_tokens ts (sbsv_parser_add_schema_name_suffix name key) else Inr name)"

definition sbsv_schema_name_from_expr :: "string \<Rightarrow> sbsv_status + string" where
  "sbsv_schema_name_from_expr expr =
     (if \<not> sbsv_schema_need_parsing expr then Inr expr
      else case sbsv_tokenize_line_strict (Some expr) of
        (SBSV_OK, toks) \<Rightarrow> (case toks of [] \<Rightarrow> Inl SBSV_ERR_INVALID_ARG | t # ts \<Rightarrow> name_tokens ts t)
      | (st, _) \<Rightarrow> Inl st)"

text \<open>\<^verbatim>\<open>sbsv_find_schema\<close>: the index of the first schema of the name.\<close>

fun sbsv_find_schema :: "sbsv_schema list \<Rightarrow> string \<Rightarrow> nat option" where
  "sbsv_find_schema [] name = None"
| "sbsv_find_schema (sc # scs) name = (if sc_name sc = name then Some 0 else map_option Suc (sbsv_find_schema scs name))"

definition sbsv_parser_add_group ::
  "sbsv_parser \<Rightarrow> string option \<Rightarrow> string option \<Rightarrow> string option \<Rightarrow> sbsv_status \<times> sbsv_parser"
where
  "sbsv_parser_add_group p group_name start_schema end_schema =
     (case (group_name, start_schema, end_schema) of
        (Some g, Some s, Some e) \<Rightarrow>
          (case sbsv_schema_name_from_expr s of
             Inl st \<Rightarrow> (st, p)
           | Inr s_name \<Rightarrow>
               (case sbsv_schema_name_from_expr e of
                  Inl st \<Rightarrow> (st, p)
                | Inr e_name \<Rightarrow>
                    (case (sbsv_find_schema (schemas p) s_name, sbsv_find_schema (schemas p) e_name) of
                       (Some i, Some j) \<Rightarrow>
                         (SBSV_OK, p\<lparr>groups := groups p @ [\<lparr>gr_name = g, gr_start_schema = i, gr_end_schema = j,
                            gr_ranges = [], gr_start = - 1\<rparr>]\<rparr>)
                     | _ \<Rightarrow> (SBSV_ERR_INVALID_ARG, sbsv_parser_set_error p
                         (Some (''Invalid group schema: start='' @ s_name @ '' end='' @ e_name))))))
      | _ \<Rightarrow> (SBSV_ERR_INVALID_ARG, p))"

section \<open>Clearing\<close>

definition sbsv_parser_clear_rows :: "sbsv_parser \<Rightarrow> sbsv_parser" where
  "sbsv_parser_clear_rows p =
     p\<lparr>rows := [], schemas := map (\<lambda>sc. sc\<lparr>sc_rows := []\<rparr>) (schemas p),
       groups := map (\<lambda>g. g\<lparr>gr_ranges := [], gr_start := - 1\<rparr>) (groups p)\<rparr>"

text \<open>The \<^verbatim>\<open>custom_free\<close> calls of \<^verbatim>\<open>sbsv_row_free\<close>, and of the whole parser when it is freed.\<close>

definition sbsv_row_free :: "sbsv_row \<Rightarrow> (nat \<times> nat) list" where
  "sbsv_row_free row = concat (map (\<lambda>f. fst (sbsv_value_clear (fd_value f))) (row_fields row))"

definition sbsv_parser_free :: "sbsv_parser \<Rightarrow> (nat \<times> nat) list" where
  "sbsv_parser_free p = concat (map sbsv_row_free (rows p))"

section \<open>Body parser\<close>

record sbsv_body_parser =
  bp_error :: "string option"
  bp_schema :: "sbsv_schema_field list"
  bp_has_schema :: bool
  bp_types :: "sbsv_custom_type list"

definition sbsv_body_parser_new :: sbsv_body_parser where
  "sbsv_body_parser_new = \<lparr>bp_error = None, bp_schema = [], bp_has_schema = False, bp_types = []\<rparr>"

definition sbsv_body_parser_set_error :: "sbsv_body_parser \<Rightarrow> string option \<Rightarrow> sbsv_body_parser" where
  "sbsv_body_parser_set_error b msg = (case msg of None \<Rightarrow> b | Some m \<Rightarrow> b\<lparr>bp_error := Some m\<rparr>)"

definition sbsv_body_parser_add_custom_type ::
  "sbsv_body_parser \<Rightarrow> string option \<Rightarrow> (string \<Rightarrow> sbsv_status \<times> sbsv_value) option \<Rightarrow> sbsv_status \<times> sbsv_body_parser"
where
  "sbsv_body_parser_add_custom_type b type_name converter =
     (case (type_name, converter) of
        (Some n, Some f) \<Rightarrow>
          (case custom_type_error (bp_has_schema b) ''set_schema()'' n of
             Some msg \<Rightarrow> (SBSV_ERR_INVALID_ARG, sbsv_body_parser_set_error b (Some msg))
           | None \<Rightarrow> (SBSV_OK, b\<lparr>bp_types := put_custom_type (bp_types b) \<lparr>ct_name = n, ct_converter = f\<rparr>\<rparr>))
      | _ \<Rightarrow> (SBSV_ERR_INVALID_ARG, b))"

fun body_fields :: "sbsv_custom_type list \<Rightarrow> string list \<Rightarrow> failure + sbsv_schema_field list" where
  "body_fields types [] = Inr []"
| "body_fields types (t # ts) =
     (if CHR '':'' \<notin> set t then
        Inl (SBSV_ERR_INVALID_ARG, Some (''Invalid schema token ['' @ t @ '']: missing type annotation''))
      else case schema_field_of types t of
        Inl e \<Rightarrow> Inl e
      | Inr f \<Rightarrow> (case body_fields types ts of Inl e \<Rightarrow> Inl e | Inr fs \<Rightarrow> Inr (f # fs)))"

definition sbsv_body_parser_set_schema :: "sbsv_body_parser \<Rightarrow> string option \<Rightarrow> sbsv_status \<times> sbsv_body_parser" where
  "sbsv_body_parser_set_schema b body =
     (case body of
        None \<Rightarrow> (SBSV_ERR_INVALID_ARG, b)
      | Some body \<Rightarrow>
          (case sbsv_tokenize_line_strict (Some body) of
             (SBSV_OK, toks) \<Rightarrow>
               (case body_fields (bp_types b) toks of
                  Inl (st, msg) \<Rightarrow> (st, sbsv_body_parser_set_error b msg)
                | Inr fs \<Rightarrow> (SBSV_OK, b\<lparr>bp_schema := fs, bp_has_schema := True\<rparr>))
           | (st, _) \<Rightarrow> (st, sbsv_body_parser_set_error b (Some ''Invalid schema body: failed to tokenize''))))"

end
