(* ===== verification/Sbsv_Parser.thy ===== *)
theory Sbsv_Parser
  imports Sbsv_Schema
begin

text \<open>
  \<^verbatim>\<open>solver/libsbsv/src/sbsv_parser.c\<close>, parsing: the scan for the schema name, the split of a line,
  the fields of a row, appending with the group ranges, and the loops over a text and a file.
  \<open>None\<close> as the result of parsing a line is the call of \<^verbatim>\<open>strcmp\<close> on a null pointer.
\<close>

section \<open>Scanning for the schema name\<close>

definition sbsv_token_view_has_value :: "string \<Rightarrow> bool" where
  "sbsv_token_view_has_value s \<longleftrightarrow> dropWhile is_space (dropWhile (\<lambda>c. \<not> is_space c) (trim s)) \<noteq> []"

definition sbsv_token_view_is_empty :: "string \<Rightarrow> bool" where
  "sbsv_token_view_is_empty s \<longleftrightarrow> (\<forall>c \<in> set s. is_space c)"

definition sbsv_append_schema_name_suffix_range :: "string option \<Rightarrow> string \<Rightarrow> string option" where
  "sbsv_append_schema_name_suffix_range name text =
     (let t = trim text in
      if t = [] then name
      else Some (case name of None \<Rightarrow> t | Some n \<Rightarrow> sbsv_parser_add_schema_name_suffix n t))"

definition sbsv_schema_root_may_match :: "sbsv_parser \<Rightarrow> string \<Rightarrow> bool" where
  "sbsv_schema_root_may_match p line =
     (if ignored_prefix p \<noteq> [] then True
      else case split_char (CHR ''['') line of
        None \<Rightarrow> False
      | Some (_, rest) \<Rightarrow>
          (case split_char (CHR '']'') rest of
             None \<Rightarrow> False
           | Some (text, _) \<Rightarrow>
               let root = trim text in
               if root = [] \<or> sbsv_token_view_has_value root then False
               else list_ex (\<lambda>sc. before_dollar (sc_name sc) = root) (schemas p)))"

definition sbsv_schema_name_may_match :: "sbsv_parser \<Rightarrow> string option \<Rightarrow> bool \<Rightarrow> bool" where
  "sbsv_schema_name_may_match p name ambiguous =
     (case name of
        None \<Rightarrow> False
      | Some n \<Rightarrow>
          if sbsv_find_schema (schemas p) n \<noteq> None then True
          else if \<not> ambiguous then False
          else list_ex (\<lambda>sc. take (length n + 1) (sc_name sc) = n @ [DOLLAR]) (schemas p))"

text \<open>
  The scan: the text of the open token is \<^verbatim>\<open>current_len\<close> characters from \<^verbatim>\<open>token_start\<close>; an escape
  adds both its characters at the second one. The result is the name and the flag
  \<^verbatim>\<open>ambiguous_sub_schema\<close>.
\<close>

record scan_state =
  sn_level :: int
  sn_escape :: bool
  sn_quote :: bool
  sn_text :: string
  sn_index :: nat
  sn_name :: "string option"

definition scan_close_token :: "nat \<Rightarrow> scan_state \<Rightarrow> scan_state option" where
  "scan_close_token ignored st =
     (let next = st\<lparr>sn_level := 0, sn_text := []\<rparr> in
      if sbsv_token_view_is_empty (sn_text st) then Some next
      else if sn_index st \<ge> ignored then
        (if sbsv_token_view_has_value (sn_text st) then None
         else Some (next\<lparr>sn_name := sbsv_append_schema_name_suffix_range (sn_name st) (sn_text st),
                         sn_index := sn_index st + 1\<rparr>))
      else Some (next\<lparr>sn_index := sn_index st + 1\<rparr>))"

fun scan_loop :: "nat \<Rightarrow> string \<Rightarrow> scan_state \<Rightarrow> string option \<times> bool" where
  "scan_loop ignored [] st =
     (sn_name st, (sn_level st > 0 \<or> sn_quote st) \<and>
        (sbsv_token_view_is_empty (sn_text st) \<or> \<not> sbsv_token_view_has_value (sn_text st)))"
| "scan_loop ignored (ch # cs) st =
     (if sn_escape st then scan_loop ignored cs
        (st\<lparr>sn_escape := False, sn_text := (if sn_level st > 0 then sn_text st @ [BSLASH, ch] else sn_text st)\<rparr>)
      else if ch = BSLASH \<and> sn_level st > 0 then scan_loop ignored cs (st\<lparr>sn_escape := True\<rparr>)
      else if ch = QUOTE \<and> sn_level st > 0 \<and> (sn_quote st \<or> sbsv_can_start_quote (sn_text st)) then
        scan_loop ignored cs (st\<lparr>sn_quote := \<not> sn_quote st, sn_text := sn_text st @ [ch]\<rparr>)
      else if ch = CHR ''['' \<and> \<not> sn_quote st then
        (if sn_level st + 1 = 1 then scan_loop ignored cs (st\<lparr>sn_level := 1, sn_text := []\<rparr>)
         else scan_loop ignored cs (st\<lparr>sn_level := sn_level st + 1,
                sn_text := (if sn_level st + 1 > 0 then sn_text st @ [ch] else sn_text st)\<rparr>))
      else if ch = CHR '']'' \<and> \<not> sn_quote st then
        (if sn_level st - 1 = 0 then
           (case scan_close_token ignored st of None \<Rightarrow> (sn_name st, False) | Some st' \<Rightarrow> scan_loop ignored cs st')
         else if sn_level st - 1 < 0 then (sn_name st, False)
         else scan_loop ignored cs (st\<lparr>sn_level := sn_level st - 1, sn_text := sn_text st @ [ch]\<rparr>))
      else scan_loop ignored cs (st\<lparr>sn_text := (if sn_level st > 0 then sn_text st @ [ch] else sn_text st)\<rparr>))"

definition sbsv_scan_schema_name_prefix :: "sbsv_parser \<Rightarrow> string \<Rightarrow> string option \<times> bool" where
  "sbsv_scan_schema_name_prefix p line =
     scan_loop (length (ignored_prefix p)) line
       \<lparr>sn_level = 0, sn_escape = False, sn_quote = False, sn_text = [], sn_index = 0, sn_name = None\<rparr>"

section \<open>Splitting a line\<close>

record sbsv_preprocessed_line =
  pl_schema_name :: "string option"
  pl_data_tokens :: "string list"
  pl_ignored :: "sbsv_field list"

fun match_ignored_prefix ::
  "strtod_fn \<Rightarrow> sbsv_custom_type list \<Rightarrow> bool \<Rightarrow> sbsv_ignore_prefix_token list \<Rightarrow> string list \<Rightarrow>
   failure + sbsv_field list"
where
  "match_ignored_prefix strtod types save (Literal l # ps) (t # ts) =
     (if t \<noteq> l then
        Inl (SBSV_ERR_INVALID_ARG, Some (''Invalid ignored prefix token ['' @ t @ '']: expected ['' @ l @ '']''))
      else match_ignored_prefix strtod types save ps ts)"
| "match_ignored_prefix strtod types save (Capture f # ps) (t # ts) =
     (if \<not> save then match_ignored_prefix strtod types save ps ts
      else case sbsv_parse_value strtod types (sf_type f) t of
        Inl e \<Rightarrow> Inl e
      | Inr v \<Rightarrow> (case match_ignored_prefix strtod types save ps ts of
                   Inl e \<Rightarrow> Inl e
                 | Inr fs \<Rightarrow> Inr (\<lparr>fd_tagged = sf_tagged f, fd_name = sf_name f, fd_value = v\<rparr> # fs)))"
| "match_ignored_prefix strtod types save _ _ = Inr []"

text \<open>The tokens of the schema name, then the data tokens.\<close>

fun split_schema_tokens :: "string list \<Rightarrow> string option \<Rightarrow> string option \<times> string list" where
  "split_schema_tokens [] name = (name, [])"
| "split_schema_tokens (t # ts) name =
     (if t \<noteq> [] \<and> \<not> sbsv_token_view_has_value t then
        split_schema_tokens ts (Some (case name of None \<Rightarrow> t | Some n \<Rightarrow> sbsv_parser_add_schema_name_suffix n t))
      else (name, t # ts))"

definition sbsv_preprocess_line ::
  "strtod_fn \<Rightarrow> sbsv_parser \<Rightarrow> sbsv_schema option \<Rightarrow> string \<Rightarrow> failure + sbsv_preprocessed_line"
where
  "sbsv_preprocess_line strtod p matched line =
     (case sbsv_tokenize_line_strict (Some line) of
        (SBSV_OK, toks) \<Rightarrow>
          (let k = length (ignored_prefix p) in
           if length toks < k then
             Inl (SBSV_ERR_INVALID_ARG, Some (''Invalid data: expected at least '' @ show_nat k @
                  '' ignored prefix fields, got '' @ show_nat (length toks)))
           else case match_ignored_prefix strtod (custom_types p) (save_ignored_prefix p) (ignored_prefix p) toks of
             Inl e \<Rightarrow> Inl e
           | Inr ign \<Rightarrow>
               (case matched of
                  Some sc \<Rightarrow>
                    (let n = 1 + count_list (sc_name sc) DOLLAR in
                     if length toks < k + n then
                       Inl (SBSV_ERR_INVALID_ARG, Some (''Invalid data: expected '' @ show_nat n @
                            '' schema tokens, got '' @ show_nat (length toks - k)))
                     else Inr \<lparr>pl_schema_name = None, pl_data_tokens = drop (k + n) toks, pl_ignored = ign\<rparr>)
                | None \<Rightarrow>
                    (let (name, data) = split_schema_tokens (drop k toks) None in
                     Inr \<lparr>pl_schema_name = name, pl_data_tokens = data, pl_ignored = ign\<rparr>)))
      | (st, _) \<Rightarrow> Inl (st, None))"

section \<open>The fields of a row\<close>

definition sbsv_split_token_view :: "string \<Rightarrow> string \<times> string" where
  "sbsv_split_token_view token =
     (takeWhile (\<lambda>c. \<not> is_space c) token, dropWhile is_space (dropWhile (\<lambda>c. \<not> is_space c) token))"

definition sbsv_token_key_matches :: "string \<Rightarrow> string \<Rightarrow> bool option" where
  "sbsv_token_key_matches key expected =
     (if (key = [] \<or> hd key \<noteq> QUOTE) \<and> BSLASH \<notin> set key then Some (expected = key)
      else map_option (\<lambda>d. expected = d) (unescape_text key))"

definition or_else :: "string option \<Rightarrow> string \<Rightarrow> string" where
  "or_else e d = (case e of Some m \<Rightarrow> m | None \<Rightarrow> d)"

text \<open>The tokens up to the one with the key of the field. \<open>le\<close> is the parser's last error.\<close>

fun take_field ::
  "strtod_fn \<Rightarrow> sbsv_custom_type list \<Rightarrow> string option \<Rightarrow> sbsv_schema_field \<Rightarrow> string list \<Rightarrow>
   failure + sbsv_value \<times> string list"
where
  "take_field strtod types le f [] = Inl (SBSV_ERR_INVALID_ARG, Some (''Invalid data: missing key '' @ quoted (sf_name f)))"
| "take_field strtod types le f (token # toks) =
     (let (key, value) = sbsv_split_token_view token in
      if key = [] then Inl (SBSV_ERR_INVALID_ARG, Some (''Invalid data '' @ token @ '': empty name''))
      else case sbsv_token_key_matches key (sf_name f) of
        None \<Rightarrow> Inl (SBSV_ERR_ALLOC, None)
      | Some False \<Rightarrow> take_field strtod types le f toks
      | Some True \<Rightarrow>
          if value = [] \<and> sf_nullable f then Inr (V_NULL, toks)
          else if value = [] then
            Inl (SBSV_ERR_INVALID_ARG, Some (''Invalid data token ['' @ token @ '']: empty value for non-nullable key '' @
                 quoted (sf_name f)))
          else case sbsv_parse_value strtod types (sf_type f) value of
            Inr v \<Rightarrow> Inr (v, toks)
          | Inl (st, msg) \<Rightarrow>
              Inl (st, Some (''Invalid value for key '' @ quoted (sf_name f) @ '' as type '' @ quoted (sf_type f) @
                   '': '' @ quoted value @ '' ('' @ or_else msg (or_else le ''conversion failed'') @ '')'')))"

fun take_fields ::
  "strtod_fn \<Rightarrow> sbsv_custom_type list \<Rightarrow> string option \<Rightarrow> sbsv_schema_field list \<Rightarrow> string list \<Rightarrow>
   failure + sbsv_field list"
where
  "take_fields strtod types le [] toks = Inr []"
| "take_fields strtod types le (f # fs) toks =
     (case take_field strtod types le f toks of
        Inl e \<Rightarrow> Inl e
      | Inr (v, rest) \<Rightarrow>
          (case take_fields strtod types le fs rest of
             Inl e \<Rightarrow> Inl e
           | Inr vs \<Rightarrow> Inr (\<lparr>fd_tagged = sf_tagged f, fd_name = sf_name f, fd_value = v\<rparr> # vs)))"

definition sbsv_parse_row_for_schema ::
  "strtod_fn \<Rightarrow> sbsv_custom_type list \<Rightarrow> string option \<Rightarrow> string \<Rightarrow> sbsv_schema_field list \<Rightarrow> string list \<Rightarrow> failure + sbsv_row"
where
  "sbsv_parse_row_for_schema strtod types le name flds toks =
     (if length toks < length flds then
        Inl (SBSV_ERR_INVALID_ARG, Some (''Invalid data: expected at least '' @ show_nat (length flds) @
             '' fields, got '' @ show_nat (length toks)))
      else case take_fields strtod types le flds toks of
        Inl e \<Rightarrow> Inl e
      | Inr fs \<Rightarrow> Inr \<lparr>row_schema = name, row_id = 0, row_fields = fs\<rparr>)"

definition sbsv_row_prepend_fields :: "sbsv_row \<Rightarrow> sbsv_field list \<Rightarrow> sbsv_row" where
  "sbsv_row_prepend_fields row ign = row\<lparr>row_fields := ign @ row_fields row\<rparr>"

section \<open>Appending a row\<close>

definition sbsv_group_add_range :: "sbsv_group \<Rightarrow> sbsv_index_range \<Rightarrow> sbsv_group" where
  "sbsv_group_add_range g r = g\<lparr>gr_ranges := gr_ranges g @ [r]\<rparr>"

text \<open>The first loop over the groups closes a range, the second opens one.\<close>

definition group_close :: "nat \<Rightarrow> nat \<Rightarrow> sbsv_group \<Rightarrow> sbsv_group" where
  "group_close idx rid g =
     (if gr_end_schema g = idx \<and> gr_start g \<ge> 0 then
        (let range =
           (if gr_start_schema g = idx
            then if rid = 0 then \<lparr>rg_start = 0, rg_end = 0\<rparr> else \<lparr>rg_start = nat (gr_start g), rg_end = rid - 1\<rparr>
            else \<lparr>rg_start = nat (gr_start g), rg_end = rid\<rparr>) in
         (sbsv_group_add_range g range)\<lparr>gr_start := - 1\<rparr>)
      else g)"

definition group_open :: "nat \<Rightarrow> nat \<Rightarrow> sbsv_group \<Rightarrow> sbsv_group" where
  "group_open idx rid g = (if gr_start_schema g = idx \<and> gr_start g < 0 then g\<lparr>gr_start := int rid\<rparr> else g)"

definition sbsv_schema_push_row :: "sbsv_schema \<Rightarrow> sbsv_row \<Rightarrow> sbsv_schema" where
  "sbsv_schema_push_row sc row = sc\<lparr>sc_rows := sc_rows sc @ [row]\<rparr>"

definition sbsv_parser_append_row :: "sbsv_parser \<Rightarrow> nat \<Rightarrow> sbsv_row \<Rightarrow> sbsv_status \<times> sbsv_parser" where
  "sbsv_parser_append_row p idx row =
     (if idx \<ge> length (schemas p) then (SBSV_ERR_INVALID_ARG, p)
      else
        (let rid = length (rows p); row = row\<lparr>row_id := rid\<rparr> in
         (SBSV_OK, p\<lparr>schemas := (schemas p)[idx := sbsv_schema_push_row (schemas p ! idx) row], rows := rows p @ [row],
                     groups := map (group_open idx rid) (map (group_close idx rid) (groups p))\<rparr>)))"

section \<open>Parsing a line\<close>

type_synonym line_result = "(sbsv_status \<times> sbsv_parser \<times> sbsv_row option) option"

text \<open>\<^verbatim>\<open>sbsv_find_schema\<close> on a name that may be null: \<^verbatim>\<open>strcmp\<close> is called on it when there is a schema.\<close>

definition find_schema_ptr :: "sbsv_schema list \<Rightarrow> string option \<Rightarrow> nat option option" where
  "find_schema_ptr scs name =
     (case name of Some n \<Rightarrow> Some (sbsv_find_schema scs n) | None \<Rightarrow> if scs = [] then Some None else None)"

definition line_error :: "nat \<Rightarrow> string option \<Rightarrow> string \<Rightarrow> string \<Rightarrow> string" where
  "line_error n schema input detail =
     ''Parse error (line='' @ show_nat n @ (case schema of Some s \<Rightarrow> '', schema='' @ s | None \<Rightarrow> []) @
     '', input='' @ quoted input @ ''): '' @ detail"

definition fail_line :: "sbsv_status \<Rightarrow> sbsv_parser \<Rightarrow> string \<Rightarrow> line_result" where
  "fail_line st p msg = Some (st, sbsv_parser_set_error p (Some msg), None)"

definition MAX_ID :: nat where "MAX_ID = 2 ^ 64 - 1"

text \<open>With the schema known: the fields, the saved prefix, then appended or handed out.\<close>

definition parse_data ::
  "strtod_fn \<Rightarrow> sbsv_parser \<Rightarrow> string \<Rightarrow> nat \<Rightarrow> bool \<Rightarrow> nat \<Rightarrow> sbsv_preprocessed_line \<Rightarrow> line_result"
where
  "parse_data strtod p content n app idx pre =
     (let sc = schemas p ! idx in
      case sbsv_parse_row_for_schema strtod (custom_types p) (last_error p) (sc_name sc) (sc_fields sc) (pl_data_tokens pre) of
        Inl (st, msg) \<Rightarrow>
          (let p = sbsv_parser_set_error p msg in
           fail_line st p (line_error n (Some (sc_name sc)) content (or_else (last_error p) ''parse error'')))
      | Inr row \<Rightarrow>
          (let row = sbsv_row_prepend_fields row (pl_ignored pre) in
           if app then (let (st, p) = sbsv_parser_append_row p idx row in Some (st, p, None))
           else Some (SBSV_OK, p, Some (row\<lparr>row_id := MAX_ID\<rparr>))))"

text \<open>The line was split; find the schema if the scan did not.\<close>

definition parse_split ::
  "strtod_fn \<Rightarrow> sbsv_parser \<Rightarrow> string \<Rightarrow> nat \<Rightarrow> bool \<Rightarrow> nat option \<Rightarrow> sbsv_preprocessed_line \<Rightarrow> line_result"
where
  "parse_split strtod p content n app schema pre =
     (case schema of
        Some idx \<Rightarrow> parse_data strtod p content n app idx pre
      | None \<Rightarrow>
          (case pl_schema_name pre of
             None \<Rightarrow>
               if ignore_unknown p then Some (SBSV_OK, p, None)
               else fail_line SBSV_ERR_INVALID_ARG p
                 (line_error n (Some ''<missing>'') content (''Unknown schema '' @ quoted ''<missing>''))
           | Some name \<Rightarrow>
               (case sbsv_find_schema (schemas p) name of
                  Some idx \<Rightarrow> parse_data strtod p content n app idx pre
                | None \<Rightarrow>
                    if ignore_unknown p then Some (SBSV_OK, p, None)
                    else fail_line SBSV_ERR_INVALID_ARG p
                      (line_error n (Some name) content (''Unknown schema '' @ quoted name)))))"

definition parse_content ::
  "strtod_fn \<Rightarrow> sbsv_parser \<Rightarrow> string \<Rightarrow> nat \<Rightarrow> bool \<Rightarrow> nat option \<Rightarrow> line_result"
where
  "parse_content strtod p content n app schema =
     (case sbsv_preprocess_line strtod p (map_option ((!) (schemas p)) schema) content of
        Inl (st, msg) \<Rightarrow>
          (let p = sbsv_parser_set_error p msg; (name, ambiguous) = sbsv_scan_schema_name_prefix p content in
           if ignore_unknown p \<and> \<not> sbsv_schema_name_may_match p name ambiguous then Some (SBSV_OK, p, None)
           else fail_line st p (line_error n None content (or_else (last_error p) ''parse error'')))
      | Inr pre \<Rightarrow> parse_split strtod p content n app schema pre)"

definition sbsv_parser_parse_line_internal ::
  "strtod_fn \<Rightarrow> sbsv_parser \<Rightarrow> string option \<Rightarrow> nat \<Rightarrow> bool \<Rightarrow> line_result"
where
  "sbsv_parser_parse_line_internal strtod p line n app =
     (case line of
        None \<Rightarrow> Some (SBSV_ERR_INVALID_ARG, p, None)
      | Some line \<Rightarrow>
          (let content = dropWhile is_space line in
           if content = [] \<or> hd content = CHR ''#'' then Some (SBSV_OK, p, None)
           else if \<not> ignore_unknown p then parse_content strtod p content n app None
           else if \<not> sbsv_schema_root_may_match p content then Some (SBSV_OK, p, None)
           else
             (let (name, ambiguous) = sbsv_scan_schema_name_prefix p content in
              case find_schema_ptr (schemas p) name of
                None \<Rightarrow> None
              | Some schema \<Rightarrow>
                  if schema = None \<and> \<not> sbsv_schema_name_may_match p name ambiguous then Some (SBSV_OK, p, None)
                  else parse_content strtod p content n app schema)))"

definition sbsv_parser_parse_line :: "strtod_fn \<Rightarrow> sbsv_parser \<Rightarrow> string option \<Rightarrow> nat \<Rightarrow> (sbsv_status \<times> sbsv_parser) option" where
  "sbsv_parser_parse_line strtod p line n =
     map_option (\<lambda>(st, p, _). (st, p)) (sbsv_parser_parse_line_internal strtod p line n True)"

definition sbsv_parser_parse_line_detached :: "strtod_fn \<Rightarrow> sbsv_parser \<Rightarrow> string option \<Rightarrow> nat \<Rightarrow> line_result" where
  "sbsv_parser_parse_line_detached strtod p line n = sbsv_parser_parse_line_internal strtod p line n False"

section \<open>Texts and files\<close>

definition group_finish :: "nat \<Rightarrow> sbsv_group \<Rightarrow> sbsv_group" where
  "group_finish n g =
     (if gr_start g \<ge> 0 \<and> n > 0
      then (sbsv_group_add_range g \<lparr>rg_start = nat (gr_start g), rg_end = n - 1\<rparr>)\<lparr>gr_start := - 1\<rparr> else g)"

definition sbsv_parser_finish :: "sbsv_parser \<Rightarrow> sbsv_status \<times> sbsv_parser" where
  "sbsv_parser_finish p = (SBSV_OK, p\<lparr>groups := map (group_finish (length (rows p))) (groups p)\<rparr>)"

text \<open>
  The loop of \<^verbatim>\<open>sbsv_parser_loads\<close> over the function that parses a line; \<open>buf\<close> is the text from
  \<^verbatim>\<open>line_start\<close> to \<^verbatim>\<open>cursor\<close>.
\<close>

type_synonym 'p parse_fn = "'p \<Rightarrow> string \<Rightarrow> nat \<Rightarrow> (sbsv_status \<times> 'p) option"

fun loads_loop ::
  "'p parse_fn \<Rightarrow> ('p \<Rightarrow> sbsv_status \<times> 'p) \<Rightarrow> 'p \<Rightarrow> string \<Rightarrow> nat \<Rightarrow> string \<Rightarrow> (sbsv_status \<times> 'p) option"
where
  "loads_loop parse finish p buf n [] =
     (case parse p buf n of
        None \<Rightarrow> None
      | Some (st, p) \<Rightarrow> if st \<noteq> SBSV_OK then Some (st, p) else Some (finish p))"
| "loads_loop parse finish p buf n (c # cs) =
     (if c = NEWLINE then
        (case parse p buf n of
           None \<Rightarrow> None
         | Some (st, p) \<Rightarrow> if st \<noteq> SBSV_OK then Some (st, p) else loads_loop parse finish p [] (n + 1) cs)
      else loads_loop parse finish p (buf @ [c]) n cs)"

definition parse_string :: "strtod_fn \<Rightarrow> sbsv_parser parse_fn" where
  "parse_string strtod p line n = sbsv_parser_parse_line strtod p (Some line) n"

definition sbsv_parser_loads :: "strtod_fn \<Rightarrow> sbsv_parser \<Rightarrow> string option \<Rightarrow> (sbsv_status \<times> sbsv_parser) option" where
  "sbsv_parser_loads strtod p content =
     (case content of
        None \<Rightarrow> Some (SBSV_ERR_INVALID_ARG, p)
      | Some s \<Rightarrow> loads_loop (parse_string strtod) sbsv_parser_finish p [] 1 s)"

text \<open>
  The loop of \<^verbatim>\<open>sbsv_parser_load_file\<close> over the bytes of the file; \<^verbatim>\<open>io_error\<close> is \<^verbatim>\<open>ferror\<close> at the end.
  The line buffer is handed on as a C string, which a null byte in the file ends.
\<close>

definition c_string :: "string \<Rightarrow> string" where
  "c_string s = takeWhile (\<lambda>c. c \<noteq> NUL) s"

fun file_loop ::
  "'p parse_fn \<Rightarrow> ('p \<Rightarrow> sbsv_status \<times> 'p) \<Rightarrow> bool \<Rightarrow> 'p \<Rightarrow> string \<Rightarrow> nat \<Rightarrow> string \<Rightarrow> (sbsv_status \<times> 'p) option"
where
  "file_loop parse finish io_error p buf n [] =
     (if io_error then Some (SBSV_ERR_INVALID_ARG, p)
      else if buf \<noteq> [] \<or> n = 1 then
        (case parse p (c_string buf) n of
           None \<Rightarrow> None
         | Some (st, p) \<Rightarrow> if st \<noteq> SBSV_OK then Some (st, p) else Some (finish p))
      else Some (finish p))"
| "file_loop parse finish io_error p buf n (c # cs) =
     (if c = NEWLINE then
        (case parse p (c_string buf) n of
           None \<Rightarrow> None
         | Some (st, p) \<Rightarrow> if st \<noteq> SBSV_OK then Some (st, p) else file_loop parse finish io_error p [] (n + 1) cs)
      else file_loop parse finish io_error p (buf @ [c]) n cs)"

definition sbsv_parser_load_file ::
  "strtod_fn \<Rightarrow> sbsv_parser \<Rightarrow> string \<Rightarrow> bool \<Rightarrow> (sbsv_status \<times> sbsv_parser) option"
where
  "sbsv_parser_load_file strtod p bytes io_error =
     file_loop (parse_string strtod) sbsv_parser_finish io_error p [] 1 bytes"

section \<open>Body parser\<close>

definition sbsv_body_parser_parse ::
  "strtod_fn \<Rightarrow> sbsv_body_parser \<Rightarrow> string option \<Rightarrow> sbsv_status \<times> sbsv_body_parser \<times> sbsv_row option"
where
  "sbsv_body_parser_parse strtod b body =
     (case body of
        None \<Rightarrow> (SBSV_ERR_INVALID_ARG, b, None)
      | Some body \<Rightarrow>
          if \<not> bp_has_schema b then
            (SBSV_ERR_INVALID_ARG, sbsv_body_parser_set_error b (Some ''schema body is not set''), None)
          else case sbsv_tokenize_line_strict (Some body) of
            (SBSV_OK, toks) \<Rightarrow>
              (case sbsv_parse_row_for_schema strtod (bp_types b) None [] (bp_schema b) toks of
                 Inl (st, msg) \<Rightarrow> (st, sbsv_body_parser_set_error b (Some (or_else msg ''parse error'')), None)
               | Inr row \<Rightarrow> (SBSV_OK, b, Some (row\<lparr>row_id := MAX_ID\<rparr>)))
          | (st, _) \<Rightarrow> (st, sbsv_body_parser_set_error b (Some ''Invalid body: failed to tokenize''), None))"

end
