(* ===== verification/Sbsv_Query.thy ===== *)
theory Sbsv_Query
  imports Sbsv_Parser "HOL-Library.Multiset"
begin

text \<open>
  \<^verbatim>\<open>solver/libsbsv/src/sbsv_parser.c\<close>, the queries on a parser and on a row. A result is \<open>Inl\<close> of
  the status, or \<open>Inr\<close> of what the out parameters hold.
\<close>

section \<open>Rows\<close>

definition sbsv_parser_row_count :: "sbsv_parser \<Rightarrow> nat" where
  "sbsv_parser_row_count p = length (rows p)"

definition sbsv_parser_row_at :: "sbsv_parser \<Rightarrow> nat \<Rightarrow> sbsv_row option" where
  "sbsv_parser_row_at p i = (if i \<ge> length (rows p) then None else Some (rows p ! i))"

text \<open>The schema an expression names.\<close>

definition schema_of_expr :: "sbsv_parser \<Rightarrow> string \<Rightarrow> sbsv_status + sbsv_schema" where
  "schema_of_expr p expr =
     (case sbsv_schema_name_from_expr expr of
        Inl st \<Rightarrow> Inl st
      | Inr name \<Rightarrow> (case sbsv_find_schema (schemas p) name of
                      None \<Rightarrow> Inl SBSV_ERR_INVALID_ARG | Some i \<Rightarrow> Inr (schemas p ! i)))"

fun schemas_of_exprs :: "sbsv_parser \<Rightarrow> string list \<Rightarrow> sbsv_status + sbsv_schema list" where
  "schemas_of_exprs p [] = Inr []"
| "schemas_of_exprs p (e # es) =
     (case schema_of_expr p e of Inl st \<Rightarrow> Inl st
      | Inr sc \<Rightarrow> (case schemas_of_exprs p es of Inl st \<Rightarrow> Inl st | Inr scs \<Rightarrow> Inr (sc # scs)))"

text \<open>
  The inner loop over the selected schemas: \<open>best\<close> is \<^verbatim>\<open>best_idx\<close> and \<^verbatim>\<open>best_id\<close>, \<open>None\<close> while
  \<^verbatim>\<open>best_idx\<close> is \<open>-1\<close>.
\<close>

fun best_row :: "sbsv_row list list \<Rightarrow> nat list \<Rightarrow> nat \<Rightarrow> (nat \<times> nat) option \<Rightarrow> (nat \<times> nat) option" where
  "best_row (sel # sels) (off # offs) i best =
     (if off \<ge> length sel then best_row sels offs (i + 1) best
      else if (case best of None \<Rightarrow> True | Some (_, b) \<Rightarrow> row_id (sel ! off) < b)
        then best_row sels offs (i + 1) (Some (i, row_id (sel ! off)))
      else best_row sels offs (i + 1) best)"
| "best_row _ _ i best = best"

lemma best_row_index:
  assumes "best_row sels offs i best = Some (j, b)"
  shows "best = Some (j, b) \<or> (i \<le> j \<and> j - i < length sels \<and> j - i < length offs \<and>
    offs ! (j - i) < length (sels ! (j - i)) \<and> b = row_id (sels ! (j - i) ! (offs ! (j - i))))"
  using assms
proof (induction sels offs i best rule: best_row.induct)
  case (1 sel sels off offs i best)
  from "1.prems" have "best = Some (j, b) \<or> (j = i \<and> off < length sel \<and> b = row_id (sel ! off)) \<or>
      (i + 1 \<le> j \<and> j - (i + 1) < length sels \<and> j - (i + 1) < length offs \<and>
       offs ! (j - (i + 1)) < length (sels ! (j - (i + 1))) \<and>
       b = row_id (sels ! (j - (i + 1)) ! (offs ! (j - (i + 1)))))"
    using "1.IH" by (auto split: if_splits)
  then show ?case by (auto simp: Suc_diff_Suc nth_Cons' not_less)
qed auto

text \<open>The rows left to merge, by which the outer loop ends.\<close>

definition rows_left :: "sbsv_row list list \<Rightarrow> nat list \<Rightarrow> nat" where
  "rows_left sels offs = sum_list (map2 (\<lambda>sel off. length sel - off) sels offs)"

lemma rows_left_advance:
  "j < length sels \<Longrightarrow> j < length offs \<Longrightarrow> offs ! j < length (sels ! j) \<Longrightarrow>
   rows_left sels (offs[j := Suc (offs ! j)]) < rows_left sels offs"
proof (induction sels offs arbitrary: j rule: list_induct2')
  case (4 sel sels off offs)
  then show ?case by (cases j) (auto simp: rows_left_def)
qed auto

function merge_rows :: "sbsv_row list list \<Rightarrow> nat list \<Rightarrow> sbsv_row list" where
  "merge_rows sels offs =
     (case best_row sels offs 0 None of
        None \<Rightarrow> []
      | Some (j, _) \<Rightarrow> (sels ! j) ! (offs ! j) # merge_rows sels (offs[j := offs ! j + 1]))"
  by pat_completeness auto
termination
  by (relation "measure (\<lambda>(sels, offs). rows_left sels offs)")
    (auto dest!: best_row_index intro: rows_left_advance)

declare merge_rows.simps [simp del]

definition sbsv_parser_get_rows_in_order :: "sbsv_parser \<Rightarrow> string list option \<Rightarrow> sbsv_status + sbsv_row list" where
  "sbsv_parser_get_rows_in_order p exprs =
     (case exprs of
        None \<Rightarrow> Inr (rows p)
      | Some es \<Rightarrow>
          if es = [] then Inr (rows p)
          else case schemas_of_exprs p es of
            Inl st \<Rightarrow> Inl st
          | Inr scs \<Rightarrow> Inr (merge_rows (map sc_rows scs) (replicate (length scs) 0)))"

definition sbsv_parser_get_rows_by_index ::
  "sbsv_parser \<Rightarrow> string option \<Rightarrow> sbsv_index_range \<Rightarrow> sbsv_status + sbsv_row list"
where
  "sbsv_parser_get_rows_by_index p expr r =
     (case expr of
        None \<Rightarrow> Inl SBSV_ERR_INVALID_ARG
      | Some e \<Rightarrow> (case schema_of_expr p e of Inl st \<Rightarrow> Inl st
                   | Inr sc \<Rightarrow> Inr (filter (\<lambda>row. row_id row \<ge> rg_start r \<and> row_id row \<le> rg_end r) (sc_rows sc))))"

definition sbsv_parser_get_rows :: "sbsv_parser \<Rightarrow> string option \<Rightarrow> sbsv_status + sbsv_row list" where
  "sbsv_parser_get_rows p expr =
     (case expr of
        None \<Rightarrow> Inl SBSV_ERR_INVALID_ARG
      | Some e \<Rightarrow> (case schema_of_expr p e of Inl st \<Rightarrow> Inl st | Inr sc \<Rightarrow> Inr (sc_rows sc)))"

definition sbsv_parser_get_group_indices :: "sbsv_parser \<Rightarrow> string option \<Rightarrow> sbsv_status + sbsv_index_range list" where
  "sbsv_parser_get_group_indices p name =
     (case name of
        None \<Rightarrow> Inl SBSV_ERR_INVALID_ARG
      | Some n \<Rightarrow> (case find (\<lambda>g. gr_name g = n) (groups p) of
                    None \<Rightarrow> Inl SBSV_ERR_INVALID_ARG | Some g \<Rightarrow> Inr (gr_ranges g)))"

section \<open>Fields\<close>

definition sbsv_row_get :: "sbsv_row \<Rightarrow> string \<Rightarrow> sbsv_value option" where
  "sbsv_row_get row key =
     map_option fd_value (find (\<lambda>f. fd_tagged f = key \<or> fd_name f = key) (row_fields row))"

definition sbsv_row_get_string :: "sbsv_row \<Rightarrow> string \<Rightarrow> string option" where
  "sbsv_row_get_string row key = (case sbsv_row_get row key of Some (V_STRING s) \<Rightarrow> Some s | _ \<Rightarrow> None)"

text \<open>The getters with an out parameter \<^verbatim>\<open>valid\<close> return it beside the value.\<close>

definition sbsv_row_get_uint :: "sbsv_row \<Rightarrow> string \<Rightarrow> nat \<times> bool" where
  "sbsv_row_get_uint row key = (case sbsv_row_get row key of Some (V_UINT n) \<Rightarrow> (n, True) | _ \<Rightarrow> (0, False))"

definition sbsv_row_get_int :: "sbsv_row \<Rightarrow> string \<Rightarrow> int \<times> bool" where
  "sbsv_row_get_int row key = (case sbsv_row_get row key of Some (V_INT n) \<Rightarrow> (n, True) | _ \<Rightarrow> (0, False))"

definition sbsv_row_get_big_int :: "sbsv_row \<Rightarrow> string \<Rightarrow> string option" where
  "sbsv_row_get_big_int row key =
     (case sbsv_row_get row key of Some (V_BIG_INT s) \<Rightarrow> Some s | Some (V_BIG_HEX s) \<Rightarrow> Some s | _ \<Rightarrow> None)"

definition sbsv_row_get_float :: "sbsv_row \<Rightarrow> string \<Rightarrow> u64 \<times> bool" where
  "sbsv_row_get_float row key = (case sbsv_row_get row key of Some (V_FLOAT d) \<Rightarrow> (d, True) | _ \<Rightarrow> (0, False))"

definition sbsv_row_get_bool :: "sbsv_row \<Rightarrow> string \<Rightarrow> bool \<times> bool" where
  "sbsv_row_get_bool row key = (case sbsv_row_get row key of Some (V_BOOL b) \<Rightarrow> (b, True) | _ \<Rightarrow> (False, False))"

definition sbsv_row_get_list :: "sbsv_row \<Rightarrow> string \<Rightarrow> sbsv_value list option" where
  "sbsv_row_get_list row key = (case sbsv_row_get row key of Some (V_LIST vs) \<Rightarrow> Some vs | _ \<Rightarrow> None)"

definition sbsv_row_get_custom_ptr :: "sbsv_row \<Rightarrow> string \<Rightarrow> nat option" where
  "sbsv_row_get_custom_ptr row key = (case sbsv_row_get row key of Some (V_CUSTOM q f) \<Rightarrow> Some q | _ \<Rightarrow> None)"

section \<open>The merge of sorted rows\<close>

lemma best_row_keeps_min:
  "best_row sels offs i (Some (j, b)) = res \<Longrightarrow> \<exists>j' b'. res = Some (j', b') \<and> b' \<le> b"
proof (induction sels offs i "Some (j, b)" arbitrary: j b rule: best_row.induct)
  case (1 sel sels off offs i)
  show ?case
  proof (cases "off \<ge> length sel \<or> \<not> row_id (sel ! off) < b")
    case True
    then have "best_row sels offs (i + 1) (Some (j, b)) = res" using "1.prems" by (auto split: if_splits)
    then show ?thesis using "1.hyps"(1,3) True by (cases "off \<ge> length sel") auto
  next
    case False
    then have "best_row sels offs (i + 1) (Some (i, row_id (sel ! off))) = res" using "1.prems" by simp
    then show ?thesis using "1.hyps"(2) False by fastforce
  qed
qed auto

lemma best_row_min:
  assumes "k < length sels" "length offs = length sels" "offs ! k < length (sels ! k)"
  shows "\<exists>j b. best_row sels offs i best = Some (j, b) \<and> b \<le> row_id (sels ! k ! (offs ! k))"
  using assms
proof (induction sels offs i best arbitrary: k rule: best_row.induct)
  case (1 sel sels off offs i best)
  show ?case
  proof (cases k)
    case 0
    then have off: "off < length sel" using "1.prems" by simp
    show ?thesis
    proof (cases best)
      case None
      then show ?thesis using 0 off best_row_keeps_min [of sels offs "i + 1" i "row_id (sel ! off)"] by auto
    next
      case (Some jb)
      obtain j b where jb: "jb = (j, b)" by (cases jb)
      show ?thesis
        using 0 off Some jb best_row_keeps_min [of sels offs "i + 1" i "row_id (sel ! off)"]
          best_row_keeps_min [of sels offs "i + 1" j b] by (cases "row_id (sel ! off) < b") auto
    qed
  next
    case (Suc m)
    then show ?thesis using "1.IH" [of m] "1.prems" by (auto split: option.split)
  qed
qed auto

text \<open>The rows from the offsets on.\<close>

definition remaining :: "sbsv_row list list \<Rightarrow> nat list \<Rightarrow> sbsv_row multiset" where
  "remaining sels offs = sum_list (map2 (\<lambda>sel off. mset (drop off sel)) sels offs)"

lemma remaining_advance:
  "j < length sels \<Longrightarrow> length offs = length sels \<Longrightarrow> offs ! j < length (sels ! j) \<Longrightarrow>
   remaining sels offs = add_mset (sels ! j ! (offs ! j)) (remaining sels (offs[j := Suc (offs ! j)]))"
proof (induction sels offs arbitrary: j rule: list_induct2')
  case (4 sel sels off offs)
  show ?case
  proof (cases j)
    case 0
    then have "mset (drop off sel) = add_mset (sel ! off) (mset (drop (Suc off) sel))"
      using "4.prems" by (simp add: Cons_nth_drop_Suc [symmetric])
    with 0 show ?thesis by (simp add: remaining_def)
  next
    case (Suc m)
    with "4.IH" [of m] "4.prems" show ?thesis by (simp add: remaining_def)
  qed
qed auto

lemma in_remaining:
  "length offs = length sels \<Longrightarrow> r \<in># remaining sels offs \<longleftrightarrow> (\<exists>k < length sels. r \<in> set (drop (offs ! k) (sels ! k)))"
proof (induction sels offs rule: list_induct2')
  case (4 sel sels off offs)
  then show ?case by (auto simp: remaining_def less_Suc_eq_0_disj nth_Cons')
qed (auto simp: remaining_def)

lemma best_row_None_remaining:
  assumes "best_row sels offs 0 None = None" "length offs = length sels"
  shows "remaining sels offs = {#}"
proof (rule ccontr)
  assume "remaining sels offs \<noteq> {#}"
  then obtain r k where "k < length sels" "r \<in> set (drop (offs ! k) (sels ! k))"
    using in_remaining [OF assms(2)] by (meson multiset_nonemptyE)
  then have "offs ! k < length (sels ! k)" by (cases "offs ! k < length (sels ! k)") auto
  with best_row_min [OF \<open>k < length sels\<close> assms(2), of 0 None] assms(1) show False by auto
qed

lemma merge_rows_correct:
  assumes "length offs = length sels" "\<forall>sel \<in> set sels. sorted (map row_id sel)"
  shows "mset (merge_rows sels offs) = remaining sels offs \<and> sorted (map row_id (merge_rows sels offs))"
  using assms
proof (induction sels offs rule: merge_rows.induct)
  case (1 sels offs)
  show ?case
  proof (cases "best_row sels offs 0 None")
    case None
    then show ?thesis using best_row_None_remaining "1.prems" by (simp add: merge_rows.simps [of sels offs])
  next
    case (Some jb)
    obtain j b where jb: "jb = (j, b)" by (cases jb)
    let ?offs = "offs[j := Suc (offs ! j)]" and ?r = "sels ! j ! (offs ! j)"
    have j: "j < length sels" "offs ! j < length (sels ! j)" "b = row_id ?r"
      using best_row_index [of sels offs 0 None j b] Some jb by auto
    have rem: "remaining sels offs = add_mset ?r (remaining sels ?offs)"
      by (rule remaining_advance) (use j "1.prems" in auto)
    have step: "merge_rows sels offs = ?r # merge_rows sels ?offs"
      using Some jb by (simp add: merge_rows.simps [of sels offs])
    have ih: "mset (merge_rows sels ?offs) = remaining sels ?offs" "sorted (map row_id (merge_rows sels ?offs))"
      using "1.IH" [OF Some jb [symmetric]] "1.prems" by auto
    have "row_id ?r \<le> row_id r" if "r \<in> set (merge_rows sels ?offs)" for r
    proof -
      have "r \<in># remaining sels offs" using that ih(1) rem by (metis insert_iff set_mset_add_mset_insert set_mset_mset)
      then obtain k where k: "k < length sels" "r \<in> set (drop (offs ! k) (sels ! k))"
        using in_remaining [OF "1.prems"(1)] by blast
      then have lt: "offs ! k < length (sels ! k)" by (cases "offs ! k < length (sels ! k)") auto
      have "b \<le> row_id (sels ! k ! (offs ! k))" using best_row_min [OF k(1) "1.prems"(1) lt, of 0 None] Some jb by auto
      moreover have "sorted (map row_id (drop (offs ! k) (sels ! k)))"
        using "1.prems"(2) k(1) by (simp add: sorted_wrt_drop flip: drop_map)
      then have "row_id (sels ! k ! (offs ! k)) \<le> row_id r"
        using k(2) lt by (auto simp: Cons_nth_drop_Suc [symmetric])
      ultimately show ?thesis using j(3) by simp
    qed
    then show ?thesis using ih rem step by auto
  qed
qed

end
