(* ===== verification/Sbsv_Invariant.thy ===== *)
theory Sbsv_Invariant
  imports Sbsv_Query
begin

text \<open>
  The invariant of a \<^verbatim>\<open>libsbsv\<close> parser: row ids are positions, each schema holds exactly its rows,
  no schema name is a prefix of another, values have the declared types, and the ranges of a
  group are disjoint and in order. Every call of the interface keeps it.
\<close>

section \<open>Schema names\<close>

lemma parts_conflict_refl: "parts_conflict ps ps"
  by (induction ps) auto

lemma parts_conflict_prefix:
  "ps \<noteq> [] \<Longrightarrow> qs \<noteq> [] \<Longrightarrow> parts_conflict ps qs \<longleftrightarrow> prefix ps qs \<or> prefix qs ps"
proof (induction ps qs rule: parts_conflict.induct)
  case (1 l ls r rs)
  then show ?case by (cases "ls = []"; cases "rs = []") auto
qed auto

lemma dollar_parts_nonempty: "dollar_parts s \<noteq> []"
  by (induction s) (auto split: list.splits)

text \<open>Two names conflict exactly when the parts of one begin those of the other.\<close>

lemma names_conflict_iff:
  "sbsv_schema_names_conflict a b \<longleftrightarrow> prefix (dollar_parts a) (dollar_parts b) \<or> prefix (dollar_parts b) (dollar_parts a)"
  by (simp add: sbsv_schema_names_conflict_def parts_conflict_prefix dollar_parts_nonempty)

lemma find_schema_Some:
  "sbsv_find_schema scs n = Some i \<Longrightarrow> i < length scs \<and> sc_name (scs ! i) = n"
  by (induction scs arbitrary: i) (auto split: if_splits)

section \<open>The invariant\<close>

definition value_ok :: "sbsv_custom_type list \<Rightarrow> sbsv_schema_field \<Rightarrow> sbsv_field \<Rightarrow> bool" where
  "value_ok types f d \<longleftrightarrow> fd_tagged d = sf_tagged f \<and> fd_name d = sf_name f \<and>
     (value_of_type types (sf_type f) (fd_value d) \<or> (sf_nullable f \<and> fd_value d = V_NULL))"

definition row_typed :: "sbsv_custom_type list \<Rightarrow> sbsv_schema \<Rightarrow> sbsv_row \<Rightarrow> bool" where
  "row_typed types sc r \<longleftrightarrow> (\<exists>ign ds. row_fields r = ign @ ds \<and> list_all2 (value_ok types) (sc_fields sc) ds)"

definition rows_ok :: "sbsv_parser \<Rightarrow> bool" where
  "rows_ok p \<longleftrightarrow> (\<forall>i < length (rows p). row_id (rows p ! i) = i) \<and>
     (\<forall>r \<in> set (rows p). \<exists>sc \<in> set (schemas p). row_schema r = sc_name sc \<and> row_typed (custom_types p) sc r)"

definition prefix_free :: "string list \<Rightarrow> bool" where
  "prefix_free ns \<longleftrightarrow> (\<forall>i < length ns. \<forall>j < length ns. i \<noteq> j \<longrightarrow> \<not> sbsv_schema_names_conflict (ns ! i) (ns ! j))"

definition schemas_ok :: "sbsv_parser \<Rightarrow> bool" where
  "schemas_ok p \<longleftrightarrow> prefix_free (map sc_name (schemas p)) \<and>
     (\<forall>sc \<in> set (schemas p). sc_rows sc = filter (\<lambda>r. row_schema r = sc_name sc) (rows p))"

text \<open>Ranges in order and disjoint, below \<open>n\<close>.\<close>

fun ranges_ok :: "nat \<Rightarrow> sbsv_index_range list \<Rightarrow> nat \<Rightarrow> bool" where
  "ranges_ok lo [] n = (lo \<le> n)"
| "ranges_ok lo (r # rs) n = (lo \<le> rg_start r \<and> rg_start r \<le> rg_end r \<and> ranges_ok (rg_end r + 1) rs n)"

definition starts_with_schema :: "sbsv_schema list \<Rightarrow> sbsv_row list \<Rightarrow> nat \<Rightarrow> nat \<Rightarrow> bool" where
  "starts_with_schema scs rs idx i \<longleftrightarrow> i < length rs \<and> row_schema (rs ! i) = sc_name (scs ! idx)"

definition group_ok :: "sbsv_schema list \<Rightarrow> sbsv_row list \<Rightarrow> sbsv_group \<Rightarrow> bool" where
  "group_ok scs rs g \<longleftrightarrow> gr_start_schema g < length scs \<and> gr_end_schema g < length scs \<and> - 1 \<le> gr_start g \<and>
     ranges_ok 0 (gr_ranges g) (if gr_start g < 0 then length rs else nat (gr_start g)) \<and>
     (\<forall>r \<in> set (gr_ranges g). starts_with_schema scs rs (gr_start_schema g) (rg_start r)) \<and>
     (0 \<le> gr_start g \<longrightarrow> starts_with_schema scs rs (gr_start_schema g) (nat (gr_start g)))"

definition parser_ok :: "sbsv_parser \<Rightarrow> bool" where
  "parser_ok p \<longleftrightarrow> rows_ok p \<and> schemas_ok p \<and> (\<forall>g \<in> set (groups p). group_ok (schemas p) (rows p) g) \<and>
     (schemas p = [] \<longrightarrow> rows p = [])"

lemma parser_okI:
  assumes "\<And>i. i < length (rows q) \<Longrightarrow> row_id (rows q ! i) = i"
    "\<And>r. r \<in> set (rows q) \<Longrightarrow> \<exists>sc \<in> set (schemas q). row_schema r = sc_name sc \<and> row_typed (custom_types q) sc r"
    "prefix_free (map sc_name (schemas q))"
    "\<And>i. i < length (schemas q) \<Longrightarrow> sc_rows (schemas q ! i) = filter (\<lambda>r. row_schema r = sc_name (schemas q ! i)) (rows q)"
    "\<And>g. g \<in> set (groups q) \<Longrightarrow> group_ok (schemas q) (rows q) g" "schemas q \<noteq> []"
  shows "parser_ok q"
  using assms unfolding parser_ok_def rows_ok_def schemas_ok_def by (metis in_set_conv_nth)

lemma prefix_free_distinct: "prefix_free ns \<Longrightarrow> distinct ns"
  unfolding prefix_free_def distinct_conv_nth
  by (metis names_conflict_iff prefix_order.order_refl)

lemma prefix_free_snoc:
  assumes "prefix_free ns" "\<forall>m \<in> set ns. \<not> sbsv_schema_names_conflict n m"
  shows "prefix_free (ns @ [n])"
proof -
  have "\<forall>m \<in> set ns. \<not> sbsv_schema_names_conflict m n" using assms(2) by (auto simp: names_conflict_iff)
  then show ?thesis using assms by (auto simp: prefix_free_def nth_append less_Suc_eq)
qed

lemma ranges_ok_mono: "ranges_ok lo rs n \<Longrightarrow> n \<le> m \<Longrightarrow> ranges_ok lo rs m"
  by (induction rs arbitrary: lo) auto

lemma ranges_ok_snoc:
  "ranges_ok lo rs n \<Longrightarrow> n \<le> rg_start r \<Longrightarrow> rg_start r \<le> rg_end r \<Longrightarrow> rg_end r < m \<Longrightarrow> ranges_ok lo (rs @ [r]) m"
  by (induction rs arbitrary: lo) auto

lemma starts_with_schema_grow:
  "starts_with_schema scs rs idx i \<Longrightarrow> starts_with_schema scs (rs @ rs2) idx i"
  by (auto simp: starts_with_schema_def nth_append)

section \<open>Configuration\<close>

lemma set_error_fields [simp]:
  "rows (sbsv_parser_set_error p msg) = rows p" "schemas (sbsv_parser_set_error p msg) = schemas p"
  "groups (sbsv_parser_set_error p msg) = groups p" "custom_types (sbsv_parser_set_error p msg) = custom_types p"
  "ignored_prefix (sbsv_parser_set_error p msg) = ignored_prefix p"
  "ignore_unknown (sbsv_parser_set_error p msg) = ignore_unknown p"
  by (simp_all add: sbsv_parser_set_error_def split: option.splits)

text \<open>The invariant depends on the rows, schemas, groups and types only.\<close>

lemma parser_ok_cong:
  "rows q = rows p \<Longrightarrow> schemas q = schemas p \<Longrightarrow> groups q = groups p \<Longrightarrow> custom_types q = custom_types p \<Longrightarrow>
   parser_ok q = parser_ok p"
  by (simp add: parser_ok_def rows_ok_def schemas_ok_def)

lemma parser_ok_set_error [simp]: "parser_ok (sbsv_parser_set_error p msg) = parser_ok p"
  by (rule parser_ok_cong) simp_all

lemma parser_ok_new: "parser_ok (sbsv_parser_new flags)"
  by (simp add: parser_ok_def rows_ok_def schemas_ok_def prefix_free_def sbsv_parser_new_def)

lemma parser_ok_add_custom_type:
  assumes "parser_ok p"
  shows "parser_ok (snd (sbsv_parser_add_custom_type p n f))"
proof (cases "schemas p = []")
  case True
  then have "rows p = []" "groups p = []"
    using assms unfolding parser_ok_def group_ok_def by auto
  with True assms show ?thesis
    by (auto simp: sbsv_parser_add_custom_type_def parser_ok_def rows_ok_def schemas_ok_def
        split: option.splits prod.splits)
next
  case False
  then show ?thesis using assms
    by (auto simp: sbsv_parser_add_custom_type_def custom_type_error_def split: option.splits prod.splits)
qed

lemma parser_ok_prefix_update [simp]:
  "parser_ok (p\<lparr>ignored_prefix := xs, save_ignored_prefix := b\<rparr>) = parser_ok p"
  by (rule parser_ok_cong) simp_all

lemma parser_ok_ignore_prefix: "parser_ok p \<Longrightarrow> parser_ok (snd (sbsv_parser_ignore_prefix p pre save))"
  by (auto simp: sbsv_parser_ignore_prefix_def Let_def split: option.splits prod.splits sum.splits)

lemma parse_schema_expr_Inr:
  assumes "parse_schema_expr p expr = Inr sc"
  shows "sc_rows sc = []" "\<forall>x \<in> set (schemas p). \<not> sbsv_schema_names_conflict (sc_name sc) (sc_name x)"
  using assms by (auto simp: parse_schema_expr_def conflicting_schema_def find_None_iff
      split: prod.splits sbsv_status.splits list.splits if_splits sum.splits option.splits)

lemma group_ok_add_schema: "group_ok scs rs g \<Longrightarrow> group_ok (scs @ [sc]) rs g"
  by (auto simp: group_ok_def starts_with_schema_def nth_append)

lemma parser_ok_push_schema:
  assumes ok: "parser_ok p" and sc: "sc_rows sc = []"
    "\<forall>x \<in> set (schemas p). \<not> sbsv_schema_names_conflict (sc_name sc) (sc_name x)"
  shows "parser_ok (p\<lparr>schemas := schemas p @ [sc]\<rparr>)"
proof -
  have "sc_name x \<noteq> sc_name sc" if "x \<in> set (schemas p)" for x
    using sc(2) that by (auto simp: names_conflict_iff)
  then have none: "filter (\<lambda>r. row_schema r = sc_name sc) (rows p) = []"
    using ok by (fastforce simp: parser_ok_def rows_ok_def filter_empty_conv)
  have "prefix_free (map sc_name (schemas p) @ [sc_name sc])"
    using ok sc(2) by (intro prefix_free_snoc) (auto simp: parser_ok_def schemas_ok_def)
  with ok none sc(1) show ?thesis
    by (auto simp: parser_ok_def rows_ok_def schemas_ok_def group_ok_add_schema)
qed

lemma parser_ok_add_schema: "parser_ok p \<Longrightarrow> parser_ok (snd (sbsv_parser_add_schema p expr))"
  by (auto simp: sbsv_parser_add_schema_def parse_schema_expr_Inr
      intro!: parser_ok_push_schema split: option.splits sum.splits)

lemma parser_ok_add_group: "parser_ok p \<Longrightarrow> parser_ok (snd (sbsv_parser_add_group p g s e))"
  by (auto simp: sbsv_parser_add_group_def parser_ok_def rows_ok_def schemas_ok_def group_ok_def
      dest!: find_schema_Some split: option.splits sum.splits prod.splits)

section \<open>Clearing and finishing\<close>

lemma parser_ok_clear_rows: "parser_ok p \<Longrightarrow> parser_ok (sbsv_parser_clear_rows p)"
  by (auto simp: sbsv_parser_clear_rows_def parser_ok_def rows_ok_def schemas_ok_def group_ok_def comp_def)

lemma group_ok_finish:
  assumes "group_ok scs rs g"
  shows "group_ok scs rs (group_finish (length rs) g)"
proof (cases "gr_start g \<ge> 0 \<and> length rs > 0")
  case True
  let ?i = "nat (gr_start g)"
  have i: "?i < length rs" using assms True by (simp add: group_ok_def starts_with_schema_def)
  have r: "ranges_ok 0 (gr_ranges g) ?i" using assms True by (simp add: group_ok_def)
  have "ranges_ok 0 (gr_ranges g @ [\<lparr>rg_start = ?i, rg_end = length rs - 1\<rparr>]) (length rs)"
    by (rule ranges_ok_snoc [OF r]) (use i in auto)
  with True assms show ?thesis by (auto simp: group_finish_def sbsv_group_add_range_def group_ok_def)
next
  case False
  then have "group_finish (length rs) g = g" by (auto simp: group_finish_def)
  with assms show ?thesis by simp
qed

lemma parser_ok_finish: "parser_ok p \<Longrightarrow> parser_ok (snd (sbsv_parser_finish p))"
  by (auto simp: sbsv_parser_finish_def parser_ok_def rows_ok_def schemas_ok_def group_ok_finish)

section \<open>Appending\<close>

lemma group_ok_append:
  assumes ok: "group_ok scs rs g" and row: "row_schema row = sc_name (scs ! idx)"
    and idx: "idx < length scs"
  shows "group_ok scs (rs @ [row]) (group_open idx (length rs) (group_close idx (length rs) g))"
proof -
  let ?n = "length rs" and ?i = "nat (gr_start g)"
  have new: "starts_with_schema scs (rs @ [row]) idx ?n" using row by (simp add: starts_with_schema_def)
  have grow: "group_ok scs (rs @ [row]) g"
    using ok by (auto simp: group_ok_def starts_with_schema_grow intro: ranges_ok_mono split: if_splits)
  have open_ok: "group_ok scs (rs @ [row]) (group_open idx ?n h)"
    if "group_ok scs (rs @ [row]) h" "gr_start h < 0 \<longrightarrow> gr_start_schema h = idx \<longrightarrow> ranges_ok 0 (gr_ranges h) ?n" for h
    using that new by (auto simp: group_open_def group_ok_def)
  show ?thesis
  proof (cases "gr_end_schema g = idx \<and> gr_start g \<ge> 0")
    case True
    then have i: "?i < ?n" "ranges_ok 0 (gr_ranges g) ?i" "starts_with_schema scs rs (gr_start_schema g) ?i"
      using ok by (auto simp: group_ok_def starts_with_schema_def)
    define r where "r = \<lparr>rg_start = ?i, rg_end = (if gr_start_schema g = idx then ?n - 1 else ?n)\<rparr>"
    have close: "group_close idx ?n g = (sbsv_group_add_range g r)\<lparr>gr_start := - 1\<rparr>"
      using True i(1) by (auto simp: group_close_def r_def)
    have below: "ranges_ok 0 (gr_ranges g @ [r]) (if gr_start_schema g = idx then ?n else ?n + 1)"
      by (rule ranges_ok_snoc [OF i(2)]) (use i(1) in \<open>auto simp: r_def\<close>)
    have "group_ok scs (rs @ [row]) (group_close idx ?n g)"
      using grow below i(3) unfolding close
      by (auto simp: group_ok_def sbsv_group_add_range_def r_def starts_with_schema_grow intro: ranges_ok_mono
          split: if_splits)
    then show ?thesis
      by (rule open_ok) (use below in \<open>auto simp: close sbsv_group_add_range_def\<close>)
  next
    case False
    then have "group_close idx ?n g = g" by (auto simp: group_close_def)
    moreover have "gr_start g < 0 \<longrightarrow> ranges_ok 0 (gr_ranges g) ?n" using ok by (auto simp: group_ok_def)
    ultimately show ?thesis using open_ok [OF grow] by simp
  qed
qed

lemma append_row_eq:
  assumes "idx < length (schemas p)"
  shows "sbsv_parser_append_row p idx row =
    (SBSV_OK, p\<lparr>schemas := (schemas p)[idx := sbsv_schema_push_row (schemas p ! idx) (row\<lparr>row_id := length (rows p)\<rparr>)],
       rows := rows p @ [row\<lparr>row_id := length (rows p)\<rparr>],
       groups := map (group_open idx (length (rows p))) (map (group_close idx (length (rows p))) (groups p))\<rparr>)"
  using assms by (simp add: sbsv_parser_append_row_def Let_def)

lemma parser_ok_append_row:
  assumes ok: "parser_ok p" and idx: "idx < length (schemas p)" and row: "row_schema row = sc_name (schemas p ! idx)"
    and typed: "row_typed (custom_types p) (schemas p ! idx) row"
  shows "parser_ok (snd (sbsv_parser_append_row p idx row))"
proof -
  let ?row = "row\<lparr>row_id := length (rows p)\<rparr>" and ?scs = "schemas p"
  let ?scs' = "?scs[idx := sbsv_schema_push_row (?scs ! idx) ?row]"
  have names: "map sc_name ?scs' = map sc_name ?scs"
    using idx by (simp add: map_update sbsv_schema_push_row_def list_update_same_conv)
  have fields: "sc_fields (?scs' ! i) = sc_fields (?scs ! i)" "sc_name (?scs' ! i) = sc_name (?scs ! i)"
    if "i < length ?scs" for i
    using that idx by (auto simp: nth_list_update sbsv_schema_push_row_def)
  have dist: "distinct (map sc_name ?scs)" using ok by (auto simp: parser_ok_def schemas_ok_def intro: prefix_free_distinct)
  have group: "group_ok ?scs' rs g = group_ok ?scs rs g" for rs g
    using fields(2) by (auto simp: group_ok_def starts_with_schema_def)
  have groups: "\<forall>g \<in> set (groups p). group_ok ?scs' (rows p @ [?row]) (group_open idx (length (rows p)) (group_close idx (length (rows p)) g))"
    using ok group_ok_append [of ?scs "rows p" _ ?row idx] idx row unfolding group parser_ok_def by auto
  have schemas: "sc_rows (?scs' ! i) = filter (\<lambda>r. row_schema r = sc_name (?scs' ! i)) (rows p @ [?row])"
    if i: "i < length ?scs" for i
  proof (cases "i = idx")
    case True
    then show ?thesis using ok idx row by (simp add: parser_ok_def schemas_ok_def sbsv_schema_push_row_def)
  next
    case False
    then have "sc_name (?scs ! i) \<noteq> sc_name (?scs ! idx)" using dist i idx by (auto simp: distinct_conv_nth)
    then show ?thesis using ok i False row by (simp add: parser_ok_def schemas_ok_def)
  qed
  have rows: "\<exists>sc \<in> set ?scs'. row_schema r = sc_name sc \<and> row_typed (custom_types p) sc r" if r: "r \<in> set (rows p @ [?row])" for r
  proof -
    have "\<exists>i < length ?scs. row_schema r = sc_name (?scs ! i) \<and> row_typed (custom_types p) (?scs ! i) r"
    proof (cases "r \<in> set (rows p)")
      case True
      then obtain sc where "sc \<in> set ?scs" "row_schema r = sc_name sc" "row_typed (custom_types p) sc r"
        using ok unfolding parser_ok_def rows_ok_def by blast
      then show ?thesis by (metis in_set_conv_nth)
    next
      case False
      then have "r = ?row" using r by simp
      then show ?thesis using idx row typed by (auto simp: row_typed_def)
    qed
    then obtain i where i: "i < length ?scs" "row_schema r = sc_name (?scs ! i)" "row_typed (custom_types p) (?scs ! i) r"
      by blast
    then have "row_schema r = sc_name (?scs' ! i) \<and> row_typed (custom_types p) (?scs' ! i) r"
      by (simp only: fields row_typed_def)
    moreover have "?scs' ! i \<in> set ?scs'" using i(1) by (intro nth_mem) simp
    ultimately show ?thesis by blast
  qed
  let ?q = "p\<lparr>schemas := ?scs', rows := rows p @ [?row],
      groups := map (group_open idx (length (rows p))) (map (group_close idx (length (rows p))) (groups p))\<rparr>"
  have sel: "schemas ?q = ?scs'" "rows ?q = rows p @ [?row]" "custom_types ?q = custom_types p"
    "set (groups ?q) = (\<lambda>g. group_open idx (length (rows p)) (group_close idx (length (rows p)) g)) ` set (groups p)"
    by auto
  have "parser_ok ?q"
  proof (rule parser_okI; unfold sel)
    show "row_id ((rows p @ [?row]) ! i) = i" if "i < length (rows p @ [?row])" for i
      using ok that by (auto simp: parser_ok_def rows_ok_def nth_append less_Suc_eq)
    show "prefix_free (map sc_name ?scs')" using ok names by (simp add: parser_ok_def schemas_ok_def)
    show "?scs' \<noteq> []" using idx by auto
    show "sc_rows (?scs' ! i) = filter (\<lambda>r. row_schema r = sc_name (?scs' ! i)) (rows p @ [?row])"
      if "i < length ?scs'" for i
      using that by (intro schemas) simp
    show "\<exists>sc \<in> set ?scs'. row_schema r = sc_name sc \<and> row_typed (custom_types p) sc r"
      if "r \<in> set (rows p @ [?row])" for r
      using that by (rule rows)
    show "group_ok ?scs' (rows p @ [?row]) g"
      if "g \<in> (\<lambda>g. group_open idx (length (rows p)) (group_close idx (length (rows p)) g)) ` set (groups p)" for g
      using that groups by blast
  qed
  then show ?thesis using append_row_eq [OF idx, of row] by simp
qed

end
