(* ===== verification/Sbsv_Reader.thy ===== *)
theory Sbsv_Reader
  imports Sbsv_Invariant
begin

text \<open>
  Parsing keeps the parser's invariant, and the two loops over lines, for a text and for a file,
  do the same: proved in the locale \<open>line_reader\<close> for any function that parses a line, and used
  for \<^verbatim>\<open>sbsv_parser_parse_line\<close>. Then the states a client can reach.
\<close>

section \<open>Rows have the declared types\<close>

lemma take_field_type:
  "take_field strtod types le f toks = Inr (v, rest) \<Longrightarrow>
   value_of_type types (sf_type f) v \<or> (sf_nullable f \<and> v = V_NULL)"
  by (induction strtod types le f toks arbitrary: rest rule: take_field.induct)
    (auto simp: Let_def dest: parse_value_type_both(1) split: prod.splits if_splits option.splits bool.splits sum.splits)

lemma take_fields_type:
  "take_fields strtod types le fs toks = Inr ds \<Longrightarrow> list_all2 (value_ok types) fs ds"
  by (induction strtod types le fs toks arbitrary: ds rule: take_fields.induct)
    (auto simp: value_ok_def dest: take_field_type split: sum.splits prod.splits)

lemma parse_row_typed:
  assumes "sbsv_parse_row_for_schema strtod types le (sc_name sc) (sc_fields sc) toks = Inr row"
  shows "row_schema (sbsv_row_prepend_fields row ign) = sc_name sc" "row_typed types sc (sbsv_row_prepend_fields row ign)"
  using assms take_fields_type [of strtod types le "sc_fields sc" toks]
  by (auto simp: sbsv_parse_row_for_schema_def sbsv_row_prepend_fields_def row_typed_def split: if_splits sum.splits)
    blast

section \<open>Parsing a line keeps the invariant\<close>

definition line_keeps :: "sbsv_parser \<Rightarrow> line_result \<Rightarrow> bool" where
  "line_keeps p res \<longleftrightarrow> (\<forall>st q row. res = Some (st, q, row) \<longrightarrow> parser_ok p \<longrightarrow> parser_ok q)"

lemma line_keeps_simps [simp]:
  "line_keeps p None" "line_keeps p (Some (st, p, row))" "line_keeps p (fail_line st (sbsv_parser_set_error p m) msg)"
  "line_keeps p (fail_line st p msg)" "line_keeps p (Some (st, sbsv_parser_set_error p m, row))"
  by (simp_all add: line_keeps_def fail_line_def)

lemma line_keeps_data:
  assumes "idx < length (schemas p)"
  shows "line_keeps p (parse_data strtod p content n app idx pre)"
proof (cases "sbsv_parse_row_for_schema strtod (custom_types p) (last_error p) (sc_name (schemas p ! idx))
    (sc_fields (schemas p ! idx)) (pl_data_tokens pre)")
  case (Inl e)
  then show ?thesis by (cases e) (simp add: parse_data_def Let_def)
next
  case (Inr row)
  let ?row = "sbsv_row_prepend_fields row (pl_ignored pre)"
  have "parser_ok p \<Longrightarrow> parser_ok (snd (sbsv_parser_append_row p idx ?row))"
    using parser_ok_append_row [OF _ assms parse_row_typed [OF Inr]] by blast
  then show ?thesis using Inr by (auto simp: parse_data_def Let_def line_keeps_def split: prod.splits)
qed

lemma line_keeps_split:
  assumes "\<And>idx. schema = Some idx \<Longrightarrow> idx < length (schemas p)"
  shows "line_keeps p (parse_split strtod p content n app schema pre)"
  using assms by (auto simp: parse_split_def line_keeps_data dest: find_schema_Some split: option.split)

lemma line_keeps_content:
  assumes "\<And>idx. schema = Some idx \<Longrightarrow> idx < length (schemas p)"
  shows "line_keeps p (parse_content strtod p content n app schema)"
  using line_keeps_split [OF assms] by (auto simp: parse_content_def Let_def split: sum.split prod.split)

lemma line_keeps_parse_line: "line_keeps p (sbsv_parser_parse_line_internal strtod p line n app)"
  by (auto simp: sbsv_parser_parse_line_internal_def Let_def find_schema_ptr_def dest: find_schema_Some
      intro!: line_keeps_content split: option.splits prod.splits)

lemma parse_string_ok: "parse_string strtod p line n = Some (st, q) \<Longrightarrow> parser_ok p \<Longrightarrow> parser_ok q"
  using line_keeps_parse_line [of p strtod "Some line" n True]
  by (auto simp: parse_string_def sbsv_parser_parse_line_def line_keeps_def)

lemma parse_string_empty: "parse_string strtod p [] n = Some (SBSV_OK, p)"
  by (simp add: parse_string_def sbsv_parser_parse_line_def sbsv_parser_parse_line_internal_def)

section \<open>Reading lines\<close>

text \<open>What the loops rely on: a line is parsed, an empty line does nothing, and both calls keep \<open>ok\<close>.\<close>

locale line_reader =
  fixes parse :: "'p parse_fn" and finish :: "'p \<Rightarrow> sbsv_status \<times> 'p" and ok :: "'p \<Rightarrow> bool"
  assumes parse_empty: "parse p [] n = Some (SBSV_OK, p)"
    and parse_ok: "parse p line n = Some (st, q) \<Longrightarrow> ok p \<Longrightarrow> ok q"
    and finish_ok: "ok p \<Longrightarrow> ok (snd (finish p))"
begin

lemma finish_keeps: "finish p = (st, q) \<Longrightarrow> ok p \<Longrightarrow> ok q"
  using finish_ok [of p] by simp

lemma c_string_id: "NUL \<notin> set buf \<Longrightarrow> c_string buf = buf"
  by (auto simp: c_string_def takeWhile_eq_all_conv)

lemma loads_ok: "loads_loop parse finish p buf n cs = Some (st, q) \<Longrightarrow> ok p \<Longrightarrow> ok q"
proof (induction cs arbitrary: p buf n)
  case Nil
  then show ?case using parse_ok [of p buf n] by (auto intro: finish_keeps split: option.splits prod.splits if_splits)
next
  case (Cons c cs)
  then show ?case using parse_ok [of p buf n] by (auto split: option.splits prod.splits if_splits)
qed

lemma file_ok: "file_loop parse finish err p buf n cs = Some (st, q) \<Longrightarrow> ok p \<Longrightarrow> ok q"
proof (induction cs arbitrary: p buf n)
  case Nil
  then show ?case using parse_ok [of p "c_string buf" n]
    by (auto intro: finish_keeps split: option.splits prod.splits if_splits)
next
  case (Cons c cs)
  then show ?case using parse_ok [of p "c_string buf" n] by (auto split: option.splits prod.splits if_splits)
qed

text \<open>A file and a text with the same lines: the last, empty line of a text makes no difference.\<close>

lemma file_loads:
  "NUL \<notin> set buf \<Longrightarrow> NUL \<notin> set cs \<Longrightarrow> file_loop parse finish False p buf n cs = loads_loop parse finish p buf n cs"
proof (induction cs arbitrary: p buf n)
  case Nil
  then show ?case by (auto simp: c_string_id parse_empty)
next
  case (Cons c cs)
  then show ?case by (auto simp: c_string_id split: option.splits)
qed

end

interpretation sbsv: line_reader "parse_string strtod" sbsv_parser_finish parser_ok for strtod
  by unfold_locales (auto simp: parse_string_empty parser_ok_finish dest: parse_string_ok)

section \<open>Reachable parsers\<close>

text \<open>A call of the interface on a parser, whatever its status.\<close>

inductive sbsv_call :: "strtod_fn \<Rightarrow> sbsv_parser \<Rightarrow> sbsv_parser \<Rightarrow> bool" for strtod where
  add_schema: "sbsv_call strtod p (snd (sbsv_parser_add_schema p expr))"
| add_custom_type: "sbsv_call strtod p (snd (sbsv_parser_add_custom_type p name conv))"
| ignore_prefix: "sbsv_call strtod p (snd (sbsv_parser_ignore_prefix p pre save))"
| add_group: "sbsv_call strtod p (snd (sbsv_parser_add_group p name s e))"
| parse_line: "sbsv_parser_parse_line strtod p line n = Some (st, q) \<Longrightarrow> sbsv_call strtod p q"
| parse_line_detached: "sbsv_parser_parse_line_detached strtod p line n = Some (st, q, row) \<Longrightarrow> sbsv_call strtod p q"
| loads: "sbsv_parser_loads strtod p content = Some (st, q) \<Longrightarrow> sbsv_call strtod p q"
| load_file: "sbsv_parser_load_file strtod p bytes err = Some (st, q) \<Longrightarrow> sbsv_call strtod p q"
| finish: "sbsv_call strtod p (snd (sbsv_parser_finish p))"
| clear_rows: "sbsv_call strtod p (sbsv_parser_clear_rows p)"

definition sbsv_reachable :: "strtod_fn \<Rightarrow> sbsv_parser \<Rightarrow> bool" where
  "sbsv_reachable strtod p \<longleftrightarrow> (\<exists>flags. (sbsv_call strtod)\<^sup>*\<^sup>* (sbsv_parser_new flags) p)"

lemma sbsv_call_ok: "sbsv_call strtod p q \<Longrightarrow> parser_ok p \<Longrightarrow> parser_ok q"
proof (induction rule: sbsv_call.induct)
  case (parse_line p line n st q)
  then show ?case using line_keeps_parse_line [of p strtod line n True]
    by (auto simp: sbsv_parser_parse_line_def line_keeps_def)
next
  case (parse_line_detached p line n st q row)
  then show ?case using line_keeps_parse_line [of p strtod line n False]
    by (auto simp: sbsv_parser_parse_line_detached_def line_keeps_def)
next
  case (loads p content st q)
  then show ?case by (auto simp: sbsv_parser_loads_def split: option.splits dest: sbsv.loads_ok)
next
  case (load_file p bytes err st q)
  then show ?case by (auto simp: sbsv_parser_load_file_def dest: sbsv.file_ok)
qed (simp_all add: parser_ok_add_schema parser_ok_add_custom_type parser_ok_ignore_prefix parser_ok_add_group
    parser_ok_finish parser_ok_clear_rows)

lemma sbsv_reachable_ok: "sbsv_reachable strtod p \<Longrightarrow> parser_ok p"
proof -
  assume "sbsv_reachable strtod p"
  then obtain flags where "(sbsv_call strtod)\<^sup>*\<^sup>* (sbsv_parser_new flags) p" by (auto simp: sbsv_reachable_def)
  then show ?thesis by (induction rule: rtranclp_induct) (auto simp: parser_ok_new dest: sbsv_call_ok)
qed

end
