(* ===== verification/Sbsv_Print.thy ===== *)
theory Sbsv_Print
  imports Sbsv_Reader
begin

text \<open>
  Lines printed with \<^verbatim>\<open>sbsv_escape_str\<close>, one bracketed token per field, and what the tokenizer and
  \<^verbatim>\<open>sbsv_parse_row_for_schema\<close> make of them.
\<close>

section \<open>Printed rows\<close>

definition print_field :: "string \<Rightarrow> string \<Rightarrow> string" where
  "print_field k v = k @ '' '' @ escape_text v"

text \<open>Values whose first and last character escaping protects from being trimmed away.\<close>

definition printable :: "string \<Rightarrow> bool" where
  "printable v \<longleftrightarrow> v \<noteq> [] \<and> NUL \<notin> set v \<and> hd v \<noteq> CHR '' '' \<and> hd v \<noteq> CHR 0x0B \<and>
     last v \<noteq> CHR '' '' \<and> last v \<noteq> CHR 0x0B"

definition str_field :: "string \<Rightarrow> sbsv_schema_field" where
  "str_field k = \<lparr>sf_tagged = k, sf_name = k, sf_type = ''str'', sf_nullable = False\<rparr>"

definition name_char :: "char \<Rightarrow> bool" where
  "name_char c \<longleftrightarrow> is_alnum c \<or> c = CHR ''_'' \<or> c = CHR ''-''"

lemma name_char_plain:
  assumes "name_char c"
  shows "c \<notin> {BSLASH, QUOTE, CHR ''['', CHR '']''}" "c \<noteq> NUL" "\<not> is_space c"
proof -
  have "\<not> name_char BSLASH" "\<not> name_char QUOTE" "\<not> name_char (CHR ''['')" "\<not> name_char (CHR '']'')" "\<not> name_char NUL"
    by (simp_all add: name_char_def is_alnum_def is_digit_def in_chars_def)
  then show "c \<notin> {BSLASH, QUOTE, CHR ''['', CHR '']''}" "c \<noteq> NUL" using assms by auto
  have "is_space c \<Longrightarrow> \<not> name_char c"
    unfolding is_space_def by (elim disjE; simp add: name_char_def is_alnum_def is_digit_def in_chars_def)
  then show "\<not> is_space c" using assms by auto
qed

lemma valid_name_chars: "sbsv_validate_name k \<Longrightarrow> k \<noteq> [] \<and> (\<forall>c \<in> set k. name_char c)"
  by (auto simp: sbsv_validate_name_def name_char_def)

lemma unescape_char_dom: "is_space d \<or> d = NUL \<Longrightarrow> sbsv_unescape_char d = None"
  unfolding is_space_def by (elim disjE; simp add: sbsv_unescape_char_def)

lemma escape_char_space:
  assumes "c \<noteq> CHR '' ''" "c \<noteq> CHR 0x0B"
  shows "escape_char c f \<noteq> []" "\<not> is_space (hd (escape_char c f))" "\<not> is_space (last (escape_char c f))"
proof -
  have "is_space c \<Longrightarrow> escape_char c f \<noteq> [c]"
    using assms unfolding is_space_def by (elim disjE; simp add: escape_char_def sbsv_escape_replacement_def)
  then have "escape_char c f \<noteq> [] \<and> \<not> is_space (hd (escape_char c f)) \<and> \<not> is_space (last (escape_char c f))"
    by (cases rule: escape_char_cases [of c f]) (auto simp: unescape_char_dom, simp add: is_space_def)
  then show "escape_char c f \<noteq> []" "\<not> is_space (hd (escape_char c f))" "\<not> is_space (last (escape_char c f))" by auto
qed

lemma escape_text_ends:
  assumes "printable v"
  shows "escape_text v \<noteq> []" "\<not> is_space (hd (escape_text v))" "\<not> is_space (last (escape_text v))"
proof -
  obtain c cs where v: "v = c # cs" using assms by (cases v) (auto simp: printable_def)
  obtain d ds where w: "v = ds @ [d]" using v by (metis rev_exhaust list.distinct(1))
  obtain f fs where f: "escape_bracket v = f # fs" using v length_escape_bracket [of v]
    by (metis length_0_conv list.distinct(1) neq_Nil_conv)
  obtain g gs where g: "escape_bracket v = gs @ [g]" using f by (metis rev_exhaust list.distinct(1))
  have len: "length ds = length gs" using w g length_escape_bracket [of v] by simp
  have first: "escape_text v = escape_char c f @ concat (map2 escape_char cs fs)"
    unfolding escape_text_def f by (simp add: v)
  have lst: "escape_text v = concat (map2 escape_char ds gs) @ escape_char d g"
    unfolding escape_text_def g by (simp add: w len)
  have c: "c \<noteq> CHR '' ''" "c \<noteq> CHR 0x0B" using assms by (auto simp: printable_def v)
  have d: "d \<noteq> CHR '' ''" "d \<noteq> CHR 0x0B" using assms by (auto simp: printable_def w)
  show "escape_text v \<noteq> []" "\<not> is_space (hd (escape_text v))"
    using escape_char_space [OF c, of f] unfolding first by simp_all
  show "\<not> is_space (last (escape_text v))" using escape_char_space [OF d, of g] unfolding lst by simp
qed

lemma NUL_escape_text:
  assumes "NUL \<notin> set v"
  shows "NUL \<notin> set (escape_text v)"
proof -
  have "NUL \<notin> set (escape_char c f)" if "NUL \<noteq> c" for c f
    using that by (cases rule: escape_char_cases [of c f]) (auto simp: unescape_char_dom)
  then have "NUL \<notin> set cs \<Longrightarrow> NUL \<notin> set (concat (map2 escape_char cs fs))" for cs fs
    by (induction cs fs rule: list_induct2') (simp_all del: set_concat)
  with assms show ?thesis by (simp add: escape_text_def)
qed

lemma print_field_props:
  assumes "sbsv_validate_name k" "printable v"
  shows "inert (print_field k v)" "NUL \<notin> set (print_field k v)" "trim (print_field k v) = print_field k v"
    "sbsv_split_token_view (print_field k v) = (k, escape_text v)"
    "sbsv_token_key_matches k k = Some True"
proof -
  have k: "k \<noteq> []" "\<forall>c \<in> set k. name_char c" using valid_name_chars [OF assms(1)] by auto
  have plain: "inert k" "inert '' ''" by (rule inert_plain; use k(2) name_char_plain in auto)+
  show "inert (print_field k v)"
    unfolding print_field_def by (intro inert_append plain inert_escape_text)
  have "NUL \<notin> set k" using k(2) name_char_plain(2) by blast
  then show "NUL \<notin> set (print_field k v)"
    using NUL_escape_text [of v] assms(2) by (auto simp: print_field_def printable_def)
  have "\<not> is_space (hd k)" using k name_char_plain(3) by auto
  then show "trim (print_field k v) = print_field k v"
    using k(1) escape_text_ends [OF assms(2)] by (intro trim_id) (simp add: print_field_def)
  have nsp: "\<forall>c \<in> set k. \<not> is_space c" using k(2) name_char_plain(3) by blast
  have sp: "is_space (CHR '' '')" by (simp add: is_space_def)
  have d: "dropWhile is_space (escape_text v) = escape_text v"
    using escape_text_ends [OF assms(2)] by (cases "escape_text v") auto
  show "sbsv_split_token_view (print_field k v) = (k, escape_text v)"
    using nsp sp d by (simp add: sbsv_split_token_view_def print_field_def)
  show "sbsv_token_key_matches k k = Some True"
    using k name_char_plain(1) hd_in_set [OF k(1)] by (auto simp: sbsv_token_key_matches_def)
qed

lemma take_fields_printed:
  assumes "list_all2 (\<lambda>k v. sbsv_validate_name k \<and> printable v) ks vs"
  shows "take_fields strtod types le (map str_field ks) (map2 print_field ks vs) =
    Inr (map2 (\<lambda>k v. \<lparr>fd_tagged = k, fd_name = k, fd_value = V_STRING v\<rparr>) ks vs)"
  using assms
proof (induction ks vs rule: list_all2_induct)
  case (Cons k ks v vs)
  have "take_field strtod types le (str_field k) (print_field k v # toks) = Inr (V_STRING v, toks)" for toks
    using print_field_props [of k v] escape_text_ends [of v] Cons.hyps(1) valid_name_chars [of k]
      parse_value_escape_text [of strtod types v]
    by (simp add: str_field_def)
  with Cons.IH show ?case by (simp add: str_field_def)
qed simp

end
