(* ===== verification/Sbsv_Example.thy ===== *)
theory Sbsv_Example
  imports Sbsv_Reader
begin

text \<open>
  A parser of \<^verbatim>\<open>libsbsv\<close> evaluated on an example: a schema, a group that starts and ends with it,
  and two lines.
\<close>

named_theorems sbsv_eval \<open>defining equations for the evaluation of a parser\<close>

declare ctext_simps [sbsv_eval] Let_def [sbsv_eval]

lemmas sbsv_schema_eval [sbsv_eval] =
  sbsv_parser_new_def sbsv_parser_add_schema_def parse_schema_expr_def sbsv_validate_name_def conflicting_schema_def
  sbsv_split_token_default_def unescape_text_def unquote_def schema_field_of_def sbsv_split_token_schema_def
  sbsv_validate_tagged_field_name_def sbsv_type_is_supported.simps sbsv_type_is_builtin_def before_dollar_def
  sbsv_parser_add_group_def sbsv_schema_name_from_expr_def sbsv_schema_need_parsing_def

lemmas sbsv_scan_eval [sbsv_eval] =
  sbsv_parser_parse_line_def sbsv_parser_parse_line_internal_def sbsv_schema_root_may_match_def
  sbsv_token_view_has_value_def sbsv_scan_schema_name_prefix_def sbsv_token_view_is_empty_def scan_close_token_def
  sbsv_append_schema_name_suffix_range_def find_schema_ptr_def

lemmas sbsv_row_eval [sbsv_eval] =
  parse_content_def sbsv_preprocess_line_def parse_split_def parse_data_def sbsv_parse_row_for_schema_def
  sbsv_split_token_view_def sbsv_token_key_matches_def sbsv_parse_value.simps parse_scalar_def decode_raw_def
  parse_int_def strtoll_def subject_seq_def skip_sign_def skip_0x_def base_digit_def digit_val_def LLONG_MAX_def
  LLONG_MIN_def sbsv_row_prepend_fields_def sbsv_parser_append_row_def sbsv_schema_push_row_def group_close_def
  group_open_def sbsv_group_add_range_def

lemma tokenize_plain:
  assumes "line = render_tokens ss" "\<forall>s \<in> set ss. \<forall>c \<in> set s. c \<notin> {BSLASH, QUOTE, CHR ''['', CHR '']'', NUL}"
    "length line < 2 ^ 60"
  shows "sbsv_tokenize_line_strict (Some line) = (SBSV_OK, map trim ss)"
  unfolding sbsv_tokenize_line_strict_def assms(1)
  by (rule tokenize_render) (use assms in \<open>auto intro!: inert_plain\<close>)

lemma tokenize_examples [sbsv_eval]:
  "sbsv_tokenize_line_strict (Some ''[a][k: int]'') = (SBSV_OK, [''a'', ''k: int''])"
  "sbsv_tokenize_line_strict (Some ''[a][k 7]'') = (SBSV_OK, [''a'', ''k 7''])"
  "sbsv_tokenize_line_strict (Some ''[a][k 8]'') = (SBSV_OK, [''a'', ''k 8''])"
  using tokenize_plain [of "''[a][k: int]''" "[''a'', ''k: int'']"] tokenize_plain [of "''[a][k 7]''" "[''a'', ''k 7'']"]
    tokenize_plain [of "''[a][k 8]''" "[''a'', ''k 8'']"]
  by (simp_all add: render_tokens_def ctext_simps)

definition ex_field :: sbsv_schema_field where
  "ex_field = \<lparr>sf_tagged = ''k'', sf_name = ''k'', sf_type = ''int'', sf_nullable = False\<rparr>"

definition ex_row :: "nat \<Rightarrow> int \<Rightarrow> sbsv_row" where
  "ex_row i z = \<lparr>row_schema = ''a'', row_id = i, row_fields = [\<lparr>fd_tagged = ''k'', fd_name = ''k'', fd_value = V_INT z\<rparr>]\<rparr>"

definition ex_parser :: "sbsv_row list \<Rightarrow> sbsv_index_range list \<Rightarrow> int \<Rightarrow> sbsv_parser" where
  "ex_parser rs rgs start =
     \<lparr>ignore_unknown = True, last_error = None,
      schemas = [\<lparr>sc_name = ''a'', sc_fields = [ex_field], sc_rows = rs\<rparr>], custom_types = [],
      groups = [\<lparr>gr_name = ''g'', gr_start_schema = 0, gr_end_schema = 0, gr_ranges = rgs, gr_start = start\<rparr>],
      ignored_prefix = [], save_ignored_prefix = False, rows = rs\<rparr>"

definition ex_run :: sbsv_parser where
  "ex_run = ex_parser [ex_row 0 7, ex_row 1 8] [\<lparr>rg_start = 0, rg_end = 0\<rparr>] 1"

lemma ex_config:
  "snd (sbsv_parser_add_group (snd (sbsv_parser_add_schema (sbsv_parser_new 0) (Some ''[a][k: int]'')))
     (Some ''g'') (Some ''a'') (Some ''a'')) = ex_parser [] [] (- 1)"
  by (simp add: sbsv_eval ex_parser_def ex_field_def)

lemma ex_line_1: "sbsv_parser_parse_line strtod (ex_parser [] [] (- 1)) (Some ''[a][k 7]'') 1 =
    Some (SBSV_OK, ex_parser [ex_row 0 7] [] 0)"
  by (simp add: sbsv_eval ex_parser_def ex_field_def ex_row_def)

lemma ex_line_2: "sbsv_parser_parse_line strtod (ex_parser [ex_row 0 7] [] 0) (Some ''[a][k 8]'') 2 =
    Some (SBSV_OK, ex_run)"
  by (simp add: sbsv_eval ex_parser_def ex_field_def ex_row_def ex_run_def)

lemma ex_run_reachable: "sbsv_reachable strtod ex_run"
proof -
  let ?c = "sbsv_call strtod"
  have "?c\<^sup>*\<^sup>* (sbsv_parser_new 0) (ex_parser [] [] (- 1))"
    unfolding ex_config [symmetric]
    by (meson rtranclp.rtrancl_into_rtrancl rtranclp.rtrancl_refl sbsv_call.add_group sbsv_call.add_schema)
  also have "?c (ex_parser [] [] (- 1)) (ex_parser [ex_row 0 7] [] 0)" by (rule sbsv_call.parse_line [OF ex_line_1])
  also have "?c (ex_parser [ex_row 0 7] [] 0) ex_run" by (rule sbsv_call.parse_line [OF ex_line_2])
  finally show ?thesis unfolding sbsv_reachable_def by blast
qed

end
