(* ===== verification/Sbsv_Parser_Spec.thy ===== *)
theory Sbsv_Parser_Spec
  imports Sbsv_Print Sbsv_Example
begin

text \<open>
  The properties of a \<^verbatim>\<open>libsbsv\<close> parser: what holds in every state a client can reach, the order
  of the rows a query returns, printed rows read back, the two loaders, and what a line that
  is not accepted leaves behind.
\<close>

section \<open>Reachable parsers\<close>

text \<open>
  C10. In every parser a client can reach, by any sequence of calls whatever their status, the id
  of a row is its position and each schema holds exactly the rows parsed for it, in order.
\<close>

theorem reachable_rows_indexed:
  assumes "sbsv_reachable strtod p"
  shows "map row_id (rows p) = [0..<length (rows p)] \<and>
    (\<forall>sc \<in> set (schemas p). sc_rows sc = filter (\<lambda>r. row_schema r = sc_name sc) (rows p))"
  using sbsv_reachable_ok [OF assms] by (auto simp: parser_ok_def rows_ok_def schemas_ok_def intro: nth_equalityI)

theorem reachable_rows_indexed_witness:
  "map row_id (rows ex_run) = [0..<length (rows ex_run)] \<and>
   sc_rows (hd (schemas ex_run)) = filter (\<lambda>r. row_schema r = ''a'') (rows ex_run)"
proof -
  have "hd (schemas ex_run) \<in> set (schemas ex_run)" "sc_name (hd (schemas ex_run)) = ''a''"
    by (simp_all add: ex_run_def ex_parser_def)
  then show ?thesis using reachable_rows_indexed [OF ex_run_reachable] by metis
qed

text \<open>
  In every reachable parser no schema name is a prefix of another, part by part, so a line
  can belong to one schema only; in particular names are distinct.
\<close>

theorem reachable_names_prefix_free:
  assumes "sbsv_reachable strtod p" "i < length (schemas p)" "j < length (schemas p)" "i \<noteq> j"
  shows "\<not> prefix (dollar_parts (sc_name (schemas p ! i))) (dollar_parts (sc_name (schemas p ! j)))"
  using sbsv_reachable_ok [OF assms(1)] assms(2-4)
  by (auto simp: parser_ok_def schemas_ok_def prefix_free_def names_conflict_iff)

text \<open>Two schemas with the names \<open>a\<close> and \<open>b\<close>.\<close>

definition ex_two :: sbsv_parser where
  "ex_two = (let p = snd (sbsv_parser_add_schema (sbsv_parser_new 0) (Some ''[a]'')) in
     snd (sbsv_parser_add_schema p (Some ''[b]'')))"

lemma ex_two_reachable: "sbsv_reachable strtod ex_two"
  unfolding sbsv_reachable_def ex_two_def Let_def
  by (meson rtranclp.rtrancl_into_rtrancl rtranclp.rtrancl_refl sbsv_call.add_schema)

lemma ex_two_schemas: "map sc_name (schemas ex_two) = [''a'', ''b'']"
  using tokenize_plain [of "''[a]''" "[''a'']"] tokenize_plain [of "''[b]''" "[''b'']"]
  by (simp add: ex_two_def sbsv_eval render_tokens_def sbsv_schema_names_conflict_def)

theorem reachable_names_prefix_free_witness:
  "\<not> prefix (dollar_parts (sc_name (schemas ex_two ! 0))) (dollar_parts (sc_name (schemas ex_two ! 1)))"
  by (rule reachable_names_prefix_free [OF ex_two_reachable])
    (use arg_cong [OF ex_two_schemas, of length] in simp_all)

text \<open>
  C26. In every reachable parser the fields of a row, after those of an ignored prefix, are the
  fields its schema declares, in order, each with a value of the declared type, or null when
  the field is nullable.
\<close>

theorem reachable_rows_typed:
  assumes "sbsv_reachable strtod p" "r \<in> set (rows p)"
  shows "\<exists>sc \<in> set (schemas p). row_schema r = sc_name sc \<and>
    (\<exists>ign ds. row_fields r = ign @ ds \<and>
       list_all2 (\<lambda>f d. fd_tagged d = sf_tagged f \<and> fd_name d = sf_name f \<and>
         (value_of_type (custom_types p) (sf_type f) (fd_value d) \<or> (sf_nullable f \<and> fd_value d = V_NULL)))
         (sc_fields sc) ds)"
  using sbsv_reachable_ok [OF assms(1)] assms(2)
  unfolding parser_ok_def rows_ok_def row_typed_def value_ok_def by blast

theorem reachable_rows_typed_witness:
  "value_of_type [] ''int'' (fd_value (hd (row_fields (ex_row 0 7))))"
  using reachable_rows_typed [OF ex_run_reachable, of "ex_row 0 7"]
  by (auto simp: ex_run_def ex_parser_def ex_field_def ex_row_def list_all2_Cons1 Cons_eq_append_conv)

text \<open>
  C24. In every reachable parser the closed ranges of a group are within the rows, in order and
  disjoint, each begins with a row of the group's start schema, and an open range begins after
  the last closed one.
\<close>

theorem reachable_group_ranges:
  assumes "sbsv_reachable strtod p" "g \<in> set (groups p)"
  shows "ranges_ok 0 (gr_ranges g) (if gr_start g < 0 then length (rows p) else nat (gr_start g)) \<and>
    gr_start g < int (length (rows p)) \<and>
    (\<forall>r \<in> set (gr_ranges g). row_schema (rows p ! rg_start r) = sc_name (schemas p ! gr_start_schema g))"
  using sbsv_reachable_ok [OF assms(1)] assms(2)
  by (auto simp: parser_ok_def group_ok_def starts_with_schema_def)

theorem reachable_group_ranges_witness:
  "ranges_ok 0 (gr_ranges (hd (groups ex_run))) 1 \<and> row_schema (rows ex_run ! 0) = ''a''"
  using reachable_group_ranges [OF ex_run_reachable, of "hd (groups ex_run)"]
  by (simp add: ex_run_def ex_parser_def)

section \<open>Queries\<close>

lemma sorted_ids_unique:
  assumes "sorted (map row_id xs)" "sorted (map row_id ys)" "mset xs = mset ys" "distinct (map row_id ys)"
  shows "xs = ys"
proof -
  have "map row_id xs = map row_id ys"
    using assms by (metis mset_map properties_for_sort)
  moreover have "inj_on row_id (set ys)" using assms(4) by (simp add: distinct_map)
  moreover have "set xs = set ys" using assms(3) by (rule mset_eq_setD)
  ultimately show ?thesis by (metis inj_on_map_eq_map sup.idem)
qed

lemma remaining_zero: "remaining sels (replicate (length sels) 0) = sum_list (map mset sels)"
  by (induction sels) (auto simp: remaining_def)

lemma filter_names_mset:
  "distinct ns \<Longrightarrow> sum_list (map (\<lambda>n. mset (filter (\<lambda>r. row_schema r = n) rs)) ns) =
   mset (filter (\<lambda>r. row_schema r \<in> set ns) rs)"
proof (induction ns)
  case (Cons n ns)
  have "filter_mset (\<lambda>r. row_schema r = n) (mset rs) + filter_mset (\<lambda>r. row_schema r \<in> set ns) (mset rs) =
      filter_mset (\<lambda>r. row_schema r = n \<or> row_schema r \<in> set ns) (mset rs)"
    by (induction rs) (use Cons.prems in auto)
  with Cons show ?case by (simp add: mset_filter)
qed simp

lemma schemas_of_exprs_Inr: "schemas_of_exprs p es = Inr scs \<Longrightarrow> set scs \<subseteq> set (schemas p) \<and> length scs = length es"
  by (induction es arbitrary: scs)
    (auto simp: schema_of_expr_def dest!: find_schema_Some split: sum.splits option.splits)

text \<open>
  C21. Asked for the rows of several schemas, named once each, the merge returns all their rows
  and no others, in the order in which they were parsed.
\<close>

theorem rows_in_order_correct:
  assumes "sbsv_reachable strtod p" "schemas_of_exprs p es = Inr scs" "distinct (map sc_name scs)" "es \<noteq> []"
  shows "sbsv_parser_get_rows_in_order p (Some es) =
    Inr (filter (\<lambda>r. row_schema r \<in> sc_name ` set scs) (rows p))"
proof -
  have ok: "parser_ok p" by (rule sbsv_reachable_ok [OF assms(1)])
  have ids: "map row_id (rows p) = [0..<length (rows p)]"
    using ok by (auto simp: parser_ok_def rows_ok_def intro: nth_equalityI)
  have sorted: "sorted (map row_id (filter P (rows p)))" "distinct (map row_id (filter P (rows p)))" for P
    using ids sorted_filter [of row_id "rows p" P] distinct_map_filter [of row_id "rows p" P] by simp_all
  have rows: "sc_rows sc = filter (\<lambda>r. row_schema r = sc_name sc) (rows p)" if "sc \<in> set scs" for sc
    using ok that schemas_of_exprs_Inr [OF assms(2)] by (auto simp: parser_ok_def schemas_ok_def)
  have "mset (merge_rows (map sc_rows scs) (replicate (length scs) 0)) = sum_list (map mset (map sc_rows scs)) \<and>
      sorted (map row_id (merge_rows (map sc_rows scs) (replicate (length scs) 0)))"
    using merge_rows_correct [of "replicate (length scs) 0" "map sc_rows scs"] remaining_zero [of "map sc_rows scs"]
      rows sorted(1) by (simp cong: ball_cong)
  moreover have "sum_list (map mset (map sc_rows scs)) = mset (filter (\<lambda>r. row_schema r \<in> sc_name ` set scs) (rows p))"
    using filter_names_mset [OF assms(3), of "rows p"] rows by (simp add: comp_def cong: map_cong)
  ultimately have "merge_rows (map sc_rows scs) (replicate (length scs) 0) =
      filter (\<lambda>r. row_schema r \<in> sc_name ` set scs) (rows p)"
    by (intro sorted_ids_unique) (auto simp: sorted)
  then show ?thesis using assms(2,4) by (simp add: sbsv_parser_get_rows_in_order_def)
qed

theorem rows_in_order_correct_witness:
  "sbsv_parser_get_rows_in_order ex_run (Some [''a'']) = Inr (rows ex_run)"
  using rows_in_order_correct [OF ex_run_reachable, of "[''a'']" "schemas ex_run"]
  by (simp add: schema_of_expr_def sbsv_schema_name_from_expr_def sbsv_schema_need_parsing_def ex_run_def ex_parser_def
      ex_row_def)

section \<open>Printed rows\<close>

text \<open>
  C22. A row of string fields printed as bracketed tokens of name and escaped value is read back
  by a body parser for these fields with the same values: tokenizer, key match and unescaping
  undo the printing, for values of any characters but NUL that are not empty and do not begin or end with a space or
  a vertical tab.
\<close>

theorem printed_row_round_trip:
  assumes b: "bp_has_schema b" "bp_schema b = map str_field ks"
    and kv: "list_all2 (\<lambda>k v. sbsv_validate_name k \<and> printable v) ks vs"
    and len: "length (render_tokens (map2 print_field ks vs)) < 2 ^ 60"
  shows "sbsv_body_parser_parse strtod b (Some (render_tokens (map2 print_field ks vs))) =
    (SBSV_OK, b, Some \<lparr>row_schema = [], row_id = MAX_ID,
       row_fields = map2 (\<lambda>k v. \<lparr>fd_tagged = k, fd_name = k, fd_value = V_STRING v\<rparr>) ks vs\<rparr>)"
proof -
  have props: "inert s \<and> NUL \<notin> set s \<and> trim s = s" if "s \<in> set (map2 print_field ks vs)" for s
    using that kv print_field_props by (auto simp: list_all2_iff)
  have same: "length ks = length vs" using kv by (rule list_all2_lengthD)
  have trims: "map trim (map2 print_field ks vs) = map2 print_field ks vs"
    using props by (intro map_idI) blast
  have "sbsv_tokenize_line_strict (Some (render_tokens (map2 print_field ks vs))) =
      (SBSV_OK, map trim (map2 print_field ks vs))"
    unfolding sbsv_tokenize_line_strict_def by (rule tokenize_render) (use props len in auto)
  then show ?thesis
    unfolding trims using b take_fields_printed [OF kv, of strtod "bp_types b" None] same
    by (simp add: sbsv_body_parser_parse_def sbsv_parse_row_for_schema_def)
qed

theorem printed_row_round_trip_witness:
  "sbsv_body_parser_parse (\<lambda>s. (0, True, [])) (sbsv_body_parser_new\<lparr>bp_schema := [str_field ''k''], bp_has_schema := True\<rparr>)
     (Some (render_tokens [print_field ''k'' ''a]b''])) =
   (SBSV_OK, sbsv_body_parser_new\<lparr>bp_schema := [str_field ''k''], bp_has_schema := True\<rparr>,
    Some \<lparr>row_schema = [], row_id = MAX_ID, row_fields = [\<lparr>fd_tagged = ''k'', fd_name = ''k'', fd_value = V_STRING ''a]b''\<rparr>]\<rparr>)"
  using printed_row_round_trip [of "sbsv_body_parser_new\<lparr>bp_schema := [str_field ''k''], bp_has_schema := True\<rparr>" "[''k'']" "[''a]b'']"]
  by (simp add: sbsv_validate_name_def printable_def ctext_simps render_tokens_def print_field_def escape_text_def
      escape_bracket_def escape_char_def sbsv_escape_replacement_def)

section \<open>Loading\<close>

text \<open>
  Loading a file and loading its contents as a string have the same result, status, rows and
  error message included, for contents without null bytes and a file read without an error:
  the last, empty line that only the string loader parses makes no difference.
\<close>

theorem load_file_is_loads:
  assumes "NUL \<notin> set bytes"
  shows "sbsv_parser_load_file strtod p bytes False = sbsv_parser_loads strtod p (Some bytes)"
  unfolding sbsv_parser_load_file_def sbsv_parser_loads_def using sbsv.file_loads [of "[]" bytes] assms by simp

theorem load_file_is_loads_witness:
  "sbsv_parser_load_file (\<lambda>s. (0, True, [])) ex_run (''[a][k 7]'' @ [NEWLINE]) False =
   sbsv_parser_loads (\<lambda>s. (0, True, [])) ex_run (Some (''[a][k 7]'' @ [NEWLINE]))"
  by (rule load_file_is_loads) simp

section \<open>Lines that are not accepted\<close>

definition same_data :: "sbsv_parser \<Rightarrow> sbsv_parser \<Rightarrow> bool" where
  "same_data p q \<longleftrightarrow> rows q = rows p \<and> schemas q = schemas p \<and> groups q = groups p \<and>
     custom_types q = custom_types p \<and> ignored_prefix q = ignored_prefix p"

definition line_frame :: "bool \<Rightarrow> sbsv_parser \<Rightarrow> line_result \<Rightarrow> bool" where
  "line_frame app p res \<longleftrightarrow> (\<forall>st q row. res = Some (st, q, row) \<longrightarrow>
     same_data p q \<or> (app \<and> st = SBSV_OK \<and> (\<exists>r. rows q = rows p @ [r])))"

lemma line_frame_simps [simp]:
  "line_frame app p None" "line_frame app p (Some (st, p, row))" "line_frame app p (fail_line st p msg)"
  "line_frame app p (fail_line st (sbsv_parser_set_error p m) msg)"
  "line_frame app p (Some (st, sbsv_parser_set_error p m, row))"
  by (simp_all add: line_frame_def fail_line_def same_data_def)

lemma line_frame_data:
  "idx < length (schemas p) \<Longrightarrow> line_frame app p (parse_data strtod p content n app idx pre)"
  using append_row_eq [of idx p]
  by (auto simp: parse_data_def Let_def line_frame_def same_data_def fail_line_def split: sum.split prod.split)

lemma line_frame_parse_line: "line_frame app p (sbsv_parser_parse_line_internal strtod p line n app)"
proof -
  have split: "line_frame app p (parse_split strtod p content n app schema pre)"
    if "\<And>idx. schema = Some idx \<Longrightarrow> idx < length (schemas p)" for content schema pre
    using that by (auto simp: parse_split_def line_frame_data dest: find_schema_Some split: option.split)
  have content: "line_frame app p (parse_content strtod p content n app schema)"
    if "\<And>idx. schema = Some idx \<Longrightarrow> idx < length (schemas p)" for content schema
    using split [OF that] by (auto simp: parse_content_def Let_def split: sum.split prod.split)
  show ?thesis
    by (auto simp: sbsv_parser_parse_line_internal_def Let_def find_schema_ptr_def dest: find_schema_Some
        intro!: content split: option.splits prod.splits)
qed

text \<open>
  A line that is rejected leaves rows, schemas and groups as they were, and so does parsing a
  line detached from the parser; only a line that is accepted adds to the parser, one row.
\<close>

theorem rejected_line_changes_nothing:
  assumes "sbsv_parser_parse_line_internal strtod p line n app = Some (st, q, row)" "st \<noteq> SBSV_OK \<or> \<not> app"
  shows "rows q = rows p \<and> schemas q = schemas p \<and> groups q = groups p"
  using line_frame_parse_line [of app p strtod line n] assms by (auto simp: line_frame_def same_data_def)

theorem rejected_line_changes_nothing_witness:
  "\<exists>q. sbsv_parser_parse_line_internal (\<lambda>s. (0, True, [])) ex_run None 3 True = Some (SBSV_ERR_INVALID_ARG, q, None) \<and>
     rows q = rows ex_run"
  using rejected_line_changes_nothing [of "\<lambda>s. (0, True, [])" ex_run None 3 True SBSV_ERR_INVALID_ARG ex_run None]
  by (simp add: sbsv_parser_parse_line_internal_def)

lemma scan_loop_no_bracket:
  "CHR ''['' \<notin> set cs \<Longrightarrow> sn_level st = 0 \<Longrightarrow> \<not> sn_escape st \<Longrightarrow> \<not> sn_quote st \<Longrightarrow> fst (scan_loop k cs st) = sn_name st"
  by (induction cs arbitrary: st) auto

text \<open>
  With an ignored prefix and a schema configured, a line of plain text without brackets makes
  the parser call \<^verbatim>\<open>strcmp\<close> on a null pointer: the scan finds no schema name, and the name is
  looked up before it is checked.
\<close>

theorem plain_line_with_prefix_crashes:
  assumes "ignore_unknown p" "ignored_prefix p \<noteq> []" "schemas p \<noteq> []"
    and "CHR ''['' \<notin> set line" "dropWhile is_space line \<noteq> []" "hd (dropWhile is_space line) \<noteq> CHR ''#''"
  shows "sbsv_parser_parse_line strtod p (Some line) n = None"
proof -
  have "CHR ''['' \<notin> set (dropWhile is_space line)" using assms(4) by (auto dest: set_dropWhileD)
  then have "fst (sbsv_scan_schema_name_prefix p (dropWhile is_space line)) = None"
    by (simp add: sbsv_scan_schema_name_prefix_def scan_loop_no_bracket)
  then obtain amb where "sbsv_scan_schema_name_prefix p (dropWhile is_space line) = (None, amb)"
    by (cases "sbsv_scan_schema_name_prefix p (dropWhile is_space line)") simp
  then show ?thesis unfolding sbsv_parser_parse_line_def sbsv_parser_parse_line_internal_def option.case Let_def
    if_not_P [OF assms(5), simplified] using assms
    by (simp add: sbsv_schema_root_may_match_def find_schema_ptr_def del: dropWhile_eq_Nil_conv)
qed

theorem plain_line_with_prefix_crashes_witness:
  "sbsv_parser_parse_line (\<lambda>s. (0, True, [])) (ex_run\<lparr>ignored_prefix := [Literal ''t'']\<rparr>) (Some ''hello'') 1 = None"
  by (rule plain_line_with_prefix_crashes) (simp_all add: ex_run_def ex_parser_def is_space_def)

end
