(* ===== verification/Bitmap.thy ===== *)
theory Bitmap
  imports Prelude
begin

text \<open>
  Coverage bitmaps, shared by the branch coverage of the solver
  (\<^verbatim>\<open>src/solver/branch_coverage.c\<close>) and the tool that merges two bitmaps
  (\<^verbatim>\<open>src/utils/merge_bitmap.c\<close>): a bitmap as the set of its bits, the files it is
  saved in, and the interface of a coverage test that reports something new only when it
  sets a bit. The merge tool itself is modelled at the end.
\<close>

named_theorems bitmap_simps "a bitmap as the set of its bits"

section \<open>A bitmap as a set of bits\<close>

type_synonym bitmap = "u8 list"

definition or_at :: "bitmap \<Rightarrow> nat \<Rightarrow> u8 \<Rightarrow> bitmap" where
  "or_at bm i v = bm[i := bm ! i OR v]"

definition bitmap_bits :: "bitmap \<Rightarrow> (nat \<times> nat) set" where
  "bitmap_bits bm = {(i, k). i < length bm \<and> bit (bm ! i) k}"

definition bits_at :: "nat \<Rightarrow> u8 \<Rightarrow> (nat \<times> nat) set" where
  "bits_at i v = {i} \<times> {k. bit v k}"

definition free_bits :: "bitmap \<Rightarrow> nat" where
  "free_bits bm = 8 * length bm - card (bitmap_bits bm)"

lemma length_or_at [simp]: "length (or_at bm i v) = length bm"
  by (simp add: or_at_def)

lemma nth_or_at:
  "i < length bm \<Longrightarrow> or_at bm i v ! j = (if i = j then bm ! j OR v else bm ! j)"
  by (auto simp: or_at_def nth_list_update)

lemma bitmap_bits_or_at [bitmap_simps]:
  "i < length bm \<Longrightarrow> bitmap_bits (or_at bm i v) = bitmap_bits bm \<union> bits_at i v"
  by (auto simp: bitmap_bits_def bits_at_def nth_or_at bit_simps split: if_splits)

lemma or_eq_iff_bits: "v OR b = b \<longleftrightarrow> (\<forall>k. bit v k \<longrightarrow> bit b k)" for v b :: u8
proof -
  have "v OR b = b \<longleftrightarrow> (\<forall>k. bit (v OR b) k = bit b k)"
    by (metis bit_eqI)
  then show ?thesis
    by (auto simp: bit_or_iff)
qed

lemma or_ne_iff_bits [bitmap_simps]:
  "i < length bm \<Longrightarrow> v OR bm ! i \<noteq> bm ! i \<longleftrightarrow> \<not> bits_at i v \<subseteq> bitmap_bits bm"
  by (auto simp: or_eq_iff_bits bits_at_def bitmap_bits_def)

lemma bitmap_bits_box: "bitmap_bits bm \<subseteq> {..<length bm} \<times> {..<8}"
  by (auto simp: bitmap_bits_def dest: bit_imp_le_length)

lemma finite_bitmap_bits [simp]: "finite (bitmap_bits bm)"
  by (rule finite_subset [OF bitmap_bits_box]) simp

lemma card_bitmap_bits: "card (bitmap_bits bm) \<le> 8 * length bm"
  using card_mono [OF _ bitmap_bits_box [of bm]] by (simp add: card_cartesian_product)

lemma free_bits_mono:
  "length a = length b \<Longrightarrow> bitmap_bits a \<subseteq> bitmap_bits b \<Longrightarrow> free_bits b \<le> free_bits a"
  by (auto simp: free_bits_def intro!: diff_le_mono2 card_mono)

lemma free_bits_less:
  assumes "length a = length b" "bitmap_bits a \<subset> bitmap_bits b"
  shows "free_bits b < free_bits a"
  using psubset_card_mono [OF _ assms(2)] card_bitmap_bits [of b] assms(1)
  by (simp add: free_bits_def)

lemma free_bits_le: "free_bits bm \<le> 8 * length bm"
  by (simp add: free_bits_def)

lemma bitmap_eqI:
  assumes "length a = length b" "bitmap_bits a = bitmap_bits b"
  shows "a = b"
proof (rule nth_equalityI [OF assms(1)])
  fix i
  assume "i < length a"
  then have "bit (a ! i) k = bit (b ! i) k" for k
    using assms by (auto simp: bitmap_bits_def set_eq_iff)
  then show "a ! i = b ! i"
    by (simp add: bit_eq_iff)
qed

section \<open>Coverage tests that can only report finitely often\<close>

text \<open>
  A coverage test takes an event and returns whether it is interesting; \<open>None\<close> is an
  access outside a C array. The runs of a test collect its answers.
\<close>

type_synonym ('e, 's) coverage_test = "'e \<Rightarrow> 's \<Rightarrow> ('s \<times> int) option"

fun run_test :: "('e, 's) coverage_test \<Rightarrow> 'e list \<Rightarrow> 's \<Rightarrow> ('s \<times> int list) option" where
  "run_test f [] s = Some (s, [])"
| "run_test f (e # es) s = (case f e s of None \<Rightarrow> None
     | Some (s1, r) \<Rightarrow> map_option (\<lambda>(s2, rs). (s2, r # rs)) (run_test f es s1))"

definition reports :: "int list \<Rightarrow> nat" where
  "reports rs = length (filter (\<lambda>r. r \<noteq> 0) rs)"

lemma reports_simps [simp]:
  "reports [] = 0" "reports (r # rs) = (if r = 0 then reports rs else Suc (reports rs))"
  by (simp_all add: reports_def)

lemma run_test_Cons:
  "run_test f (e # es) s = Some (s', rs') \<longleftrightarrow>
     (\<exists>s1 r rs. f e s = Some (s1, r) \<and> run_test f es s1 = Some (s', rs) \<and> rs' = r # rs)"
  by (auto split: option.splits)

lemma run_test_append:
  "run_test f (es @ fs) s = (case run_test f es s of None \<Rightarrow> None
     | Some (s1, rs) \<Rightarrow> map_option (\<lambda>(s2, rs'). (s2, rs @ rs')) (run_test f fs s1))"
  by (induction es arbitrary: s)
    (auto simp: option.map_comp comp_def case_prod_beta' map_option.id [unfolded id_def]
      split: option.splits)

locale coverage =
  fixes test :: "('e, 's) coverage_test"
    and valid :: "'s \<Rightarrow> bool"
    and room :: "'s \<Rightarrow> nat"
  assumes valid_test: "valid s \<Longrightarrow> test e s = Some (s', r) \<Longrightarrow> valid s'"
    and room_test: "valid s \<Longrightarrow> test e s = Some (s', r) \<Longrightarrow> room s' \<le> room s"
    and room_report: "valid s \<Longrightarrow> test e s = Some (s', r) \<Longrightarrow> r \<noteq> 0 \<Longrightarrow> room s' < room s"
begin

lemma valid_run: "valid s \<Longrightarrow> run_test test es s = Some (s', rs) \<Longrightarrow> valid s'"
  by (induction es arbitrary: s rs)
    (auto simp: run_test_Cons simp del: run_test.simps(2) dest: valid_test)

lemma reports_room:
  "valid s \<Longrightarrow> run_test test es s = Some (s', rs) \<Longrightarrow> reports rs + room s' \<le> room s"
proof (induction es arbitrary: s rs)
  case (Cons e es)
  then obtain s1 r qs where st: "test e s = Some (s1, r)"
    and run: "run_test test es s1 = Some (s', qs)" and rs: "rs = r # qs"
    by (auto simp only: run_test_Cons)
  have "reports qs + room s' \<le> room s1"
    using Cons.IH run valid_test [OF Cons.prems(1) st] by blast
  with room_test [OF Cons.prems(1) st] room_report [OF Cons.prems(1) st] rs
  show ?case by (cases "r = 0") (auto simp: not_less)
qed simp

lemma reports_bounded:
  "valid s \<Longrightarrow> run_test test es s = Some (s', rs) \<Longrightarrow> reports rs \<le> room s"
  using reports_room by (meson add_leD1)

end

section \<open>Files\<close>

text \<open>
  The file system the tools see: the bytes of the files that can be opened for reading,
  which paths can be opened for writing, and how many bytes a write to a path can store
  (a short write is a full disk). Opening for writing truncates the file.
\<close>

record fsys =
  files :: "string \<rightharpoonup> u8 list"
  writable :: "string \<Rightarrow> bool"
  capacity :: "string \<Rightarrow> nat"

definition write_file :: "fsys \<Rightarrow> string \<Rightarrow> u8 list \<Rightarrow> fsys \<times> nat" where
  "write_file fs path data = (let w = take (capacity fs path) data in
     (fs\<lparr>files := (files fs)(path \<mapsto> w)\<rparr>, length w))"

end
