(* ===== verification/Branch_Coverage.thy ===== *)
theory Branch_Coverage
  imports Bitmap
begin

text \<open>
  The branch coverage of the solver, \<^verbatim>\<open>src/solver/branch_coverage.c\<close>: which branches
  of a trace are worth a query. The file has three versions of
  \<^verbatim>\<open>is_interesting_branch\<close> (QSYM, AFL, FUZZOLIC), chosen by a macro; all three are
  modelled, with the code of the sections the preprocessor keeps. The size
  \<^verbatim>\<open>BRANCH_BITMAP_SIZE\<close> is defined by the tracer and is the parameter \<open>N\<close>; the XXH32
  digest (seed 0) of a byte string is the parameter \<open>xxh\<close>; the order in which GLib
  enumerates the keys of a hash table is the parameter \<open>order\<close>.
\<close>

section \<open>State\<close>

record coverage_state =
  branch_bitmap :: bitmap
  branch_neg_bitmap :: bitmap
  context_bitmap :: bitmap
  branch_alt_bitmap :: bitmap
  last_branch_hash :: u64
  last_branch_inv_idx :: nat
  last_branch_is_interesting :: int
  visited_branches :: "u64 list"

definition initial_coverage :: "nat \<Rightarrow> coverage_state" where
  "initial_coverage N = \<lparr>branch_bitmap = replicate N 0, branch_neg_bitmap = replicate N 0,
     context_bitmap = replicate N 0, branch_alt_bitmap = replicate N 0, last_branch_hash = 0,
     last_branch_inv_idx = 0, last_branch_is_interesting = 0, visited_branches = []\<rparr>"

record config =
  branch_bitmap_path :: string
  branch_alt_bitmap_path :: "string option"
  context_bitmap_path :: string

definition count_class_binary :: "nat \<Rightarrow> u8 option" where
  "count_class_binary n =
    (if n = 0 then Some 0 else if n = 1 then Some 1 else if n = 2 then Some 2
     else if n = 3 then Some 4 else if n \<le> 7 then Some 8 else if n \<le> 15 then Some 16
     else if n \<le> 31 then Some 32 else if n \<le> 127 then Some 64 else if n \<le> 256 then Some 128
     else None)"

section \<open>Saving and loading\<close>

text \<open>The two functions as the QSYM version builds them, with the context bitmap.\<close>

definition load_bitmap :: "fsys \<Rightarrow> string \<Rightarrow> nat \<Rightarrow> bitmap" where
  "load_bitmap fs path n = (case files fs path of None \<Rightarrow> replicate n 0
     | Some content \<Rightarrow> let r = take n content in
         if length r \<noteq> n then replicate n 0 else r)"

definition load_bitmaps :: "nat \<Rightarrow> config \<Rightarrow> fsys \<Rightarrow> coverage_state \<Rightarrow> coverage_state" where
  "load_bitmaps N cfg fs s =
    (let s = s\<lparr>branch_bitmap := load_bitmap fs (branch_bitmap_path cfg) N\<rparr>;
         s = (if branch_alt_bitmap_path cfg \<noteq> None
              then s\<lparr>branch_alt_bitmap := load_bitmap fs (branch_bitmap_path cfg) N\<rparr> else s)
     in s\<lparr>context_bitmap := load_bitmap fs (context_bitmap_path cfg) N\<rparr>)"

text \<open>\<^verbatim>\<open>fopen\<close> is not checked when saving: a path that cannot be written is \<open>None\<close>.\<close>

definition save_bitmap :: "string \<Rightarrow> bitmap \<Rightarrow> fsys \<Rightarrow> fsys option" where
  "save_bitmap path data fs =
    (if writable fs path then Some (fst (write_file fs path data)) else None)"

definition save_bitmaps :: "config \<Rightarrow> coverage_state \<Rightarrow> fsys \<Rightarrow> fsys option" where
  "save_bitmaps cfg s fs =
    Option.bind (save_bitmap (branch_bitmap_path cfg) (branch_bitmap s) fs) (\<lambda>fs.
    Option.bind (if branch_alt_bitmap_path cfg \<noteq> None
                 then save_bitmap (branch_bitmap_path cfg) (branch_alt_bitmap s) fs
                 else Some fs)
      (save_bitmap (context_bitmap_path cfg) (context_bitmap s)))"

section \<open>Hashes and indices\<close>

definition ptr_bytes :: "u64 \<Rightarrow> u8 list" where
  "ptr_bytes p = map (\<lambda>i. ucast (drop_bit (8 * i) p)) [0..<8]"

definition hash_pc :: "nat \<Rightarrow> (u8 list \<Rightarrow> u32) \<Rightarrow> u64 \<Rightarrow> u8 \<Rightarrow> u64" where
  "hash_pc N xxh pc taken =
    (let taken = (if taken \<noteq> 0 then 1 else taken)
     in of_nat (unat (xxh (ptr_bytes pc @ [taken])) mod N))"

definition get_index :: "nat \<Rightarrow> coverage_state \<Rightarrow> u64 \<Rightarrow> nat" where
  "get_index N s h = unat (drop_bit 1 (last_branch_hash s) XOR h) mod N"

section \<open>The QSYM version\<close>

definition is_power_of_two :: "u8 \<Rightarrow> bool" where
  "is_power_of_two x \<longleftrightarrow> uint x AND (uint x - 1) = 0"

definition context_hash :: "nat \<Rightarrow> (u8 list \<Rightarrow> u32) \<Rightarrow> u64 \<Rightarrow> u64 \<Rightarrow> nat" where
  "context_hash N xxh prev_h h = unat (xxh (ptr_bytes prev_h @ ptr_bytes h)) mod (N * 8)"

definition mark_context ::
    "nat \<Rightarrow> (u8 list \<Rightarrow> u32) \<Rightarrow> u64 \<Rightarrow> u64 \<Rightarrow> bitmap \<times> int \<Rightarrow> bitmap \<times> int" where
  "mark_context N xxh h prev_h = (\<lambda>(bm, interesting).
     let hash = context_hash N xxh prev_h h; idx = hash div 8; msk = push_bit (hash mod 8) 1 in
     if bm ! idx AND msk = 0 then (or_at bm idx msk, 1) else (bm, interesting))"

definition is_interesting_context ::
    "nat \<Rightarrow> (u8 list \<Rightarrow> u32) \<Rightarrow> (u64 list \<Rightarrow> u64 list) \<Rightarrow> u64 \<Rightarrow> u8 \<Rightarrow>
     coverage_state \<Rightarrow> coverage_state \<times> int" where
  "is_interesting_context N xxh order h bits s =
    (if \<not> is_power_of_two bits then (s, 0)
     else (case fold (mark_context N xxh h) (order (visited_branches s)) (context_bitmap s, 0)
       of (bm, interesting) \<Rightarrow>
         (s\<lparr>context_bitmap := bm,
            visited_branches := (if bits = 0 then List.insert h (visited_branches s)
                                 else visited_branches s)\<rparr>, interesting)))"

definition add_neg :: "nat \<Rightarrow> u8 \<Rightarrow> coverage_state \<Rightarrow> coverage_state" where
  "add_neg i d s = s\<lparr>branch_neg_bitmap := (branch_neg_bitmap s)[i := branch_neg_bitmap s ! i + d]\<rparr>"

definition or_branch :: "nat \<Rightarrow> coverage_state \<Rightarrow> coverage_state" where
  "or_branch i s = s\<lparr>branch_bitmap := or_at (branch_bitmap s) i (branch_neg_bitmap s ! i)\<rparr>"

definition is_interesting_branch_qsym ::
    "nat \<Rightarrow> (u8 list \<Rightarrow> u32) \<Rightarrow> (u64 list \<Rightarrow> u64 list) \<Rightarrow> u64 \<Rightarrow> u64 \<Rightarrow>
     coverage_state \<Rightarrow> coverage_state \<times> int" where
  "is_interesting_branch_qsym N xxh order pc taken s =
    (let h = hash_pc N xxh pc (ucast taken); idx = get_index N s h;
         (s, new_context) = is_interesting_context N xxh order h (branch_neg_bitmap s ! idx) s;
         s = add_neg idx 1 s;
         (s, ret) =
           (if branch_neg_bitmap s ! idx OR branch_bitmap s ! idx \<noteq> branch_bitmap s ! idx then
              let inv_h = hash_pc N xxh pc (if taken = 0 then 1 else 0);
                  inv_idx = get_index N s inv_h;
                  s = or_branch idx s; s = add_neg inv_idx 1 s; s = or_branch inv_idx s;
                  s = add_neg inv_idx (- 1) s
              in (s, 1)
            else if new_context \<noteq> 0 then (s, 1) else (s, 0))
     in (s\<lparr>last_branch_hash := h, last_branch_is_interesting := ret\<rparr>, ret))"

definition mark_sat_branch :: "coverage_state \<Rightarrow> coverage_state" where
  "mark_sat_branch s = (let i = last_branch_inv_idx s
     in add_neg i (- 1) (or_branch i (add_neg i 1 s)))"

definition is_interesting_memory :: "u64 \<Rightarrow> coverage_state \<Rightarrow> int" where
  "is_interesting_memory addr s = last_branch_is_interesting s"

section \<open>The AFL version\<close>

definition afl_loc :: "nat \<Rightarrow> u64 \<Rightarrow> u64" where
  "afl_loc N loc = (drop_bit 4 loc XOR push_bit 8 loc) AND (of_nat N - 1)"

definition is_interesting_branch_afl ::
    "nat \<Rightarrow> u64 \<Rightarrow> u64 \<Rightarrow> coverage_state \<Rightarrow> (coverage_state \<times> int) option" where
  "is_interesting_branch_afl N prev_loc cur_loc s =
    (if prev_loc > 0x600000 \<or> cur_loc > 0x600000 then Some (s, 0)
     else let idx = unat (afl_loc N cur_loc XOR afl_loc N prev_loc) in
       if length (branch_bitmap s) \<le> idx then None
       else if branch_bitmap s ! idx = 0 then
         Some (s\<lparr>branch_bitmap := (branch_bitmap s)[idx := branch_bitmap s ! idx + 1],
                 last_branch_is_interesting := 1\<rparr>, 1)
       else Some (s\<lparr>last_branch_is_interesting := 0\<rparr>, 0))"

section \<open>The FUZZOLIC version\<close>

text \<open>
  \<^verbatim>\<open>count + 1\<close> is computed as an \<^verbatim>\<open>int\<close>; an index past the table or past the
  bitmap is an access out of bounds.
\<close>

definition is_interesting_branch_fuzzolic ::
    "u16 \<Rightarrow> u16 \<Rightarrow> u16 \<Rightarrow> u16 \<Rightarrow> u64 \<Rightarrow> coverage_state \<Rightarrow> (coverage_state \<times> int) option" where
  "is_interesting_branch_fuzzolic idx count idx_inv count_inv addr s =
    (if length (branch_bitmap s) \<le> unat idx then None
     else case count_class_binary (unat count + 1) of None \<Rightarrow> None
     | Some hit \<Rightarrow> let old = branch_bitmap s ! unat idx in
         if hit OR old \<noteq> old then
           if length (branch_bitmap s) \<le> unat idx_inv then None else
           let r = (if addr < 0x10000000 \<and> old = 0 then 2 else 1) in
           map_option (\<lambda>hit_inv.
             (s\<lparr>last_branch_is_interesting := r,
                branch_bitmap := or_at (or_at (branch_bitmap s) (unat idx) hit)
                                   (unat idx_inv) hit_inv\<rparr>, r))
             (count_class_binary (unat count_inv + 1))
         else Some (s\<lparr>last_branch_is_interesting := 0\<rparr>, 0))"

end
