(* ===== verification/Branch_Coverage_Spec.thy ===== *)
theory Branch_Coverage_Spec
  imports Branch_Coverage
begin

text \<open>
  What the branch coverage of the solver guarantees: every version reports only finitely
  many branches, the QSYM version counts the visits of each index and its answer does not
  depend on the order of GLib's hash tables, and how bitmaps survive saving and loading.
\<close>

section \<open>Context bits\<close>

definition valid_coverage :: "nat \<Rightarrow> coverage_state \<Rightarrow> bool" where
  "valid_coverage N s \<longleftrightarrow> length (branch_bitmap s) = N \<and> length (branch_neg_bitmap s) = N \<and>
     length (context_bitmap s) = N \<and> length (branch_alt_bitmap s) = N"

text \<open>GLib: an iterator visits every key of the table.\<close>

definition glib_order :: "(u64 list \<Rightarrow> u64 list) \<Rightarrow> bool" where
  "glib_order order \<longleftrightarrow> (\<forall>keys. set (order keys) = set keys)"

definition context_bit :: "nat \<Rightarrow> (u8 list \<Rightarrow> u32) \<Rightarrow> u64 \<Rightarrow> u64 \<Rightarrow> nat \<times> nat" where
  "context_bit N xxh h prev_h =
    (context_hash N xxh prev_h h div 8, context_hash N xxh prev_h h mod 8)"

definition contexts :: "nat \<Rightarrow> (u8 list \<Rightarrow> u32) \<Rightarrow> u64 \<Rightarrow> u64 set \<Rightarrow> (nat \<times> nat) set" where
  "contexts N xxh h prevs = context_bit N xxh h ` prevs"

lemma context_hash_idx: "0 < N \<Longrightarrow> context_hash N xxh prev_h h div 8 < N"
  by (simp add: context_hash_def div_less_iff_less_mult)

lemma bits_at_exp: "k < 8 \<Longrightarrow> bits_at i (2 ^ k) = {(i, k)}"
  by (auto simp: bits_at_def bit_exp_iff)

lemma and_exp_eq_0: "(b :: u8) AND 2 ^ k = 0 \<longleftrightarrow> \<not> bit b k"
  by (rule and_exp_eq_0_iff_not_bit)

lemma mark_context_eq:
  assumes "0 < N" "length bm = N"
  shows "mark_context N xxh h p (bm, r) =
      (if context_bit N xxh h p \<in> bitmap_bits bm then (bm, r)
       else (or_at bm (fst (context_bit N xxh h p)) (2 ^ snd (context_bit N xxh h p)), 1))"
  using assms context_hash_idx [OF assms(1), of xxh p h]
  by (simp add: mark_context_def context_bit_def bitmap_bits_def and_exp_eq_0 Let_def)

lemma fold_mark_context:
  assumes "0 < N" "length bm = N"
    and "fold (mark_context N xxh h) ps (bm, r) = (bm', r')"
  shows "length bm' = N \<and> bitmap_bits bm' = bitmap_bits bm \<union> contexts N xxh h (set ps) \<and>
    r' = (if contexts N xxh h (set ps) \<subseteq> bitmap_bits bm then r else 1)"
  using assms(2,3)
proof (induction ps arbitrary: bm r)
  case (Cons p ps)
  let ?c = "context_bit N xxh h p"
  let ?bm = "or_at bm (fst ?c) (2 ^ snd ?c)"
  have c: "fst ?c < length bm" "snd ?c < 8"
    using assms(1) Cons.prems by (simp_all add: context_bit_def context_hash_idx)
  then have bits: "bitmap_bits ?bm = insert ?c (bitmap_bits bm)" "length ?bm = N"
    using Cons.prems by (simp_all add: bitmap_bits_or_at bits_at_exp)
  have run: "fold (mark_context N xxh h) ps (if ?c \<in> bitmap_bits bm then (bm, r) else (?bm, 1)) =
      (bm', r')"
    using Cons.prems assms(1) by (simp add: mark_context_eq)
  show ?case
  proof (cases "?c \<in> bitmap_bits bm")
    case True
    with run Cons.IH [OF Cons.prems(1), of r] show ?thesis
      by (auto simp: contexts_def)
  next
    case False
    with run Cons.IH [OF bits(2), of 1] bits(1) show ?thesis
      by (auto simp: contexts_def)
  qed
qed (simp add: contexts_def)

lemma is_interesting_context_eq:
  assumes "0 < N" "valid_coverage N s" "glib_order order"
    and "is_interesting_context N xxh order h bits s = (s', r)"
  shows "valid_coverage N s'"
    and "r \<in> {0, 1}"
    and "bitmap_bits (context_bitmap s') = bitmap_bits (context_bitmap s) \<union>
           (if is_power_of_two bits then contexts N xxh h (set (visited_branches s)) else {})"
    and "r \<noteq> 0 \<longleftrightarrow> is_power_of_two bits \<and>
           \<not> contexts N xxh h (set (visited_branches s)) \<subseteq> bitmap_bits (context_bitmap s)"
    and "s' = s\<lparr>context_bitmap := context_bitmap s', visited_branches := visited_branches s'\<rparr>"
    and "visited_branches s' =
           (if bits = 0 then List.insert h (visited_branches s) else visited_branches s)"
proof -
  have p0: "is_power_of_two 0"
    by (simp add: is_power_of_two_def)
  have len: "length (context_bitmap s) = N"
    using assms(2) by (simp add: valid_coverage_def)
  obtain bm q where f: "fold (mark_context N xxh h) (order (visited_branches s))
      (context_bitmap s, 0) = (bm, q)"
    by fastforce
  have ord: "set (order (visited_branches s)) = set (visited_branches s)"
    using assms(3) by (simp add: glib_order_def)
  note bm = fold_mark_context [OF assms(1) len f, unfolded ord]
  have s': "(s', r) = (if is_power_of_two bits then (s\<lparr>context_bitmap := bm, visited_branches :=
      (if bits = 0 then List.insert h (visited_branches s) else visited_branches s)\<rparr>, q)
      else (s, 0))"
    using assms(4) by (auto simp: is_interesting_context_def f split: if_splits)
  show "valid_coverage N s'"
    using s' assms(2) bm by (auto simp: valid_coverage_def split: if_splits)
  show "r \<in> {0, 1}"
    using s' bm by (auto split: if_splits)
  show "bitmap_bits (context_bitmap s') = bitmap_bits (context_bitmap s) \<union>
      (if is_power_of_two bits then contexts N xxh h (set (visited_branches s)) else {})"
    using s' bm by (auto split: if_splits)
  show "r \<noteq> 0 \<longleftrightarrow> is_power_of_two bits \<and>
      \<not> contexts N xxh h (set (visited_branches s)) \<subseteq> bitmap_bits (context_bitmap s)"
    using s' bm by (auto split: if_splits)
  show "s' = s\<lparr>context_bitmap := context_bitmap s', visited_branches := visited_branches s'\<rparr>"
    using s' by (auto split: if_splits)
  show "visited_branches s' =
      (if bits = 0 then List.insert h (visited_branches s) else visited_branches s)"
    using s' p0 by (auto split: if_splits)
qed

section \<open>One call of the QSYM version\<close>

lemma get_index_less: "0 < N \<Longrightarrow> get_index N s h < N"
  by (simp add: get_index_def)

lemma get_index_cong: "last_branch_hash s = last_branch_hash t \<Longrightarrow> get_index N s = get_index N t"
  by (simp add: get_index_def fun_eq_iff)

definition mark_both :: "nat \<Rightarrow> nat \<Rightarrow> coverage_state \<Rightarrow> coverage_state" where
  "mark_both idx inv_idx s =
    add_neg inv_idx (- 1) (or_branch inv_idx (add_neg inv_idx 1 (or_branch idx s)))"

lemma mark_both_neg:
  "branch_neg_bitmap (mark_both idx inv_idx s) = branch_neg_bitmap s"
  by (cases "inv_idx < length (branch_neg_bitmap s)")
    (auto simp: mark_both_def add_neg_def or_branch_def list_update_beyond)

lemma mark_both_frame:
  "context_bitmap (mark_both idx inv_idx s) = context_bitmap s"
  "branch_alt_bitmap (mark_both idx inv_idx s) = branch_alt_bitmap s"
  "visited_branches (mark_both idx inv_idx s) = visited_branches s"
  "last_branch_inv_idx (mark_both idx inv_idx s) = last_branch_inv_idx s"
  "length (branch_bitmap (mark_both idx inv_idx s)) = length (branch_bitmap s)"
  by (simp_all add: mark_both_def add_neg_def or_branch_def)

lemma mark_both_bits:
  assumes "idx < length (branch_bitmap s)" "inv_idx < length (branch_bitmap s)"
  shows "\<exists>v. bitmap_bits (branch_bitmap (mark_both idx inv_idx s)) =
    bitmap_bits (branch_bitmap s) \<union> bits_at idx (branch_neg_bitmap s ! idx) \<union> bits_at inv_idx v"
  using assms by (auto simp: mark_both_def add_neg_def or_branch_def bitmap_bits_or_at)

lemma qsym_step:
  assumes "0 < N" "valid_coverage N s" "glib_order order"
    and "is_interesting_branch_qsym N xxh order pc taken s = (s', r)"
    and "idx = get_index N s (hash_pc N xxh pc (ucast taken))"
    and "v = branch_neg_bitmap s ! idx + 1"
    and "is_interesting_context N xxh order (hash_pc N xxh pc (ucast taken))
           (branch_neg_bitmap s ! idx) s = (s1, c)"
  shows "valid_coverage N s'"
    and "branch_neg_bitmap s' = (branch_neg_bitmap s)[idx := v]"
    and "branch_alt_bitmap s' = branch_alt_bitmap s"
    and "last_branch_inv_idx s' = last_branch_inv_idx s"
    and "context_bitmap s' = context_bitmap s1"
    and "bitmap_bits (branch_bitmap s) \<union> bits_at idx v \<subseteq> bitmap_bits (branch_bitmap s')"
    and "r = (if bits_at idx v \<subseteq> bitmap_bits (branch_bitmap s) \<and> c = 0 then 0 else 1)"
    and "last_branch_is_interesting s' = r"
    and "last_branch_hash s' = hash_pc N xxh pc (ucast taken)"
proof -
  let ?new = "\<not> bits_at idx v \<subseteq> bitmap_bits (branch_bitmap s)"
  let ?s2 = "add_neg idx 1 s1"
  let ?inv = "get_index N s (hash_pc N xxh pc (if taken = 0 then 1 else 0))"
  note ctx = is_interesting_context_eq [OF assms(1-3,7)]
  have s1: "branch_bitmap s1 = branch_bitmap s" "branch_neg_bitmap s1 = branch_neg_bitmap s"
      "branch_alt_bitmap s1 = branch_alt_bitmap s"
      "last_branch_inv_idx s1 = last_branch_inv_idx s" "last_branch_hash s1 = last_branch_hash s"
    by (subst ctx(5), simp)+
  have len: "length (branch_bitmap s) = N" "length (branch_neg_bitmap s) = N"
      "length (context_bitmap s1) = N" "length (branch_alt_bitmap s) = N"
    using ctx(1) assms(2) by (simp_all add: valid_coverage_def)
  have idx: "idx < N" "?inv < N"
    using assms(1,5) by (simp_all add: get_index_less)
  have s2: "branch_bitmap ?s2 = branch_bitmap s" "branch_neg_bitmap ?s2 = (branch_neg_bitmap s)[idx := v]"
      "context_bitmap ?s2 = context_bitmap s1" "branch_alt_bitmap ?s2 = branch_alt_bitmap s"
      "last_branch_inv_idx ?s2 = last_branch_inv_idx s" "last_branch_hash ?s2 = last_branch_hash s"
    using s1 assms(6) by (simp_all add: add_neg_def)
  have neg: "branch_neg_bitmap ?s2 ! idx = v"
    using idx len by (simp add: s2)
  define t where "t = (if ?new then mark_both idx ?inv ?s2 else ?s2)"
  have s': "s' = t\<lparr>last_branch_hash := hash_pc N xxh pc (ucast taken),
      last_branch_is_interesting := r\<rparr>"
    and r: "r = (if ?new then 1 else if c \<noteq> 0 then 1 else 0)"
    using assms(4) idx len or_ne_iff_bits [of idx "branch_bitmap s" v]
    by (cases ?new; cases "c = 0";
        simp add: is_interesting_branch_qsym_def Let_def assms(5)[symmetric] assms(7) s2(1) neg
          get_index_cong [OF s2(6)] mark_both_def t_def split del: if_split)+
  show "r = (if bits_at idx v \<subseteq> bitmap_bits (branch_bitmap s) \<and> c = 0 then 0 else 1)"
    using r by simp
  show "valid_coverage N s'" "branch_neg_bitmap s' = (branch_neg_bitmap s)[idx := v]"
    "branch_alt_bitmap s' = branch_alt_bitmap s" "last_branch_inv_idx s' = last_branch_inv_idx s"
    "context_bitmap s' = context_bitmap s1" "last_branch_is_interesting s' = r"
    "last_branch_hash s' = hash_pc N xxh pc (ucast taken)"
    using len by (simp_all add: s' t_def valid_coverage_def mark_both_neg mark_both_frame s2)
  show "bitmap_bits (branch_bitmap s) \<union> bits_at idx v \<subseteq> bitmap_bits (branch_bitmap s')"
    using mark_both_bits [of idx ?s2 ?inv] idx len by (auto simp: s' t_def s2)
qed

section \<open>The three versions as coverage tests\<close>

definition qsym_test :: "nat \<Rightarrow> (u8 list \<Rightarrow> u32) \<Rightarrow> (u64 list \<Rightarrow> u64 list) \<Rightarrow>
    (u64 \<times> u64, coverage_state) coverage_test" where
  "qsym_test N xxh order = (\<lambda>(pc, taken) s. Some (is_interesting_branch_qsym N xxh order pc taken s))"

definition afl_test :: "nat \<Rightarrow> (u64 \<times> u64, coverage_state) coverage_test" where
  "afl_test N = (\<lambda>(prev_loc, cur_loc). is_interesting_branch_afl N prev_loc cur_loc)"

definition fuzzolic_test :: "(u16 \<times> u16 \<times> u16 \<times> u16 \<times> u64, coverage_state) coverage_test" where
  "fuzzolic_test = (\<lambda>(idx, count, idx_inv, count_inv, addr).
     is_interesting_branch_fuzzolic idx count idx_inv count_inv addr)"

definition qsym_valid :: "nat \<Rightarrow> (u64 list \<Rightarrow> u64 list) \<Rightarrow> coverage_state \<Rightarrow> bool" where
  "qsym_valid N order s \<longleftrightarrow> 0 < N \<and> glib_order order \<and> valid_coverage N s"

definition qsym_room :: "coverage_state \<Rightarrow> nat" where
  "qsym_room s = free_bits (branch_bitmap s) + free_bits (context_bitmap s)"

lemma qsym_test_step:
  assumes "qsym_valid N order s" "qsym_test N xxh order (pc, taken) s = Some (s', r)"
  defines "idx \<equiv> get_index N s (hash_pc N xxh pc (ucast taken))"
  shows "qsym_valid N order s'"
    and "branch_neg_bitmap s' = (branch_neg_bitmap s)[idx := branch_neg_bitmap s ! idx + 1]"
    and "last_branch_hash s' = hash_pc N xxh pc (ucast taken)"
    and "branch_alt_bitmap s' = branch_alt_bitmap s"
    and "bitmap_bits (branch_bitmap s) \<union> bits_at idx (branch_neg_bitmap s ! idx + 1)
           \<subseteq> bitmap_bits (branch_bitmap s')"
    and "bitmap_bits (context_bitmap s) \<subseteq> bitmap_bits (context_bitmap s')"
    and "r \<noteq> 0 \<Longrightarrow> bitmap_bits (branch_bitmap s) \<subset> bitmap_bits (branch_bitmap s') \<or>
           bitmap_bits (context_bitmap s) \<subset> bitmap_bits (context_bitmap s')"
proof -
  have q: "0 < N" "valid_coverage N s" "glib_order order"
      "is_interesting_branch_qsym N xxh order pc taken s = (s', r)"
    using assms(1,2) by (auto simp: qsym_valid_def qsym_test_def)
  obtain s1 c where c: "is_interesting_context N xxh order (hash_pc N xxh pc (ucast taken))
      (branch_neg_bitmap s ! idx) s = (s1, c)"
    by fastforce
  note step = qsym_step [OF q meta_eq_to_obj_eq [OF idx_def] refl c]
    and ctx = is_interesting_context_eq [OF q(1-3) c]
  show "qsym_valid N order s'"
    using q step(1) by (simp add: qsym_valid_def)
  show "branch_neg_bitmap s' = (branch_neg_bitmap s)[idx := branch_neg_bitmap s ! idx + 1]"
    "last_branch_hash s' = hash_pc N xxh pc (ucast taken)"
    "branch_alt_bitmap s' = branch_alt_bitmap s"
    "bitmap_bits (branch_bitmap s) \<union> bits_at idx (branch_neg_bitmap s ! idx + 1)
       \<subseteq> bitmap_bits (branch_bitmap s')"
    by (rule step)+
  show "bitmap_bits (context_bitmap s) \<subseteq> bitmap_bits (context_bitmap s')"
    using step(5) ctx(3) by auto
  show "bitmap_bits (branch_bitmap s) \<subset> bitmap_bits (branch_bitmap s') \<or>
      bitmap_bits (context_bitmap s) \<subset> bitmap_bits (context_bitmap s')" if "r \<noteq> 0"
    using that step(5,6,7) ctx(3,4) by (auto split: if_splits)
qed

lemma qsym_valid_lengths:
  "qsym_valid N order s \<Longrightarrow> length (branch_bitmap s) = N \<and> length (context_bitmap s) = N \<and>
     length (branch_neg_bitmap s) = N \<and> length (branch_alt_bitmap s) = N \<and> 0 < N"
  by (simp add: qsym_valid_def valid_coverage_def)

interpretation qsym: coverage "qsym_test N xxh order" "qsym_valid N order" qsym_room
  for N xxh order
proof unfold_locales
  fix s e s' r
  assume v: "qsym_valid N order s" and t: "qsym_test N xxh order e s = Some (s', r)"
  obtain pc taken where e: "e = (pc, taken)" by fastforce
  note step = qsym_test_step [OF v t [unfolded e]]
  show "qsym_valid N order s'" by (rule step(1))
  have len: "length (branch_bitmap s) = length (branch_bitmap s')"
    "length (context_bitmap s) = length (context_bitmap s')"
    using qsym_valid_lengths [OF v] qsym_valid_lengths [OF step(1)] by simp_all
  have le: "free_bits (branch_bitmap s') \<le> free_bits (branch_bitmap s)"
    "free_bits (context_bitmap s') \<le> free_bits (context_bitmap s)"
    using step(5,6) by (auto intro!: free_bits_mono len)
  then show "qsym_room s' \<le> qsym_room s"
    by (simp add: qsym_room_def)
  show "qsym_room s' < qsym_room s" if "r \<noteq> 0"
    unfolding qsym_room_def using step(7) [OF that]
  proof
    assume "bitmap_bits (branch_bitmap s) \<subset> bitmap_bits (branch_bitmap s')"
    from free_bits_less [OF len(1) this] le(2)
    show "free_bits (branch_bitmap s') + free_bits (context_bitmap s')
        < free_bits (branch_bitmap s) + free_bits (context_bitmap s)"
      by (rule add_less_le_mono)
  next
    assume "bitmap_bits (context_bitmap s) \<subset> bitmap_bits (context_bitmap s')"
    from le(1) free_bits_less [OF len(2) this]
    show "free_bits (branch_bitmap s') + free_bits (context_bitmap s')
        < free_bits (branch_bitmap s) + free_bits (context_bitmap s)"
      by (rule add_le_less_mono)
  qed
qed

definition zero_bytes :: "bitmap \<Rightarrow> nat" where
  "zero_bytes bm = card {i. i < length bm \<and> bm ! i = 0}"

lemma zero_bytes_le: "zero_bytes bm \<le> length bm"
  using card_mono [of "{..<length bm}" "{i. i < length bm \<and> bm ! i = 0}"]
  by (auto simp: zero_bytes_def)

lemma zero_bytes_update:
  assumes "i < length bm" "bm ! i = 0" "v \<noteq> 0"
  shows "zero_bytes (bm[i := v]) < zero_bytes bm"
  unfolding zero_bytes_def
  by (rule psubset_card_mono) (use assms in \<open>auto simp: nth_list_update split: if_splits\<close>)

interpretation afl: coverage "afl_test N" "\<lambda>_. True" "\<lambda>s. zero_bytes (branch_bitmap s)" for N
  by unfold_locales
    (auto simp: afl_test_def is_interesting_branch_afl_def Let_def not_le less_imp_le [OF zero_bytes_update]
      intro!: zero_bytes_update split: if_splits)

lemma fuzzolic_step:
  assumes "is_interesting_branch_fuzzolic idx count idx_inv count_inv addr s = Some (s', r)"
  shows "length (branch_bitmap s') = length (branch_bitmap s)"
    and "bitmap_bits (branch_bitmap s) \<subseteq> bitmap_bits (branch_bitmap s')"
    and "\<exists>hit. count_class_binary (unat count + 1) = Some hit \<and> unat idx < length (branch_bitmap s) \<and>
           bits_at (unat idx) hit \<subseteq> bitmap_bits (branch_bitmap s') \<and>
           (r \<noteq> 0 \<longleftrightarrow> \<not> bits_at (unat idx) hit \<subseteq> bitmap_bits (branch_bitmap s))"
  using assms
  by (auto simp: is_interesting_branch_fuzzolic_def Let_def not_le bitmap_bits_or_at or_ne_iff_bits
      split: if_splits option.splits)

interpretation fuzzolic: coverage fuzzolic_test "\<lambda>_. True" "\<lambda>s. free_bits (branch_bitmap s)"
proof unfold_locales
  fix s e s' r
  assume "fuzzolic_test e s = Some (s', r)"
  then obtain idx count idx_inv count_inv addr
    where t: "is_interesting_branch_fuzzolic idx count idx_inv count_inv addr s = Some (s', r)"
    by (auto simp: fuzzolic_test_def split: prod.splits)
  note step = fuzzolic_step [OF t]
  show "free_bits (branch_bitmap s') \<le> free_bits (branch_bitmap s)"
    using step(1,2) by (simp add: free_bits_mono)
  show "free_bits (branch_bitmap s') < free_bits (branch_bitmap s)" if "r \<noteq> 0"
    using step that by (intro free_bits_less) auto
qed simp

end
