(* ===== verification/Coverage_Properties.thy ===== *)
theory Coverage_Properties
  imports Branch_Coverage_Spec
begin

text \<open>
  The properties of the solver's branch coverage, over the interpretations of the
  coverage interface in \<^verbatim>\<open>Branch_Coverage_Spec\<close>.
\<close>

lemmas coverage_eval = initial_coverage_def valid_coverage_def glib_order_def qsym_valid_def

lemma initial_valid: "0 < N \<Longrightarrow> glib_order order \<Longrightarrow> qsym_valid N order (initial_coverage N)"
  by (simp add: coverage_eval)

lemma glib_order_id: "glib_order (\<lambda>keys. keys)"
  by (simp add: glib_order_def)

lemma qsym_run_total:
  assumes "qsym_valid N order s"
  obtains s' rs where "run_test (qsym_test N xxh order) es s = Some (s', rs)"
    "bitmap_bits (branch_bitmap s) \<subseteq> bitmap_bits (branch_bitmap s')"
proof -
  have "\<exists>s' rs. run_test (qsym_test N xxh order) es s = Some (s', rs) \<and>
      bitmap_bits (branch_bitmap s) \<subseteq> bitmap_bits (branch_bitmap s')"
    using assms
  proof (induction es arbitrary: s)
    case (Cons e es)
    obtain pc taken where e: "e = (pc, taken)" by fastforce
    obtain s1 r where t: "qsym_test N xxh order (pc, taken) s = Some (s1, r)"
      by (simp add: qsym_test_def) (metis surj_pair)
    note step = qsym_test_step [OF Cons.prems t]
    from Cons.IH [OF step(1)] step(5) t e show ?case
      by fastforce
  qed simp
  with that show thesis by blast
qed

section \<open>Finitely many queries\<close>

text \<open>
  C28. The QSYM version: over any sequence of branches, from any state with bitmaps of
  \<open>N\<close> bytes, \<^verbatim>\<open>is_interesting_branch\<close> reports at most \<open>16 * N\<close> branches, because
  each report sets a bit of the branch bitmap or of the context bitmap that was clear and
  no call clears one; the test always returns.
\<close>

theorem qsym_reports_bounded:
  assumes "0 < N" "glib_order order" "valid_coverage N s"
  shows "\<exists>s' rs. run_test (qsym_test N xxh order) es s = Some (s', rs) \<and> valid_coverage N s' \<and>
    bitmap_bits (branch_bitmap s) \<subseteq> bitmap_bits (branch_bitmap s') \<and> reports rs \<le> 16 * N"
proof -
  have v: "qsym_valid N order s"
    using assms by (simp add: qsym_valid_def)
  from qsym_run_total [OF v]
  obtain s' rs where run: "run_test (qsym_test N xxh order) es s = Some (s', rs)"
    and bits: "bitmap_bits (branch_bitmap s) \<subseteq> bitmap_bits (branch_bitmap s')" .
  have "reports rs \<le> free_bits (branch_bitmap s) + free_bits (context_bitmap s)"
    using qsym.reports_bounded [OF v run] by (simp add: qsym_room_def)
  also have "\<dots> \<le> 16 * N"
    using free_bits_le [of "branch_bitmap s"] free_bits_le [of "context_bitmap s"] assms(3)
    by (simp add: valid_coverage_def)
  finally show ?thesis
    using run bits qsym.valid_run [OF v run] by (auto simp: qsym_valid_def)
qed

theorem qsym_reports_bounded_witness:
  "\<exists>s' rs. run_test (qsym_test 4 (\<lambda>bytes. of_nat (length bytes)) (\<lambda>keys. keys))
      [(16, 1), (32, 0), (16, 1)] (initial_coverage 4) = Some (s', rs) \<and> valid_coverage 4 s' \<and>
    bitmap_bits (branch_bitmap (initial_coverage 4)) \<subseteq> bitmap_bits (branch_bitmap s') \<and>
    reports rs \<le> 16 * 4"
  by (rule qsym_reports_bounded) (simp_all add: coverage_eval)

section \<open>Visit counts\<close>

text \<open>The indices a sequence of branches visits, from the hash of the branch before it.\<close>

fun visited_indices :: "nat \<Rightarrow> (u8 list \<Rightarrow> u32) \<Rightarrow> u64 \<Rightarrow> (u64 \<times> u64) list \<Rightarrow> nat list" where
  "visited_indices N xxh last_h [] = []"
| "visited_indices N xxh last_h ((pc, taken) # es) =
    (let h = hash_pc N xxh pc (ucast taken)
     in (unat (drop_bit 1 last_h XOR h) mod N) # visited_indices N xxh h es)"

text \<open>
  C29. In the QSYM version the negated bitmap counts, modulo 256, how often each index was
  visited, although every new branch also increments and decrements the entry of the
  inverse direction; and the branch bitmap always contains the bits of every count, an
  invariant of all calls.
\<close>

theorem qsym_counts_visits:
  assumes "0 < N" "glib_order order" "valid_coverage N s"
    and "run_test (qsym_test N xxh order) es s = Some (s', rs)" "i < N"
    and "branch_neg_bitmap s ! i OR branch_bitmap s ! i = branch_bitmap s ! i"
  shows "branch_neg_bitmap s' ! i = branch_neg_bitmap s ! i +
      of_nat (count_list (visited_indices N xxh (last_branch_hash s) es) i) \<and>
    branch_neg_bitmap s' ! i OR branch_bitmap s' ! i = branch_bitmap s' ! i"
proof -
  have "qsym_valid N order s"
    using assms by (simp add: qsym_valid_def)
  from this assms(4,6) show ?thesis
  proof (induction es arbitrary: s rs)
    case (Cons e es)
    obtain pc taken where e: "e = (pc, taken)" by fastforce
    obtain s1 r qs where t: "qsym_test N xxh order (pc, taken) s = Some (s1, r)"
      and run: "run_test (qsym_test N xxh order) es s1 = Some (s', qs)"
      using Cons.prems(2) unfolding run_test_Cons e by blast
    let ?h = "hash_pc N xxh pc (ucast taken)"
    let ?idx = "get_index N s ?h"
    note step = qsym_test_step [OF Cons.prems(1) t]
    have len: "i < length (branch_neg_bitmap s)" "i < length (branch_bitmap s)"
      "i < length (branch_bitmap s1)"
      using qsym_valid_lengths [OF Cons.prems(1)] qsym_valid_lengths [OF step(1)] assms(5) by auto
    have neg: "branch_neg_bitmap s1 ! i =
        branch_neg_bitmap s ! i + (if ?idx = i then 1 else 0)"
      using step(2) len by (auto simp: nth_list_update)
    have "bits_at i (branch_neg_bitmap s1 ! i) \<subseteq> bitmap_bits (branch_bitmap s1)"
      using step(5) neg Cons.prems(3) or_ne_iff_bits [OF len(2), of "branch_neg_bitmap s ! i"]
      by (auto split: if_splits)
    then have "branch_neg_bitmap s1 ! i OR branch_bitmap s1 ! i = branch_bitmap s1 ! i"
      using or_ne_iff_bits [OF len(3)] by blast
    from Cons.IH [OF step(1) run this] show ?case
      by (auto simp: e neg step(3) get_index_def Let_def)
  qed simp
qed

theorem qsym_counts_visits_witness:
  "branch_neg_bitmap (fst (the (run_test (qsym_test 1 (\<lambda>_. 0) (\<lambda>keys. keys)) [(16, 1), (32, 0)]
     (initial_coverage 1)))) ! 0 = 2"
proof -
  obtain s' rs where run: "run_test (qsym_test 1 (\<lambda>_. 0) (\<lambda>keys. keys)) [(16, 1), (32, 0)]
      (initial_coverage 1) = Some (s', rs)"
    using qsym_run_total [OF initial_valid [OF _ glib_order_id]] by (metis zero_less_one)
  have "branch_neg_bitmap s' ! 0 = 2"
    using qsym_counts_visits [OF _ glib_order_id _ run, of 0]
    by (simp add: coverage_eval hash_pc_def Let_def)
  with run show ?thesis by simp
qed

section \<open>The order of hash tables does not matter\<close>

lemma is_interesting_context_order:
  assumes "0 < N" "valid_coverage N s" "glib_order o1" "glib_order o2"
  shows "is_interesting_context N xxh o1 h bits s = is_interesting_context N xxh o2 h bits s"
proof -
  obtain s1 r1 s2 r2 where c1: "is_interesting_context N xxh o1 h bits s = (s1, r1)"
    and c2: "is_interesting_context N xxh o2 h bits s = (s2, r2)"
    by fastforce
  note i1 = is_interesting_context_eq [OF assms(1-3) c1]
    and i2 = is_interesting_context_eq [OF assms(1,2,4) c2]
  have "context_bitmap s1 = context_bitmap s2"
    using i1(1,3) i2(1,3) by (intro bitmap_eqI) (simp_all add: valid_coverage_def)
  then have "s1 = s2"
    using i1(5,6) i2(5,6) by metis
  moreover have "r1 = r2"
    using i1(2,4) i2(2,4) by auto
  ultimately show ?thesis
    using c1 c2 by simp
qed

text \<open>
  The answers and the states of the QSYM version do not depend on the order in which
  GLib enumerates the visited branches: two runs over the same branches whose tables are
  enumerated in different orders agree completely.
\<close>

theorem qsym_order_irrelevant:
  assumes "0 < N" "valid_coverage N s" "glib_order o1" "glib_order o2"
  shows "run_test (qsym_test N xxh o1) es s = run_test (qsym_test N xxh o2) es s"
proof -
  have "qsym_valid N o1 s"
    using assms by (simp add: qsym_valid_def)
  then show ?thesis
  proof (induction es arbitrary: s)
    case (Cons e es)
    obtain pc taken where e: "e = (pc, taken)" by fastforce
    have same: "qsym_test N xxh o1 (pc, taken) s = qsym_test N xxh o2 (pc, taken) s"
      using Cons.prems assms(4)
      by (simp add: qsym_test_def qsym_valid_def is_interesting_branch_qsym_def
          is_interesting_context_order [of N s o1 o2])
    obtain s1 r where t: "qsym_test N xxh o1 (pc, taken) s = Some (s1, r)"
      by (simp add: qsym_test_def) (metis surj_pair)
    from Cons.IH [OF qsym_test_step(1) [OF Cons.prems t]] t same [unfolded t, symmetric] e
    show ?case by simp
  qed simp
qed

theorem qsym_order_irrelevant_witness:
  "run_test (qsym_test 4 (\<lambda>_. 0) rev) [(16, 1), (32, 0)] (initial_coverage 4) =
   run_test (qsym_test 4 (\<lambda>_. 0) (\<lambda>keys. keys)) [(16, 1), (32, 0)] (initial_coverage 4)"
  by (rule qsym_order_irrelevant) (simp_all add: coverage_eval)

section \<open>Saving and loading\<close>

definition storable :: "nat \<Rightarrow> config \<Rightarrow> fsys \<Rightarrow> bool" where
  "storable N cfg fs \<longleftrightarrow> branch_bitmap_path cfg \<noteq> context_bitmap_path cfg \<and>
     writable fs (branch_bitmap_path cfg) \<and> N \<le> capacity fs (branch_bitmap_path cfg) \<and>
     writable fs (context_bitmap_path cfg) \<and> N \<le> capacity fs (context_bitmap_path cfg)"

lemma load_after_write:
  "length data = N \<Longrightarrow> files fs path = Some data \<Longrightarrow> load_bitmap fs path N = data"
  by (simp add: load_bitmap_def)

lemma save_bitmaps_eq:
  assumes "valid_coverage N s" "storable N cfg fs"
  shows "save_bitmaps cfg s fs = Some (fs\<lparr>files := (files fs)(branch_bitmap_path cfg \<mapsto>
      (if branch_alt_bitmap_path cfg = None then branch_bitmap s else branch_alt_bitmap s),
      context_bitmap_path cfg \<mapsto> context_bitmap s)\<rparr>)"
  using assms
  by (cases "branch_alt_bitmap_path cfg")
    (simp_all add: save_bitmaps_def save_bitmap_def write_file_def storable_def
      valid_coverage_def Let_def)

text \<open>
  Without an alternative bitmap, saving and loading is a round trip: when the two
  files can be written in full, the next process starts with the branch and the context
  bitmap the previous one ended with.
\<close>

theorem save_load_round_trip:
  assumes "valid_coverage N s" "storable N cfg fs" "branch_alt_bitmap_path cfg = None"
  shows "\<exists>fs'. save_bitmaps cfg s fs = Some fs' \<and>
    load_bitmaps N cfg fs' (initial_coverage N) =
      (initial_coverage N)\<lparr>branch_bitmap := branch_bitmap s, context_bitmap := context_bitmap s\<rparr>"
proof -
  let ?fs = "fs\<lparr>files := (files fs)(branch_bitmap_path cfg \<mapsto> branch_bitmap s,
      context_bitmap_path cfg \<mapsto> context_bitmap s)\<rparr>"
  have "load_bitmap ?fs (branch_bitmap_path cfg) N = branch_bitmap s"
    "load_bitmap ?fs (context_bitmap_path cfg) N = context_bitmap s"
    using assms(1,2) by (simp_all add: load_after_write storable_def valid_coverage_def)
  with assms(3) save_bitmaps_eq [OF assms(1,2)] show ?thesis
    by (simp add: load_bitmaps_def Let_def)
qed

definition ex_config :: "string option \<Rightarrow> config" where
  "ex_config alt = \<lparr>branch_bitmap_path = ''b'', branch_alt_bitmap_path = alt,
     context_bitmap_path = ''c''\<rparr>"

definition ex_fs :: fsys where
  "ex_fs = \<lparr>files = Map.empty, writable = (\<lambda>_. True), capacity = (\<lambda>_. 65536)\<rparr>"

lemmas ex_store = ex_config_def ex_fs_def storable_def

theorem save_load_round_trip_witness:
  "\<exists>fs'. save_bitmaps (ex_config None)
      ((initial_coverage 2)\<lparr>branch_bitmap := [7, 1], context_bitmap := [0, 4]\<rparr>) ex_fs = Some fs' \<and>
    load_bitmaps 2 (ex_config None) fs' (initial_coverage 2) =
      (initial_coverage 2)\<lparr>branch_bitmap := [7, 1], context_bitmap := [0, 4]\<rparr>"
  using save_load_round_trip [of 2 "(initial_coverage 2)\<lparr>branch_bitmap := [7, 1],
      context_bitmap := [0, 4]\<rparr>" "ex_config None" ex_fs]
  by (simp add: coverage_eval ex_store)

lemma load_bitmap_length: "length (load_bitmap fs path N) = N"
  by (auto simp: load_bitmap_def Let_def split: option.splits)

lemma load_bitmaps_valid:
  "0 < N \<Longrightarrow> glib_order order \<Longrightarrow> qsym_valid N order (load_bitmaps N cfg fs (initial_coverage N))"
  by (simp add: coverage_eval load_bitmaps_def Let_def load_bitmap_length)

lemma qsym_run_alt:
  "qsym_valid N order s \<Longrightarrow> run_test (qsym_test N xxh order) es s = Some (s', rs) \<Longrightarrow>
     branch_alt_bitmap s' = branch_alt_bitmap s"
proof (induction es arbitrary: s rs)
  case (Cons e es)
  obtain pc taken where e: "e = (pc, taken)" by fastforce
  obtain s1 r qs where t: "qsym_test N xxh order (pc, taken) s = Some (s1, r)"
    and run: "run_test (qsym_test N xxh order) es s1 = Some (s', qs)"
    using Cons.prems(2) unfolding run_test_Cons e by blast
  note step = qsym_test_step [OF Cons.prems(1) t]
  from Cons.IH [OF step(1) run] step(4) show ?case by simp
qed simp

text \<open>
  With an alternative bitmap configured the coverage of a run is lost: both saving and
  loading use the path of the branch bitmap for the alternative bitmap too, which no other
  code writes, so whatever branches the solver saw between loading and saving, the saved
  file yields the bitmap the solver started with.
\<close>

theorem alt_bitmap_discards_run:
  assumes "0 < N" "glib_order order" "storable N cfg fs" "branch_alt_bitmap_path cfg \<noteq> None"
    and "run_test (qsym_test N xxh order) es (load_bitmaps N cfg fs (initial_coverage N)) =
           Some (s, rs)"
  shows "\<exists>fs'. save_bitmaps cfg s fs = Some fs' \<and>
    load_bitmap fs' (branch_bitmap_path cfg) N = load_bitmap fs (branch_bitmap_path cfg) N"
proof -
  note v = load_bitmaps_valid [OF assms(1,2)]
  have valid: "valid_coverage N s"
    using qsym.valid_run [OF v assms(5)] by (simp add: qsym_valid_def)
  have alt: "branch_alt_bitmap s = load_bitmap fs (branch_bitmap_path cfg) N"
    using qsym_run_alt [OF v assms(5)] assms(4) by (simp add: load_bitmaps_def Let_def)
  show ?thesis
    using save_bitmaps_eq [OF valid assms(3)] assms(3,4)
    by (auto intro!: load_after_write simp: alt storable_def load_bitmap_length)
qed

theorem alt_bitmap_discards_run_witness:
  "\<exists>s fs'. run_test (qsym_test 1 (\<lambda>_. 0) (\<lambda>keys. keys)) [(16, 1)]
      (load_bitmaps 1 (ex_config (Some ''alt'')) ex_fs (initial_coverage 1)) = Some (s, [1]) \<and>
    branch_bitmap s = [3] \<and> save_bitmaps (ex_config (Some ''alt'')) s ex_fs = Some fs' \<and>
    load_bitmap fs' ''b'' 1 = [0]"
proof -
  let ?s0 = "load_bitmaps 1 (ex_config (Some ''alt'')) ex_fs (initial_coverage 1)"
  define s where "s = fst (is_interesting_branch_qsym 1 (\<lambda>_. 0) (\<lambda>keys. keys) 16 1 ?s0)"
  have ev: "run_test (qsym_test 1 (\<lambda>_. 0) (\<lambda>keys. keys)) [(16, 1)] ?s0 = Some (s, [1])"
    "branch_bitmap s = [3]"
    unfolding s_def
    by (simp_all add: qsym_test_def is_interesting_branch_qsym_def load_bitmaps_def
        initial_coverage_def ex_store load_bitmap_def Let_def hash_pc_def get_index_def
        is_interesting_context_def is_power_of_two_def add_neg_def or_branch_def or_at_def)
  with alt_bitmap_discards_run [OF _ glib_order_id _ _ ev(1)] show ?thesis
    by (auto simp: ex_store load_bitmap_def)
qed

section \<open>The AFL version\<close>

definition afl_index :: "nat \<Rightarrow> u64 \<Rightarrow> u64 \<Rightarrow> nat" where
  "afl_index N prev_loc cur_loc = unat (afl_loc N cur_loc XOR afl_loc N prev_loc)"

text \<open>The abstract answer: an edge of the main program counts when its index is new.\<close>

fun first_visits :: "nat \<Rightarrow> nat set \<Rightarrow> (u64 \<times> u64) list \<Rightarrow> int list" where
  "first_visits N seen [] = []"
| "first_visits N seen ((prev_loc, cur_loc) # es) =
    (if prev_loc > 0x600000 \<or> cur_loc > 0x600000 then 0 # first_visits N seen es
     else let i = afl_index N prev_loc cur_loc in
       (if i \<in> seen then 0 else 1) # first_visits N (insert i seen) es)"

lemma afl_index_less:
  assumes "k < 64"
  shows "afl_index (2 ^ k) prev_loc cur_loc < 2 ^ k"
proof -
  have m: "(of_nat (2 ^ k) - 1 :: u64) = mask k"
    by (simp add: mask_eq_exp_minus_1)
  have "afl_loc (2 ^ k) cur_loc XOR afl_loc (2 ^ k) prev_loc =
      take_bit k (afl_loc (2 ^ k) cur_loc XOR afl_loc (2 ^ k) prev_loc)"
    unfolding afl_loc_def m by (simp add: take_bit_eq_mask [symmetric] take_bit_xor)
  then show ?thesis
    unfolding afl_index_def
    by (metis take_bit_nat_less_exp unsigned_take_bit_eq)
qed

lemma afl_run:
  assumes "k < 64" "length (branch_bitmap s) = 2 ^ k"
    and "\<And>i. i < 2 ^ k \<Longrightarrow> branch_bitmap s ! i = 0 \<longleftrightarrow> i \<notin> seen"
  shows "\<exists>s'. run_test (afl_test (2 ^ k)) es s = Some (s', first_visits (2 ^ k) seen es)"
  using assms(2,3)
proof (induction es arbitrary: s seen)
  case (Cons e es)
  obtain prev_loc cur_loc where e: "e = (prev_loc, cur_loc)" by fastforce
  let ?i = "afl_index (2 ^ k) prev_loc cur_loc"
  note less = afl_index_less [OF assms(1), of prev_loc cur_loc]
  let ?s1 = "s\<lparr>branch_bitmap := (branch_bitmap s)[?i := 1], last_branch_is_interesting := 1\<rparr>"
  let ?s2 = "s\<lparr>last_branch_is_interesting := 0\<rparr>"
  have call: "afl_test (2 ^ k) e s =
      (if prev_loc > 0x600000 \<or> cur_loc > 0x600000 then Some (s, 0)
       else if ?i \<in> seen then Some (?s2, 0) else Some (?s1, 1))"
    using less Cons.prems(1) Cons.prems(2) [OF less]
    by (cases "?i \<in> seen")
      (simp_all add: afl_test_def is_interesting_branch_afl_def e afl_index_def [symmetric] Let_def)
  show ?case
  proof (cases "prev_loc > 0x600000 \<or> cur_loc > 0x600000")
    case True
    with call Cons.IH [OF Cons.prems] show ?thesis
      by (auto simp: e)
  next
    case False
    show ?thesis
    proof (cases "?i \<in> seen")
      case True
      with call False Cons.IH [of ?s2 seen] Cons.prems show ?thesis
        by (auto simp: e Let_def insert_absorb)
    next
      case new: False
      have "branch_bitmap ?s1 ! i = 0 \<longleftrightarrow> i \<notin> insert ?i seen" if "i < 2 ^ k" for i
        using that less Cons.prems by (auto simp: nth_list_update)
      then obtain s' where "run_test (afl_test (2 ^ k)) es ?s1 =
          Some (s', first_visits (2 ^ k) (insert ?i seen) es)"
        using Cons.IH [of ?s1 "insert ?i seen"] Cons.prems(1) by auto
      with call False new show ?thesis
        by (simp add: e Let_def)
    qed
  qed
qed simp

text \<open>
  The AFL version on a bitmap of \<open>2 ^ k\<close> bytes refines its specification: from an
  empty bitmap it never indexes outside it and reports exactly the first visit of each
  index by an edge whose two addresses are at most \<open>0x600000\<close>, so at most \<open>2 ^ k\<close> edges.
\<close>

theorem afl_reports_first_visits:
  assumes "k < 64"
  shows "\<exists>s'. run_test (afl_test (2 ^ k)) es (initial_coverage (2 ^ k)) =
      Some (s', first_visits (2 ^ k) {} es) \<and> reports (first_visits (2 ^ k) {} es) \<le> 2 ^ k"
proof -
  obtain s' where run: "run_test (afl_test (2 ^ k)) es (initial_coverage (2 ^ k)) =
      Some (s', first_visits (2 ^ k) {} es)"
    using afl_run [OF assms, of "initial_coverage (2 ^ k)" "{}" es]
    by (auto simp: initial_coverage_def)
  then show ?thesis
    using afl.reports_bounded [OF _ run] zero_bytes_le [of "branch_bitmap (initial_coverage (2 ^ k))"]
    by (simp add: initial_coverage_def)
qed

theorem afl_reports_first_visits_witness:
  "\<exists>s'. run_test (afl_test (2 ^ 4)) [(0x10, 0x20), (0x10, 0x20), (0x700000, 0)]
      (initial_coverage (2 ^ 4)) = Some (s', [1, 0, 0])"
  using afl_reports_first_visits [of 4 "[(0x10, 0x20), (0x10, 0x20), (0x700000, 0)]"]
  by (auto simp: Let_def)

section \<open>The FUZZOLIC version\<close>

lemma fuzzolic_run_mono:
  "run_test fuzzolic_test es s = Some (s', rs) \<Longrightarrow>
     length (branch_bitmap s') = length (branch_bitmap s) \<and>
     bitmap_bits (branch_bitmap s) \<subseteq> bitmap_bits (branch_bitmap s')"
proof (induction es arbitrary: s rs)
  case (Cons e es)
  obtain idx count idx_inv count_inv addr where e: "e = (idx, count, idx_inv, count_inv, addr)"
    by (metis surj_pair)
  obtain s1 r qs where t: "is_interesting_branch_fuzzolic idx count idx_inv count_inv addr s = Some (s1, r)"
    and run: "run_test fuzzolic_test es s1 = Some (s', qs)"
    using Cons.prems unfolding run_test_Cons e fuzzolic_test_def by auto
  from Cons.IH [OF run] fuzzolic_step(1,2) [OF t] show ?case by auto
qed simp

text \<open>
  The FUZZOLIC version never reports a branch with the same hit count twice: once a
  call has returned, the same call after any further calls reports nothing and leaves the
  bitmap as it is, and the calls in between report at most eight branches per byte.
\<close>

theorem fuzzolic_reports_once:
  assumes "is_interesting_branch_fuzzolic idx count idx_inv count_inv addr s = Some (s1, r)"
    and "run_test fuzzolic_test es s1 = Some (s2, rs)"
  shows "is_interesting_branch_fuzzolic idx count idx_inv' count_inv' addr' s2 =
      Some (s2\<lparr>last_branch_is_interesting := 0\<rparr>, 0) \<and> reports rs \<le> 8 * length (branch_bitmap s)"
proof -
  from fuzzolic_step [OF assms(1)] obtain hit where hit:
    "count_class_binary (unat count + 1) = Some hit" "unat idx < length (branch_bitmap s)"
    "bits_at (unat idx) hit \<subseteq> bitmap_bits (branch_bitmap s1)"
    "length (branch_bitmap s1) = length (branch_bitmap s)"
    by blast
  note mono = fuzzolic_run_mono [OF assms(2)]
  have "hit OR branch_bitmap s2 ! unat idx = branch_bitmap s2 ! unat idx"
    using or_ne_iff_bits [of "unat idx" "branch_bitmap s2" hit] hit mono by auto
  moreover have "reports rs \<le> 8 * length (branch_bitmap s)"
    using fuzzolic.reports_bounded [OF _ assms(2)] free_bits_le [of "branch_bitmap s1"] hit(4)
    by simp
  ultimately show ?thesis
    using hit mono by (simp add: is_interesting_branch_fuzzolic_def)
qed

theorem fuzzolic_reports_once_witness:
  "\<exists>s1. is_interesting_branch_fuzzolic 1 0 2 0 0x400000 (initial_coverage 4) = Some (s1, 2) \<and>
    is_interesting_branch_fuzzolic 1 0 3 0 0 s1 = Some (s1\<lparr>last_branch_is_interesting := 0\<rparr>, 0)"
proof -
  obtain s1 where ev:
    "is_interesting_branch_fuzzolic 1 0 2 0 0x400000 (initial_coverage 4) = Some (s1, 2)"
    by (simp add: is_interesting_branch_fuzzolic_def initial_coverage_def count_class_binary_def
        Let_def)
  with fuzzolic_reports_once [OF ev, of "[]"] show ?thesis by simp
qed

end
