(* ===== verification/Merge_Bitmap.thy ===== *)
theory Merge_Bitmap
  imports Bitmap
begin

text \<open>
  The tool that merges one coverage bitmap file into another,
  \<^verbatim>\<open>src/utils/merge_bitmap.c\<close>: its reading and writing loops, the merge and
  \<^verbatim>\<open>main\<close> with its exit codes (0 merged, 1 failure, 2 nothing new).
\<close>

definition BITMAP_SIZE :: nat where
  "BITMAP_SIZE = 65536"

section \<open>Reading and writing\<close>

text \<open>
  \<^verbatim>\<open>fread\<close> returns what is left of the file, at most what is asked for; the loops
  stop when a call transfers nothing.
\<close>

function load_loop :: "u8 list \<Rightarrow> bitmap \<Rightarrow> nat \<Rightarrow> bitmap \<times> nat" where
  "load_loop rest bm count =
    (if count < BITMAP_SIZE then
       let chunk = take (BITMAP_SIZE - count) rest; res = length chunk in
       if res = 0 then (bm, count)
       else load_loop (drop res rest)
              (take count bm @ chunk @ drop (count + res) bm) (count + res)
     else (bm, count))"
  by auto
termination
  by (relation "measure (\<lambda>(_, _, count). BITMAP_SIZE - count)") (auto simp: min_def)

declare load_loop.simps [simp del]

definition merge_load_bitmap :: "fsys \<Rightarrow> string \<Rightarrow> bitmap option" where
  "merge_load_bitmap fs path = (case files fs path of None \<Rightarrow> None
     | Some content \<Rightarrow>
         (case load_loop content (replicate BITMAP_SIZE 0) 0 of (bm, count) \<Rightarrow>
            if count < BITMAP_SIZE then None else Some bm))"

function save_loop :: "nat \<Rightarrow> bitmap \<Rightarrow> u8 list \<Rightarrow> nat \<Rightarrow> u8 list \<times> nat" where
  "save_loop cap bm out count =
    (if count < BITMAP_SIZE then
       let chunk = take (cap - count) (take (BITMAP_SIZE - count) (drop count bm));
           res = length chunk in
       if res = 0 then (out, count)
       else save_loop cap bm (out @ chunk) (count + res)
     else (out, count))"
  by auto
termination
  by (relation "measure (\<lambda>(_, _, _, count). BITMAP_SIZE - count)") (auto simp: min_def)

declare save_loop.simps [simp del]

definition merge_save_bitmap :: "fsys \<Rightarrow> string \<Rightarrow> bitmap \<Rightarrow> nat \<times> fsys" where
  "merge_save_bitmap fs path bm = (if \<not> writable fs path then (1, fs) else
     (case save_loop (capacity fs path) bm [] 0 of (out, count) \<Rightarrow>
        ((if count < BITMAP_SIZE then 1 else 0), fs\<lparr>files := (files fs)(path \<mapsto> out)\<rparr>)))"

section \<open>The merge\<close>

definition merge_byte :: "bitmap \<Rightarrow> nat \<Rightarrow> bitmap \<times> int \<Rightarrow> bitmap \<times> int" where
  "merge_byte src i = (\<lambda>(dst, is_interesting).
     if src ! i OR dst ! i \<noteq> dst ! i then (or_at dst i (src ! i), 1) else (dst, is_interesting))"

definition merge_bitmap :: "bitmap \<Rightarrow> bitmap \<Rightarrow> bitmap \<times> int" where
  "merge_bitmap src dst = fold (merge_byte src) [0..<BITMAP_SIZE] (dst, 0)"

definition merge_main :: "string list \<Rightarrow> fsys \<Rightarrow> nat \<times> fsys" where
  "merge_main argv fs = (if length argv \<noteq> 3 then (1, fs) else
     (case merge_load_bitmap fs (argv ! 1) of None \<Rightarrow> (1, fs)
      | Some src \<Rightarrow> (case merge_load_bitmap fs (argv ! 2) of None \<Rightarrow> (1, fs)
          | Some dst \<Rightarrow> (case merge_bitmap src dst of (dst', r) \<Rightarrow>
              if r = 0 then (2, fs) else merge_save_bitmap fs (argv ! 2) dst'))))"

section \<open>What the loops do\<close>

lemma load_loop_eq:
  assumes "count \<le> BITMAP_SIZE" "length bm = BITMAP_SIZE"
  shows "load_loop rest bm count =
    (let r = take (BITMAP_SIZE - count) rest in
     (take count bm @ r @ drop (count + length r) bm, count + length r))"
  using assms
proof (induction rest bm count rule: load_loop.induct)
  case (1 rest bm count)
  let ?r = "take (BITMAP_SIZE - count) rest"
  show ?case
  proof (cases "count < BITMAP_SIZE \<and> ?r \<noteq> []")
    case True
    let ?bm = "take count bm @ ?r @ drop (count + length ?r) bm"
    have IH: "load_loop (drop (length ?r) rest) ?bm (count + length ?r) =
        (let r = take (BITMAP_SIZE - (count + length ?r)) (drop (length ?r) rest) in
         (take (count + length ?r) ?bm @ r @ drop (count + length ?r + length r) ?bm,
          count + length ?r + length r))"
      using True "1.prems" by (intro "1.IH") auto
    then show ?thesis
      using True "1.prems"
      by (subst load_loop.simps, cases "length rest \<le> BITMAP_SIZE - count")
        (simp_all add: Let_def)
  next
    case False
    then show ?thesis
      using "1.prems" by (subst load_loop.simps) (auto simp: Let_def)
  qed
qed

lemma merge_load_bitmap_eq:
  "merge_load_bitmap fs path = (case files fs path of None \<Rightarrow> None
     | Some content \<Rightarrow> if BITMAP_SIZE \<le> length content then Some (take BITMAP_SIZE content)
                       else None)"
  by (auto simp: merge_load_bitmap_def load_loop_eq Let_def min_def split: option.splits)

lemma save_loop_full:
  assumes "BITMAP_SIZE \<le> cap" "length bm = BITMAP_SIZE"
  shows "save_loop cap bm [] 0 = (bm, BITMAP_SIZE)"
proof -
  have pos: "0 < BITMAP_SIZE"
    by (simp add: BITMAP_SIZE_def)
  have "save_loop cap bm bm BITMAP_SIZE = (bm, BITMAP_SIZE)"
    by (simp add: save_loop.simps)
  then show ?thesis
    using pos assms by (subst save_loop.simps) (auto simp: Let_def)
qed

lemma fold_merge_byte:
  assumes "n \<le> length src" "length src = length dst"
    "fold (merge_byte src) [0..<n] (dst, 0) = (dst', r)"
  shows "length dst' = length dst \<and>
    bitmap_bits dst' = bitmap_bits dst \<union> {(i, k) \<in> bitmap_bits src. i < n} \<and>
    (r \<noteq> 0 \<longleftrightarrow> \<not> {(i, k) \<in> bitmap_bits src. i < n} \<subseteq> bitmap_bits dst)"
  using assms
proof (induction n arbitrary: dst' r)
  case (Suc n)
  obtain d q where d: "fold (merge_byte src) [0..<n] (dst, 0) = (d, q)"
    by fastforce
  then have IH: "length d = length dst"
      "bitmap_bits d = bitmap_bits dst \<union> {(i, k) \<in> bitmap_bits src. i < n}"
      "q \<noteq> 0 \<longleftrightarrow> \<not> {(i, k) \<in> bitmap_bits src. i < n} \<subseteq> bitmap_bits dst"
    using Suc by auto
  have at: "{(i, k) \<in> bitmap_bits src. i < Suc n} =
      {(i, k) \<in> bitmap_bits src. i < n} \<union> bits_at n (src ! n)"
    using Suc.prems by (auto simp: bits_at_def bitmap_bits_def less_Suc_eq)
  have new: "src ! n OR d ! n \<noteq> d ! n \<longleftrightarrow> \<not> bits_at n (src ! n) \<subseteq> bitmap_bits dst"
    using Suc.prems IH(1) by (subst or_ne_iff_bits) (auto simp: IH(2) bits_at_def)
  have "(dst', r) = merge_byte src n (d, q)"
    using Suc.prems d by simp
  then have step: "dst' = (if bits_at n (src ! n) \<subseteq> bitmap_bits dst then d
        else or_at d n (src ! n))"
      "r = (if bits_at n (src ! n) \<subseteq> bitmap_bits dst then q else 1)"
    using new by (simp_all add: merge_byte_def split: if_splits)
  have or_bits: "bitmap_bits (or_at d n (src ! n)) = bitmap_bits d \<union> bits_at n (src ! n)"
    using Suc.prems IH(1) by (intro bitmap_bits_or_at) simp
  show ?case
    unfolding at step using IH or_bits by auto
qed simp

lemma merge_bitmap_union:
  assumes "length src = BITMAP_SIZE" "length dst = BITMAP_SIZE"
  shows "length (fst (merge_bitmap src dst)) = BITMAP_SIZE"
    and "bitmap_bits (fst (merge_bitmap src dst)) = bitmap_bits dst \<union> bitmap_bits src"
    and "snd (merge_bitmap src dst) = 0 \<longleftrightarrow> bitmap_bits src \<subseteq> bitmap_bits dst"
proof -
  have "{(i, k) \<in> bitmap_bits src. i < BITMAP_SIZE} = bitmap_bits src"
    using assms by (auto simp: bitmap_bits_def)
  with fold_merge_byte [of BITMAP_SIZE src dst "fst (merge_bitmap src dst)"
      "snd (merge_bitmap src dst)"] assms
  show "length (fst (merge_bitmap src dst)) = BITMAP_SIZE"
    "bitmap_bits (fst (merge_bitmap src dst)) = bitmap_bits dst \<union> bitmap_bits src"
    "snd (merge_bitmap src dst) = 0 \<longleftrightarrow> bitmap_bits src \<subseteq> bitmap_bits dst"
    by (simp_all add: merge_bitmap_def)
qed

section \<open>The tool\<close>

definition mergeable :: "fsys \<Rightarrow> string \<Rightarrow> bitmap \<Rightarrow> bool" where
  "mergeable fs path bm \<longleftrightarrow>
     (\<exists>rest. files fs path = Some (bm @ rest)) \<and> length bm = BITMAP_SIZE"

lemma merge_load_mergeable: "mergeable fs path bm \<Longrightarrow> merge_load_bitmap fs path = Some bm"
  by (auto simp: mergeable_def merge_load_bitmap_eq)

lemma merge_main_eq:
  assumes "mergeable fs p src" "mergeable fs q dst"
    "writable fs q" "BITMAP_SIZE \<le> capacity fs q"
  shows "merge_main [prog, p, q] fs =
    (if bitmap_bits src \<subseteq> bitmap_bits dst then (2, fs)
     else (0, fs\<lparr>files := (files fs)(q \<mapsto> fst (merge_bitmap src dst))\<rparr>))"
proof -
  have len: "length src = BITMAP_SIZE" "length dst = BITMAP_SIZE"
    using assms by (auto simp: mergeable_def)
  show ?thesis
    using assms(3,4) merge_bitmap_union [OF len]
    by (auto simp: merge_main_def merge_load_mergeable [OF assms(1)]
        merge_load_mergeable [OF assms(2)] merge_save_bitmap_def save_loop_full
        split: prod.splits)
qed

text \<open>
  Merging the bitmap file \<open>p\<close> into \<open>q\<close>: the exit code is 2, and nothing is written,
  exactly when every bit of \<open>p\<close> is already set in \<open>q\<close>; otherwise it is 0 and \<open>q\<close> then
  holds the union of the two sets of bits while every other file is as it was. Either way
  a second run finds nothing new.
\<close>

theorem merge_main_merges:
  assumes "mergeable fs p src" "mergeable fs q dst"
    and "writable fs q" "BITMAP_SIZE \<le> capacity fs q"
    and "merge_main [prog, p, q] fs = (code, fs')"
  shows "code = (if bitmap_bits src \<subseteq> bitmap_bits dst then 2 else 0) \<and>
    (code = 2 \<longrightarrow> fs' = fs) \<and>
    (code = 0 \<longrightarrow> (\<exists>merged. fs' = fs\<lparr>files := (files fs)(q \<mapsto> merged)\<rparr> \<and>
       length merged = BITMAP_SIZE \<and> bitmap_bits merged = bitmap_bits src \<union> bitmap_bits dst)) \<and>
    merge_main [prog, p, q] fs' = (2, fs')"
proof (cases "bitmap_bits src \<subseteq> bitmap_bits dst")
  case True
  then show ?thesis
    using assms merge_main_eq [OF assms(1-4), of prog] by auto
next
  case False
  let ?d = "fst (merge_bitmap src dst)"
  have len: "length src = BITMAP_SIZE" "length dst = BITMAP_SIZE"
    using assms by (auto simp: mergeable_def)
  note d = merge_bitmap_union [OF len]
  have fs': "code = 0" "fs' = fs\<lparr>files := (files fs)(q \<mapsto> ?d)\<rparr>"
    using False assms(5) merge_main_eq [OF assms(1-4), of prog] by auto
  have "p \<noteq> q"
    using False assms(1,2) by (auto simp: mergeable_def)
  then have "mergeable fs' p src" "mergeable fs' q ?d" "writable fs' q"
    "BITMAP_SIZE \<le> capacity fs' q"
    using assms fs' d by (auto simp: mergeable_def)
  from merge_main_eq [OF this] d have "merge_main [prog, p, q] fs' = (2, fs')"
    by simp
  with False fs' d show ?thesis
    by (intro conjI) auto
qed

definition ex_merge_fs :: fsys where
  "ex_merge_fs = \<lparr>files = [''a'' \<mapsto> replicate BITMAP_SIZE 1, ''b'' \<mapsto> replicate BITMAP_SIZE 2],
     writable = (\<lambda>_. True), capacity = (\<lambda>_. BITMAP_SIZE)\<rparr>"

lemma ex_mergeable:
  "mergeable ex_merge_fs ''a'' (replicate BITMAP_SIZE 1)"
  "mergeable ex_merge_fs ''b'' (replicate BITMAP_SIZE 2)"
  by (simp_all add: mergeable_def ex_merge_fs_def)

lemma ex_merge_new:
  "\<not> bitmap_bits (replicate BITMAP_SIZE 1) \<subseteq> bitmap_bits (replicate BITMAP_SIZE 2)"
proof -
  have "(0, 0) \<in> bitmap_bits (replicate BITMAP_SIZE 1)"
    "(0, 0) \<notin> bitmap_bits (replicate BITMAP_SIZE 2)"
    by (simp_all add: bitmap_bits_def BITMAP_SIZE_def)
  then show ?thesis by blast
qed

theorem merge_main_merges_witness:
  "fst (merge_main [''merge'', ''a'', ''b''] ex_merge_fs) = 0 \<and>
   merge_main [''merge'', ''a'', ''b''] (snd (merge_main [''merge'', ''a'', ''b''] ex_merge_fs)) =
     (2, snd (merge_main [''merge'', ''a'', ''b''] ex_merge_fs))"
proof -
  have "writable ex_merge_fs ''b''" "BITMAP_SIZE \<le> capacity ex_merge_fs ''b''"
    by (simp_all add: ex_merge_fs_def)
  from merge_main_merges [OF ex_mergeable this prod.collapse [symmetric], of "''merge''"]
  show ?thesis
    using ex_merge_new by simp
qed

end
