(* ===== verification/Patch_Eval.thy ===== *)
theory Patch_Eval
  imports C_Text "HOL-Library.Signed_Division"
begin

text \<open>
  The patch expressions of \<^verbatim>\<open>src/benchmarks/loftix/brpatch.c\<close>, the runtime that is
  injected into the program under test: the evaluator of expressions in prefix notation
  over the registers, with its scanner and its shifts. An \<^verbatim>\<open>int64_t\<close> is a 64-bit word
  read by \<open>sint\<close>; undefined behaviour (reading past the string, an unknown operator, a
  register number over 15) is \<open>None\<close>.
\<close>

type_synonym i64 = "64 word"

section \<open>Numbers and shifts\<close>

fun scani_from :: "u64 \<Rightarrow> string \<Rightarrow> u64 \<times> string" where
  "scani_from i [] = (i, [])"
| "scani_from i (c # cs) =
    (if is_digit c then scani_from (i * 10 + of_nat (of_char c) - of_nat (of_char (CHR ''0''))) cs
     else (i, c # cs))"

definition scani :: "string \<Rightarrow> u64 \<times> string" where
  "scani p = scani_from 0 p"

definition shift_right_arithmetic :: "i64 \<Rightarrow> u64 \<Rightarrow> i64" where
  "shift_right_arithmetic value amount =
    (if amount = 0 then value
     else let bits = drop_bit (unat amount) value in
       if sint value < 0 then bits OR push_bit (unat (64 - amount)) (NOT 0) else bits)"

definition shift_left :: "i64 \<Rightarrow> i64 \<Rightarrow> i64" where
  "shift_left value amount =
    (if sint amount \<ge> 64 then 0
     else if sint amount \<le> - 64 then (if sint value < 0 then - 1 else 0)
     else if sint amount \<ge> 0 then push_bit (unat amount) value
     else shift_right_arithmetic value (- amount))"

definition shift_right :: "i64 \<Rightarrow> i64 \<Rightarrow> i64" where
  "shift_right value amount =
    (if sint amount \<ge> 64 then (if sint value < 0 then - 1 else 0)
     else if sint amount \<le> - 64 then 0
     else if sint amount \<ge> 0 then shift_right_arithmetic value amount
     else push_bit (unat (- amount)) value)"

section \<open>The evaluator\<close>

definition i64_bool :: "bool \<Rightarrow> i64" where
  "i64_bool b = (if b then 1 else 0)"

definition div_traps :: "i64 \<Rightarrow> i64 \<Rightarrow> bool" where
  "div_traps a b \<longleftrightarrow> sint b = 0 \<or> (sint a = - (2 ^ 63) \<and> sint b = - 1)"

text \<open>The second switch: the value and whether the operation sets \<^verbatim>\<open>crashed\<close>.\<close>

definition eval_binary :: "char \<Rightarrow> bool \<Rightarrow> i64 \<Rightarrow> i64 \<Rightarrow> (i64 \<times> bool) option" where
  "eval_binary op eq a b =
    (if op = CHR ''='' then Some (i64_bool (a = b), False)
     else if op = CHR ''!'' then Some (i64_bool (a \<noteq> b), False)
     else if op = CHR ''>'' then
       Some (i64_bool (if eq then sint a \<ge> sint b else sint a > sint b), False)
     else if op = CHR ''<'' then
       Some (i64_bool (if eq then sint a \<le> sint b else sint a < sint b), False)
     else if op = CHR ''+'' then Some (a + b, False)
     else if op = CHR ''-'' then Some (a - b, False)
     else if op = CHR ''*'' then Some (a * b, False)
     else if op = CHR ''/'' then
       Some (if div_traps a b then (0, True) else (word_of_int (sint a sdiv sint b), False))
     else if op = CHR ''%'' then
       Some (if div_traps a b then (0, True) else (word_of_int (sint a smod sint b), False))
     else if op = CHR ''&'' then Some (a AND b, False)
     else if op = CHR ''|'' then Some (a OR b, False)
     else if op = CHR ''^'' then Some (a XOR b, False)
     else if op = CHR ''l'' then Some (shift_left a b, False)
     else if op = CHR ''r'' then Some (shift_right a b, False)
     else None)"

text \<open>The cases of the first switch that do not recurse, and the \<^verbatim>\<open>=\<close> of a two-character operator.\<close>

definition is_leaf :: "char \<Rightarrow> bool" where
  "is_leaf op \<longleftrightarrow> op = CHR ''n'' \<or> op = CHR ''p'' \<or> op = CHR ''v''"

definition eval_leaf :: "i64 list \<Rightarrow> char \<Rightarrow> string \<Rightarrow> (i64 \<times> string) option" where
  "eval_leaf env op p = (case scani p of (i, r) \<Rightarrow>
     if op = CHR ''n'' then Some (0 - i, r)
     else if op = CHR ''p'' then Some (i, r)
     else if unat i < length env then Some (env ! unat i, r) else None)"

definition eq_follows :: "char \<Rightarrow> string \<Rightarrow> bool" where
  "eq_follows op p \<longleftrightarrow> p \<noteq> [] \<and> hd p = CHR ''='' \<and> (op = CHR ''>'' \<or> op = CHR ''<'')"

definition skip_eq :: "char \<Rightarrow> string \<Rightarrow> string" where
  "skip_eq op p = (if eq_follows op p then tl p else p)"

lemma scani_from_length: "length (snd (scani_from i s)) \<le> length s"
  by (induction i s rule: scani_from.induct) auto

lemma scani_length: "scani s = (i, r) \<Longrightarrow> length r \<le> length s"
  using scani_from_length [of 0 s] by (simp add: scani_def)

lemma eval_leaf_length: "eval_leaf env op p = Some (v, r) \<Longrightarrow> length r \<le> length p"
  by (auto simp: eval_leaf_def scani_length split: prod.splits if_splits)

lemma skip_eq_length: "length (skip_eq op p) \<le> length p"
  by (simp add: skip_eq_def)

text \<open>
  The flag says whether some operation has set \<^verbatim>\<open>crashed\<close> so far; the string is what the
  cursor points to. Every evaluation consumes a character, so the recursion terminates.
\<close>

function eval :: "i64 list \<Rightarrow> string \<Rightarrow> bool \<Rightarrow> (i64 \<times> string \<times> bool) option" where
  "eval env [] crashed = None"
| "eval env (op # p) crashed =
    (if is_leaf op then map_option (\<lambda>(v, r). (v, r, crashed)) (eval_leaf env op p)
     else if op = CHR ''~'' then
       (case eval env p crashed of None \<Rightarrow> None | Some (a, r, c) \<Rightarrow> Some (NOT a, r, c))
     else (case eval env (skip_eq op p) crashed of None \<Rightarrow> None
         | Some (a, r, c) \<Rightarrow> (case eval env r c of None \<Rightarrow> None
             | Some (b, r', c') \<Rightarrow>
                 map_option (\<lambda>(v, t). (v, r', c' \<or> t)) (eval_binary op (eq_follows op p) a b))))"
  by pat_completeness auto
termination
proof (relation "measure (\<lambda>(_, s, _). length s)")
  have consumes: "eval_dom (env, s, c) \<Longrightarrow> eval env s c = Some (v, r, c') \<Longrightarrow> length r < length s"
    for env :: "i64 list" and s c v r c'
  proof (induction env s c arbitrary: v r c' rule: eval.pinduct)
    case (2 env op p crashed)
    consider "is_leaf op" | "\<not> is_leaf op" "op = CHR ''~''" | "\<not> is_leaf op" "op \<noteq> CHR ''~''"
      by blast
    then show ?case
    proof cases
      case 1
      with "2.prems" "2.hyps" show ?thesis
        by (auto simp: eval.psimps dest: eval_leaf_length)
    next
      case c: 2
      with "2.prems" "2.hyps" obtain a where "eval env p crashed = Some (a, r, c')"
        by (auto simp: eval.psimps split: option.splits)
      with "2.IH"(1) [OF c] show ?thesis by fastforce
    next
      case c: 3
      note step = eval.psimps(2) [OF "2.hyps"]
      from c "2.prems" obtain a r1 c1 where e1: "eval env (skip_eq op p) crashed = Some (a, r1, c1)"
        by (cases "eval env (skip_eq op p) crashed") (auto simp: step)
      from c "2.prems" e1 obtain b c2 where e2: "eval env r1 c1 = Some (b, r, c2)"
        by (cases "eval env r1 c1") (auto simp: step)
      have "length r1 < length (skip_eq op p)" "length r < length r1"
        using "2.IH"(2) [OF c e1] "2.IH"(3) [OF c e1 refl refl e2] by auto
      then show ?thesis using skip_eq_length [of op p] by simp
    qed
  qed (simp add: eval.psimps)
  fix env :: "i64 list" and op p crashed x2 and x :: i64 and y and r :: string and c
  assume e: "eval env (skip_eq op p) crashed = Some x2" "(x, y) = x2" "(r, c) = y"
    and d: "eval_dom (env, skip_eq op p, crashed)"
  have "length r < length (skip_eq op p)"
    using consumes [OF d, of x r c] e by auto
  then show "((env, r, c), env, op # p, crashed) \<in> measure (\<lambda>(_, s, _). length s)"
    using skip_eq_length [of op p] by simp
qed (simp_all add: skip_eq_length le_imp_less_Suc)

section \<open>Shifts\<close>

text \<open>The shift of a signed integer by a signed amount, to the left when it is positive.\<close>

definition shift_int :: "int \<Rightarrow> int \<Rightarrow> int" where
  "shift_int v n = (if n \<ge> 0 then v * 2 ^ nat n else v div 2 ^ nat (- n))"

lemma sint_neg_iff_bit: "sint (v :: i64) < 0 \<longleftrightarrow> bit v 63"
  using bit_last_iff [of v] by simp

lemma shift_right_arithmetic_eq:
  assumes "unat n < 64"
  shows "shift_right_arithmetic v n = signed_drop_bit (unat n) v"
proof (cases "n = 0")
  case False
  then have "unat (64 - n) = 64 - unat n"
    using assms by (simp add: unat_sub word_le_nat_alt)
  then show ?thesis
    using False assms
    by (intro bit_word_eqI)
      (auto simp: shift_right_arithmetic_def Let_def sint_neg_iff_bit bit_simps unat_eq_0
        dest: bit_imp_le_length)
qed (simp add: shift_right_arithmetic_def)

lemma sint_bounds: "- (2 ^ 63) \<le> sint (v :: i64)" "sint (v :: i64) < 2 ^ 63"
  using sint_ge [of v] sint_lt [of v] by simp_all

lemma nonneg_sint_unat:
  assumes "0 \<le> sint (n :: i64)"
  shows "unat n = nat (sint n)"
proof -
  have "uint n = sint n mod 2 ^ 64"
    by (simp add: uint_sint take_bit_eq_mod)
  also have "\<dots> = sint n"
    using assms sint_bounds(2) [of n] by (intro mod_pos_pos_trivial) auto
  finally show ?thesis by (simp add: nat_uint_eq [symmetric])
qed

lemma neg_sint_unat:
  assumes "sint (n :: i64) < 0" "- 64 < sint n"
  shows "unat (- n) = nat (- sint n)"
proof -
  have "uint (- n) = (- sint n) mod 2 ^ 64"
  proof -
    have "- n = word_of_int (- sint n)" by simp
    then show ?thesis
      by (simp only: unsigned_of_int take_bit_eq_mod) simp
  qed
  also have "\<dots> = - sint n"
    using assms by (intro mod_pos_pos_trivial) auto
  finally show ?thesis by (simp add: nat_uint_eq [symmetric])
qed

lemma word_of_int_shift_left:
  "push_bit k (v :: i64) = word_of_int (sint v * 2 ^ k)"
  by (simp add: push_bit_eq_mult)

lemma word_of_int_shift_right:
  "signed_drop_bit k (v :: i64) = word_of_int (sint v div 2 ^ k)"
proof -
  have "word_of_int (sint (signed_drop_bit k v)) = signed_drop_bit k v"
    by simp
  then show ?thesis
    by (simp only: sint_signed_drop_bit_eq drop_bit_eq_div)
qed

lemma far_left: "64 \<le> k \<Longrightarrow> (v :: i64) * 2 ^ k = 0"
  by (simp add: push_bit_eq_mult [symmetric] push_bit_word_beyond)

lemma sint_far_right:
  assumes "64 \<le> k"
  shows "sint (v :: i64) div 2 ^ k = (if sint v < 0 then - 1 else 0)"
proof -
  have p: "(2 :: int) ^ 63 \<le> 2 ^ k"
    using assms by (intro power_increasing) auto
  show ?thesis
  proof (cases "sint v < 0")
    case True
    have "(sint v + 2 ^ k) div 2 ^ k = 0"
      using True p sint_bounds(1) [of v] by (intro div_pos_pos_trivial) auto
    moreover have "(sint v + 2 ^ k) div 2 ^ k = sint v div 2 ^ k + 1"
      by (rule div_add_self2) simp
    ultimately show ?thesis using True by simp
  next
    case False
    with p sint_bounds(2) [of v] have "sint v div 2 ^ k = 0"
      by (intro div_pos_pos_trivial) auto
    with False show ?thesis by simp
  qed
qed

lemma shift_left_eq: "shift_left v n = word_of_int (shift_int (sint v) (sint n))"
proof -
  consider "64 \<le> sint n" | "sint n \<le> - 64" | "0 \<le> sint n" "sint n < 64"
    | "- 64 < sint n" "sint n < 0" by linarith
  then show ?thesis
  proof cases
    case 1
    then have "64 \<le> nat (sint n)" by simp
    with 1 show ?thesis
      by (simp add: shift_left_def shift_int_def far_left)
  next
    case 2
    then have "64 \<le> nat (- sint n)" by simp
    with 2 show ?thesis
      by (simp add: shift_left_def shift_int_def sint_far_right)
  next
    case 3
    with nonneg_sint_unat [of n] 3 show ?thesis
      by (simp add: shift_left_def shift_int_def word_of_int_shift_left)
  next
    case 4
    with neg_sint_unat [of n] 4 show ?thesis
      by (simp add: shift_left_def shift_int_def shift_right_arithmetic_eq word_of_int_shift_right)
  qed
qed

lemma shift_right_eq: "shift_right v n = word_of_int (shift_int (sint v) (- sint n))"
proof -
  consider "64 \<le> sint n" | "sint n \<le> - 64" | "0 \<le> sint n" "sint n < 64"
    | "- 64 < sint n" "sint n < 0" by linarith
  then show ?thesis
  proof cases
    case 1
    then have "64 \<le> nat (sint n)" by simp
    with 1 show ?thesis
      by (simp add: shift_right_def shift_int_def sint_far_right)
  next
    case 2
    then have "64 \<le> nat (- sint n)" by simp
    with 2 show ?thesis
      by (simp add: shift_right_def shift_int_def far_left)
  next
    case 3
    with nonneg_sint_unat [of n] 3 show ?thesis
      by (cases "sint n = 0")
        (simp_all add: shift_right_def shift_int_def shift_right_arithmetic_eq word_of_int_shift_right)
  next
    case 4
    with neg_sint_unat [of n] 4 show ?thesis
      by (simp add: shift_right_def shift_int_def word_of_int_shift_left)
  qed
qed

end
