(* ===== verification/Patch_Runtime.thy ===== *)
theory Patch_Runtime
  imports Patch_Eval
begin

text \<open>
  The rest of \<^verbatim>\<open>src/benchmarks/loftix/brpatch.c\<close>: patch descriptors, the selection of a
  patch, the allocation tracker of CWE-805 patches and the two decisions \<^verbatim>\<open>dest\<close> and
  \<^verbatim>\<open>jnz\<close>. The library \<^verbatim>\<open>stdlib.c\<close> of the rewriter and the table generated into
  \<^verbatim>\<open>brpatches.inc\<close> are parameters: \<open>strtoul\<close> (value and whether \<^verbatim>\<open>errno\<close> is set), the
  environment, the shared segment of a key, and the descriptor of a patch id. The outer
  \<open>option\<close> of a result is undefined behaviour.
\<close>

section \<open>Start-up and selection\<close>

definition MAGIC_VALUE_PATCH :: u32 where
  "MAGIC_VALUE_PATCH = 123456"

record patch_env =
  env_patch_id :: u32
  patch_fd :: u32
  patch_shm :: "(u32 \<times> u32) option"

definition getenvull :: "(string \<rightharpoonup> string) \<Rightarrow> (string \<Rightarrow> u64 \<times> bool) \<Rightarrow> string \<Rightarrow> u64" where
  "getenvull getenv strtoul n = (case getenv n of None \<Rightarrow> 0
     | Some str \<Rightarrow> (case strtoul str of (ull, errno) \<Rightarrow> if errno then 0 else ull))"

definition getenvul :: "(string \<rightharpoonup> string) \<Rightarrow> (string \<Rightarrow> u64 \<times> bool) \<Rightarrow> string \<Rightarrow> u32" where
  "getenvul getenv strtoul n = (case getenv n of None \<Rightarrow> 0
     | Some str \<Rightarrow> (case strtoul str of (ul, errno) \<Rightarrow> if errno then 0 else ucast ul))"

definition init :: "(string \<rightharpoonup> string) \<Rightarrow> (string \<Rightarrow> u64 \<times> bool) \<Rightarrow> (u32 \<Rightarrow> (u32 \<times> u32) option) \<Rightarrow>
    patch_env" where
  "init getenv strtoul segment =
    (let p = \<lparr>env_patch_id = getenvul getenv strtoul ''PATCH_ID'', patch_fd = 2, patch_shm = None\<rparr>;
         s = getenvul getenv strtoul ''PATCH_FD'';
         p = (if s > 2 then p\<lparr>patch_fd := s\<rparr> else p);
         key = getenvul getenv strtoul ''BINRADAR_PATCH_SHM_KEY'' in
     if env_patch_id p \<noteq> MAGIC_VALUE_PATCH then p
     else if key \<noteq> 0 then p\<lparr>patch_shm := segment key\<rparr> else p)"

text \<open>The patch id and the iteration.\<close>

definition select_patch_id :: "patch_env \<Rightarrow> u32 \<times> u32" where
  "select_patch_id p =
    (if env_patch_id p = MAGIC_VALUE_PATCH
     then (case patch_shm p of Some (i, v) \<Rightarrow> (i, v) | None \<Rightarrow> (0, 0))
     else (env_patch_id p, 0))"

section \<open>Registers\<close>

record x86_state =
  rax :: u64  rbx :: u64  rcx :: u64  rdx :: u64
  rsi :: u64  rdi :: u64  rsp :: u64  rbp :: u64
  r8 :: u64  r9 :: u64  r10 :: u64  r11 :: u64
  r12 :: u64  r13 :: u64  r14 :: u64  r15 :: u64

definition state_to_env :: "x86_state \<Rightarrow> i64 list" where
  "state_to_env s = [rax s, rbx s, rcx s, rdx s, rsi s, rdi s, rsp s, rbp s,
     r8 s, r9 s, r10 s, r11 s, r12 s, r13 s, r14 s, r15 s]"

section \<open>Descriptors\<close>

datatype br_predicate_kind = BR_PRED_FALSE | BR_PRED_GENERIC | BR_PRED_CWE805_POINTER
  | BR_PRED_CWE805_SIZE

datatype br_cell_kind = BR_CELL_REGISTER | BR_CELL_STACK8 | BR_CELL_STACK16 | BR_CELL_STACK32
  | BR_CELL_STACK64

record br_predicate =
  pred_kind :: br_predicate_kind
  cell_kind :: br_cell_kind
  cell_index :: u16
  pred_scale :: u8
  generic_branch_expression :: string

definition zero_predicate :: br_predicate where
  "zero_predicate = \<lparr>pred_kind = BR_PRED_FALSE, cell_kind = BR_CELL_REGISTER, cell_index = 0,
     pred_scale = 0, generic_branch_expression = []\<rparr>"

text \<open>A decimal \<^verbatim>\<open>int\<close>; \<open>None\<close> when it overflows.\<close>

fun parse_num_from :: "int \<Rightarrow> string \<Rightarrow> (int \<times> string) option" where
  "parse_num_from value [] = Some (value, [])"
| "parse_num_from value (c # cs) =
    (if is_digit c then
       let value = value * 10 + (int (of_char c) - int (of_char (CHR ''0''))) in
       if value > 2147483647 then None else parse_num_from value cs
     else Some (value, c # cs))"

definition parse_num :: "string \<Rightarrow> (int \<times> string) option" where
  "parse_num p = parse_num_from 0 p"

definition stack_cell :: "int \<Rightarrow> br_cell_kind option" where
  "stack_cell width =
    (if width = 8 then Some BR_CELL_STACK8 else if width = 16 then Some BR_CELL_STACK16
     else if width = 32 then Some BR_CELL_STACK32 else if width = 64 then Some BR_CELL_STACK64
     else None)"

text \<open>
  Results of the parser: the outer \<open>None\<close> is undefined behaviour, the inner one the result
  \<open>-1\<close>.
\<close>

definition res_bind :: "'a option option \<Rightarrow> ('a \<Rightarrow> 'b option option) \<Rightarrow> 'b option option" where
  "res_bind m f = (case m of None \<Rightarrow> None | Some None \<Rightarrow> Some None | Some (Some x) \<Rightarrow> f x)"

definition register_cell :: "string \<Rightarrow> br_predicate \<Rightarrow> (br_predicate \<times> string) option option" where
  "register_cell p out = res_bind (map_option Some (parse_num p)) (\<lambda>(n, p).
     let out = out\<lparr>cell_kind := BR_CELL_REGISTER, cell_index := word_of_int n\<rparr> in
     Some (if unat (cell_index out) > 15 then None else Some (out, p)))"

definition stack_cell_at :: "string \<Rightarrow> br_predicate \<Rightarrow> (br_predicate \<times> string) option option" where
  "stack_cell_at p out = res_bind (map_option Some (parse_num p)) (\<lambda>(width, p).
     if p = [] \<or> hd p \<noteq> CHR ''i'' then Some None
     else res_bind (Some (stack_cell width)) (\<lambda>k.
       res_bind (map_option Some (parse_num (tl p))) (\<lambda>(n, p).
         Some (Some (out\<lparr>cell_kind := k, cell_index := word_of_int n\<rparr>, p)))))"

definition parse_cell :: "string \<Rightarrow> br_predicate \<Rightarrow> (br_predicate \<times> string) option option" where
  "parse_cell p out =
    (if p \<noteq> [] \<and> hd p = CHR ''p'' then register_cell (tl p) out
     else if p \<noteq> [] \<and> hd p = CHR ''s'' then stack_cell_at (tl p) out
     else Some None)"

definition parse_scale :: "br_predicate \<times> string \<Rightarrow> (br_predicate \<times> string) option option" where
  "parse_scale = (\<lambda>(out, p). if pred_kind out = BR_PRED_CWE805_SIZE then
       if p = [] \<or> hd p \<noteq> CHR ''q'' then Some None
       else res_bind (map_option Some (parse_num (tl p))) (\<lambda>(n, p).
         let out = out\<lparr>pred_scale := word_of_int n\<rparr> in
         Some (if pred_scale out \<in> {1, 2, 4, 8} then Some (out, p) else None))
     else Some (Some (out, p)))"

definition cell_allowed :: "br_predicate \<Rightarrow> bool" where
  "cell_allowed out \<longleftrightarrow>
     \<not> (pred_kind out = BR_PRED_CWE805_POINTER \<and> cell_kind out \<noteq> BR_CELL_REGISTER \<and>
        cell_kind out \<noteq> BR_CELL_STACK64) \<and>
     \<not> (pred_kind out = BR_PRED_CWE805_SIZE \<and> cell_kind out = BR_CELL_STACK64)"

definition parse_cwe805 :: "string \<Rightarrow> br_predicate \<Rightarrow> br_predicate option option" where
  "parse_cwe805 p out = res_bind (parse_cell p out) (\<lambda>(out, p).
     if \<not> cell_allowed out then Some None
     else res_bind (parse_scale (out, p)) (\<lambda>(out, p). Some (if p = [] then Some out else None)))"

definition parse_predicate :: "string \<Rightarrow> br_predicate \<Rightarrow> br_predicate option option" where
  "parse_predicate s out =
    (if s \<noteq> [] \<and> hd s = CHR ''c'' then
       (case tl s of [] \<Rightarrow> Some None
        | k # p \<Rightarrow>
          if k = CHR ''1'' then parse_cwe805 p (out\<lparr>pred_kind := BR_PRED_CWE805_POINTER\<rparr>)
          else if k = CHR ''2'' then parse_cwe805 p (out\<lparr>pred_kind := BR_PRED_CWE805_SIZE\<rparr>)
          else Some None)
     else Some (Some (out\<lparr>pred_kind := BR_PRED_GENERIC, cell_kind := BR_CELL_REGISTER,
            cell_index := 0, pred_scale := 0, generic_branch_expression := s\<rparr>)))"

section \<open>The allocation tracker\<close>

type_synonym clamp = "u64 \<times> u64"

record tracker =
  trace :: u64
  buffers :: "clamp list"
  next_clamp :: u8

definition initial_tracker :: tracker where
  "initial_tracker = \<lparr>trace = 0, buffers = replicate 256 (0, 0), next_clamp = 0\<rparr>"

definition mark :: "u8 \<Rightarrow> tracker \<Rightarrow> tracker option" where
  "mark b t = (if unat b \<ge> 64 then None else
     let msk = push_bit (unat b) 1 in
     Some (t\<lparr>trace := (trace t AND NOT msk) OR (msk - 1)\<rparr>))"

definition set_base :: "u64 \<Rightarrow> tracker \<Rightarrow> tracker" where
  "set_base v t = (if trace t = 1 then
       let n = unat (next_clamp t) in
       t\<lparr>buffers := (buffers t)[n := (v, snd (buffers t ! n) + v)], next_clamp := next_clamp t + 1\<rparr>
     else t)"

text \<open>The three versions of \<^verbatim>\<open>set_size\<close>, chosen by a macro.\<close>

datatype allocator = ALLOC_MALLOC | ALLOC_CALLOC | ALLOC_REALLOC

definition alloc_size :: "allocator \<Rightarrow> u64 \<Rightarrow> u64 \<Rightarrow> u64" where
  "alloc_size k a b = (case k of ALLOC_MALLOC \<Rightarrow> a | ALLOC_CALLOC \<Rightarrow> a * b | ALLOC_REALLOC \<Rightarrow> b)"

definition set_size :: "allocator \<Rightarrow> u64 \<Rightarrow> u64 \<Rightarrow> tracker \<Rightarrow> tracker" where
  "set_size k a b t = (if trace t = 1 then
       let n = unat (next_clamp t) in
       t\<lparr>buffers := (buffers t)[n := (fst (buffers t ! n), alloc_size k a b)]\<rparr>
     else t)"

section \<open>Decisions\<close>

text \<open>The stack is read through the memory of the patched program, little endian.\<close>

definition load_le :: "(u64 \<Rightarrow> u8) \<Rightarrow> u64 \<Rightarrow> nat \<Rightarrow> u64" where
  "load_le mem a n = (\<Sum>i\<leftarrow>[0..<n]. push_bit (8 * i) (ucast (mem (a + of_nat i))))"

definition read_cell :: "(u64 \<Rightarrow> u8) \<Rightarrow> x86_state \<Rightarrow> br_cell_kind \<Rightarrow> u16 \<Rightarrow> u64" where
  "read_cell mem s k i = (case k of
       BR_CELL_REGISTER \<Rightarrow> state_to_env s ! unat i
     | BR_CELL_STACK8 \<Rightarrow> load_le mem (rsp s + ucast i) 1
     | BR_CELL_STACK16 \<Rightarrow> load_le mem (rsp s + ucast i * 2) 2
     | BR_CELL_STACK32 \<Rightarrow> load_le mem (rsp s + ucast i * 4) 4
     | BR_CELL_STACK64 \<Rightarrow> load_le mem (rsp s + ucast i * 8) 8)"

text \<open>The loop \<^verbatim>\<open>while (i-- > buffers)\<close>, from a pointer to the clamp with number \<open>i\<close>.\<close>

fun some_clamp :: "(clamp \<Rightarrow> bool) \<Rightarrow> clamp list \<Rightarrow> nat \<Rightarrow> bool" where
  "some_clamp ok bs 0 = False"
| "some_clamp ok bs (Suc i) = (if ok (bs ! i) then True else some_clamp ok bs i)"

definition CWE805_branch_taken :: "(u64 \<Rightarrow> u8) \<Rightarrow> x86_state \<Rightarrow> tracker \<Rightarrow> br_predicate \<Rightarrow> nat" where
  "CWE805_branch_taken mem s t pred =
    (let v = read_cell mem s (cell_kind pred) (cell_index pred) in
     if pred_kind pred = BR_PRED_CWE805_POINTER then
       (if some_clamp (\<lambda>(b, e). v \<ge> b \<and> v < e) (buffers t) 256 then 0 else 1)
     else if uint v * uint (pred_scale pred) \<ge> 2 ^ 64 then 2
     else let sz = v * ucast (pred_scale pred) in
       (if some_clamp (\<lambda>(b, e). sz < e - b) (buffers t) 256 then 0 else 1))"

text \<open>A line of the log: patch id, branch and iteration.\<close>

type_synonym patch_log = "u32 \<times> nat \<times> u32"

definition jnz :: "patch_env \<Rightarrow> tracker \<Rightarrow> u64 \<Rightarrow> u64 \<Rightarrow> u8 \<Rightarrow> u32 \<Rightarrow> u64 \<Rightarrow> u64 \<Rightarrow>
    u64 option \<times> patch_log" where
  "jnz p t base index sc disp access_size dst =
    (case select_patch_id p of (patch_id, v) \<Rightarrow>
     let address = base + index * ucast sc + ucast disp;
         access_end = address + access_size;
         branch_taken = (if patch_id = 1 \<and>
            \<not> some_clamp (\<lambda>(b, e). address \<ge> b \<and> access_end < e) (buffers t) 256 then 1 else 0)
     in (if branch_taken \<noteq> 0 then Some dst else None, (patch_id, branch_taken, v)))"

definition generic_branch :: "string \<Rightarrow> x86_state \<Rightarrow> nat option" where
  "generic_branch expr s = map_option (\<lambda>(v, _, crashed). if crashed then 2 else if v \<noteq> 0 then 1 else 0)
     (eval (state_to_env s) expr False)"

text \<open>
  \<^verbatim>\<open>dest\<close>, with the build's switch \<^verbatim>\<open>BRPATCH_CWE805\<close> as an argument. A patch id without
  an entry in the generated table makes \<^verbatim>\<open>get_patch_str\<close> return without a value.
\<close>

definition dest :: "bool \<Rightarrow> u64 \<Rightarrow> (u32 \<rightharpoonup> string) \<Rightarrow> patch_env \<Rightarrow> tracker \<Rightarrow> (u64 \<Rightarrow> u8) \<Rightarrow>
    x86_state \<Rightarrow> (u64 option \<times> patch_log) option" where
  "dest cwe805 TAOSC_DEST get_patch_str p t mem s =
    (case select_patch_id p of (patch_id, v) \<Rightarrow>
     Option.bind (get_patch_str patch_id) (\<lambda>tmp.
     Option.bind (parse_predicate tmp zero_predicate) (\<lambda>r.
     map_option (\<lambda>branch_taken.
         (if branch_taken = 1 then Some TAOSC_DEST else None, (patch_id, branch_taken, v)))
       (case r of None \<Rightarrow> Some 0
        | Some pred \<Rightarrow>
          if pred_kind pred = BR_PRED_GENERIC then generic_branch (generic_branch_expression pred) s
          else if cwe805 then Some (CWE805_branch_taken mem s t pred) else Some 0))))"

end
