(* ===== verification/Patch_Tracker.thy ===== *)
theory Patch_Tracker
  imports Patch_Runtime
begin

text \<open>
  The allocation tracker of the patch runtime: what the trace word says about the marks
  passed so far, and that the ring of 256 clamps holds the last 256 allocations, on which
  the CWE-805 decisions rest.
\<close>

section \<open>The trace word\<close>

fun run_marks :: "u8 list \<Rightarrow> tracker \<Rightarrow> tracker option" where
  "run_marks [] t = Some t"
| "run_marks (b # bs) t = Option.bind (mark b t) (run_marks bs)"

lemma run_marks_snoc: "run_marks (bs @ [b]) t = Option.bind (run_marks bs t) (mark b)"
  by (induction bs arbitrary: t) (auto split: option.splits bind_splits)

lemma bit_mark:
  assumes "mark b t = Some t'" "k < 64"
  shows "bit (trace t') k \<longleftrightarrow> (bit (trace t) k \<and> k \<noteq> unat b) \<or> k < unat b"
proof -
  have b: "unat b < 64" and t': "trace t' = (trace t AND NOT (2 ^ unat b)) OR mask (unat b)"
    using assms(1) by (auto simp: mark_def Let_def mask_eq_exp_minus_1 split: if_splits)
  show ?thesis
    unfolding t' using assms(2) b by (auto simp: bit_simps)
qed

lemma last_mark_snoc:
  "(\<exists>xs c ys. bs @ [b] = xs @ c # ys \<and> k < unat c \<and> k \<notin> unat ` set ys) \<longleftrightarrow>
     k < unat b \<or> k \<noteq> unat b \<and> (\<exists>xs c ys. bs = xs @ c # ys \<and> k < unat c \<and> k \<notin> unat ` set ys)"
  (is "?l \<longleftrightarrow> ?r")
proof
  assume ?l
  then obtain xs c ys where bs: "bs @ [b] = xs @ c # ys" "k < unat c" "k \<notin> unat ` set ys"
    by blast
  show ?r
  proof (cases ys rule: rev_cases)
    case Nil
    with bs show ?thesis by simp
  next
    case (snoc zs z)
    with bs have "bs = xs @ c # zs" "z = b" by simp_all
    with bs snoc show ?thesis by auto
  qed
next
  assume ?r
  then consider "k < unat b"
    | xs c ys where "k \<noteq> unat b" "bs = xs @ c # ys" "k < unat c" "k \<notin> unat ` set ys"
    by blast
  then show ?l
  proof cases
    case 1
    then show ?thesis by (intro exI [of _ bs] exI [of _ b] exI [of _ "[]"]) simp
  next
    case 2
    then show ?thesis
      by (intro exI [of _ xs] exI [of _ c] exI [of _ "ys @ [b]"]) simp
  qed
qed

text \<open>
  The trace word after any sequence of marks: bit \<open>k\<close> is set exactly when some mark above
  \<open>k\<close> has been passed and mark \<open>k\<close> has not been passed since. Allocations are recorded while
  the word is 1, that is, while only mark 0 is still to come.
\<close>

theorem trace_bits_of_marks:
  assumes "run_marks bs initial_tracker = Some t" "k < 64"
  shows "bit (trace t) k \<longleftrightarrow>
    (\<exists>xs c ys. bs = xs @ c # ys \<and> k < unat c \<and> k \<notin> unat ` set ys)"
  using assms(1)
proof (induction bs arbitrary: t rule: rev_induct)
  case Nil
  then show ?case by (auto simp: initial_tracker_def)
next
  case (snoc b bs)
  then obtain t1 where t1: "run_marks bs initial_tracker = Some t1" "mark b t1 = Some t"
    by (auto simp: run_marks_snoc bind_eq_Some_conv)
  show ?case
    unfolding last_mark_snoc bit_mark [OF t1(2) assms(2)] snoc.IH [OF t1(1)] by blast
qed

theorem trace_bits_of_marks_witness:
  "\<exists>t. run_marks [3, 2, 1] initial_tracker = Some t \<and> trace t = 1 \<and> bit (trace t) 0 \<and>
     (\<exists>xs c ys. [3, 2, 1 :: u8] = xs @ c # ys \<and> 0 < unat c \<and> 0 \<notin> unat ` set ys)"
proof -
  obtain t where t: "run_marks [3, 2, 1] initial_tracker = Some t" "trace t = 1"
    by (simp add: mark_def initial_tracker_def Let_def)
  with trace_bits_of_marks [OF t(1), of 0] show ?thesis by simp
qed

section \<open>The ring of clamps\<close>

text \<open>One allocation seen by the hooks: the size arguments and the returned address.\<close>

type_synonym alloc = "u64 \<times> u64 \<times> u64"

definition record_alloc :: "allocator \<Rightarrow> alloc \<Rightarrow> tracker \<Rightarrow> tracker" where
  "record_alloc k = (\<lambda>(a, b, r) t. set_base r (set_size k a b t))"

definition block :: "allocator \<Rightarrow> alloc \<Rightarrow> clamp" where
  "block k = (\<lambda>(a, b, r). (r, r + alloc_size k a b))"

definition track :: "allocator \<Rightarrow> alloc list \<Rightarrow> tracker" where
  "track k allocs = fold (record_alloc k) allocs (initial_tracker\<lparr>trace := 1\<rparr>)"

definition last_allocs :: "alloc list \<Rightarrow> alloc list" where
  "last_allocs allocs = drop (length allocs - 256) allocs"

lemma track_snoc: "track k (allocs @ [x]) = record_alloc k x (track k allocs)"
  by (simp add: track_def)

text \<open>The allocation in slot \<open>i\<close>: the last one whose number is \<open>i\<close> modulo 256.\<close>

definition slot_of :: "allocator \<Rightarrow> alloc list \<Rightarrow> nat \<Rightarrow> clamp \<Rightarrow> bool" where
  "slot_of k allocs i c \<longleftrightarrow>
    (if i < length allocs
     then \<exists>j < length allocs. j mod 256 = i \<and> length allocs \<le> j + 256 \<and> c = block k (allocs ! j)
     else c = (0, 0))"

lemma track_invariant:
  "trace (track k allocs) = 1 \<and> next_clamp (track k allocs) = of_nat (length allocs) \<and>
   length (buffers (track k allocs)) = 256 \<and>
   (\<forall>i < 256. slot_of k allocs i (buffers (track k allocs) ! i))"
proof (induction allocs rule: rev_induct)
  case Nil
  show ?case by (simp add: track_def initial_tracker_def slot_of_def)
next
  case (snoc x allocs)
  let ?t = "track k allocs" and ?n = "length allocs"
  obtain a b r where x: "x = (a, b, r)" by (cases x)
  have n: "unat (next_clamp ?t) = ?n mod 256"
    using snoc.IH by (simp add: unat_of_nat)
  have t: "track k (allocs @ [x]) = ?t\<lparr>buffers := (buffers ?t)[?n mod 256 := block k x],
      next_clamp := of_nat (Suc ?n)\<rparr>"
    using snoc.IH n
    by (simp add: track_snoc record_alloc_def x set_base_def set_size_def block_def Let_def add.commute)
  have "slot_of k (allocs @ [x]) i (buffers (track k (allocs @ [x])) ! i)" if i: "i < 256" for i
  proof (cases "i = ?n mod 256")
    case True
    then have "buffers (track k (allocs @ [x])) ! i = block k ((allocs @ [x]) ! ?n)"
      using snoc.IH by (simp add: t)
    with True show ?thesis
      by (auto simp: slot_of_def intro!: exI [of _ ?n] dest: leD)
  next
    case False
    then have same: "buffers (track k (allocs @ [x])) ! i = buffers ?t ! i"
      by (simp add: t)
    have s: "slot_of k allocs i (buffers ?t ! i)"
      using snoc.IH i by blast
    show ?thesis
    proof (cases "i < ?n")
      case True
      with s obtain j where j: "j < ?n" "j mod 256 = i" "?n \<le> j + 256"
          "buffers ?t ! i = block k (allocs ! j)"
        by (auto simp: slot_of_def)
      have "?n \<noteq> j + 256"
        using False j(2) by auto
      with True j same show ?thesis
        by (auto simp: slot_of_def nth_append intro!: exI [of _ j])
    next
      case no: False
      with False i have "i \<noteq> ?n" by auto
      with no s same show ?thesis by (simp add: slot_of_def)
    qed
  qed
  then show ?case
    using snoc.IH by (simp add: t)
qed

lemma some_clamp_iff: "some_clamp P bs n \<longleftrightarrow> (\<exists>i < n. P (bs ! i))"
  by (induction n) (auto simp: less_Suc_eq)

lemma in_last_allocs:
  "x \<in> set (last_allocs allocs) \<longleftrightarrow>
     (\<exists>j < length allocs. length allocs \<le> j + 256 \<and> x = allocs ! j)"
proof
  assume "x \<in> set (last_allocs allocs)"
  then obtain i where "i < length allocs - (length allocs - 256)"
      "x = allocs ! (length allocs - 256 + i)"
    by (auto simp: last_allocs_def in_set_conv_nth)
  then show "\<exists>j < length allocs. length allocs \<le> j + 256 \<and> x = allocs ! j"
    by (intro exI [of _ "length allocs - 256 + i"]) auto
next
  assume "\<exists>j < length allocs. length allocs \<le> j + 256 \<and> x = allocs ! j"
  then obtain j where j: "j < length allocs" "length allocs \<le> j + 256" "x = allocs ! j"
    by blast
  then have "last_allocs allocs ! (j - (length allocs - 256)) = x"
    "j - (length allocs - 256) < length (last_allocs allocs)"
    by (auto simp: last_allocs_def)
  then show "x \<in> set (last_allocs allocs)" by (metis nth_mem)
qed

lemma mod_eq_close:
  fixes j j' :: nat
  assumes "j mod n = j' mod n" "j < j' + n" "j' < j + n"
  shows "j = j'"
proof (rule ccontr)
  assume "j \<noteq> j'"
  then consider "j < j'" | "j' < j" by linarith
  then show False
  proof cases
    case 1
    then have "n dvd j' - j" using mod_eq_dvd_iff_nat [of j j' n] assms(1) by simp
    with 1 assms(3) show False by (auto dest: dvd_imp_le)
  next
    case 2
    then have "n dvd j - j'" using mod_eq_dvd_iff_nat [of j' j n] assms(1) by simp
    with 2 assms(2) show False by (auto dest: dvd_imp_le)
  qed
qed

text \<open>A test that the zeroed clamp fails holds of a slot iff it holds of a recent block.\<close>

lemma some_clamp_track:
  assumes "\<not> P (0, 0)"
  shows "some_clamp P (buffers (track k allocs)) 256 \<longleftrightarrow>
    (\<exists>x \<in> set (last_allocs allocs). P (block k x))"
proof -
  let ?bs = "buffers (track k allocs)"
  have slot: "slot_of k allocs i (?bs ! i)" if "i < 256" for i
    using track_invariant [of k allocs] that by blast
  show ?thesis
  proof
    assume "some_clamp P ?bs 256"
    then obtain i where i: "i < 256" "P (?bs ! i)"
      by (auto simp: some_clamp_iff)
    with slot [OF i(1)] assms obtain j where "j < length allocs" "length allocs \<le> j + 256"
        "P (block k (allocs ! j))"
      by (auto simp: slot_of_def split: if_splits)
    then show "\<exists>x \<in> set (last_allocs allocs). P (block k x)"
      by (auto intro!: bexI [of _ "allocs ! j"] simp: in_last_allocs)
  next
    assume "\<exists>x \<in> set (last_allocs allocs). P (block k x)"
    then obtain j where j: "j < length allocs" "length allocs \<le> j + 256" "P (block k (allocs ! j))"
      by (auto simp: in_last_allocs)
    have le: "j mod 256 \<le> j" by simp
    with j(1) slot [of "j mod 256"] obtain j' where j': "j' < length allocs"
        "j' mod 256 = j mod 256" "length allocs \<le> j' + 256" "?bs ! (j mod 256) = block k (allocs ! j')"
      by (auto simp: slot_of_def)
    have "j = j'"
    proof (rule mod_eq_close)
      show "j mod 256 = j' mod 256" using j'(2) by simp
      show "j < j' + 256" "j' < j + 256" using j(1,2) j'(1,3) by linarith+
    qed
    with j(3) j'(4) show "some_clamp P ?bs 256"
      unfolding some_clamp_iff by (intro exI [of _ "j mod 256"]) simp
  qed
qed

text \<open>
  C14. The decisions of CWE-805 patches depend exactly on the last 256 recorded allocations: a
  pointer predicate jumps unless its cell lies in one of these blocks, a size predicate jumps
  unless the scaled cell is smaller than one of them (and reports branch 2 when the scaling
  overflows), and the direct check jumps unless one of them has room for the access beyond
  its last byte. Slots that were never written do not count.
\<close>

theorem cwe805_decides_on_last_blocks:
  assumes "t = track k allocs" "cell = read_cell mem s (cell_kind pred) (cell_index pred)"
    and "address = base + index * ucast sc + ucast disp"
  shows "(pred_kind pred = BR_PRED_CWE805_POINTER \<longrightarrow> CWE805_branch_taken mem s t pred =
      (if \<exists>x \<in> set (last_allocs allocs). fst (block k x) \<le> cell \<and> cell < snd (block k x)
       then 0 else 1)) \<and>
    (pred_kind pred = BR_PRED_CWE805_SIZE \<longrightarrow> CWE805_branch_taken mem s t pred =
      (if 2 ^ 64 \<le> uint cell * uint (pred_scale pred) then 2
       else if \<exists>x \<in> set (last_allocs allocs).
         cell * ucast (pred_scale pred) < snd (block k x) - fst (block k x) then 0 else 1)) \<and>
    fst (jnz p t base index sc disp n dst) =
      (if fst (select_patch_id p) = 1 \<and> \<not> (\<exists>x \<in> set (last_allocs allocs).
          fst (block k x) \<le> address \<and> address + n < snd (block k x))
       then Some dst else None)"
  using assms
  by (auto simp: CWE805_branch_taken_def jnz_def Let_def some_clamp_track case_prod_beta
      split: prod.splits)

definition ex_cpu :: x86_state where
  "ex_cpu = \<lparr>rax = 4100, rbx = 0, rcx = 0, rdx = 0, rsi = 0, rdi = 0, rsp = 0, rbp = 0,
     r8 = 0, r9 = 0, r10 = 0, r11 = 0, r12 = 0, r13 = 0, r14 = 0, r15 = 0\<rparr>"

text \<open>A pointer into a block of 16 bytes is accepted, an access of its last 8 bytes is not.\<close>

theorem cwe805_decides_on_last_blocks_witness:
  "CWE805_branch_taken (\<lambda>_. 0) ex_cpu (track ALLOC_MALLOC [(16, 0, 4096)])
     (zero_predicate\<lparr>pred_kind := BR_PRED_CWE805_POINTER\<rparr>) = 0 \<and>
   fst (jnz \<lparr>env_patch_id = 1, patch_fd = 2, patch_shm = None\<rparr>
     (track ALLOC_MALLOC [(16, 0, 4096)]) 4096 1 8 0 8 99) = Some 99"
proof -
  have "last_allocs [(16, 0, 4096)] = [(16, 0, 4096)]"
    by (simp add: last_allocs_def)
  with cwe805_decides_on_last_blocks [OF refl refl refl, where k = ALLOC_MALLOC
      and allocs = "[(16, 0, 4096)]" and s = ex_cpu and mem = "\<lambda>_. 0" and base = 4096 and index = 1
      and sc = 8 and disp = 0 and n = 8 and dst = 99
      and p = "\<lparr>env_patch_id = 1, patch_fd = 2, patch_shm = None\<rparr>"
      and pred = "zero_predicate\<lparr>pred_kind := BR_PRED_CWE805_POINTER\<rparr>"]
  show ?thesis
    by (simp add: block_def alloc_size_def read_cell_def ex_cpu_def state_to_env_def
        zero_predicate_def select_patch_id_def MAGIC_VALUE_PATCH_def)
qed

end
