(* ===== verification/Patch_Cached.thy ===== *)
theory Patch_Cached
  imports Patch_Runtime
begin

text \<open>
  The cached variant of the patch runtime, \<^verbatim>\<open>src/benchmarks/loftix/brpatch-cached.c\<close>: one
  patch, selected at the first call from the environment or a shared segment, and a bounded
  stream of snapshots of the registers, the tracked blocks and the stack. The calls of a
  process are modelled one after another, as the mutex makes the captures; the results of
  successive \<^verbatim>\<open>write\<close> calls are part of the state.
\<close>

definition BRCACHE_SNAPSHOT_MAGIC :: u32 where "BRCACHE_SNAPSHOT_MAGIC = 0x48435242"
definition BRCACHE_SNAPSHOT_VERSION :: u32 where "BRCACHE_SNAPSHOT_VERSION = 1"
definition BRCACHE_FLAG_TRUNCATED :: u64 where "BRCACHE_FLAG_TRUNCATED = 1"
definition BRCACHE_FLAG_CWE805 :: u64 where "BRCACHE_FLAG_CWE805 = 2"
definition BRCACHE_FLAG_INVALID :: u64 where "BRCACHE_FLAG_INVALID = 4"
definition BRCACHE_DEFAULT_MAX_HITS :: u64 where "BRCACHE_DEFAULT_MAX_HITS = 65536"
definition BRCACHE_DEFAULT_MAX_BYTES :: u64 where "BRCACHE_DEFAULT_MAX_BYTES = 8 * 1024 * 1024"
definition BRCACHE_MAX_STACK_SIZE :: u64 where "BRCACHE_MAX_STACK_SIZE = 1024 * 1024"

section \<open>State\<close>

text \<open>The shared segment: its header and the bytes that follow it.\<close>

record brcache_patch_selector =
  sel_patch_id :: u32
  sel_iteration :: u32
  descriptor_length :: u32
  descriptor_capacity :: u32
  descriptor :: string

text \<open>The output of the process and the results the next \<^verbatim>\<open>write\<close> calls will have.\<close>

record io =
  written :: "u8 list"
  results :: "int list"

text \<open>
  The expression of a generic predicate is a pointer to the text that was parsed: in the
  environment, or, when \<open>selected_in_segment\<close>, in the shared segment.
\<close>

record cache_state =
  base_env :: patch_env
  cache_stack_size :: u64
  cache_max_hits :: u64
  cache_max_bytes :: u64
  cache_hit_count :: u64
  cache_captured_bytes :: u64
  cache_truncated :: bool
  cache_fd :: "u32 option"
  selector_attached :: bool
  selected_initialized :: bool
  selected_invalid :: bool
  selected_patch_id :: u32
  selected_iteration :: u32
  selected_predicate :: br_predicate
  selected_in_segment :: bool
  cache_io :: io

definition predicate_stack_bytes :: "br_predicate \<Rightarrow> u64" where
  "predicate_stack_bytes p =
    (if cell_kind p = BR_CELL_REGISTER then 0
     else let width = (case cell_kind p of BR_CELL_STACK8 \<Rightarrow> 1 | BR_CELL_STACK16 \<Rightarrow> 2
            | BR_CELL_STACK32 \<Rightarrow> 4 | _ \<Rightarrow> 8)
     in (ucast (cell_index p) + 1) * width)"

text \<open>
  Start-up. The parameter \<open>segment_size\<close> is the size of the segment of a key, \<open>None\<close> when
  it cannot be found or examined.
\<close>

definition attach_cache_selector ::
    "(string \<rightharpoonup> string) \<Rightarrow> (string \<Rightarrow> u64 \<times> bool) \<Rightarrow> (u32 \<Rightarrow> nat option) \<Rightarrow> patch_env \<Rightarrow> bool" where
  "attach_cache_selector getenv strtoul segment_size p =
    (if env_patch_id p \<noteq> MAGIC_VALUE_PATCH \<or> patch_shm p = None then False
     else let key = getenvul getenv strtoul ''BINRADAR_PATCH_SHM_KEY'' in
       if key = 0 then False
       else (case segment_size key of None \<Rightarrow> False | Some n \<Rightarrow> 16 \<le> n))"

definition cached_init ::
    "(string \<rightharpoonup> string) \<Rightarrow> (string \<Rightarrow> u64 \<times> bool) \<Rightarrow> (u32 \<Rightarrow> (u32 \<times> u32) option) \<Rightarrow>
     (u32 \<Rightarrow> nat option) \<Rightarrow> int list \<Rightarrow> cache_state" where
  "cached_init getenv strtoul segment segment_size rs =
    (let p = init getenv strtoul segment;
         p = (if getenvul getenv strtoul ''PATCH_FD'' \<le> 2 then p\<lparr>patch_fd := - 1\<rparr> else p);
         fd = getenvul getenv strtoul ''PATCH_CACHED_FD'';
         stack_size = getenvull getenv strtoul ''BRCACHE_STACK_SIZE'';
         max_hits = getenvull getenv strtoul ''BRCACHE_MAX_HITS'';
         max_bytes = getenvull getenv strtoul ''BRCACHE_MAX_BYTES'' in
     \<lparr>base_env = p,
      cache_stack_size = (if stack_size \<le> BRCACHE_MAX_STACK_SIZE then stack_size else 0),
      cache_max_hits = (if max_hits > 0 then max_hits else BRCACHE_DEFAULT_MAX_HITS),
      cache_max_bytes = (if max_bytes > 0 then max_bytes else BRCACHE_DEFAULT_MAX_BYTES),
      cache_hit_count = 0, cache_captured_bytes = 0, cache_truncated = False,
      cache_fd = (if fd > 2 then Some fd else None),
      selector_attached = attach_cache_selector getenv strtoul segment_size p,
      selected_initialized = False, selected_invalid = False, selected_patch_id = 0,
      selected_iteration = 0, selected_predicate = zero_predicate, selected_in_segment = False,
      cache_io = \<lparr>written = [], results = rs\<rparr>\<rparr>)"

section \<open>Writing\<close>

text \<open>\<^verbatim>\<open>write\<close> transfers at most what is asked for; without a planned result it transfers all.\<close>

definition sys_write :: "u8 list \<Rightarrow> io \<Rightarrow> int \<times> io" where
  "sys_write buf w = (case results w of
      [] \<Rightarrow> (int (length buf), w\<lparr>written := written w @ buf\<rparr>)
    | r # rs \<Rightarrow> if r \<le> 0 then (r, w\<lparr>results := rs\<rparr>)
        else (int (min (nat r) (length buf)),
              w\<lparr>written := written w @ take (nat r) buf, results := rs\<rparr>))"

function write_all :: "u8 list \<Rightarrow> io \<Rightarrow> bool \<times> io" where
  "write_all buf w = (if buf = [] then (False, w)
     else (case sys_write buf w of (n, w) \<Rightarrow>
       if n \<le> 0 then (True, w) else write_all (drop (nat n) buf) w))"
  by auto
termination
  by (relation "measure (\<lambda>(buf, _). length buf)") (auto simp: min_def)

declare write_all.simps [simp del]

definition le_bytes :: "nat \<Rightarrow> u64 \<Rightarrow> u8 list" where
  "le_bytes n v = map (\<lambda>i. ucast (drop_bit (8 * i) v)) [0..<n]"

definition snapshot_header :: "u32 \<Rightarrow> nat \<Rightarrow> u64 \<Rightarrow> u64 \<Rightarrow> u8 list" where
  "snapshot_header patch_id branch stack_size flags =
    le_bytes 4 (ucast BRCACHE_SNAPSHOT_MAGIC) @ le_bytes 4 (ucast BRCACHE_SNAPSHOT_VERSION) @
    le_bytes 4 (ucast patch_id) @ le_bytes 4 (of_nat branch) @ le_bytes 8 stack_size @ le_bytes 8 flags"

definition write_marker :: "u32 \<Rightarrow> nat \<Rightarrow> u64 \<Rightarrow> cache_state \<Rightarrow> cache_state" where
  "write_marker patch_id branch flags c =
    c\<lparr>cache_io := snd (write_all (snapshot_header patch_id branch 0 flags) (cache_io c))\<rparr>"

text \<open>The parts of a record are written until one of them fails.\<close>

fun write_parts :: "u8 list list \<Rightarrow> io \<Rightarrow> bool \<times> io" where
  "write_parts [] w = (False, w)"
| "write_parts (b # bs) w = (case write_all b w of (failed, w) \<Rightarrow>
     if failed then (True, w) else write_parts bs w)"

definition clamp_bytes :: "clamp list \<Rightarrow> u8 list" where
  "clamp_bytes bs = concat (map (\<lambda>(b, e). le_bytes 8 b @ le_bytes 8 e) bs)"

definition stack_bytes :: "(u64 \<Rightarrow> u8) \<Rightarrow> u64 \<Rightarrow> u64 \<Rightarrow> u8 list" where
  "stack_bytes mem a n = map (\<lambda>i. mem (a + of_nat i)) [0..<unat n]"

definition record_size :: "bool \<Rightarrow> cache_state \<Rightarrow> u64" where
  "record_size cwe805 c = (32 + 16 * 8) + (if cwe805 then 4096 + cache_stack_size c else 0)"

definition snapshot_parts :: "bool \<Rightarrow> (u64 \<Rightarrow> u8) \<Rightarrow> x86_state \<Rightarrow> tracker \<Rightarrow> u32 \<Rightarrow> nat \<Rightarrow> u64 \<Rightarrow>
    cache_state \<Rightarrow> u8 list list" where
  "snapshot_parts cwe805 mem s t patch_id branch flags c =
    [snapshot_header patch_id branch (if cwe805 then cache_stack_size c else 0) flags] @
    (if cwe805 then [clamp_bytes (buffers t)] else []) @
    [concat (map (le_bytes 8) (state_to_env s))] @
    (if cwe805 then [stack_bytes mem (rsp s) (cache_stack_size c)] else [])"

definition capture_snapshot :: "bool \<Rightarrow> (u64 \<Rightarrow> u8) \<Rightarrow> x86_state \<Rightarrow> tracker \<Rightarrow> u32 \<Rightarrow> nat \<Rightarrow> bool \<Rightarrow>
    cache_state \<Rightarrow> cache_state" where
  "capture_snapshot cwe805 mem s t patch_id branch invalid c =
    (if cache_fd c = None \<or> cache_truncated c then c
     else let flags = (if cwe805 then BRCACHE_FLAG_CWE805 else 0) in
       if invalid then write_marker patch_id branch (flags OR BRCACHE_FLAG_INVALID) c
       else if cache_hit_count c \<ge> cache_max_hits c \<or>
         record_size cwe805 c > cache_max_bytes c -
           (if cache_captured_bytes c \<le> cache_max_bytes c then cache_captured_bytes c
            else cache_max_bytes c)
       then write_marker patch_id branch (flags OR BRCACHE_FLAG_TRUNCATED) (c\<lparr>cache_truncated := True\<rparr>)
       else (case write_parts (snapshot_parts cwe805 mem s t patch_id branch flags c) (cache_io c) of
         (failed, w) \<Rightarrow>
           if failed then c\<lparr>cache_io := w, cache_truncated := True\<rparr>
           else c\<lparr>cache_io := w, cache_captured_bytes := cache_captured_bytes c + record_size cwe805 c,
                  cache_hit_count := cache_hit_count c + 1\<rparr>))"

section \<open>Selecting and deciding\<close>



definition selector_ok :: "brcache_patch_selector \<Rightarrow> bool" where
  "selector_ok sel \<longleftrightarrow>
    (let len = unat (descriptor_length sel); cap = unat (descriptor_capacity sel) in
     \<not> (cap = 0 \<or> cap > length (descriptor sel) \<or> len \<ge> cap \<or>
        descriptor sel ! len \<noteq> NUL \<or> NUL \<in> set (take len (descriptor sel))))"

text \<open>
  The selected id and iteration, whether the selection is invalid, whether it is not yet
  published, and the descriptor; \<open>pred_var\<close> is the variable \<^verbatim>\<open>TAOSC_PRED\<close>.
\<close>

definition select_descriptor :: "string option \<Rightarrow> brcache_patch_selector \<Rightarrow> cache_state \<Rightarrow>
    u32 \<times> u32 \<times> bool \<times> bool \<times> string option" where
  "select_descriptor pred_var sel c =
    (if env_patch_id (base_env c) \<noteq> MAGIC_VALUE_PATCH
     then (env_patch_id (base_env c), 0, selected_invalid c, False, pred_var)
     else if \<not> selector_attached c then (0, 0, True, False, None)
     else if sel_iteration sel = 0 then (sel_patch_id sel, 0, selected_invalid c, True, None)
     else if \<not> selector_ok sel then (sel_patch_id sel, sel_iteration sel, True, False, None)
     else (sel_patch_id sel, sel_iteration sel, selected_invalid c, False,
           Some (take (unat (descriptor_length sel)) (descriptor sel))))"

text \<open>The branch and whether the evaluation was invalid.\<close>

definition evaluate_selected :: "bool \<Rightarrow> (u64 \<Rightarrow> u8) \<Rightarrow> x86_state \<Rightarrow> tracker \<Rightarrow> br_predicate \<Rightarrow>
    (nat \<times> bool) option" where
  "evaluate_selected cwe805 mem s t pred =
    (if pred_kind pred = BR_PRED_GENERIC then
       map_option (\<lambda>(v, cursor, crashed).
           if cursor \<noteq> [] then (0, True)
           else (if crashed then 2 else if v \<noteq> 0 then 1 else 0, False))
         (eval (state_to_env s) (generic_branch_expression pred) False)
     else if cwe805 then Some (CWE805_branch_taken mem s t pred, False)
     else Some (0, True))"

text \<open>
  The selection of the first call. A selection that is not yet published changes the id and
  the iteration only. When the descriptor is rejected the predicate keeps its old value here,
  while the code may have filled in part of it; an invalid selection is never evaluated.
\<close>

definition initialize_selected :: "string option \<Rightarrow> brcache_patch_selector \<Rightarrow> cache_state \<Rightarrow>
    (bool \<times> cache_state) option" where
  "initialize_selected pred_var sel c =
    (case select_descriptor pred_var sel c of (patch_id, iteration, invalid, unpublished, encoded) \<Rightarrow>
     let c = c\<lparr>selected_patch_id := patch_id, selected_iteration := iteration,
               selected_invalid := invalid\<rparr> in
     if unpublished then Some (True, c)
     else if invalid \<or> encoded = None
     then Some (False, c\<lparr>selected_invalid := True, selected_initialized := True\<rparr>)
     else map_option (\<lambda>r. (False, (case r of
           None \<Rightarrow> c\<lparr>selected_invalid := True, selected_initialized := True\<rparr>
         | Some pred \<Rightarrow> c\<lparr>selected_predicate := pred,
             selected_in_segment := (env_patch_id (base_env c) = MAGIC_VALUE_PATCH),
             selected_invalid := (predicate_stack_bytes pred > cache_stack_size c),
             selected_initialized := True\<rparr>)))
       (parse_predicate (the encoded) (selected_predicate c)))"

text \<open>
  The predicate as a call sees it: a generic expression in the segment is read again at every
  call, up to its NUL; without one the read leaves the segment. The variable of the environment is
  taken to keep its text.
\<close>

definition current_predicate :: "brcache_patch_selector \<Rightarrow> cache_state \<Rightarrow> br_predicate option" where
  "current_predicate sel c = (let p = selected_predicate c in
     if selected_in_segment c \<and> pred_kind p = BR_PRED_GENERIC
     then if NUL \<in> set (descriptor sel)
       then Some (p\<lparr>generic_branch_expression := takeWhile (\<lambda>x. x \<noteq> NUL) (descriptor sel)\<rparr>) else None
     else Some p)"

definition cached_dest :: "bool \<Rightarrow> u64 \<Rightarrow> string option \<Rightarrow> brcache_patch_selector \<Rightarrow> tracker \<Rightarrow>
    (u64 \<Rightarrow> u8) \<Rightarrow> x86_state \<Rightarrow> cache_state \<Rightarrow> ((u64 option \<times> patch_log option) \<times> cache_state) option" where
  "cached_dest cwe805 TAOSC_DEST pred_var sel t mem s c =
    Option.bind (if selected_initialized c then Some (False, c)
                 else initialize_selected pred_var sel c) (\<lambda>(unpublished, c).
      if unpublished then Some ((None, None), c)
      else map_option (\<lambda>(branch, invalid).
          ((if branch = 1 then Some TAOSC_DEST else None,
            Some (selected_patch_id c, branch, selected_iteration c)),
           capture_snapshot cwe805 mem s t (selected_patch_id c) branch invalid c))
        (if selected_invalid c then Some (0, True)
         else Option.bind (current_predicate sel c) (evaluate_selected cwe805 mem s t)))"

end
