(* ===== verification/Patch_Expr.thy ===== *)
theory Patch_Expr
  imports Patch_Eval
begin

text \<open>
  Patch expressions as trees, their encoding by
  \<^verbatim>\<open>src/binradar/binradar_taosc_predicates.py\<close>, their meaning on signed 64-bit integers,
  and that the evaluator of the patch runtime computes that meaning from the encoding.
\<close>

section \<open>Trees and their encoding\<close>

datatype bin_op = B_EQ | B_NE | B_GT | B_GE | B_LT | B_LE | B_ADD | B_SUB | B_MUL | B_DIV | B_MOD
  | B_AND | B_OR | B_XOR | B_SHL | B_SHR

datatype ast_node = Const int | Var nat | UPlus ast_node | UMinus ast_node | UNot ast_node
  | Binary bin_op ast_node ast_node

fun op_map :: "bin_op \<Rightarrow> string" where
  "op_map B_EQ = ''=''" | "op_map B_NE = ''!''" | "op_map B_GT = ''>''" | "op_map B_GE = ''>=''"
| "op_map B_LT = ''<''" | "op_map B_LE = ''<=''" | "op_map B_ADD = ''+''" | "op_map B_SUB = ''-''"
| "op_map B_MUL = ''*''" | "op_map B_DIV = ''/''" | "op_map B_MOD = ''%''" | "op_map B_AND = ''&''"
| "op_map B_OR = ''|''" | "op_map B_XOR = ''^''" | "op_map B_SHL = ''l''" | "op_map B_SHR = ''r''"

fun emit_patch :: "ast_node \<Rightarrow> string" where
  "emit_patch (Const v) =
    (if v \<ge> 0 then CHR ''p'' # show_nat (nat v) else CHR ''n'' # show_nat (nat (- v)))"
| "emit_patch (Var i) = CHR ''v'' # show_nat i"
| "emit_patch (UPlus e) = emit_patch e"
| "emit_patch (UMinus e) = ''-p0'' @ emit_patch e"
| "emit_patch (UNot e) = CHR ''~'' # emit_patch e"
| "emit_patch (Binary op l r) = op_map op @ emit_patch l @ emit_patch r"

definition branch_patch_str :: "ast_node \<Rightarrow> string" where
  "branch_patch_str e = CHR ''='' # emit_patch e @ ''p0''"

section \<open>Meaning\<close>

definition wrap64 :: "int \<Rightarrow> int" where
  "wrap64 z = signed_take_bit 63 z"

text \<open>\<open>None\<close> is a division that traps.\<close>

fun bin_value :: "bin_op \<Rightarrow> int \<Rightarrow> int \<Rightarrow> int option" where
  "bin_value B_EQ a b = Some (of_bool (a = b))"
| "bin_value B_NE a b = Some (of_bool (a \<noteq> b))"
| "bin_value B_GT a b = Some (of_bool (a > b))"
| "bin_value B_GE a b = Some (of_bool (a \<ge> b))"
| "bin_value B_LT a b = Some (of_bool (a < b))"
| "bin_value B_LE a b = Some (of_bool (a \<le> b))"
| "bin_value B_ADD a b = Some (wrap64 (a + b))"
| "bin_value B_SUB a b = Some (wrap64 (a - b))"
| "bin_value B_MUL a b = Some (wrap64 (a * b))"
| "bin_value B_DIV a b = (if b = 0 \<or> (a = - (2 ^ 63) \<and> b = - 1) then None else Some (wrap64 (a sdiv b)))"
| "bin_value B_MOD a b = (if b = 0 \<or> (a = - (2 ^ 63) \<and> b = - 1) then None else Some (wrap64 (a smod b)))"
| "bin_value B_AND a b = Some (a AND b)"
| "bin_value B_OR a b = Some (a OR b)"
| "bin_value B_XOR a b = Some (a XOR b)"
| "bin_value B_SHL a b = Some (wrap64 (shift_int a b))"
| "bin_value B_SHR a b = Some (wrap64 (shift_int a (- b)))"

fun node_value :: "int list \<Rightarrow> ast_node \<Rightarrow> int option" where
  "node_value env (Const v) = Some (wrap64 v)"
| "node_value env (Var i) = Some (env ! i)"
| "node_value env (UPlus e) = node_value env e"
| "node_value env (UMinus e) = map_option (\<lambda>a. wrap64 (- a)) (node_value env e)"
| "node_value env (UNot e) = map_option (\<lambda>a. - a - 1) (node_value env e)"
| "node_value env (Binary op l r) = Option.bind (node_value env l) (\<lambda>a.
     Option.bind (node_value env r) (bin_value op a))"

section \<open>Operators\<close>

lemma wrap64_sint [simp]: "sint (word_of_int z :: i64) = wrap64 z"
  using sint_sbintrunc' [of z, where ?'a = 64] by (simp add: wrap64_def)

lemma wrap64_id: "- (2 ^ 63) \<le> z \<Longrightarrow> z < 2 ^ 63 \<Longrightarrow> wrap64 z = z"
  unfolding wrap64_def by (rule signed_take_bit_int_eq_self) auto

lemma wrap64_sint_eq: "wrap64 (sint (a :: i64)) = sint a"
  using sint_bounds [of a] by (intro wrap64_id) auto

lemma sint_ops:
  fixes a b :: i64
  shows "sint (a + b) = wrap64 (sint a + sint b)" "sint (a - b) = wrap64 (sint a - sint b)"
    "sint (a * b) = wrap64 (sint a * sint b)" "sint (- a) = wrap64 (- sint a)"
    "sint (NOT a) = - sint a - 1"
    "sint (a AND b) = sint a AND sint b" "sint (a OR b) = sint a OR sint b"
    "sint (a XOR b) = sint a XOR sint b"
proof -
  show "sint (a + b) = wrap64 (sint a + sint b)"
    using wrap64_sint [of "sint a + sint b"] by simp
  show "sint (a - b) = wrap64 (sint a - sint b)"
    using wrap64_sint [of "sint a - sint b"] by simp
  show "sint (a * b) = wrap64 (sint a * sint b)"
    using wrap64_sint [of "sint a * sint b"] by simp
  show "sint (- a) = wrap64 (- sint a)"
    using wrap64_sint [of "- sint a"] by simp
  show "sint (NOT a) = - sint a - 1"
    using sint_bounds [of a]
    by (simp add: signed_not_eq not_int_def) (rule signed_take_bit_int_eq_self; simp)
  show "sint (a AND b) = sint a AND sint b" "sint (a OR b) = sint a OR sint b"
    "sint (a XOR b) = sint a XOR sint b"
    by (simp_all add: signed_and_eq signed_or_eq signed_xor_eq)
qed

text \<open>The operator character and whether a \<^verbatim>\<open>=\<close> follows it.\<close>

definition op_char :: "bin_op \<Rightarrow> char" where
  "op_char op = hd (op_map op)"

definition op_has_eq :: "bin_op \<Rightarrow> bool" where
  "op_has_eq op \<longleftrightarrow> op = B_GE \<or> op = B_LE"

lemma op_map_eq: "op_map op = (if op_has_eq op then [op_char op, CHR ''=''] else [op_char op])"
  by (cases op) (simp_all add: op_char_def op_has_eq_def)

lemma op_char_other: "\<not> is_leaf (op_char op)" "op_char op \<noteq> CHR ''~''" "\<not> is_digit (op_char op)"
  by (cases op; simp add: op_char_def is_leaf_def ctext_simps)+

text \<open>A result of the evaluator as a value of the semantics: a set flag is a trap.\<close>

definition outcome :: "i64 \<times> bool \<Rightarrow> int option" where
  "outcome = (\<lambda>(v, t). if t then None else Some (sint v))"

lemma eval_binary_correct:
  "map_option outcome (eval_binary (op_char op) (op_has_eq op) a b) =
     Some (bin_value op (sint a) (sint b))"
  by (cases op)
    (simp_all add: eval_binary_def op_char_def op_has_eq_def i64_bool_def div_traps_def
      shift_left_eq shift_right_eq sint_ops word_eq_iff_signed [symmetric] outcome_def)

section \<open>Correctness of the evaluator\<close>

definition no_digit_ahead :: "string \<Rightarrow> bool" where
  "no_digit_ahead s \<longleftrightarrow> s = [] \<or> \<not> is_digit (hd s)"

fun starts_eq :: "ast_node \<Rightarrow> bool" where
  "starts_eq (UPlus e) = starts_eq e"
| "starts_eq (Binary op l r) = (op = B_EQ)"
| "starts_eq _ = False"

text \<open>
  Trees the encoding keeps apart: the left operand of \<open><\<close> or \<open>>\<close> does not start with an
  equality, and variables are in range.
\<close>

fun encodable :: "nat \<Rightarrow> ast_node \<Rightarrow> bool" where
  "encodable n (Const v) = True"
| "encodable n (Var i) = (i < n)"
| "encodable n (UPlus e) = encodable n e"
| "encodable n (UMinus e) = encodable n e"
| "encodable n (UNot e) = encodable n e"
| "encodable n (Binary op l r) = (encodable n l \<and> encodable n r \<and>
     (op = B_GT \<or> op = B_LT \<longrightarrow> \<not> starts_eq l))"

lemma digit_char_digit: "d < 10 \<Longrightarrow> is_digit (digit_char d)"
  using digit_char_cases(1) [of d] by (auto simp: digit_val_def ctext_simps split: if_splits)

lemma scani_from_show:
  assumes "\<forall>c \<in> set ds. is_digit c" "no_digit_ahead t"
  shows "scani_from (of_nat n) (ds @ t) = (of_nat (digits_val 10 n ds), t)"
  using assms
proof (induction ds arbitrary: n)
  case Nil
  then show ?case by (cases t) (simp_all add: no_digit_ahead_def)
next
  case (Cons c ds)
  then have d: "digit_val c = Some (of_char c - 48)" and le: "48 \<le> (of_char c :: nat)"
    and c: "is_digit c"
    by (auto simp: digit_val_def ctext_simps)
  have "(of_nat (n * 10 + (of_char c - 48)) :: u64) =
      of_nat n * 10 + of_nat (of_char c) - of_nat (of_char (CHR ''0''))"
    using le by (simp add: of_nat_diff)
  with Cons.IH [of "n * 10 + (of_char c - 48)"] Cons.prems c d show ?case
    by (simp del: of_nat_add of_nat_mult of_nat_diff)
qed

lemma scani_show_nat:
  assumes "no_digit_ahead t"
  shows "scani (show_nat n @ t) = (of_nat n, t)"
proof -
  have "\<forall>c \<in> set (show_nat n). is_digit c"
    using show_nat_digits(2) [of n] digit_char_digit by auto
  from scani_from_show [OF this assms, of 0] show ?thesis
    by (simp add: scani_def digits_val_show_nat)
qed

lemma emit_patch_ne: "emit_patch e \<noteq> []"
  by (induction e) (auto simp: op_map_eq)

lemma hd_emit_patch:
  "\<not> is_digit (hd (emit_patch e))" "hd (emit_patch e) = CHR ''='' \<longleftrightarrow> starts_eq e"
proof (induction e)
  case (Binary op l r)
  show "\<not> is_digit (hd (emit_patch (Binary op l r)))"
    using op_char_other(3) [of op] by (simp add: op_map_eq)
  show "hd (emit_patch (Binary op l r)) = CHR ''='' \<longleftrightarrow> starts_eq (Binary op l r)"
    by (cases op) simp_all
qed (simp_all add: ctext_simps emit_patch_ne)

lemma no_digit_ahead_emit: "no_digit_ahead (emit_patch e @ t)"
  using hd_emit_patch(1) [of e] by (simp add: no_digit_ahead_def emit_patch_ne)

lemma eval_op_step:
  assumes "eval env (emit_patch l @ s) c = Some (a, s, c1)" "eval env s c1 = Some (b, t, c2)"
    and "op = B_GT \<or> op = B_LT \<longrightarrow> \<not> starts_eq l"
  shows "eval env (op_map op @ emit_patch l @ s) c =
    map_option (\<lambda>(v, x). (v, t, c2 \<or> x)) (eval_binary (op_char op) (op_has_eq op) a b)"
proof -
  let ?p = "(if op_has_eq op then [CHR ''=''] else []) @ emit_patch l @ s"
  have hd: "hd (emit_patch l @ s) = hd (emit_patch l)"
    by (simp add: emit_patch_ne)
  have eq: "eq_follows (op_char op) ?p = op_has_eq op"
    using assms(3) hd_emit_patch(2) [of l]
    by (cases op) (simp_all add: eq_follows_def op_char_def op_has_eq_def hd emit_patch_ne)
  then have skip: "skip_eq (op_char op) ?p = emit_patch l @ s"
    by (simp add: skip_eq_def)
  have "op_map op @ emit_patch l @ s = op_char op # ?p"
    by (simp add: op_map_eq)
  then show ?thesis
    using assms(1,2) op_char_other [of op] by (simp only: eval.simps skip eq) simp
qed

text \<open>
  What a run of the evaluator on an encoded tree returns, in terms of the meaning of the
  tree: the text after it, and the value unless a division trapped.
\<close>

definition evaluates :: "i64 list \<Rightarrow> ast_node \<Rightarrow> string \<Rightarrow> bool \<Rightarrow> bool" where
  "evaluates env e t c \<longleftrightarrow> (\<exists>v c'. eval env (emit_patch e @ t) c = Some (v, t, c') \<and>
     (case node_value (map sint env) e of None \<Rightarrow> c' | Some z \<Rightarrow> c' = c \<and> sint v = z))"

lemma evaluates_binary:
  assumes "evaluates env l (emit_patch r @ t) c" "\<And>c. evaluates env r t c"
    and "op = B_GT \<or> op = B_LT \<longrightarrow> \<not> starts_eq l"
  shows "evaluates env (Binary op l r) t c"
proof -
  obtain a c1 where a: "eval env (emit_patch l @ emit_patch r @ t) c = Some (a, emit_patch r @ t, c1)"
      "case node_value (map sint env) l of None \<Rightarrow> c1 | Some z \<Rightarrow> c1 = c \<and> sint a = z"
    using assms(1) by (auto simp: evaluates_def)
  obtain b c2 where b: "eval env (emit_patch r @ t) c1 = Some (b, t, c2)"
      "case node_value (map sint env) r of None \<Rightarrow> c2 | Some z \<Rightarrow> c2 = c1 \<and> sint b = z"
    using assms(2) [of c1] by (auto simp: evaluates_def)
  obtain v x where v: "eval_binary (op_char op) (op_has_eq op) a b = Some (v, x)"
      "outcome (v, x) = bin_value op (sint a) (sint b)"
    using eval_binary_correct [of op a b] by auto
  have "eval env (emit_patch (Binary op l r) @ t) c = Some (v, t, c2 \<or> x)"
    using eval_op_step [OF a(1) b(1) assms(3)] v(1) by simp
  with a(2) b(2) v(2) show ?thesis
    by (auto simp: evaluates_def outcome_def split: option.splits if_splits)
qed

lemma eval_emit_patch:
  "encodable (length env) e \<Longrightarrow> length env < 2 ^ 64 \<Longrightarrow> no_digit_ahead t \<Longrightarrow> evaluates env e t c"
proof (induction e arbitrary: t c)
  case (Const v)
  show ?case
  proof (cases "v \<ge> 0")
    case True
    then have "sint (of_nat (nat v) :: i64) = wrap64 v"
      using wrap64_sint [of v] by simp
    with True Const show ?thesis
      by (simp add: evaluates_def is_leaf_def eval_leaf_def scani_show_nat)
  next
    case False
    then have "sint (- of_nat (nat (- v)) :: i64) = wrap64 v"
      using wrap64_sint [of v] by simp
    with False Const show ?thesis
      by (simp add: evaluates_def is_leaf_def eval_leaf_def scani_show_nat)
  qed
next
  case (Var i)
  then show ?case
    by (simp add: evaluates_def is_leaf_def eval_leaf_def scani_show_nat unat_of_nat)
next
  case (UPlus e)
  then show ?case by (simp add: evaluates_def)
next
  case (UMinus e t c)
  have z: "evaluates env (Const 0) (emit_patch e @ t) c" for c
    using scani_show_nat [OF no_digit_ahead_emit, of 0 e t]
    by (simp add: evaluates_def is_leaf_def eval_leaf_def wrap64_def)
  have "evaluates env (Binary B_SUB (Const 0) e) t c" for c
    using UMinus z by (intro evaluates_binary) auto
  moreover have "emit_patch (UMinus e) = emit_patch (Binary B_SUB (Const 0) e)"
    by (simp add: show_nat.simps [of 0] digit_char_def char_of_def bit_0)
  moreover have "node_value env' (UMinus e) = node_value env' (Binary B_SUB (Const 0) e)" for env'
    by (cases "node_value env' e") (simp_all add: wrap64_def)
  ultimately show ?case
    unfolding evaluates_def by metis
next
  case (UNot e t c)
  then have "evaluates env e t c" by simp
  then obtain v c' where e: "eval env (emit_patch e @ t) c = Some (v, t, c')"
      "case node_value (map sint env) e of None \<Rightarrow> c' | Some z \<Rightarrow> c' = c \<and> sint v = z"
    by (auto simp: evaluates_def)
  then show ?case
    by (auto simp: evaluates_def is_leaf_def sint_ops split: option.splits)
next
  case (Binary op l r)
  then show ?case
    by (intro evaluates_binary) (auto intro: no_digit_ahead_emit)
qed

end
