(* ===== verification/Patch_Descriptor.thy ===== *)
theory Patch_Descriptor
  imports Patch_Expr Patch_Runtime
begin

text \<open>
  Patch descriptors: their printed form (\<^verbatim>\<open>predicate_descriptor\<close> of
  \<^verbatim>\<open>src/binradar/binradar_taosc_predicates.py\<close>), the predicates that have one, and that the
  parser of the patch runtime is the inverse of printing.
\<close>

text \<open>The predicates of the setup. Integers of Python have no width.\<close>

datatype state_cell = RegisterCell (register_index: int) | StackCell (width_bits: int) (register_index: int)

datatype parsed_predicate = GenericPredicate string | CWE805PointerPredicate state_cell
  | CWE805SizePredicate int state_cell

fun encoded_cell :: "state_cell \<Rightarrow> string" where
  "encoded_cell (RegisterCell i) = CHR ''p'' # show_int i"
| "encoded_cell (StackCell w i) = CHR ''s'' # show_int w @ CHR ''i'' # show_int i"

fun predicate_descriptor :: "parsed_predicate \<Rightarrow> string" where
  "predicate_descriptor (GenericPredicate s) = s"
| "predicate_descriptor (CWE805PointerPredicate cell) = ''c1'' @ encoded_cell cell"
| "predicate_descriptor (CWE805SizePredicate scale cell) = ''c2'' @ encoded_cell cell @ CHR ''q'' # show_int scale"

text \<open>What the parsers of the setup return.\<close>

fun register_or_stack :: "int set \<Rightarrow> state_cell \<Rightarrow> bool" where
  "register_or_stack ws (RegisterCell i) = (0 \<le> i \<and> i \<le> 15)"
| "register_or_stack ws (StackCell w i) = (w \<in> ws \<and> 0 \<le> i)"

fun valid_predicate :: "parsed_predicate \<Rightarrow> bool" where
  "valid_predicate (GenericPredicate s) = (s = [] \<or> hd s \<noteq> CHR ''c'')"
| "valid_predicate (CWE805PointerPredicate cell) = register_or_stack {64} cell"
| "valid_predicate (CWE805SizePredicate scale cell) = (scale \<in> {1, 2, 4, 8} \<and> register_or_stack {8, 16, 32} cell)"

text \<open>The number in a predicate's cell, and the predicate with another one.\<close>

fun index_of :: "parsed_predicate \<Rightarrow> int" where
  "index_of (GenericPredicate s) = 0"
| "index_of (CWE805PointerPredicate cell) = register_index cell"
| "index_of (CWE805SizePredicate scale cell) = register_index cell"

fun map_index :: "int \<Rightarrow> state_cell \<Rightarrow> state_cell" where
  "map_index i (RegisterCell j) = RegisterCell i"
| "map_index i (StackCell w j) = StackCell w i"

fun with_index :: "int \<Rightarrow> parsed_predicate \<Rightarrow> parsed_predicate" where
  "with_index i (GenericPredicate s) = GenericPredicate s"
| "with_index i (CWE805PointerPredicate cell) = CWE805PointerPredicate (map_index i cell)"
| "with_index i (CWE805SizePredicate scale cell) = CWE805SizePredicate scale (map_index i cell)"

text \<open>A predicate of the runtime as the setup has it, and back; the latter cuts the index to 16 bits.\<close>

definition parsed_cell :: "br_predicate \<Rightarrow> state_cell" where
  "parsed_cell p = (let i = uint (cell_index p) in case cell_kind p of
       BR_CELL_REGISTER \<Rightarrow> RegisterCell i | BR_CELL_STACK8 \<Rightarrow> StackCell 8 i | BR_CELL_STACK16 \<Rightarrow> StackCell 16 i
     | BR_CELL_STACK32 \<Rightarrow> StackCell 32 i | BR_CELL_STACK64 \<Rightarrow> StackCell 64 i)"

definition parsed_of :: "br_predicate \<Rightarrow> parsed_predicate" where
  "parsed_of p = (case pred_kind p of
       BR_PRED_CWE805_POINTER \<Rightarrow> CWE805PointerPredicate (parsed_cell p)
     | BR_PRED_CWE805_SIZE \<Rightarrow> CWE805SizePredicate (uint (pred_scale p)) (parsed_cell p)
     | _ \<Rightarrow> GenericPredicate (generic_branch_expression p))"

fun cell_fields :: "state_cell \<Rightarrow> br_predicate \<Rightarrow> br_predicate" where
  "cell_fields (RegisterCell i) out = out\<lparr>cell_kind := BR_CELL_REGISTER, cell_index := word_of_int i\<rparr>"
| "cell_fields (StackCell w i) out = out\<lparr>cell_kind := the (stack_cell w), cell_index := word_of_int i\<rparr>"

fun runtime_predicate :: "parsed_predicate \<Rightarrow> br_predicate" where
  "runtime_predicate (GenericPredicate s) = zero_predicate\<lparr>pred_kind := BR_PRED_GENERIC, generic_branch_expression := s\<rparr>"
| "runtime_predicate (CWE805PointerPredicate cell) = cell_fields cell (zero_predicate\<lparr>pred_kind := BR_PRED_CWE805_POINTER\<rparr>)"
| "runtime_predicate (CWE805SizePredicate scale cell) =
     (cell_fields cell (zero_predicate\<lparr>pred_kind := BR_PRED_CWE805_SIZE\<rparr>))\<lparr>pred_scale := word_of_int scale\<rparr>"

text \<open>Predicates the runtime can act on.\<close>

definition cell_ok :: "br_predicate \<Rightarrow> bool" where
  "cell_ok p \<longleftrightarrow> (cell_kind p = BR_CELL_REGISTER \<longrightarrow> cell_index p \<le> 15) \<and> cell_allowed p"

definition wf_predicate :: "br_predicate \<Rightarrow> bool" where
  "wf_predicate p = (case pred_kind p of
       BR_PRED_FALSE \<Rightarrow> False
     | BR_PRED_GENERIC \<Rightarrow> cell_kind p = BR_CELL_REGISTER \<and> cell_index p = 0 \<and> pred_scale p = 0 \<and>
         (generic_branch_expression p = [] \<or> hd (generic_branch_expression p) \<noteq> CHR ''c'')
     | BR_PRED_CWE805_POINTER \<Rightarrow> cell_ok p \<and> pred_scale p = 0 \<and> generic_branch_expression p = []
     | BR_PRED_CWE805_SIZE \<Rightarrow> cell_ok p \<and> pred_scale p \<in> {1, 2, 4, 8} \<and>
         generic_branch_expression p = [])"

section \<open>Numbers\<close>

lemma parse_num_from_show:
  assumes "\<forall>c \<in> set ds. is_digit c" "no_digit_ahead t" "digits_val 10 n ds \<le> 2147483647"
  shows "parse_num_from (int n) (ds @ t) = Some (int (digits_val 10 n ds), t)"
  using assms
proof (induction ds arbitrary: n)
  case Nil
  then show ?case by (cases t) (simp_all add: no_digit_ahead_def)
next
  case (Cons c ds)
  then have d: "digit_val c = Some (of_char c - 48)" and le: "48 \<le> (of_char c :: nat)"
    and c: "is_digit c"
    by (auto simp: digit_val_def ctext_simps)
  let ?n = "n * 10 + (of_char c - 48)"
  have n: "int ?n = int n * 10 + (int (of_char c) - int (of_char (CHR ''0'')))"
    using le by (simp add: of_nat_diff)
  have mono: "m \<le> digits_val 10 m xs" for m xs
  proof (induction xs arbitrary: m)
    case (Cons x xs)
    have "m \<le> m * 10 + the (digit_val x)" by simp
    also have "\<dots> \<le> digits_val 10 (m * 10 + the (digit_val x)) xs" by (rule Cons.IH)
    finally show ?case by simp
  qed simp
  have "?n \<le> 2147483647"
    using mono [of ?n ds] Cons.prems(3) d by simp
  then have "\<not> int n * 10 + (int (of_char c) - int (of_char (CHR ''0''))) > 2147483647"
    unfolding n [symmetric] by linarith
  with Cons.IH [of ?n] Cons.prems c d n show ?case
    by (simp del: of_nat_add of_nat_mult of_nat_diff)
qed

lemma parse_num_show_nat:
  assumes "no_digit_ahead t" "n \<le> 2147483647"
  shows "parse_num (show_nat n @ t) = Some (int n, t)"
proof -
  have "\<forall>c \<in> set (show_nat n). is_digit c"
    using show_nat_digits(2) [of n] digit_char_digit by auto
  from parse_num_from_show [OF this assms(1), of 0] assms(2) show ?thesis
    by (simp add: parse_num_def digits_val_show_nat)
qed

lemma parse_num_show_int:
  assumes "no_digit_ahead t" "0 \<le> n" "n \<le> 2147483647"
  shows "parse_num (show_int n @ t) = Some (n, t)"
  using parse_num_show_nat [of t "nat n"] assms by (simp add: show_int_def)

lemma no_digit_ahead_simps [simp]:
  "no_digit_ahead []" "no_digit_ahead (CHR ''i'' # x)" "no_digit_ahead (CHR ''q'' # x)"
  by (simp_all add: no_digit_ahead_def ctext_simps)

section \<open>Parsing a printed descriptor\<close>

lemma res_bind_simps [simp]: "res_bind (Some (Some x)) f = f x" "res_bind (Some None) f = Some None"
  by (simp_all add: res_bind_def)

lemma res_bind_result:
  "res_bind m f = Some (Some y) \<longleftrightarrow> (\<exists>x. m = Some (Some x) \<and> f x = Some (Some y))"
  by (simp add: res_bind_def split: option.splits)

lemmas parse_cell_defs = parse_cell_def register_cell_def stack_cell_at_def

lemma parse_cell_printed:
  assumes "register_or_stack ws cell" "ws \<subseteq> {8, 16, 32, 64}" "register_index cell \<le> 2147483647" "no_digit_ahead t"
  shows "parse_cell (encoded_cell cell @ t) out = Some (Some (cell_fields cell out, t))"
proof (cases cell)
  case (RegisterCell i)
  with assms have "unat (word_of_int i :: u16) \<le> 15"
    by (simp add: unat_eq_nat_uint uint_word_of_int nat_le_iff)
  with RegisterCell assms show ?thesis
    by (simp add: parse_cell_def register_cell_def parse_num_show_int)
next
  case (StackCell w i)
  with assms have "w \<in> {8, 16, 32, 64}" by auto
  then have w: "0 \<le> w" "w \<le> 2147483647" "stack_cell w = Some (the (stack_cell w))"
    by (auto simp: stack_cell_def)
  from StackCell assms w(1,2) show ?thesis
    by (simp add: parse_cell_def stack_cell_at_def parse_num_show_int, subst w(3), simp)
qed

lemma cell_fields_kind [simp]:
  "pred_kind (cell_fields c out) = pred_kind out" "pred_scale (cell_fields c out) = pred_scale out"
  "generic_branch_expression (cell_fields c out) = generic_branch_expression out"
  "\<lparr>pred_kind = pred_kind out, cell_kind = cell_kind (cell_fields c out), cell_index = cell_index (cell_fields c out),
     pred_scale = s, generic_branch_expression = generic_branch_expression out\<rparr> = (cell_fields c out)\<lparr>pred_scale := s\<rparr>"
  by (cases c; simp)+

lemma cell_allowed_fields:
  "register_or_stack {64} c \<Longrightarrow> pred_kind out = BR_PRED_CWE805_POINTER \<Longrightarrow> cell_allowed (cell_fields c out)"
  "register_or_stack {8, 16, 32} c \<Longrightarrow> pred_kind out = BR_PRED_CWE805_SIZE \<Longrightarrow> cell_allowed (cell_fields c out)"
  by (cases c; auto simp: cell_allowed_def stack_cell_def)+

lemma parse_descriptor:
  assumes "valid_predicate q" "index_of q \<le> 2147483647"
  shows "parse_predicate (predicate_descriptor q) zero_predicate = Some (Some (runtime_predicate q))"
proof (cases q)
  case (GenericPredicate s)
  with assms show ?thesis
    by (auto simp: parse_predicate_def zero_predicate_def)
next
  case (CWE805PointerPredicate c)
  with assms parse_cell_printed [of "{64}" c "[]"] show ?thesis
    by (simp add: parse_predicate_def parse_cwe805_def parse_scale_def cell_allowed_fields zero_predicate_def)
next
  case (CWE805SizePredicate sc c)
  with assms have "sc \<in> {1, 2, 4, 8}" by simp
  then have "parse_num (show_int sc) = Some (sc, [])" "(word_of_int sc :: u8) \<in> {1, 2, 4, 8}"
    using parse_num_show_int [of "[]" sc] by auto
  moreover have "parse_cell (encoded_cell c @ CHR ''q'' # show_int sc) out =
      Some (Some (cell_fields c out, CHR ''q'' # show_int sc))" for out
    using parse_cell_printed [of "{8, 16, 32}" c "CHR ''q'' # show_int sc" out] CWE805SizePredicate assms by simp
  moreover have "cell_allowed (cell_fields c (zero_predicate\<lparr>pred_kind := BR_PRED_CWE805_SIZE\<rparr>))"
    using CWE805SizePredicate assms by (intro cell_allowed_fields) simp_all
  ultimately show ?thesis
    using CWE805SizePredicate
    by (simp add: parse_predicate_def parse_cwe805_def parse_scale_def zero_predicate_def Let_def del: insert_iff)
qed

text \<open>A predicate of the runtime, printed as the setup has it.\<close>

lemma valid_parsed_of:
  assumes "wf_predicate p"
  shows "valid_predicate (parsed_of p)" "index_of (parsed_of p) < 65536"
proof -
  have sc: "uint s \<in> {1, 2, 4, 8}" if "s \<in> {1, 2, 4, 8}" for s :: u8
    using that by auto
  have i: "uint (cell_index p) < 65536"
    using uint_lt2p [of "cell_index p"] by simp
  from i show "index_of (parsed_of p) < 65536"
    by (cases "cell_kind p"; cases "pred_kind p") (simp_all add: parsed_of_def parsed_cell_def)
  show "valid_predicate (parsed_of p)"
    using assms sc [of "pred_scale p"]
    by (cases "pred_kind p"; cases "cell_kind p")
      (auto simp: wf_predicate_def cell_ok_def cell_allowed_def parsed_of_def parsed_cell_def word_le_def)
qed

lemma runtime_parsed_of:
  assumes "wf_predicate p"
  shows "runtime_predicate (parsed_of p) = p"
  using assms
  by (cases "pred_kind p"; cases "cell_kind p")
    (auto intro!: br_predicate.equality simp: wf_predicate_def cell_ok_def cell_allowed_def parsed_of_def parsed_cell_def
      zero_predicate_def stack_cell_def)

lemma parse_printed:
  assumes "wf_predicate p"
  shows "parse_predicate (predicate_descriptor (parsed_of p)) zero_predicate = Some (Some p)"
  using parse_descriptor [OF valid_parsed_of(1) [OF assms]] valid_parsed_of(2) [OF assms] runtime_parsed_of [OF assms]
  by simp

lemma parsed_cell_fields:
  assumes "register_or_stack ws cell" "ws \<subseteq> {8, 16, 32, 64}"
  shows "parsed_cell (cell_fields cell out) = map_index (register_index cell mod 65536) cell"
  using assms by (cases cell) (auto simp: parsed_cell_def stack_cell_def uint_word_of_int)

lemma parsed_of_runtime:
  assumes "valid_predicate q"
  shows "parsed_of (runtime_predicate q) = with_index (index_of q mod 65536) q"
proof -
  have [simp]: "parsed_cell (p\<lparr>pred_scale := s\<rparr>) = parsed_cell p" for p s
    by (simp add: parsed_cell_def)
  show ?thesis
    using assms by (cases q) (auto simp: parsed_of_def parsed_cell_fields zero_predicate_def)
qed

lemma with_index_same [simp]: "with_index (index_of q) q = q"
  by (cases q; simp; metis map_index.simps state_cell.exhaust state_cell.sel)

lemma index_nonneg: "valid_predicate q \<Longrightarrow> 0 \<le> index_of q"
  by (auto elim!: valid_predicate.elims register_or_stack.elims)

text \<open>
  C33. Every predicate the setup can parse survives printing when the index of its cell is below
  65536: the parser of the patch runtime reads the descriptor the setup prints for it back as
  the same predicate.
\<close>

theorem descriptor_round_trip:
  assumes "valid_predicate q" "index_of q < 65536"
  shows "\<exists>p. parse_predicate (predicate_descriptor q) zero_predicate = Some (Some p) \<and> parsed_of p = q"
  using parse_descriptor [of q] parsed_of_runtime [of q] index_nonneg [of q] assms by simp

definition ex_size_predicate :: parsed_predicate where
  "ex_size_predicate = CWE805SizePredicate 4 (StackCell 32 300)"

theorem descriptor_round_trip_witness:
  "valid_predicate ex_size_predicate \<and> index_of ex_size_predicate = 300 \<and>
   (\<exists>p. parse_predicate (predicate_descriptor ex_size_predicate) zero_predicate = Some (Some p) \<and>
     parsed_of p = ex_size_predicate)"
proof -
  have "valid_predicate ex_size_predicate" "index_of ex_size_predicate = 300"
    by (simp_all add: ex_size_predicate_def)
  with descriptor_round_trip show ?thesis by force
qed

text \<open>
  C0. The setup accepts any index, and the runtime keeps 16 bits of it without a complaint: a predicate
  on a stack cell with an index from 65536 to 2147483647 is read back as a predicate on a
  different cell, the one with the low 16 bits of the index.
\<close>

theorem descriptor_index_truncated:
  assumes "valid_predicate q" "65536 \<le> index_of q" "index_of q \<le> 2147483647"
  shows "\<exists>p. parse_predicate (predicate_descriptor q) zero_predicate = Some (Some p) \<and>
    parsed_of p = with_index (index_of q mod 65536) q \<and> parsed_of p \<noteq> q"
proof -
  have "index_of (with_index i q) = i" if "\<And>s. q \<noteq> GenericPredicate s" for i
    using that by (cases q; simp; metis map_index.simps state_cell.exhaust state_cell.sel)
  then have "index_of (with_index (index_of q mod 65536) q) = index_of q mod 65536"
    using assms(2) by (cases q) auto
  then have "with_index (index_of q mod 65536) q \<noteq> q"
    using assms(2) pos_mod_bound [of 65536 "index_of q"] by (metis linorder_not_le zero_less_numeral)
  with parse_descriptor [of q] parsed_of_runtime [of q] assms show ?thesis by auto
qed

theorem descriptor_index_truncated_witness:
  "valid_predicate (CWE805PointerPredicate (StackCell 64 65543)) \<and>
   (\<exists>p. parse_predicate (predicate_descriptor (CWE805PointerPredicate (StackCell 64 65543))) zero_predicate = Some (Some p) \<and>
     parsed_of p = CWE805PointerPredicate (StackCell 64 7))"
  using descriptor_index_truncated [of "CWE805PointerPredicate (StackCell 64 65543)"] by auto

section \<open>What the parser accepts\<close>

lemma parse_cell_ok:
  assumes "parse_cell s out = Some (Some (p, t))"
  obtains k i where "p = out\<lparr>cell_kind := k, cell_index := i\<rparr>" "k = BR_CELL_REGISTER \<longrightarrow> i \<le> 15"
proof (cases "s \<noteq> [] \<and> hd s = CHR ''p''")
  case True
  with assms that [where k = BR_CELL_REGISTER] show thesis
    by (auto simp: parse_cell_def register_cell_def res_bind_result word_le_nat_alt Let_def
        split: if_splits)
next
  case False
  with assms obtain width k n where "stack_cell width = Some k"
      "p = out\<lparr>cell_kind := k, cell_index := word_of_int n\<rparr>"
    by (auto simp: parse_cell_def stack_cell_at_def res_bind_result split: if_splits)
  with that [where k = k] show thesis
    by (auto simp: stack_cell_def split: if_splits)
qed

lemma parse_scale_ok:
  assumes "parse_scale (out, s) = Some (Some (p, t))"
  shows "pred_kind out = BR_PRED_CWE805_SIZE \<and> (\<exists>n \<in> {1, 2, 4, 8}. p = out\<lparr>pred_scale := n\<rparr>) \<or>
    pred_kind out \<noteq> BR_PRED_CWE805_SIZE \<and> p = out"
  using assms by (auto simp: parse_scale_def Let_def res_bind_result split: if_splits)

lemma parse_cwe805_ok:
  assumes "parse_cwe805 s out = Some (Some p)" "pred_scale out = 0"
    "generic_branch_expression out = []"
    "pred_kind out = BR_PRED_CWE805_POINTER \<or> pred_kind out = BR_PRED_CWE805_SIZE"
  shows "wf_predicate p \<and> pred_kind p = pred_kind out"
proof -
  from assms(1) obtain q t u where q: "parse_cell s out = Some (Some (q, t))" "cell_allowed q"
      "parse_scale (q, t) = Some (Some (p, u))"
    by (auto simp: parse_cwe805_def res_bind_result split: if_splits)
  from q(1) obtain k i where "q = out\<lparr>cell_kind := k, cell_index := i\<rparr>"
      "k = BR_CELL_REGISTER \<longrightarrow> i \<le> 15"
    by (rule parse_cell_ok)
  with parse_scale_ok [OF q(3)] q(2) assms(2-4) show ?thesis
    by (auto simp: wf_predicate_def cell_ok_def cell_allowed_def)
qed

lemma parse_predicate_result:
  assumes "parse_predicate s zero_predicate = Some (Some p)"
  shows "wf_predicate p \<and> (pred_kind p = BR_PRED_GENERIC \<longrightarrow> generic_branch_expression p = s)"
proof (cases "s \<noteq> [] \<and> hd s = CHR ''c''")
  case True
  then obtain k t where "tl s = k # t"
    using assms by (cases "tl s") (simp_all add: parse_predicate_def)
  with True assms obtain kind where "parse_cwe805 t (zero_predicate\<lparr>pred_kind := kind\<rparr>) = Some (Some p)"
      "kind = BR_PRED_CWE805_POINTER \<or> kind = BR_PRED_CWE805_SIZE"
    by (auto simp: parse_predicate_def split: if_splits)
  with parse_cwe805_ok [OF this(1)] show ?thesis
    by (auto simp: zero_predicate_def)
next
  case False
  with assms show ?thesis
    by (auto simp: parse_predicate_def wf_predicate_def)
qed

lemma parse_predicate_ok:
  "parse_predicate s zero_predicate = Some (Some p) \<Longrightarrow> wf_predicate p"
  using parse_predicate_result by blast

text \<open>
  What the parser accepts is safe to act on: a register cell has an index below 16, a
  pointer predicate has a register or a 64-bit stack cell, a size predicate a register or a
  narrower stack cell and a scale of 1, 2, 4 or 8, and everything that does not start with
  \<^verbatim>\<open>c\<close> is a generic expression kept as it is.
\<close>

theorem parsed_predicate_wf:
  assumes "parse_predicate s zero_predicate = Some (Some p)"
  shows "wf_predicate p \<and> (pred_kind p = BR_PRED_GENERIC \<longrightarrow> generic_branch_expression p = s)"
  using assms by (rule parse_predicate_result)

theorem parsed_predicate_wf_witness:
  "parse_predicate ''c1p7'' zero_predicate =
     Some (Some (zero_predicate\<lparr>pred_kind := BR_PRED_CWE805_POINTER, cell_index := 7\<rparr>)) \<and>
   wf_predicate (zero_predicate\<lparr>pred_kind := BR_PRED_CWE805_POINTER, cell_index := 7\<rparr>)"
proof -
  have "parse_predicate ''c1p7'' zero_predicate =
      Some (Some (zero_predicate\<lparr>pred_kind := BR_PRED_CWE805_POINTER, cell_index := 7\<rparr>))"
    by (simp add: parse_predicate_def parse_cwe805_def parse_cell_defs parse_num_def ctext_simps
        parse_scale_def cell_allowed_def zero_predicate_def)
  with parsed_predicate_wf [OF this] show ?thesis by blast
qed

end
