(* ===== verification/Patch_Spec.thy ===== *)
theory Patch_Spec
  imports Patch_Expr Patch_Runtime
begin

text \<open>
  The properties of the patch runtime: encoded predicates decide as they mean, descriptors
  survive printing and parsing, and the allocation tracker remembers the last 256 blocks.
\<close>

declare eval.simps [simp del]

section \<open>Generic patches\<close>

text \<open>
  The shifts of the patch runtime are the mathematical ones on signed 64-bit integers for
  every amount: a shift by a negative amount goes the other way, and amounts of 64 and more
  saturate, with no undefined C shift.
\<close>

theorem patch_shifts_exact:
  "shift_left v n = word_of_int (shift_int (sint v) (sint n)) \<and>
   shift_right v n = word_of_int (shift_int (sint v) (- sint n))"
  by (simp add: shift_left_eq shift_right_eq)

lemma branch_patch_str_eq: "branch_patch_str e = emit_patch (Binary B_EQ e (Const 0))"
  by (simp add: branch_patch_str_def show_nat.simps [of 0] digit_char_def char_of_def bit_0)

lemma length_state_to_env [simp]: "length (state_to_env s) = 16"
  by (simp add: state_to_env_def)

lemma generic_branch_correct:
  assumes "encodable 16 e"
  shows "generic_branch (branch_patch_str e) s =
    Some (case node_value (map sint (state_to_env s)) e of None \<Rightarrow> 2
      | Some z \<Rightarrow> if z = 0 then 1 else 0)"
proof -
  let ?b = "Binary B_EQ e (Const 0)"
  have "evaluates (state_to_env s) ?b [] False"
    using assms by (intro eval_emit_patch) (simp_all add: no_digit_ahead_def)
  then obtain v c' where v: "eval (state_to_env s) (branch_patch_str e) False = Some (v, [], c')"
      "case node_value (map sint (state_to_env s)) ?b of None \<Rightarrow> c'
        | Some z \<Rightarrow> \<not> c' \<and> sint v = z"
    unfolding evaluates_def branch_patch_str_eq append_Nil2 by (auto split: option.splits)
  have "sint v = 0 \<longleftrightarrow> v = 0" by (simp add: signed_eq_0_iff)
  with v show ?thesis
    by (cases "node_value (map sint (state_to_env s)) e")
      (auto simp: generic_branch_def wrap64_def)
qed

text \<open>
  C13. From the source tree of a predicate to the jump: with the string the setup encodes for a
  predicate as the selected patch, \<^verbatim>\<open>dest\<close> jumps exactly when the predicate is 0 on the
  registers, as signed 64-bit integers; when a division in it traps it reports branch 2 and
  does not jump. The predicate may be any tree with variables 0 to 15 in which no left operand
  of \<open><\<close> or \<open>>\<close> is an equality.
\<close>

theorem generic_patch_decides:
  assumes "encodable 16 e" "select_patch_id p = (i, v)" "table i = Some (branch_patch_str e)"
  shows "dest cwe805 target table p t mem s =
    Some (case node_value (map sint (state_to_env s)) e of
        None \<Rightarrow> (None, (i, 2, v))
      | Some z \<Rightarrow> if z = 0 then (Some target, (i, 1, v)) else (None, (i, 0, v)))"
proof -
  have "parse_predicate (branch_patch_str e) zero_predicate = Some (Some
      (zero_predicate\<lparr>pred_kind := BR_PRED_GENERIC, generic_branch_expression := branch_patch_str e\<rparr>))"
    by (simp add: parse_predicate_def branch_patch_str_def zero_predicate_def)
  with assms generic_branch_correct [OF assms(1), of s] show ?thesis
    by (auto simp: dest_def split: option.splits)
qed

definition ex_state :: x86_state where
  "ex_state = \<lparr>rax = 7, rbx = - 2, rcx = 0, rdx = 0, rsi = 0, rdi = 0, rsp = 0, rbp = 0,
     r8 = 0, r9 = 0, r10 = 0, r11 = 0, r12 = 0, r13 = 0, r14 = 0, r15 = 0\<rparr>"

definition ex_env :: patch_env where
  "ex_env = \<lparr>env_patch_id = 1, patch_fd = 2, patch_shm = None\<rparr>"

text \<open>\<^verbatim>\<open>rax / rbx + 3\<close> is 0 for 7 and -2.\<close>

definition ex_node :: ast_node where
  "ex_node = Binary B_ADD (Binary B_DIV (Var 0) (Var 1)) (Const 3)"

theorem generic_patch_decides_witness:
  "dest False 4096 [1 \<mapsto> branch_patch_str ex_node] ex_env initial_tracker (\<lambda>_. 0) ex_state =
     Some (Some 4096, (1, 1, 0))"
proof -
  have "node_value (map sint (state_to_env ex_state)) ex_node = Some 0"
    by (simp add: ex_node_def ex_state_def state_to_env_def wrap64_id)
  with generic_patch_decides [of ex_node ex_env 1 0 "[1 \<mapsto> branch_patch_str ex_node]" False 4096
      initial_tracker "\<lambda>_. 0" ex_state]
  show ?thesis
    by (simp add: ex_node_def ex_env_def select_patch_id_def MAGIC_VALUE_PATCH_def)
qed

text \<open>
  The encoding is ambiguous: a comparison \<open>>\<close> whose left operand is an equality of two
  variables is read as \<open>>=\<close> of the two variables, and its right operand is never read.
\<close>

theorem greater_of_equality_misread:
  assumes "i < 16" "j < 16"
  shows "eval (state_to_env s) (emit_patch (Binary B_GT (Binary B_EQ (Var i) (Var j)) e)) False =
    Some (i64_bool (sint (state_to_env s ! j) \<le> sint (state_to_env s ! i)), emit_patch e, False)"
proof -
  have "emit_patch (Binary B_GT (Binary B_EQ (Var i) (Var j)) e) =
      op_map B_GE @ emit_patch (Var i) @ emit_patch (Var j) @ emit_patch e"
    by simp
  moreover have "eval (state_to_env s) (emit_patch (Var k) @ t) c = Some (state_to_env s ! k, t, c)"
    if "k < 16" "no_digit_ahead t" for k t c
    using that by (simp add: eval.simps is_leaf_def eval_leaf_def scani_show_nat unat_of_nat)
  ultimately show ?thesis
    using assms eval_op_step [of "state_to_env s" "Var i" "emit_patch (Var j) @ emit_patch e" False
        "state_to_env s ! i" False "state_to_env s ! j" "emit_patch e" False B_GE]
      no_digit_ahead_emit [of "Var j" "emit_patch e"] no_digit_ahead_emit [of e "[]"]
    by (simp add: eval_binary_def op_char_def op_has_eq_def del: emit_patch.simps)
qed

theorem greater_of_equality_misread_witness:
  "eval (state_to_env ex_state) (emit_patch (Binary B_GT (Binary B_EQ (Var 0) (Var 1)) (Const 5))) False
     = Some (1, ''p5'', False) \<and>
   node_value (map sint (state_to_env ex_state)) (Binary B_GT (Binary B_EQ (Var 0) (Var 1)) (Const 5))
     = Some 0"
  using greater_of_equality_misread [of 0 1 ex_state "Const 5"]
  by (simp add: ex_state_def state_to_env_def i64_bool_def wrap64_id show_nat.simps [of 5]
      digit_char_def char_of_def bit_0)

end
