(* ===== verification/Patch_Cached_Spec.thy ===== *)
theory Patch_Cached_Spec
  imports Patch_Cached Patch_Descriptor Patch_Spec "HOL-Library.Sublist"
begin

text \<open>
  The states a process with the cached patch runtime can reach, their invariant, and the
  properties that rest on it: the quotas of the snapshot stream, reads of the stack, the
  selection of the patch, and agreement with the direct runtime.
\<close>

section \<open>Reachable states\<close>

inductive cache_reachable :: "bool \<Rightarrow> cache_state \<Rightarrow> bool" for cwe805 where
  start: "cache_reachable cwe805 (cached_init getenv strtoul segment segment_size rs)"
| call: "cache_reachable cwe805 c \<Longrightarrow>
    cached_dest cwe805 target pred_var sel t mem s c = Some (r, c') \<Longrightarrow> cache_reachable cwe805 c'"

definition quota_ok :: "bool \<Rightarrow> cache_state \<Rightarrow> bool" where
  "quota_ok cwe805 c \<longleftrightarrow>
     unat (cache_captured_bytes c) = unat (cache_hit_count c) * unat (record_size cwe805 c) \<and>
     cache_captured_bytes c \<le> cache_max_bytes c \<and> cache_hit_count c \<le> cache_max_hits c"

definition selection_ok :: "cache_state \<Rightarrow> bool" where
  "selection_ok c \<longleftrightarrow>
     (if selected_initialized c
      then \<not> selected_invalid c \<longrightarrow> wf_predicate (selected_predicate c) \<and>
        predicate_stack_bytes (selected_predicate c) \<le> cache_stack_size c
      else selected_predicate c = zero_predicate \<and> \<not> selected_invalid c)"

text \<open>What capturing a snapshot leaves alone.\<close>

definition same_selection :: "cache_state \<Rightarrow> cache_state \<Rightarrow> bool" where
  "same_selection c c' \<longleftrightarrow> base_env c' = base_env c \<and> cache_stack_size c' = cache_stack_size c \<and>
     selector_attached c' = selector_attached c \<and>
     selected_initialized c' = selected_initialized c \<and> selected_invalid c' = selected_invalid c \<and>
     selected_patch_id c' = selected_patch_id c \<and> selected_iteration c' = selected_iteration c \<and>
     selected_predicate c' = selected_predicate c \<and> selected_in_segment c' = selected_in_segment c"

lemma capture_same_selection: "same_selection c (capture_snapshot cwe805 mem s t i b bad c)"
  by (simp add: capture_snapshot_def same_selection_def write_marker_def Let_def split: prod.splits)

lemma initialize_selected_frame:
  assumes "initialize_selected pred_var sel c = Some (u, c')" "\<not> selected_initialized c"
  shows "cache_stack_size c' = cache_stack_size c \<and> cache_max_hits c' = cache_max_hits c \<and>
    cache_max_bytes c' = cache_max_bytes c \<and> cache_hit_count c' = cache_hit_count c \<and>
    cache_captured_bytes c' = cache_captured_bytes c \<and> (u \<longleftrightarrow> \<not> selected_initialized c')"
  using assms by (auto simp: initialize_selected_def Let_def split: prod.splits if_splits option.splits)

lemma capture_quota:
  assumes "quota_ok cwe805 c"
  shows "quota_ok cwe805 (capture_snapshot cwe805 mem s t i b bad c)"
proof (cases "cache_fd c = None \<or> cache_truncated c \<or> bad \<or> cache_max_hits c \<le> cache_hit_count c \<or>
    cache_max_bytes c - cache_captured_bytes c < record_size cwe805 c")
  case True
  then show ?thesis
    using assms
    by (auto simp: quota_ok_def capture_snapshot_def write_marker_def record_size_def Let_def
        split: prod.splits)
next
  case False
  let ?r = "record_size cwe805 c"
  have le: "cache_captured_bytes c \<le> cache_max_bytes c" "?r \<le> cache_max_bytes c - cache_captured_bytes c"
    and hits: "cache_hit_count c < cache_max_hits c"
    using assms False by (auto simp: quota_ok_def not_le not_less)
  have "unat ?r \<le> unat (cache_max_bytes c) - unat (cache_captured_bytes c)"
    using le by (simp add: word_le_nat_alt unat_sub)
  then have sum: "unat (cache_captured_bytes c) + unat ?r \<le> unat (cache_max_bytes c)"
    using le(1) by (simp add: word_le_nat_alt)
  then have add: "unat (cache_captured_bytes c + ?r) = unat (cache_captured_bytes c) + unat ?r"
    using unsigned_less [of "cache_max_bytes c", where ?'a = nat]
    by (intro unat_add_lem [THEN iffD1]) simp
  have inc: "unat (cache_hit_count c + 1) = unat (cache_hit_count c) + 1"
    using hits unsigned_less [of "cache_max_hits c", where ?'a = nat] unat_add_lem [of "cache_hit_count c" 1]
    by (simp add: word_less_nat_alt)
  obtain f w where w: "write_parts (snapshot_parts cwe805 mem s t i b
      (if cwe805 then BRCACHE_FLAG_CWE805 else 0) c) (cache_io c) = (f, w)"
    by fastforce
  show ?thesis
    using assms False w sum add inc hits
    by (cases f) (auto simp: quota_ok_def capture_snapshot_def record_size_def Let_def
        word_le_nat_alt word_less_nat_alt algebra_simps)
qed

lemma select_unpublished:
  "select_descriptor pred_var sel c = (i, n, bad, True, enc) \<Longrightarrow> bad = selected_invalid c"
  by (auto simp: select_descriptor_def split: if_splits)

lemma initialize_selection_ok:
  assumes "initialize_selected pred_var sel c = Some (u, c')" "\<not> selected_initialized c"
    "selected_predicate c = zero_predicate" "\<not> selected_invalid c"
  shows "selection_ok c'"
proof -
  obtain i n bad un enc where d: "select_descriptor pred_var sel c = (i, n, bad, un, enc)"
    by (cases "select_descriptor pred_var sel c") auto
  show ?thesis
  proof (cases "un \<or> bad \<or> enc = None")
    case True
    with assms d select_unpublished [of pred_var sel c i n bad enc] show ?thesis
      by (auto simp: initialize_selected_def selection_ok_def Let_def split: if_splits)
  next
    case False
    with assms d obtain r where r: "parse_predicate (the enc) zero_predicate = Some r"
      by (auto simp: initialize_selected_def Let_def)
    show ?thesis
    proof (cases r)
      case None
      with r False assms d show ?thesis
        by (auto simp: initialize_selected_def selection_ok_def Let_def)
    next
      case (Some q)
      with r have "wf_predicate q" by (simp add: parse_predicate_ok)
      with Some r False assms d show ?thesis
        by (auto simp: initialize_selected_def selection_ok_def Let_def)
    qed
  qed
qed

lemma cached_dest_cases:
  assumes "cached_dest cwe805 target pred_var sel t mem s c = Some (r, c')"
  obtains c1 where "selected_initialized c \<and> c1 = c \<or>
      \<not> selected_initialized c \<and> (\<exists>u. initialize_selected pred_var sel c = Some (u, c1))"
    "c' = c1 \<or> (\<exists>i b bad. c' = capture_snapshot cwe805 mem s t i b bad c1)"
  using assms that
  by (cases "selected_initialized c")
    (auto simp: cached_dest_def bind_eq_Some_conv split: if_splits)

lemma quota_frame:
  assumes "initialize_selected pred_var sel c = Some (u, c')" "\<not> selected_initialized c"
    "quota_ok cwe805 c"
  shows "quota_ok cwe805 c'"
  using assms(3) initialize_selected_frame [OF assms(1,2)]
  by (simp add: quota_ok_def record_size_def)

lemma selection_ok_same: "same_selection c c' \<Longrightarrow> selection_ok c' = selection_ok c"
  by (simp add: same_selection_def selection_ok_def)

lemma reachable_inv:
  "cache_reachable cwe805 c \<Longrightarrow> quota_ok cwe805 c \<and> selection_ok c"
proof (induction rule: cache_reachable.induct)
  case (start getenv strtoul segment segment_size rs)
  show ?case
    by (simp add: cached_init_def Let_def quota_ok_def selection_ok_def)
next
  case (call c target pred_var sel t mem s r c')
  from call.hyps(2) obtain c1 where c1: "selected_initialized c \<and> c1 = c \<or>
      \<not> selected_initialized c \<and> (\<exists>u. initialize_selected pred_var sel c = Some (u, c1))"
    and c': "c' = c1 \<or> (\<exists>i b bad. c' = capture_snapshot cwe805 mem s t i b bad c1)"
    by (rule cached_dest_cases)
  have "quota_ok cwe805 c1 \<and> selection_ok c1"
    using c1 call.IH
    by (auto intro: quota_frame initialize_selection_ok simp: selection_ok_def [of c])
  with c' show ?case
    by (auto simp: capture_quota selection_ok_same [OF capture_same_selection])
qed

section \<open>The stream of snapshots\<close>

text \<open>
  What is written: complete records, markers of invalid evaluations and of the truncation, which
  may be cut short by a failing \<^verbatim>\<open>write\<close>, and the beginning of a record that could not be written.
\<close>

datatype piece = Complete "u8 list" | Marker "u8 list" | Cut "u8 list"

fun piece_bytes :: "piece \<Rightarrow> u8 list" where
  "piece_bytes (Complete b) = b"
| "piece_bytes (Marker b) = b"
| "piece_bytes (Cut b) = b"

fun is_complete :: "piece \<Rightarrow> bool" where
  "is_complete (Complete b) = True"
| "is_complete p = False"

definition is_record :: "bool \<Rightarrow> cache_state \<Rightarrow> u8 list \<Rightarrow> bool" where
  "is_record cwe805 c b \<longleftrightarrow> (\<exists>mem s t i br. b = concat (snapshot_parts cwe805 mem s t i br
     (if cwe805 then BRCACHE_FLAG_CWE805 else 0) c))"

fun piece_ok :: "bool \<Rightarrow> cache_state \<Rightarrow> piece \<Rightarrow> bool" where
  "piece_ok cwe805 c (Complete b) = is_record cwe805 c b"
| "piece_ok cwe805 c (Marker b) = (\<exists>i br f. f AND (BRCACHE_FLAG_TRUNCATED OR BRCACHE_FLAG_INVALID) \<noteq> 0 \<and>
     prefix b (snapshot_header i br 0 f))"
| "piece_ok cwe805 c (Cut b) = (cache_truncated c \<and> (\<exists>r. is_record cwe805 c r \<and> prefix b r))"

definition stream_ok :: "bool \<Rightarrow> cache_state \<Rightarrow> bool" where
  "stream_ok cwe805 c \<longleftrightarrow> (\<exists>ps. written (cache_io c) = concat (map piece_bytes ps) \<and>
     (\<forall>p \<in> set ps. piece_ok cwe805 c p) \<and> length (filter is_complete ps) = unat (cache_hit_count c))"

lemma write_all_written:
  "write_all buf w = (failed, w') \<Longrightarrow> \<exists>b. written w' = written w @ b \<and> prefix b buf \<and> (\<not> failed \<longrightarrow> b = buf)"
proof (induction buf w rule: write_all.induct)
  case (1 buf w)
  show ?case
  proof (cases "buf = []")
    case True
    with "1.prems" show ?thesis by (simp add: write_all.simps)
  next
    case False
    obtain n w1 where w1: "sys_write buf w = (n, w1)" by fastforce
    show ?thesis
    proof (cases "n \<le> 0")
      case True
      with w1 have "written w1 = written w"
        using False by (auto simp: sys_write_def min_def split: list.splits if_splits)
      moreover have "failed" "w' = w1" using "1.prems" False w1 True by (simp_all add: write_all.simps [of buf])
      ultimately show ?thesis by simp
    next
      case pos: False
      then have step: "written w1 = written w @ take (nat n) buf"
        using w1 by (auto simp: sys_write_def min_def split: list.splits if_splits)
      have "write_all (drop (nat n) buf) w1 = (failed, w')"
        using "1.prems" False w1 pos by (simp add: write_all.simps [of buf])
      from "1.IH" [OF False w1 [symmetric] pos this] obtain b where
        "written w' = written w1 @ b" "prefix b (drop (nat n) buf)" "\<not> failed \<longrightarrow> b = drop (nat n) buf" by blast
      then show ?thesis
        using step by (intro exI [of _ "take (nat n) buf @ b"]) (metis append.assoc append_take_drop_id same_prefix_prefix)
    qed
  qed
qed

lemma write_parts_written:
  "write_parts bs w = (failed, w') \<Longrightarrow>
     \<exists>b. written w' = written w @ b \<and> prefix b (concat bs) \<and> (\<not> failed \<longrightarrow> b = concat bs)"
proof (induction bs w arbitrary: failed w' rule: write_parts.induct)
  case (2 x xs w)
  obtain f w1 where w1: "write_all x w = (f, w1)" by fastforce
  from write_all_written [OF this] obtain b where b: "written w1 = written w @ b" "prefix b x" "\<not> f \<longrightarrow> b = x" by blast
  show ?case
  proof (cases f)
    case True
    with "2.prems" w1 b show ?thesis by (auto simp: prefix_def)
  next
    case False
    then have "write_parts xs w1 = (failed, w')" using "2.prems" w1 by simp
    from "2.IH" [OF w1 [symmetric] False this] b False show ?thesis by auto
  qed
qed simp

lemma is_record_frame: "cache_stack_size c' = cache_stack_size c \<Longrightarrow> is_record cwe805 c' = is_record cwe805 c"
  by (simp add: is_record_def snapshot_parts_def fun_eq_iff)

lemma piece_ok_frame:
  "cache_stack_size c' = cache_stack_size c \<Longrightarrow> (cache_truncated c \<longrightarrow> cache_truncated c') \<Longrightarrow>
     piece_ok cwe805 c p \<Longrightarrow> piece_ok cwe805 c' p"
  using is_record_frame [of c' c] by (cases p) auto

text \<open>One more piece.\<close>

lemma stream_extend:
  assumes "stream_ok cwe805 c" "cache_stack_size c' = cache_stack_size c" "cache_truncated c \<longrightarrow> cache_truncated c'"
    "written (cache_io c') = written (cache_io c) @ piece_bytes p" "piece_ok cwe805 c' p"
    "unat (cache_hit_count c') = unat (cache_hit_count c) + (if is_complete p then 1 else 0)"
  shows "stream_ok cwe805 c'"
proof -
  obtain ps where "written (cache_io c) = concat (map piece_bytes ps)" "\<forall>p \<in> set ps. piece_ok cwe805 c p"
      "length (filter is_complete ps) = unat (cache_hit_count c)"
    using assms(1) by (auto simp: stream_ok_def)
  with assms(2-6) show ?thesis
    unfolding stream_ok_def by (intro exI [of _ "ps @ [p]"]) (auto intro: piece_ok_frame)
qed

lemma stream_frame:
  "stream_ok cwe805 c \<Longrightarrow> cache_stack_size c' = cache_stack_size c \<Longrightarrow> cache_truncated c' = cache_truncated c \<Longrightarrow>
     cache_io c' = cache_io c \<Longrightarrow> cache_hit_count c' = cache_hit_count c \<Longrightarrow> stream_ok cwe805 c'"
  unfolding stream_ok_def by (metis piece_ok_frame)

lemma stream_marker:
  assumes "stream_ok cwe805 c" "f AND (BRCACHE_FLAG_TRUNCATED OR BRCACHE_FLAG_INVALID) \<noteq> 0"
  shows "stream_ok cwe805 (write_marker i br f c)"
proof -
  obtain b w where w: "write_all (snapshot_header i br 0 f) (cache_io c) = (b, w)" by fastforce
  from write_all_written [OF w] obtain m where "written w = written (cache_io c) @ m" "prefix m (snapshot_header i br 0 f)" by blast
  with assms w show ?thesis
    by (intro stream_extend [OF assms(1), of _ "Marker m"]) (auto simp: write_marker_def)
qed

lemma capture_cases:
  obtains (off) "cache_fd c = None \<or> cache_truncated c"
    | (invalid) "capture_snapshot cwe805 mem s t i br bad c = write_marker i br ((if cwe805 then BRCACHE_FLAG_CWE805 else 0) OR BRCACHE_FLAG_INVALID) c"
    | (full) "capture_snapshot cwe805 mem s t i br bad c =
        write_marker i br ((if cwe805 then BRCACHE_FLAG_CWE805 else 0) OR BRCACHE_FLAG_TRUNCATED) (c\<lparr>cache_truncated := True\<rparr>)"
    | (rec_written) "cache_hit_count c < cache_max_hits c"
      "capture_snapshot cwe805 mem s t i br bad c =
        (case write_parts (snapshot_parts cwe805 mem s t i br (if cwe805 then BRCACHE_FLAG_CWE805 else 0) c) (cache_io c) of (failed, w) \<Rightarrow>
           if failed then c\<lparr>cache_io := w, cache_truncated := True\<rparr>
           else c\<lparr>cache_io := w, cache_captured_bytes := cache_captured_bytes c + record_size cwe805 c,
                  cache_hit_count := cache_hit_count c + 1\<rparr>)"
proof (cases "cache_fd c = None \<or> cache_truncated c")
  case True
  then show thesis by (rule off)
next
  case on: False
  let ?full = "cache_max_hits c \<le> cache_hit_count c \<or> cache_max_bytes c -
      (if cache_captured_bytes c \<le> cache_max_bytes c then cache_captured_bytes c else cache_max_bytes c) < record_size cwe805 c"
  consider (bad) bad | (no_room) "\<not> bad" ?full | (rest) "\<not> bad" "\<not> ?full" by blast
  then show thesis
  proof cases
    case bad
    with on show thesis by (intro invalid) (simp only: capture_snapshot_def if_False if_True Let_def)
  next
    case no_room
    with on show thesis by (intro full) (simp only: capture_snapshot_def if_False if_True Let_def)
  next
    case rest
    with on show thesis
      by (intro rec_written) (simp add: not_le, simp only: capture_snapshot_def if_False Let_def)
  qed
qed

lemma stream_capture:
  assumes ok: "stream_ok cwe805 c"
  shows "stream_ok cwe805 (capture_snapshot cwe805 mem s t i br bad c)"
proof -
  let ?f = "if cwe805 then BRCACHE_FLAG_CWE805 else 0" and ?new = "capture_snapshot cwe805 mem s t i br bad c"
  have flags: "(?f OR BRCACHE_FLAG_INVALID) AND (BRCACHE_FLAG_TRUNCATED OR BRCACHE_FLAG_INVALID) \<noteq> 0"
    "(?f OR BRCACHE_FLAG_TRUNCATED) AND (BRCACHE_FLAG_TRUNCATED OR BRCACHE_FLAG_INVALID) \<noteq> 0"
    by (auto simp: BRCACHE_FLAG_INVALID_def BRCACHE_FLAG_TRUNCATED_def BRCACHE_FLAG_CWE805_def)
  show ?thesis
  proof (cases rule: capture_cases [where c = c and ?cwe805.0 = cwe805 and mem = mem and s = s and t = t and i = i and br = br and bad = bad])
    case off
    with ok show ?thesis by (auto simp: capture_snapshot_def)
  next
    case invalid
    with stream_marker [OF ok flags(1)] show ?thesis by metis
  next
    case full
    have "stream_ok cwe805 (c\<lparr>cache_truncated := True\<rparr>)"
      using stream_extend [OF ok, of "c\<lparr>cache_truncated := True\<rparr>" "Marker []"] flags(2) by auto
    with stream_marker [OF _ flags(2)] full show ?thesis by metis
  next
    case rec_written
    obtain failed w where w: "write_parts (snapshot_parts cwe805 mem s t i br ?f c) (cache_io c) = (failed, w)" by fastforce
    from write_parts_written [OF this] obtain b where b: "written w = written (cache_io c) @ b"
        "prefix b (concat (snapshot_parts cwe805 mem s t i br ?f c))" "\<not> failed \<longrightarrow> b = concat (snapshot_parts cwe805 mem s t i br ?f c)"
      by blast
    have rec: "is_record cwe805 c (concat (snapshot_parts cwe805 mem s t i br ?f c))" unfolding is_record_def by blast
    have inc: "unat (cache_hit_count c + 1) = unat (cache_hit_count c) + 1"
      using rec_written(1) unsigned_less [of "cache_max_hits c", where ?'a = nat] unat_add_lem [of "cache_hit_count c" 1]
      by (simp add: word_less_nat_alt)
    show ?thesis
    proof (cases failed)
      case True
      with rec_written(2) w have new: "?new = c\<lparr>cache_io := w, cache_truncated := True\<rparr>" by simp
      have "is_record cwe805 ?new (concat (snapshot_parts cwe805 mem s t i br ?f c))"
        using rec new is_record_frame [of ?new c] by simp
      with b(1,2) new show ?thesis by (intro stream_extend [OF ok, of _ "Cut b"]) auto
    next
      case False
      with rec_written(2) w have new: "?new = c\<lparr>cache_io := w, cache_captured_bytes := cache_captured_bytes c + record_size cwe805 c,
                  cache_hit_count := cache_hit_count c + 1\<rparr>" by simp
      have "is_record cwe805 ?new b" using rec False b(3) new is_record_frame [of ?new c] by simp
      with b(1) new inc show ?thesis by (intro stream_extend [OF ok, of _ "Complete b"]) auto
    qed
  qed
qed

lemma initialize_stream_frame:
  assumes "initialize_selected pred_var sel c = Some (u, c')"
  shows "cache_io c' = cache_io c \<and> cache_truncated c' = cache_truncated c"
  using assms by (auto simp: initialize_selected_def Let_def split: prod.splits if_splits option.splits)

lemma stream_empty: "written (cache_io c) = [] \<Longrightarrow> cache_hit_count c = 0 \<Longrightarrow> stream_ok cwe805 c"
  unfolding stream_ok_def by (intro exI [of _ "[]"]) simp

lemma reachable_stream:
  "cache_reachable cwe805 c \<Longrightarrow> stream_ok cwe805 c \<and> cache_stack_size c \<le> BRCACHE_MAX_STACK_SIZE"
proof (induction rule: cache_reachable.induct)
  case (start getenv strtoul segment segment_size rs)
  show ?case
    by (intro conjI stream_empty) (simp_all add: cached_init_def Let_def)
next
  case (call c target pred_var sel t mem s r c')
  from call.hyps(2) obtain c1 where c1: "selected_initialized c \<and> c1 = c \<or>
      \<not> selected_initialized c \<and> (\<exists>u. initialize_selected pred_var sel c = Some (u, c1))"
    and c': "c' = c1 \<or> (\<exists>i b bad. c' = capture_snapshot cwe805 mem s t i b bad c1)"
    by (rule cached_dest_cases)
  have "quota_ok cwe805 c" using reachable_inv [OF call.hyps(1)] by simp
  then have "stream_ok cwe805 c1 \<and> cache_stack_size c1 \<le> BRCACHE_MAX_STACK_SIZE \<and> quota_ok cwe805 c1"
    using c1 call.IH
    by (auto intro: quota_frame stream_frame dest: initialize_selected_frame initialize_stream_frame)
  with c' show ?case
    using capture_same_selection by (auto simp: stream_capture same_selection_def)
qed

lemma record_appended:
  assumes "cache_fd c \<noteq> None" "\<not> cache_truncated c" "cache_hit_count c < cache_max_hits c"
    "cache_captured_bytes c \<le> cache_max_bytes c" "record_size cwe805 c \<le> cache_max_bytes c - cache_captured_bytes c"
    "\<not> fst (write_parts (snapshot_parts cwe805 mem s t i br (if cwe805 then BRCACHE_FLAG_CWE805 else 0) c) (cache_io c))"
  shows "written (cache_io (capture_snapshot cwe805 mem s t i br False c)) = written (cache_io c) @
      concat (snapshot_parts cwe805 mem s t i br (if cwe805 then BRCACHE_FLAG_CWE805 else 0) c) \<and>
    cache_hit_count (capture_snapshot cwe805 mem s t i br False c) = cache_hit_count c + 1"
proof -
  let ?parts = "snapshot_parts cwe805 mem s t i br (if cwe805 then BRCACHE_FLAG_CWE805 else 0) c"
  obtain w where w: "write_parts ?parts (cache_io c) = (False, w)"
    using assms(6) by (metis (full_types) prod.collapse)
  have on: "\<not> (cache_fd c = None \<or> cache_truncated c)" and room: "\<not> (cache_hit_count c \<ge> cache_max_hits c \<or>
      record_size cwe805 c > cache_max_bytes c -
        (if cache_captured_bytes c \<le> cache_max_bytes c then cache_captured_bytes c else cache_max_bytes c))"
    using assms(1-5) by (simp_all add: not_le not_less)
  have "capture_snapshot cwe805 mem s t i br False c = c\<lparr>cache_io := w,
      cache_captured_bytes := cache_captured_bytes c + record_size cwe805 c, cache_hit_count := cache_hit_count c + 1\<rparr>"
    using on room w by (simp only: capture_snapshot_def if_False Let_def prod.case)
  with write_parts_written [OF w] show ?thesis by simp
qed

lemma length_concat_words: "length (concat (map (le_bytes n) xs)) = n * length xs"
  by (induction xs) (simp_all add: le_bytes_def)

lemma length_clamp_bytes: "length (clamp_bytes bs) = 16 * length bs"
  by (induction bs) (auto simp: clamp_bytes_def le_bytes_def)

lemma length_record:
  assumes "length (buffers t) = 256" "cache_stack_size c \<le> BRCACHE_MAX_STACK_SIZE"
  shows "length (concat (snapshot_parts cwe805 mem s t i br f c)) = unat (record_size cwe805 c)"
proof -
  have "unat (cache_stack_size c) \<le> 1048576"
    using assms(2) by (simp add: word_le_nat_alt BRCACHE_MAX_STACK_SIZE_def)
  then have "unat (4256 + cache_stack_size c) = 4256 + unat (cache_stack_size c)"
    by (subst unat_plus_if') auto
  then show ?thesis
    using assms(1)
    by (simp add: snapshot_parts_def record_size_def length_concat_words length_clamp_bytes stack_bytes_def snapshot_header_def
        le_bytes_def [of 4] le_bytes_def [of 8])
qed

text \<open>
  C15. In every state a process can reach, whatever the system calls return, what has been written
  is a sequence of complete records, of markers of invalid evaluations or of the truncation, and of
  a cut record once the stream is truncated. The count of hits is the number of the complete
  records, at most \<^verbatim>\<open>BRCACHE_MAX_HITS\<close>; the count of bytes is their total size, at most
  \<^verbatim>\<open>BRCACHE_MAX_BYTES\<close>, with no wrap-around. Markers are not counted. Once the stream is truncated
  a capture writes nothing; within the limits, a capture of a valid evaluation whose writes succeed
  appends its record and counts it.
\<close>

theorem snapshot_quotas:
  assumes "cache_reachable cwe805 c"
  shows "stream_ok cwe805 c \<and>
    unat (cache_captured_bytes c) = unat (cache_hit_count c) * unat (record_size cwe805 c) \<and>
    (\<forall>mem s t i br f. length (buffers t) = 256 \<longrightarrow>
       length (concat (snapshot_parts cwe805 mem s t i br f c)) = unat (record_size cwe805 c)) \<and>
    cache_captured_bytes c \<le> cache_max_bytes c \<and> cache_hit_count c \<le> cache_max_hits c \<and>
    (cache_truncated c \<longrightarrow> capture_snapshot cwe805 mem s t i b bad c = c) \<and>
    (cache_fd c \<noteq> None \<and> \<not> cache_truncated c \<and> cache_hit_count c < cache_max_hits c \<and>
     record_size cwe805 c \<le> cache_max_bytes c - cache_captured_bytes c \<and>
     \<not> fst (write_parts (snapshot_parts cwe805 mem s t i b (if cwe805 then BRCACHE_FLAG_CWE805 else 0) c) (cache_io c)) \<longrightarrow>
       written (cache_io (capture_snapshot cwe805 mem s t i b False c)) = written (cache_io c) @
         concat (snapshot_parts cwe805 mem s t i b (if cwe805 then BRCACHE_FLAG_CWE805 else 0) c) \<and>
       cache_hit_count (capture_snapshot cwe805 mem s t i b False c) = cache_hit_count c + 1)"
  using reachable_inv [OF assms] reachable_stream [OF assms] length_record record_appended [of c cwe805 mem s t i b]
  by (simp add: quota_ok_def capture_snapshot_def)

definition ex_init :: cache_state where
  "ex_init = cached_init (\<lambda>_. None) (\<lambda>_. (0, False)) (\<lambda>_. None) (\<lambda>_. None) []"

definition ex_selector :: brcache_patch_selector where
  "ex_selector = \<lparr>sel_patch_id = 0, sel_iteration = 0, descriptor_length = 0,
     descriptor_capacity = 0, descriptor = []\<rparr>"

lemma ex_reachable: "cache_reachable cwe805 ex_init"
  unfolding ex_init_def by (rule cache_reachable.start)

lemmas ex_init_eval = ex_init_def cached_init_def init_def getenvul_def getenvull_def
  attach_cache_selector_def MAGIC_VALUE_PATCH_def Let_def

text \<open>The first call with the expression \<^verbatim>\<open>p1\<close>, and the state after it.\<close>

definition ex_called :: cache_state where
  "ex_called = ex_init\<lparr>selected_initialized := True, selected_predicate :=
     zero_predicate\<lparr>pred_kind := BR_PRED_GENERIC, generic_branch_expression := ''p1''\<rparr>\<rparr>"

lemma ex_call:
  "cached_dest False 64 (Some ''p1'') ex_selector initial_tracker (\<lambda>_. 0) ex_state ex_init =
     Some ((Some 64, Some (0, 1, 0)), ex_called)"
  by (simp add: cached_dest_def initialize_selected_def select_descriptor_def ex_init_eval
      parse_predicate_def zero_predicate_def predicate_stack_bytes_def evaluate_selected_def current_predicate_def
      eval.simps is_leaf_def eval_leaf_def scani_def ctext_simps capture_snapshot_def ex_called_def)

lemma ex_called_reachable: "cache_reachable False ex_called"
  using ex_reachable ex_call by (rule cache_reachable.call)

text \<open>The same call in a process that has been given a descriptor to write to.\<close>

lemma write_all_full: "results w = [] \<Longrightarrow> write_all buf w = (False, w\<lparr>written := written w @ buf\<rparr>)"
  by (simp add: write_all.simps [of buf] write_all.simps [of "[]"] sys_write_def)

lemma write_parts_full: "results w = [] \<Longrightarrow> write_parts bs w = (False, w\<lparr>written := written w @ concat bs\<rparr>)"
  by (induction bs arbitrary: w) (simp_all add: write_all_full)

definition ex_open :: cache_state where
  "ex_open = cached_init (\<lambda>v. if v = ''PATCH_CACHED_FD'' then Some ''3'' else None) (\<lambda>_. (3, False)) (\<lambda>_. None) (\<lambda>_. None) []"

definition ex_recorded :: cache_state where
  "ex_recorded = capture_snapshot False (\<lambda>_. 0) ex_state initial_tracker 0 1 False
     (ex_open\<lparr>selected_initialized := True, selected_predicate :=
        zero_predicate\<lparr>pred_kind := BR_PRED_GENERIC, generic_branch_expression := ''p1''\<rparr>\<rparr>)"

lemma ex_open_call:
  "cached_dest False 64 (Some ''p1'') ex_selector initial_tracker (\<lambda>_. 0) ex_state ex_open =
     Some ((Some 64, Some (0, 1, 0)), ex_recorded)"
  by (simp add: cached_dest_def initialize_selected_def select_descriptor_def ex_open_def ex_init_eval
      parse_predicate_def zero_predicate_def predicate_stack_bytes_def evaluate_selected_def current_predicate_def
      eval.simps is_leaf_def eval_leaf_def scani_def ctext_simps ex_recorded_def)

lemma ex_recorded_reachable: "cache_reachable False ex_recorded"
  by (rule cache_reachable.call [OF _ ex_open_call]) (unfold ex_open_def, rule cache_reachable.start)

lemma ex_recorded_fields:
  "cache_fd ex_recorded = Some 3" "\<not> cache_truncated ex_recorded" "cache_hit_count ex_recorded = 1"
  "cache_captured_bytes ex_recorded = 160" "cache_max_hits ex_recorded = 65536" "cache_max_bytes ex_recorded = 8388608"
  "record_size False ex_recorded = 160" "results (cache_io ex_recorded) = []"
  by (simp_all add: ex_recorded_def ex_open_def ex_init_eval capture_snapshot_def record_size_def write_parts_full
      BRCACHE_DEFAULT_MAX_HITS_def BRCACHE_DEFAULT_MAX_BYTES_def)

theorem snapshot_quotas_witness:
  "stream_ok False ex_recorded \<and> unat (cache_captured_bytes ex_recorded) = 1 * 160 \<and>
   cache_hit_count (capture_snapshot False (\<lambda>_. 0) ex_state initial_tracker 0 1 False ex_recorded) = 2"
  using snapshot_quotas [OF ex_recorded_reachable, where mem = "\<lambda>_. 0" and s = ex_state and
      t = initial_tracker and i = 0 and b = 1]
  by (simp add: ex_recorded_fields write_parts_full)

section \<open>Reads of the stack\<close>

lemma load_le_cong:
  "(\<And>i. i < n \<Longrightarrow> mem (a + of_nat i) = mem' (a + of_nat i)) \<Longrightarrow> load_le mem a n = load_le mem' a n"
  by (auto simp: load_le_def intro!: arg_cong [of _ _ sum_list])

lemma load_le_cell:
  assumes "\<And>i. i < m \<Longrightarrow> mem (a + of_nat i) = mem' (a + of_nat i)" "(unat (idx :: u16) + 1) * w \<le> m"
  shows "load_le mem (a + ucast idx * of_nat w) w = load_le mem' (a + ucast idx * of_nat w) w"
proof (rule load_le_cong)
  fix i
  assume "i < w"
  then have "unat idx * w + i < m" using assms(2) by (simp add: algebra_simps)
  from assms(1) [OF this]
  show "mem (a + ucast idx * of_nat w + of_nat i) = mem' (a + ucast idx * of_nat w + of_nat i)"
    by (simp add: algebra_simps)
qed

lemma unat_stack_bytes:
  assumes "w \<in> {1, 2, 4, 8}"
  shows "unat ((ucast (idx :: u16) + 1) * of_nat w :: u64) = (unat idx + 1) * w"
proof -
  have "unat idx < 65536" using unsigned_less [of idx, where ?'a = nat] by simp
  then have "(unat idx + 1) * w < 2 ^ 64"
    using assms by auto
  moreover have "(ucast idx + 1) * of_nat w = (of_nat ((unat idx + 1) * w) :: u64)"
    by (simp add: algebra_simps)
  ultimately show ?thesis
    using unat_of_nat [of "(unat idx + 1) * w", where ?'a = 64] by simp
qed

lemma read_cell_cong:
  assumes "\<And>i. i < unat n \<Longrightarrow> mem (rsp s + of_nat i) = mem' (rsp s + of_nat i)"
    and "predicate_stack_bytes p \<le> n"
  shows "read_cell mem s (cell_kind p) (cell_index p) = read_cell mem' s (cell_kind p) (cell_index p)"
proof -
  have cell: "load_le mem (rsp s + ucast (cell_index p) * of_nat w) w =
      load_le mem' (rsp s + ucast (cell_index p) * of_nat w) w"
    if "predicate_stack_bytes p = (ucast (cell_index p) + 1) * of_nat w" "w \<in> {1, 2, 4, 8}" for w
  proof (rule load_le_cell)
    show "mem (rsp s + of_nat i) = mem' (rsp s + of_nat i)" if "i < unat n" for i
      using assms(1) that .
    show "(unat (cell_index p) + 1) * w \<le> unat n"
      using assms(2) that unat_stack_bytes [of w "cell_index p"] by (simp add: word_le_nat_alt)
  qed
  show ?thesis
    using cell [of 1] cell [of 2] cell [of 4] cell [of 8]
    by (cases "cell_kind p") (simp_all add: read_cell_def predicate_stack_bytes_def)
qed

lemma generic_eval_defined:
  assumes "encodable 16 e"
  shows "\<exists>v crashed. eval (state_to_env s) (branch_patch_str e) False = Some (v, [], crashed)"
proof -
  have "evaluates (state_to_env s) (Binary B_EQ e (Const 0)) [] False"
    using assms by (intro eval_emit_patch) (simp_all add: no_digit_ahead_def)
  then show ?thesis
    unfolding evaluates_def branch_patch_str_eq append_Nil2 by blast
qed

text \<open>
  C30. A selected patch reads only what a snapshot captures: in every reachable state with a valid
  selection, the evaluation of the predicate has a result, and it is the same for all memories
  with the same first \<^verbatim>\<open>BRCACHE_STACK_SIZE\<close> bytes of the stack; a register cell is one of the 16. A
  generic expression is assumed to be the encoding of a predicate over the 16 registers, as the
  runtime does not check the numbers of variables.
\<close>

theorem selected_patch_reads_captured:
  assumes "cache_reachable cwe805 c" "selected_initialized c" "\<not> selected_invalid c"
    and "current_predicate sel c = Some pred"
    and "pred_kind pred = BR_PRED_GENERIC \<longrightarrow> (\<exists>e. encodable 16 e \<and> generic_branch_expression pred = branch_patch_str e)"
    and "\<forall>i < unat (cache_stack_size c). mem (rsp s + of_nat i) = mem' (rsp s + of_nat i)"
  shows "\<exists>r. evaluate_selected build mem s t pred = Some r \<and> evaluate_selected build mem' s t pred = Some r \<and>
    (cell_kind pred = BR_CELL_REGISTER \<longrightarrow> unat (cell_index pred) < length (state_to_env s))"
proof -
  have eq: "pred_kind pred = pred_kind (selected_predicate c)" "cell_kind pred = cell_kind (selected_predicate c)"
      "cell_index pred = cell_index (selected_predicate c)" "predicate_stack_bytes pred = predicate_stack_bytes (selected_predicate c)"
    using assms(4) by (auto simp: current_predicate_def predicate_stack_bytes_def Let_def split: if_splits)
  have ok: "wf_predicate (selected_predicate c)" "predicate_stack_bytes pred \<le> cache_stack_size c"
    using reachable_inv [OF assms(1)] assms(2,3) by (simp_all add: selection_ok_def eq)
  have read: "read_cell mem s (cell_kind pred) (cell_index pred) = read_cell mem' s (cell_kind pred) (cell_index pred)"
    by (rule read_cell_cong [OF _ ok(2)]) (use assms(6) in blast)
  have reg: "unat (cell_index pred) < 16" if "cell_kind pred = BR_CELL_REGISTER"
    using ok(1) that unfolding eq
    by (auto simp: wf_predicate_def cell_ok_def word_le_nat_alt split: br_predicate_kind.splits)
  show ?thesis
  proof (cases "pred_kind pred = BR_PRED_GENERIC")
    case True
    with assms(5) obtain e where "encodable 16 e" "generic_branch_expression pred = branch_patch_str e" by blast
    moreover obtain v crashed where "eval (state_to_env s) (branch_patch_str e) False = Some (v, [], crashed)"
      using generic_eval_defined [OF calculation(1)] by blast
    ultimately have "evaluate_selected build m s t pred = Some (if crashed then 2 else if v \<noteq> 0 then 1 else 0, False)" for m
      using True by (simp add: evaluate_selected_def del: eval.simps)
    with reg show ?thesis by auto
  next
    case False
    with read reg show ?thesis
      by (auto simp: evaluate_selected_def CWE805_branch_taken_def)
  qed
qed

text \<open>A process with eight bytes of the stack captured, and a pointer predicate on the word there.\<close>

definition ex_stack_init :: cache_state where
  "ex_stack_init = cached_init [''BRCACHE_STACK_SIZE'' \<mapsto> ''8''] (\<lambda>_. (8, False)) (\<lambda>_. None) (\<lambda>_. None) []"

definition ex_stack_called :: cache_state where
  "ex_stack_called = ex_stack_init\<lparr>selected_initialized := True, selected_predicate :=
     zero_predicate\<lparr>pred_kind := BR_PRED_CWE805_POINTER, cell_kind := BR_CELL_STACK64, cell_index := 0\<rparr>\<rparr>"

lemma ex_stack_parse: "parse_predicate ''c1s64i0'' zero_predicate =
    Some (Some (zero_predicate\<lparr>pred_kind := BR_PRED_CWE805_POINTER, cell_kind := BR_CELL_STACK64, cell_index := 0\<rparr>))"
  by code_simp

lemma ex_stack_reachable: "cache_reachable True ex_stack_called"
proof -
  have "cache_reachable True ex_stack_init" unfolding ex_stack_init_def by (rule cache_reachable.start)
  moreover have "\<exists>r. cached_dest True 64 (Some ''c1s64i0'') ex_selector initial_tracker (\<lambda>_. 0) ex_state ex_stack_init =
      Some (r, ex_stack_called)"
    using ex_stack_parse
    by (simp add: cached_dest_def initialize_selected_def select_descriptor_def ex_stack_init_def ex_init_eval
        zero_predicate_def predicate_stack_bytes_def evaluate_selected_def current_predicate_def capture_snapshot_def
        ex_stack_called_def BRCACHE_MAX_STACK_SIZE_def)
  ultimately show ?thesis by (blast intro: cache_reachable.call)
qed

theorem selected_patch_reads_captured_witness:
  "\<exists>r. evaluate_selected True (\<lambda>a. if a < 8 then 1 else ucast a) ex_state initial_tracker (selected_predicate ex_stack_called) = Some r \<and>
     evaluate_selected True (\<lambda>a. if a < 8 then 1 else 0) ex_state initial_tracker (selected_predicate ex_stack_called) = Some r"
proof -
  have facts: "cache_stack_size ex_stack_called = 8" "selected_initialized ex_stack_called" "\<not> selected_invalid ex_stack_called"
    "current_predicate ex_selector ex_stack_called = Some (selected_predicate ex_stack_called)"
    "pred_kind (selected_predicate ex_stack_called) = BR_PRED_CWE805_POINTER"
    by (simp_all add: ex_stack_called_def ex_stack_init_def ex_init_eval BRCACHE_MAX_STACK_SIZE_def current_predicate_def
        zero_predicate_def)
  have small: "(of_nat i :: u64) < 8" if "i < 8" for i
    using that by (simp add: word_less_nat_alt unat_of_nat)
  show ?thesis
    using selected_patch_reads_captured [OF ex_stack_reachable facts(2-4), of "\<lambda>a. if a < 8 then 1 else ucast a" ex_state
        "\<lambda>a. if a < 8 then 1 else 0" True initial_tracker] facts(1,5) small
    by (auto simp: ex_state_def)
qed

section \<open>The selection\<close>

type_synonym patch_call = "brcache_patch_selector \<times> tracker \<times> (u64 \<Rightarrow> u8) \<times> x86_state"

fun cached_run :: "bool \<Rightarrow> u64 \<Rightarrow> string option \<Rightarrow> patch_call list \<Rightarrow> cache_state \<Rightarrow>
    ((u64 option \<times> patch_log option) list \<times> cache_state) option" where
  "cached_run cwe805 target pred_var [] c = Some ([], c)"
| "cached_run cwe805 target pred_var ((sel, t, mem, s) # calls) c =
    Option.bind (cached_dest cwe805 target pred_var sel t mem s c) (\<lambda>(r, c).
      map_option (\<lambda>(rs, c). (r # rs, c)) (cached_run cwe805 target pred_var calls c))"

text \<open>A selection whose expression is not in the segment.\<close>

definition private_selection :: "cache_state \<Rightarrow> bool" where
  "private_selection c \<longleftrightarrow> \<not> selected_in_segment c \<or> pred_kind (selected_predicate c) \<noteq> BR_PRED_GENERIC"

lemma current_private: "private_selection c \<Longrightarrow> current_predicate sel c = Some (selected_predicate c)"
  by (auto simp: private_selection_def current_predicate_def Let_def)

lemma cached_dest_initialized:
  assumes "selected_initialized c"
  shows "private_selection c \<Longrightarrow>
      cached_dest cwe805 target pred_var sel t mem s c = cached_dest cwe805 target v' sel' t mem s c"
    and "cached_dest cwe805 target pred_var sel t mem s c = Some (r, c') \<Longrightarrow> same_selection c c'"
proof -
  show "cached_dest cwe805 target pred_var sel t mem s c = cached_dest cwe805 target v' sel' t mem s c"
    if "private_selection c"
    using assms by (simp add: cached_dest_def current_private [OF that])
  show "same_selection c c'" if "cached_dest cwe805 target pred_var sel t mem s c = Some (r, c')"
    using assms that capture_same_selection by (auto simp: cached_dest_def)
qed

lemma private_same: "same_selection c c' \<Longrightarrow> private_selection c' = private_selection c"
  by (simp add: same_selection_def private_selection_def)

text \<open>
  A selection is final unless its expression is in the segment: once it has been made, later
  changes of the shared segment or of the environment change neither an answer nor the state of
  the process, and the selected patch stays the same.
\<close>

theorem selection_is_final:
  assumes "selected_initialized c" "private_selection c"
  shows "cached_run cwe805 target v calls c =
      cached_run cwe805 target v' (map (\<lambda>(sel, call). (sel', call)) calls) c \<and>
    (\<forall>rs c'. cached_run cwe805 target v calls c = Some (rs, c') \<longrightarrow> same_selection c c')"
  using assms
proof (induction calls arbitrary: c)
  case Nil
  then show ?case by (simp add: same_selection_def)
next
  case (Cons call calls)
  obtain sel t mem s where call: "call = (sel, t, mem, s)" by (cases call)
  note again = cached_dest_initialized(1) [OF Cons.prems, of cwe805 target v sel t mem s v' sel']
  show ?case
  proof (cases "cached_dest cwe805 target v sel t mem s c")
    case None
    then show ?thesis using again by (simp add: call)
  next
    case (Some x)
    obtain r c1 where x: "x = (r, c1)" by (cases x)
    have same: "same_selection c c1"
      using cached_dest_initialized(2) [OF Cons.prems(1)] Some x by blast
    then have "selected_initialized c1" "private_selection c1"
      using Cons.prems private_same [OF same] by (simp_all add: same_selection_def)
    note ih = Cons.IH [OF this]
    have "same_selection c c'" if "same_selection c1 c'" for c'
      using same that by (simp add: same_selection_def)
    moreover have "cached_dest cwe805 target v' sel' t mem s c = Some (r, c1)"
      using Some again x by simp
    ultimately show ?thesis
      using ih Some x by (auto simp: call)
  qed
qed

theorem selection_is_final_witness:
  "cached_run False 64 (Some ''p1'') [(ex_selector, initial_tracker, (\<lambda>_. 0), ex_state)] ex_called =
   cached_run False 64 None [(ex_selector\<lparr>sel_iteration := 9\<rparr>, initial_tracker, (\<lambda>_. 0), ex_state)]
     ex_called"
proof -
  have "selected_initialized ex_called" "private_selection ex_called"
    by (simp_all add: ex_called_def ex_init_eval private_selection_def)
  from selection_is_final [OF this, of False 64 "Some ''p1''"
      "[(ex_selector, initial_tracker, (\<lambda>_. 0), ex_state)]" None "ex_selector\<lparr>sel_iteration := 9\<rparr>"]
  show ?thesis by simp
qed

lemma cached_run_append:
  "cached_run cwe805 target v (xs @ ys) c = Option.bind (cached_run cwe805 target v xs c) (\<lambda>(rs, c).
     map_option (\<lambda>(qs, c). (rs @ qs, c)) (cached_run cwe805 target v ys c))"
proof (induction xs arbitrary: c)
  case Nil
  show ?case by (simp add: option.map_ident case_prod_beta' map_option.id [unfolded id_def])
next
  case (Cons x xs)
  obtain sel t mem s where "x = (sel, t, mem, s)" by (cases x)
  with Cons show ?case
    by (auto split: option.splits bind_splits simp: option.map_comp comp_def case_prod_beta')
qed

text \<open>A process that waits for its selection.\<close>

definition waiting :: "cache_state \<Rightarrow> bool" where
  "waiting c \<longleftrightarrow> env_patch_id (base_env c) = MAGIC_VALUE_PATCH \<and> selector_attached c \<and>
     \<not> selected_initialized c"

lemma unpublished_call:
  assumes "waiting c" "sel_iteration sel = 0"
  shows "\<exists>c'. cached_dest cwe805 target v sel t mem s c = Some ((None, None), c') \<and> waiting c' \<and>
    cache_stack_size c' = cache_stack_size c"
  using assms
  by (auto simp: cached_dest_def initialize_selected_def select_descriptor_def waiting_def)

lemma unpublished_calls:
  assumes "waiting c" "cache_reachable cwe805 c" "\<forall>(sel, call) \<in> set calls. sel_iteration sel = 0"
  shows "\<exists>c'. cached_run cwe805 target v calls c = Some (replicate (length calls) (None, None), c') \<and>
    waiting c' \<and> cache_reachable cwe805 c' \<and> cache_stack_size c' = cache_stack_size c"
  using assms
proof (induction calls arbitrary: c)
  case (Cons call calls)
  obtain sel t mem s where call: "call = (sel, t, mem, s)" by (cases call)
  with Cons.prems have "sel_iteration sel = 0" by simp
  from unpublished_call [OF Cons.prems(1) this, of cwe805 target v t mem s] obtain c1
    where c1: "cached_dest cwe805 target v sel t mem s c = Some ((None, None), c1)" "waiting c1"
      "cache_stack_size c1 = cache_stack_size c" by blast
  have "cache_reachable cwe805 c1"
    using Cons.prems(2) c1(1) by (rule cache_reachable.call)
  with Cons.IH [OF c1(2)] Cons.prems(3) c1 call show ?case by force
qed simp

lemma selector_text:
  assumes "selector_ok sel"
  shows "NUL \<in> set (descriptor sel)"
    "takeWhile (\<lambda>x. x \<noteq> NUL) (descriptor sel) = take (unat (descriptor_length sel)) (descriptor sel)"
proof -
  let ?n = "unat (descriptor_length sel)"
  have n: "?n < length (descriptor sel)" "descriptor sel ! ?n = NUL" "NUL \<notin> set (take ?n (descriptor sel))"
    using assms by (auto simp: selector_ok_def Let_def)
  then show "NUL \<in> set (descriptor sel)" by (metis nth_mem)
  have "descriptor sel = take ?n (descriptor sel) @ NUL # drop (Suc ?n) (descriptor sel)"
    using n id_take_nth_drop by metis
  then have "takeWhile (\<lambda>x. x \<noteq> NUL) (descriptor sel) =
      takeWhile (\<lambda>x. x \<noteq> NUL) (take ?n (descriptor sel) @ NUL # drop (Suc ?n) (descriptor sel))"
    by simp
  also have "\<dots> = take ?n (descriptor sel)"
    using n(3) by (subst takeWhile_append2) auto
  finally show "takeWhile (\<lambda>x. x \<noteq> NUL) (descriptor sel) = take ?n (descriptor sel)" .
qed

lemma published_call:
  assumes "waiting c" "cache_reachable cwe805 c" "sel_iteration sel \<noteq> 0" "selector_ok sel"
    and "take (unat (descriptor_length sel)) (descriptor sel) = predicate_descriptor (parsed_of p)"
    and "wf_predicate p" "predicate_stack_bytes p \<le> cache_stack_size c"
    and "evaluate_selected cwe805 mem s t p \<noteq> None"
  shows "\<exists>r c'. cached_dest cwe805 target v sel t mem s c = Some (r, c') \<and>
    selected_initialized c' \<and> \<not> selected_invalid c' \<and> selected_predicate c' = p \<and>
    selected_patch_id c' = sel_patch_id sel \<and> selected_iteration c' = sel_iteration sel"
proof -
  let ?c = "c\<lparr>selected_patch_id := sel_patch_id sel, selected_iteration := sel_iteration sel,
      selected_predicate := p, selected_in_segment := True, selected_invalid := False,
      selected_initialized := True\<rparr>"
  have zero: "selected_predicate c = zero_predicate" "\<not> selected_invalid c"
    using reachable_inv [OF assms(2)] assms(1) by (simp_all add: selection_ok_def waiting_def)
  have parse: "parse_predicate (predicate_descriptor (parsed_of p)) zero_predicate = Some (Some p)"
    using assms(6) by (rule parse_printed)
  have "initialize_selected v sel c = Some (False, ?c)"
    using assms(1,3-5,7) zero parse
    by (simp add: initialize_selected_def select_descriptor_def waiting_def Let_def)
  moreover have "current_predicate sel ?c = Some p"
    using selector_text [OF assms(4)] assms(5)
    by (cases "pred_kind p = BR_PRED_GENERIC") (simp_all add: current_predicate_def parsed_of_def)
  moreover obtain b bad where "evaluate_selected cwe805 mem s t p = Some (b, bad)"
    using assms(8) by auto
  ultimately have "cached_dest cwe805 target v sel t mem s c = Some ((if b = 1 then Some target else None,
      Some (sel_patch_id sel, b, sel_iteration sel)),
      capture_snapshot cwe805 mem s t (sel_patch_id sel) b bad ?c)"
    using assms(1) by (simp add: cached_dest_def waiting_def)
  then show ?thesis
    using capture_same_selection [of ?c cwe805 mem s t "sel_patch_id sel" b bad]
    by (auto simp: same_selection_def)
qed

text \<open>
  C31. A published selection takes effect: however often the patched code runs before the segment
  is published, it follows its original path and stays ready, and the first call after the
  publication of the descriptor of a well-formed predicate selects exactly that predicate,
  with the published id and iteration.
\<close>

theorem published_selection_takes_effect:
  assumes "waiting c" "cache_reachable cwe805 c" "\<forall>(old, call) \<in> set calls. sel_iteration old = 0"
    and "sel_iteration sel \<noteq> 0" "selector_ok sel"
    and "take (unat (descriptor_length sel)) (descriptor sel) = predicate_descriptor (parsed_of p)"
    and "wf_predicate p" "predicate_stack_bytes p \<le> cache_stack_size c"
    and "evaluate_selected cwe805 mem s t p \<noteq> None"
  shows "\<exists>r c'. cached_run cwe805 target v (calls @ [(sel, t, mem, s)]) c =
      Some (replicate (length calls) (None, None) @ [r], c') \<and>
    selected_initialized c' \<and> \<not> selected_invalid c' \<and> selected_predicate c' = p \<and>
    selected_patch_id c' = sel_patch_id sel \<and> selected_iteration c' = sel_iteration sel"
proof -
  from unpublished_calls [OF assms(1-3), of target v] obtain c1
    where c1: "cached_run cwe805 target v calls c = Some (replicate (length calls) (None, None), c1)"
      "waiting c1" "cache_reachable cwe805 c1" "cache_stack_size c1 = cache_stack_size c"
    by blast
  have "predicate_stack_bytes p \<le> cache_stack_size c1"
    using assms(8) c1(4) by simp
  from published_call [OF c1(2,3) assms(4-7) this assms(9), of target v] c1(1) show ?thesis
    by (auto simp: cached_run_append)
qed

text \<open>The process of the example: \<^verbatim>\<open>PATCH_ID\<close> is 123456 and the segment of key 7 is attached.\<close>

definition ex_waiting :: cache_state where
  "ex_waiting = cached_init [''PATCH_ID'' \<mapsto> ''123456'', ''BINRADAR_PATCH_SHM_KEY'' \<mapsto> ''7'']
     (\<lambda>str. (if str = ''7'' then 7 else 123456, False)) (\<lambda>_. Some (0, 0)) (\<lambda>_. Some 64) []"

definition ex_published :: brcache_patch_selector where
  "ex_published = \<lparr>sel_patch_id = 3, sel_iteration = 5, descriptor_length = 4,
     descriptor_capacity = 8, descriptor = ''c1p7'' @ replicate 44 NUL\<rparr>"

definition ex_pointer :: br_predicate where
  "ex_pointer = zero_predicate\<lparr>pred_kind := BR_PRED_CWE805_POINTER, cell_index := 7\<rparr>"

lemma ex_published_facts:
  "waiting ex_waiting" "cache_reachable True ex_waiting" "selector_ok ex_published"
  "take (unat (descriptor_length ex_published)) (descriptor ex_published) = predicate_descriptor (parsed_of ex_pointer)"
  "wf_predicate ex_pointer" "predicate_stack_bytes ex_pointer \<le> cache_stack_size ex_waiting"
  "evaluate_selected True mem s t ex_pointer \<noteq> None"
proof -
  show "cache_reachable True ex_waiting"
    unfolding ex_waiting_def by (rule cache_reachable.start)
  show "waiting ex_waiting"
    by (simp add: waiting_def ex_waiting_def cached_init_def init_def getenvul_def getenvull_def
        attach_cache_selector_def MAGIC_VALUE_PATCH_def Let_def)
  show "selector_ok ex_published"
    by (simp add: selector_ok_def ex_published_def nth_append)
  show "take (unat (descriptor_length ex_published)) (descriptor ex_published) =
      predicate_descriptor (parsed_of ex_pointer)"
    by (simp add: ex_published_def ex_pointer_def zero_predicate_def parsed_of_def parsed_cell_def show_int_def show_nat.simps [of 7] digit_char_def char_of_def bit_0)
  show "wf_predicate ex_pointer" "predicate_stack_bytes ex_pointer \<le> cache_stack_size ex_waiting"
    "evaluate_selected True mem s t ex_pointer \<noteq> None"
    by (simp_all add: ex_pointer_def zero_predicate_def wf_predicate_def cell_ok_def cell_allowed_def
        predicate_stack_bytes_def evaluate_selected_def)
qed

theorem published_selection_takes_effect_witness:
  "\<exists>r c'. cached_run True 64 None ([(ex_selector, initial_tracker, (\<lambda>_. 0), ex_state)] @
       [(ex_published, initial_tracker, (\<lambda>_. 0), ex_state)]) ex_waiting = Some ([(None, None)] @ [r], c') \<and>
     selected_initialized c' \<and> \<not> selected_invalid c' \<and> selected_predicate c' = ex_pointer \<and>
     selected_patch_id c' = 3 \<and> selected_iteration c' = 5"
  using published_selection_takes_effect [OF ex_published_facts(1,2) _ _ ex_published_facts(3-7),
      where calls = "[(ex_selector, initial_tracker, (\<lambda>_. 0), ex_state)]" and t = initial_tracker
        and mem = "\<lambda>_. 0" and s = ex_state and target = 64 and v = None]
  by (simp add: ex_selector_def ex_published_def del: cached_run.simps)

section \<open>Agreement with the direct runtime\<close>

lemma evaluate_selected_direct:
  assumes "evaluate_selected cwe805 mem s t pred = Some (b, False)"
  shows "(if pred_kind pred = BR_PRED_GENERIC then generic_branch (generic_branch_expression pred) s
     else if cwe805 then Some (CWE805_branch_taken mem s t pred) else Some 0) = Some b"
proof (cases "pred_kind pred = BR_PRED_GENERIC")
  case True
  with assms show ?thesis
    by (cases "eval (state_to_env s) (generic_branch_expression pred) False")
      (auto simp: evaluate_selected_def generic_branch_def split: if_splits)
next
  case False
  with assms show ?thesis
    by (simp add: evaluate_selected_def split: if_splits)
qed

text \<open>
  C32. The cached runtime agrees with the direct one: for a patch selected by the environment that
  the cached runtime accepts and evaluates validly, the first call of the cached runtime and the
  direct runtime with the same descriptor jump alike and log the same line.
\<close>

theorem cached_agrees_with_direct:
  assumes "cache_reachable cwe805 c" "\<not> selected_initialized c" "base_env c = p"
    and "env_patch_id p \<noteq> MAGIC_VALUE_PATCH" "table (env_patch_id p) = Some d"
    and "parse_predicate d zero_predicate = Some (Some pred)"
    and "predicate_stack_bytes pred \<le> cache_stack_size c"
    and "evaluate_selected cwe805 mem s t pred = Some (b, False)"
  shows "\<exists>jump line c'. dest cwe805 target table p t mem s = Some (jump, line) \<and>
    cached_dest cwe805 target (Some d) sel t mem s c = Some ((jump, Some line), c')"
proof -
  have zero: "selected_predicate c = zero_predicate" "\<not> selected_invalid c"
    using reachable_inv [OF assms(1)] assms(2) by (simp_all add: selection_ok_def)
  have direct: "dest cwe805 target table p t mem s =
      Some (if b = 1 then Some target else None, (env_patch_id p, b, 0))"
    using assms(4-6) evaluate_selected_direct [OF assms(8)]
    by (simp add: dest_def select_patch_id_def)
  have "cached_dest cwe805 target (Some d) sel t mem s c =
      Some ((if b = 1 then Some target else None, Some (env_patch_id p, b, 0)),
        capture_snapshot cwe805 mem s t (env_patch_id p) b False
          (c\<lparr>selected_patch_id := env_patch_id p, selected_iteration := 0, selected_predicate := pred,
             selected_in_segment := False, selected_invalid := False, selected_initialized := True\<rparr>))"
    using assms(2-4,6-8) zero
    by (auto simp: cached_dest_def initialize_selected_def select_descriptor_def current_predicate_def Let_def)
  with direct show ?thesis by blast
qed

theorem cached_agrees_with_direct_witness:
  "\<exists>jump line c'. dest False 64 [0 \<mapsto> ''p1''] (base_env ex_init) initial_tracker (\<lambda>_. 0) ex_state =
      Some (jump, line) \<and>
    cached_dest False 64 (Some ''p1'') ex_selector initial_tracker (\<lambda>_. 0) ex_state ex_init =
      Some ((jump, Some line), c')"
proof (rule cached_agrees_with_direct [OF ex_reachable _ refl])
  show "parse_predicate ''p1'' zero_predicate =
      Some (Some (zero_predicate\<lparr>pred_kind := BR_PRED_GENERIC, generic_branch_expression := ''p1''\<rparr>))"
    by (simp add: parse_predicate_def zero_predicate_def)
  show "evaluate_selected False (\<lambda>_. 0) ex_state initial_tracker
      (zero_predicate\<lparr>pred_kind := BR_PRED_GENERIC, generic_branch_expression := ''p1''\<rparr>) = Some (1, False)"
    by (simp add: evaluate_selected_def eval.simps is_leaf_def eval_leaf_def scani_def ctext_simps)
qed (simp_all add: ex_init_eval predicate_stack_bytes_def zero_predicate_def)

end
