(* ===== verification/Tracer.thy ===== *)
theory Tracer
  imports Prelude
begin

text \<open>
  The tracer \<^verbatim>\<open>src/utils/binradar-trace.c\<close>, compiled into the emulator: which functions reach
  the patch, which basic blocks run and which files are read before and after the patched
  function is entered. Its static variables are one record. The log is a list of lines, without
  the time stamps; the resolution of addresses to symbols, \<^verbatim>\<open>stat\<close>, guest strings and
  \<^verbatim>\<open>strtoull\<close> are parameters. \<open>None\<close> is undefined behaviour or the end of the process.
\<close>

section \<open>State\<close>

record frame =
  f_entry :: u64
  return_addr :: u64
  has_entry :: bool
  saw_patch_hit :: bool

text \<open>Groups are allocated and never freed, so a pointer to a group is its number.\<close>

record file_group =
  group_id :: u64
  group_offset :: int
  group_refs :: int

record file_fd =
  fd_num :: int
  fd_seekable :: bool
  fd_group :: nat

datatype log_line =
    L_asan string | L_entry u64 | L_patch_info bool u64 | L_patch_func_entry bool u64
  | L_running string u64
  | L_open string int u64 bool bool
  | L_dup int int u64 int bool bool
  | L_fcntl_dup int int int u64 int bool bool
  | L_close int u64 int int bool
  | L_group_close u64 bool
  | L_lseek int u64 int int int bool bool bool
  | L_read int u64 int bool int
  | L_exit_raw string | L_qemu_exit string string | L_exit string
  | L_crash int string | L_stacktrace | L_stack nat u64 string | L_fault nat u64 string
  | L_patch_cov u64 bool u64 | L_patch_func u64 u64 u64
  | L_file_summary u64 bool u64 u64 u64 | L_fd int int bool
  | L_bb_count nat | L_bb nat u64 u64

record tracer =
  trace_enabled :: bool
  trace_basic_blocks :: bool
  printed_final :: bool
  pending_patch_hit :: bool
  patch_covered :: bool
  patch_func_entry_covered :: bool
  patch_func_entry_hit :: bool
  qasan_requested :: bool
  input_path :: "string option"
  binary_path :: string
  asan_mode :: string
  patch_loc :: u64
  patch_func_entry :: u64
  patch_hit_loc :: u64
  target_start :: u64
  target_end :: u64
  patch_hits :: u64
  patch_unknown_hits :: u64
  open_hits :: u64
  reads_before_patch :: u64
  reads_after_patch :: u64
  next_group_id :: u64
  pending_patch_pc :: u64
  frames :: "frame list"
  frames_cap :: nat
  basic_blocks :: "(u64 \<times> u64) list"
  basic_blocks_cap :: nat
  func_hits :: "(u64 \<times> u64) list"
  func_hits_cap :: nat
  fds :: "file_fd list"
  groups :: "file_group list"
  trace_out :: "log_line list"

definition initial_tracer :: tracer where
  "initial_tracer = \<lparr>trace_enabled = False, trace_basic_blocks = False, printed_final = False,
     pending_patch_hit = False, patch_covered = False, patch_func_entry_covered = False,
     patch_func_entry_hit = False, qasan_requested = False, input_path = None, binary_path = [],
     asan_mode = ''host'', patch_loc = 0, patch_func_entry = 0, patch_hit_loc = 0,
     target_start = 0, target_end = 0, patch_hits = 0, patch_unknown_hits = 0, open_hits = 0,
     reads_before_patch = 0, reads_after_patch = 0, next_group_id = 1, pending_patch_pc = 0,
     frames = [], frames_cap = 0, basic_blocks = [], basic_blocks_cap = 0, func_hits = [],
     func_hits_cap = 0, fds = [], groups = [], trace_out = []\<rparr>"

definition trace_log :: "log_line \<Rightarrow> tracer \<Rightarrow> tracer" where
  "trace_log l t = (if trace_enabled t then t\<lparr>trace_out := trace_out t @ [l]\<rparr> else t)"

section \<open>Options\<close>

definition parse_addr :: "(string \<Rightarrow> u64) \<Rightarrow> string option \<Rightarrow> u64" where
  "parse_addr strtoull v = (case v of None \<Rightarrow> 0 | Some s \<Rightarrow> strtoull s)"

definition enable_trace :: "tracer \<Rightarrow> tracer" where
  "enable_trace t = t\<lparr>trace_enabled := True\<rparr>"

definition set_input :: "string option \<Rightarrow> tracer \<Rightarrow> tracer" where
  "set_input path t = (enable_trace t)\<lparr>input_path := Some (case path of None \<Rightarrow> [] | Some p \<Rightarrow> p)\<rparr>"

definition set_patch_loc :: "(string \<Rightarrow> u64) \<Rightarrow> string option \<Rightarrow> tracer \<Rightarrow> tracer" where
  "set_patch_loc strtoull v t = (enable_trace t)\<lparr>patch_loc := parse_addr strtoull v\<rparr>"

definition set_patch_func_entry :: "(string \<Rightarrow> u64) \<Rightarrow> string option \<Rightarrow> tracer \<Rightarrow> tracer" where
  "set_patch_func_entry strtoull v t = (enable_trace t)\<lparr>patch_func_entry := parse_addr strtoull v\<rparr>"

definition set_asan :: "string option \<Rightarrow> tracer \<Rightarrow> tracer option" where
  "set_asan mode t = (let t = enable_trace t in
     case mode of None \<Rightarrow> None
     | Some m \<Rightarrow> if m = ''host'' \<or> m = ''guest'' \<or> m = ''none''
         then Some (t\<lparr>asan_mode := m, qasan_requested := (m = ''host'' \<or> m = ''guest'')\<rparr>)
         else None)"

definition ignore_arg :: "string option \<Rightarrow> tracer \<Rightarrow> tracer" where
  "ignore_arg v t = enable_trace t"

definition enable_basic_blocks :: "tracer \<Rightarrow> tracer" where
  "enable_basic_blocks t = (enable_trace t)\<lparr>trace_basic_blocks := True\<rparr>"

definition traces_basic_blocks :: "tracer \<Rightarrow> bool" where
  "traces_basic_blocks t \<longleftrightarrow> trace_enabled t \<and> trace_basic_blocks t"

definition should_hook_pc :: "u64 \<Rightarrow> tracer \<Rightarrow> bool" where
  "should_hook_pc pc t \<longleftrightarrow> trace_enabled t \<and>
     (patch_hit_loc t \<noteq> 0 \<and> pc = patch_hit_loc t \<or>
      patch_func_entry t \<noteq> 0 \<and> pc = patch_func_entry t)"

definition should_drop_separator :: "int \<Rightarrow> string option \<Rightarrow> tracer \<Rightarrow> bool" where
  "should_drop_separator target_index arg t \<longleftrightarrow>
     trace_enabled t \<and> target_index = 1 \<and> arg = Some ''--''"

definition rewrite_arg :: "string option \<Rightarrow> tracer \<Rightarrow> string" where
  "rewrite_arg arg t =
    (if trace_enabled t \<and> input_path t \<noteq> None \<and> arg = Some ''@@'' then the (input_path t)
     else case arg of None \<Rightarrow> [] | Some a \<Rightarrow> a)"

definition suppress_write_fd :: "int \<Rightarrow> tracer \<Rightarrow> bool" where
  "suppress_write_fd fd t \<longleftrightarrow> trace_enabled t \<and> (fd = 1 \<or> fd = 2)"

section \<open>Frames and hits\<close>

definition ensure_frames :: "nat \<Rightarrow> tracer \<Rightarrow> tracer" where
  "ensure_frames needed t = (if needed \<le> frames_cap t then t
     else t\<lparr>frames_cap := max needed (if frames_cap t \<noteq> 0 then frames_cap t * 2 else 64)\<rparr>)"

definition push_frame :: "u64 \<Rightarrow> bool \<Rightarrow> u64 \<Rightarrow> tracer \<Rightarrow> tracer" where
  "push_frame entry has ret t = (let t = ensure_frames (length (frames t) + 1) t in
     t\<lparr>frames := frames t @ [\<lparr>f_entry = entry, return_addr = ret, has_entry = has,
                              saw_patch_hit = False\<rparr>]\<rparr>)"

definition reset_runtime :: "u64 \<Rightarrow> tracer \<Rightarrow> tracer" where
  "reset_runtime root t =
    (push_frame root (root \<noteq> 0) 0 (t\<lparr>frames := []\<rparr>))\<lparr>patch_hits := 0, patch_unknown_hits := 0,
       patch_covered := False, patch_func_entry_covered := False, patch_func_entry_hit := False,
       func_hits := [], basic_blocks := []\<rparr>"

text \<open>
  \<^verbatim>\<open>get_func_hit\<close> and \<^verbatim>\<open>get_addr_hit\<close> followed by the increment their callers make: the
  counter of a key, added at the end when it is new, with the capacity of the array.
\<close>

fun bump :: "u64 \<Rightarrow> (u64 \<times> u64) list \<Rightarrow> (u64 \<times> u64) list" where
  "bump k [] = [(k, 1)]"
| "bump k ((a, n) # xs) = (if a = k then (a, n + 1) # xs else (a, n) # bump k xs)"

definition grown :: "nat \<Rightarrow> u64 \<Rightarrow> (u64 \<times> u64) list \<Rightarrow> nat \<Rightarrow> nat" where
  "grown first k xs cap =
    (if k \<notin> fst ` set xs \<and> length xs = cap then (if cap \<noteq> 0 then cap * 2 else first) else cap)"

definition bump_func_hit :: "u64 \<Rightarrow> tracer \<Rightarrow> tracer" where
  "bump_func_hit entry t = t\<lparr>func_hits := bump entry (func_hits t),
     func_hits_cap := grown 16 entry (func_hits t) (func_hits_cap t)\<rparr>"

definition bump_addr_hit :: "u64 \<Rightarrow> tracer \<Rightarrow> tracer" where
  "bump_addr_hit addr t = t\<lparr>basic_blocks := bump addr (basic_blocks t),
     basic_blocks_cap := grown 256 addr (basic_blocks t) (basic_blocks_cap t)\<rparr>"

definition after_load :: "u64 \<Rightarrow> u64 \<Rightarrow> u64 \<Rightarrow> string option \<Rightarrow> tracer \<Rightarrow> tracer" where
  "after_load entry start_code end_code binary t = (if \<not> trace_enabled t then t else
     let t = t\<lparr>target_start := start_code, target_end := end_code,
               binary_path := (case binary of None \<Rightarrow> [] | Some b \<Rightarrow> b),
               patch_hit_loc := (if patch_loc t \<noteq> 0 then patch_loc t else patch_func_entry t)\<rparr>;
         t = trace_log (L_asan (asan_mode t)) t;
         t = trace_log (L_entry entry) t;
         t = trace_log (L_patch_info (patch_hit_loc t \<noteq> 0) (patch_hit_loc t)) t;
         t = trace_log (L_patch_func_entry (patch_func_entry t \<noteq> 0) (patch_func_entry t)) t
     in trace_log (L_running (binary_path t) entry) t)"

definition trace_start :: "u64 \<Rightarrow> tracer \<Rightarrow> tracer" where
  "trace_start pc t = (if \<not> trace_enabled t then t else reset_runtime pc t)"

text \<open>The frame with an entry that is closest to the top, by its position.\<close>

fun entry_frame :: "frame list \<Rightarrow> nat \<Rightarrow> nat option" where
  "entry_frame fs 0 = None"
| "entry_frame fs (Suc i) = (if has_entry (fs ! i) then Some i else entry_frame fs i)"

definition record_patch_hit :: "u64 \<Rightarrow> tracer \<Rightarrow> tracer" where
  "record_patch_hit pc t = (if patch_hit_loc t = 0 \<or> pc \<noteq> patch_hit_loc t then t else
     let t = t\<lparr>patch_covered := True, patch_hits := patch_hits t + 1\<rparr> in
     case entry_frame (frames t) (length (frames t)) of
       None \<Rightarrow> t\<lparr>patch_unknown_hits := patch_unknown_hits t + 1\<rparr>
     | Some i \<Rightarrow> let f = frames t ! i in
         if saw_patch_hit f then t
         else (bump_func_hit (f_entry f) t)\<lparr>frames := (frames t)[i := f\<lparr>saw_patch_hit := True\<rparr>]\<rparr>)"

definition flush_pending_patch :: "tracer \<Rightarrow> tracer" where
  "flush_pending_patch t = (if \<not> pending_patch_hit t then t
     else (record_patch_hit (pending_patch_pc t) t)\<lparr>pending_patch_hit := False\<rparr>)"

definition record_bb :: "u64 \<Rightarrow> tracer \<Rightarrow> tracer" where
  "record_bb pc t = (if \<not> trace_enabled t \<or> \<not> trace_basic_blocks t then t
     else bump_addr_hit pc (flush_pending_patch t))"

definition insn_hit :: "u64 \<Rightarrow> tracer \<Rightarrow> tracer" where
  "insn_hit pc t = (if \<not> trace_enabled t then t else
     let t = (if patch_hit_loc t \<noteq> 0 \<and> pc = patch_hit_loc t
              then t\<lparr>pending_patch_hit := True, pending_patch_pc := pc\<rparr> else t) in
     if patch_func_entry t \<noteq> 0 \<and> pc = patch_func_entry t
     then t\<lparr>patch_func_entry_covered := True, patch_func_entry_hit := True\<rparr> else t)"

definition trace_call :: "u64 \<Rightarrow> u64 \<Rightarrow> u64 \<Rightarrow> tracer \<Rightarrow> tracer" where
  "trace_call pc ret entry t = (if \<not> trace_enabled t then t else
     let t = (if pending_patch_hit t \<and> pending_patch_pc t \<noteq> pc then flush_pending_patch t else t);
         t = push_frame entry (entry \<noteq> 0) ret t
     in if pending_patch_hit t \<and> pending_patch_pc t = pc then flush_pending_patch t else t)"

text \<open>The loop of \<^verbatim>\<open>binradar_trace_ret\<close>, on the frames above the root, top first.\<close>

fun pop_frames :: "u64 \<Rightarrow> frame list \<Rightarrow> frame list" where
  "pop_frames ret [] = []"
| "pop_frames ret (f # fs) = (if return_addr f = ret then fs else pop_frames ret fs)"

definition trace_ret :: "u64 \<Rightarrow> u64 \<Rightarrow> tracer \<Rightarrow> tracer" where
  "trace_ret pc ret t = (if \<not> trace_enabled t then t else
     let t = flush_pending_patch t in
     t\<lparr>frames := take 1 (frames t) @ rev (pop_frames ret (rev (drop 1 (frames t))))\<rparr>)"

end
