(* ===== verification/Tracer_Files.thy ===== *)
theory Tracer_Files
  imports Tracer
begin

text \<open>
  The file tracing of \<^verbatim>\<open>src/utils/binradar-trace.c\<close>: descriptors and the open file
  descriptions they share (groups), driven by the results of system calls, and the reports at
  the end of the traced process.
\<close>

section \<open>Descriptors and groups\<close>

definition find_fd :: "int \<Rightarrow> tracer \<Rightarrow> file_fd option" where
  "find_fd fd t = List.find (\<lambda>i. fd_num i = fd) (fds t)"

definition add_refs :: "nat \<Rightarrow> int \<Rightarrow> tracer \<Rightarrow> tracer" where
  "add_refs g d t = t\<lparr>groups := (groups t)[g := (groups t ! g)\<lparr>group_refs := group_refs (groups t ! g) + d\<rparr>]\<rparr>"

definition set_offset :: "nat \<Rightarrow> int \<Rightarrow> tracer \<Rightarrow> tracer" where
  "set_offset g n t = t\<lparr>groups := (groups t)[g := (groups t ! g)\<lparr>group_offset := n\<rparr>]\<rparr>"

fun unlink_fd :: "int \<Rightarrow> file_fd list \<Rightarrow> file_fd list" where
  "unlink_fd fd [] = []"
| "unlink_fd fd (i # is) = (if fd_num i = fd then is else i # unlink_fd fd is)"

definition remove_fd :: "int \<Rightarrow> tracer \<Rightarrow> tracer" where
  "remove_fd fd t = (case find_fd fd t of None \<Rightarrow> t
     | Some i \<Rightarrow> add_refs (fd_group i) (- 1) (t\<lparr>fds := unlink_fd fd (fds t)\<rparr>))"

definition add_fd :: "int \<Rightarrow> bool \<Rightarrow> nat \<Rightarrow> tracer \<Rightarrow> tracer" where
  "add_fd fd seek g t = t\<lparr>fds := \<lparr>fd_num = fd, fd_seekable = seek, fd_group = g\<rparr> # fds t\<rparr>"

text \<open>A new group, with the one reference its only caller gives it.\<close>

definition new_group :: "tracer \<Rightarrow> nat \<times> tracer" where
  "new_group t = (length (groups t),
     t\<lparr>groups := groups t @ [\<lparr>group_id = next_group_id t, group_offset = 0, group_refs = 0\<rparr>],
       next_group_id := next_group_id t + 1\<rparr>)"

text \<open>
  \<open>seekable\<close> is \<^verbatim>\<open>classify_seekable_path\<close>: whether \<^verbatim>\<open>stat\<close> finds a regular file, a directory
  or a block device at the path.
\<close>

definition note_open :: "(string \<Rightarrow> bool) \<Rightarrow> int \<Rightarrow> string \<Rightarrow> tracer \<Rightarrow> tracer" where
  "note_open seekable fd path t =
    (if \<not> trace_enabled t \<or> patch_func_entry t = 0 \<or> fd < 0 then t else
     let t = remove_fd fd t; t = t\<lparr>open_hits := open_hits t + 1\<rparr> in
     if \<not> seekable path
     then trace_log (L_open path fd 0 False (patch_func_entry_hit t)) t
     else let (g, t) = new_group t; t = add_refs g 1 t; t = add_fd fd True g t
       in trace_log (L_open path fd (group_id (groups t ! g)) True (patch_func_entry_hit t)) t)"

text \<open>
  An entry is used through its address. The entries of the list are the allocated ones, with
  different numbers, and reading an entry that has been freed is undefined: \<open>None\<close>.
\<close>

definition read_entry :: "file_fd \<Rightarrow> tracer \<Rightarrow> file_fd option" where
  "read_entry i t = (if i \<in> set (fds t) then Some i else None)"

definition note_alias :: "int \<Rightarrow> int \<Rightarrow> bool \<Rightarrow> int \<Rightarrow> tracer \<Rightarrow> tracer option" where
  "note_alias old_fd new_fd is_fcntl cmd t =
    (if \<not> trace_enabled t \<or> patch_func_entry t = 0 \<or> new_fd < 0 then Some t
     else case find_fd old_fd t of None \<Rightarrow> Some t
     | Some old_info \<Rightarrow> let t = remove_fd new_fd t in
       (case read_entry old_info t of None \<Rightarrow> None
        | Some old \<Rightarrow> let g = fd_group old; t = add_refs g 1 t;
             t = add_fd new_fd (fd_seekable old) g t; grp = groups t ! g in
         Some (trace_log (if is_fcntl
           then L_fcntl_dup old_fd cmd new_fd (group_id grp) (group_offset grp) (fd_seekable old)
                  (patch_func_entry_hit t)
           else L_dup old_fd new_fd (group_id grp) (group_offset grp) (fd_seekable old)
                  (patch_func_entry_hit t)) t)))"

definition note_close :: "int \<Rightarrow> int \<Rightarrow> tracer \<Rightarrow> tracer" where
  "note_close fd result t = (if \<not> trace_enabled t \<or> patch_func_entry t = 0 then t
     else case find_fd fd t of None \<Rightarrow> t
     | Some i \<Rightarrow> let g = fd_group i; grp = groups t ! g;
           t = trace_log (L_close fd (group_id grp) (group_offset grp) result (patch_func_entry_hit t)) t;
           t = remove_fd fd t in
         if group_refs (groups t ! g) \<le> 0
         then trace_log (L_group_close (group_id grp) (patch_func_entry_hit t)) t else t)"

definition note_lseek :: "int \<Rightarrow> int \<Rightarrow> int \<Rightarrow> int \<Rightarrow> tracer \<Rightarrow> tracer" where
  "note_lseek fd offset whence result t = (if \<not> trace_enabled t \<or> patch_func_entry t = 0 then t
     else case find_fd fd t of None \<Rightarrow> t
     | Some i \<Rightarrow> let g = fd_group i; gid = group_id (groups t ! g);
           t = (if result \<ge> 0 then set_offset g result t else t) in
         trace_log (L_lseek fd gid offset whence result (fd_seekable i) (result \<ge> 0)
           (patch_func_entry_hit t)) t)"

text \<open>The addition to the offset is one of \<^verbatim>\<open>int64_t\<close>; overflow is undefined.\<close>

definition note_read :: "int \<Rightarrow> int \<Rightarrow> tracer \<Rightarrow> tracer option" where
  "note_read fd bytes t = (if \<not> trace_enabled t \<or> patch_func_entry t = 0 \<or> bytes \<le> 0 then Some t
     else case find_fd fd t of None \<Rightarrow> Some t
     | Some i \<Rightarrow> let g = fd_group i; old_offset = group_offset (groups t ! g) in
         if old_offset + bytes \<ge> 2 ^ 63 then None else
         let t = set_offset g (old_offset + bytes) t in
         Some (if patch_func_entry_hit t
           then trace_log (L_read fd (group_id (groups t ! g)) old_offset (fd_seekable i) bytes)
                  (t\<lparr>reads_after_patch := reads_after_patch t + 1\<rparr>)
           else t\<lparr>reads_before_patch := reads_before_patch t + 1\<rparr>))"

section \<open>System calls\<close>

datatype syscall = Sys_open | Sys_openat | Sys_read | Sys_lseek | Sys_close | Sys_dup | Sys_dup2
  | Sys_dup3 | Sys_fcntl | Sys_other

text \<open>The conversion of a register to \<^verbatim>\<open>int\<close>, and the two commands of \<^verbatim>\<open>fcntl\<close> that duplicate.\<close>

definition to_int :: "int \<Rightarrow> int" where
  "to_int v = sint (word_of_int v :: 32 word)"

definition is_dupfd :: "int \<Rightarrow> bool" where
  "is_dupfd cmd \<longleftrightarrow> cmd = 0 \<or> cmd = 1030"

text \<open>The parameter \<open>guest\<close> reads a string of the guest; \<open>None\<close> when it cannot.\<close>

definition post_syscall :: "(string \<Rightarrow> bool) \<Rightarrow> (int \<Rightarrow> string option) \<Rightarrow> syscall \<Rightarrow> int \<Rightarrow> int \<Rightarrow> int \<Rightarrow>
    int \<Rightarrow> tracer \<Rightarrow> tracer option" where
  "post_syscall seekable guest num ret arg1 arg2 arg3 t =
    (if \<not> trace_enabled t \<or> patch_func_entry t = 0 \<or> ret < 0 then Some t
     else case num of
       Sys_open \<Rightarrow> Some (case guest arg1 of None \<Rightarrow> t | Some path \<Rightarrow> note_open seekable (to_int ret) path t)
     | Sys_openat \<Rightarrow> Some (case guest arg2 of None \<Rightarrow> t | Some path \<Rightarrow> note_open seekable (to_int ret) path t)
     | Sys_read \<Rightarrow> note_read (to_int arg1) ret t
     | Sys_lseek \<Rightarrow> Some (note_lseek (to_int arg1) arg2 arg3 ret t)
     | Sys_close \<Rightarrow> Some (note_close (to_int arg1) ret t)
     | Sys_dup \<Rightarrow> note_alias (to_int arg1) (to_int ret) False 0 t
     | Sys_dup2 \<Rightarrow> if ret = arg2 then note_alias (to_int arg1) (to_int arg2) False 0 t else Some t
     | Sys_dup3 \<Rightarrow> if ret = arg2 then note_alias (to_int arg1) (to_int arg2) False 0 t else Some t
     | Sys_fcntl \<Rightarrow> if is_dupfd arg2 then note_alias (to_int arg1) (to_int ret) True (to_int arg2) t else Some t
     | Sys_other \<Rightarrow> Some t)"

section \<open>Reports\<close>

definition in_target :: "u64 \<Rightarrow> tracer \<Rightarrow> bool" where
  "in_target addr t \<longleftrightarrow> target_start t \<noteq> 0 \<and> target_end t \<noteq> 0 \<and> addr \<ge> target_start t \<and> addr < target_end t"

text \<open>
  The loop of \<^verbatim>\<open>print_stacktrace\<close> over the frames, top first, with the index of the next line and
  the first frame inside the target.
\<close>

fun stack_lines :: "(u64 \<Rightarrow> string) \<Rightarrow> frame list \<Rightarrow> nat \<Rightarrow> (nat \<times> u64) option \<Rightarrow> tracer \<Rightarrow>
    (nat \<times> u64) option \<times> tracer" where
  "stack_lines resolve [] idx fault t = (fault, t)"
| "stack_lines resolve (f # fs) idx fault t =
    (let addr = (if return_addr f \<noteq> 0 then return_addr f else f_entry f) in
     if addr = 0 then stack_lines resolve fs idx fault t
     else stack_lines resolve fs (Suc idx)
       (if fault = None \<and> in_target addr t then Some (idx, addr) else fault)
       (trace_log (L_stack idx addr (resolve addr)) t))"

definition print_stacktrace :: "(u64 \<Rightarrow> string) \<Rightarrow> u64 \<Rightarrow> u64 \<Rightarrow> tracer \<Rightarrow> tracer" where
  "print_stacktrace resolve pc fault_addr t =
    (let t = trace_log L_stacktrace t; t = trace_log (L_stack 0 pc (resolve pc)) t;
         (fault, t) = stack_lines resolve (rev (frames t)) 1 None t;
         fault = (if fault = None \<and> fault_addr \<noteq> 0 \<and> in_target fault_addr t
                  then Some (0, fault_addr) else fault);
         fault = (if fault = None \<and> in_target pc t then Some (0, pc) else fault)
     in case fault of None \<Rightarrow> t | Some (i, a) \<Rightarrow> trace_log (L_fault i a (resolve a)) t)"

definition signal_name :: "int \<Rightarrow> string" where
  "signal_name sig = (if sig = 6 then ''SIGABRT'' else if sig = 7 then ''SIGBUS''
     else if sig = 8 then ''SIGFPE'' else if sig = 4 then ''SIGILL''
     else if sig = 11 then ''SIGSEGV'' else if sig = 5 then ''SIGTRAP'' else ''UNKNOWN'')"

text \<open>\<^verbatim>\<open>qsort\<close> by the first component; the keys of the tables are distinct.\<close>

definition print_patch_summary :: "tracer \<Rightarrow> tracer" where
  "print_patch_summary t = (if patch_hit_loc t = 0 then t else
     let t = trace_log (L_patch_cov (patch_hit_loc t) (patch_covered t) (patch_hits t)) t in
     if patch_hits t = 0 then t
     else if func_hits t = [] then trace_log (L_patch_func (patch_hit_loc t) 0 (patch_unknown_hits t)) t
     else let t = t\<lparr>func_hits := sort_key fst (func_hits t)\<rparr> in
       fold (\<lambda>(e, n). trace_log (L_patch_func (patch_hit_loc t) e n)) (func_hits t) t)"

definition print_file_summary :: "tracer \<Rightarrow> tracer" where
  "print_file_summary t = (if patch_func_entry t = 0 then t else
     let t = trace_log (L_file_summary (patch_func_entry t) (patch_func_entry_covered t) (open_hits t)
               (reads_before_patch t) (reads_after_patch t)) t in
     fold (\<lambda>i. trace_log (L_fd (fd_num i) (group_offset (groups t ! fd_group i)) (fd_seekable i)))
       (fds t) t)"

definition print_bb_summary :: "tracer \<Rightarrow> tracer" where
  "print_bb_summary t = (if \<not> trace_basic_blocks t then t else
     let t = t\<lparr>basic_blocks := sort_key fst (basic_blocks t)\<rparr>;
         t = trace_log (L_bb_count (length (basic_blocks t))) t in
     fold (\<lambda>(i, a, n). trace_log (L_bb i a n)) (enumerate 0 (basic_blocks t)) t)"

definition print_final_common :: "tracer \<Rightarrow> tracer" where
  "print_final_common t =
    print_bb_summary (print_file_summary (print_patch_summary (flush_pending_patch t)))"

definition print_crash_common :: "(u64 \<Rightarrow> string) \<Rightarrow> u64 \<Rightarrow> u64 \<Rightarrow> int \<Rightarrow> tracer \<Rightarrow> tracer" where
  "print_crash_common resolve pc fault_addr sig t =
    (let t = trace_log (L_exit_raw ''Ok(Crash)'') t;
         t = trace_log (L_qemu_exit ''crash'' ''target crash'') t;
         t = trace_log (L_exit ''crash'') t;
         t = trace_log (L_crash sig (signal_name sig)) t
     in print_final_common (print_stacktrace resolve pc fault_addr t))"

text \<open>Signals are given by their number on the host.\<close>

definition report_signal :: "(u64 \<Rightarrow> string) \<Rightarrow> u64 \<Rightarrow> int \<Rightarrow> tracer \<Rightarrow> tracer" where
  "report_signal resolve pc sig t = (if \<not> trace_enabled t \<or> printed_final t then t
     else print_crash_common resolve pc 0 sig (t\<lparr>printed_final := True\<rparr>))"

definition report_qasan_crash :: "(u64 \<Rightarrow> string) \<Rightarrow> u64 \<Rightarrow> u64 \<Rightarrow> int \<Rightarrow> tracer \<Rightarrow> tracer" where
  "report_qasan_crash resolve pc fault_addr sig t = (if \<not> trace_enabled t \<or> printed_final t then t
     else print_crash_common resolve pc fault_addr sig (t\<lparr>printed_final := True\<rparr>))"

definition report_exit :: "int \<Rightarrow> tracer \<Rightarrow> tracer" where
  "report_exit code t = (if \<not> trace_enabled t \<or> printed_final t then t else
     let t = t\<lparr>printed_final := True\<rparr>;
         t = trace_log (L_exit_raw ''Ok(End(GuestShutdown))'') t;
         t = trace_log (L_qemu_exit ''end'' ''guest requested shutdown'') t;
         t = trace_log (L_exit ''ok'') t
     in print_final_common t)"

end
