(* ===== verification/Tracer_Spec.thy ===== *)
theory Tracer_Spec
  imports Tracer_Files
begin

text \<open>
  The execution events of the tracer: instruction, block, call and return hooks. Hits of the
  patch, the shadow stack, the summary of basic blocks and the final report.
\<close>

section \<open>Runs\<close>

datatype exec_event = Insn u64 | Block u64 | Call u64 u64 u64 | Ret u64 u64

primrec exec_step :: "exec_event \<Rightarrow> tracer \<Rightarrow> tracer" where
  "exec_step (Insn pc) t = insn_hit pc t"
| "exec_step (Block pc) t = record_bb pc t"
| "exec_step (Call pc ret entry) t = trace_call pc ret entry t"
| "exec_step (Ret pc ret) t = trace_ret pc ret t"

abbreviation exec :: "exec_event list \<Rightarrow> tracer \<Rightarrow> tracer" where
  "exec \<equiv> fold exec_step"

section \<open>What the handlers leave unchanged\<close>

lemma flush_frame [simp]:
  "trace_enabled (flush_pending_patch t) = trace_enabled t"
  "trace_basic_blocks (flush_pending_patch t) = trace_basic_blocks t"
  "patch_hit_loc (flush_pending_patch t) = patch_hit_loc t"
  "basic_blocks (flush_pending_patch t) = basic_blocks t"
  "printed_final (flush_pending_patch t) = printed_final t"
  "trace_out (flush_pending_patch t) = trace_out t"
  "pending_patch_hit (flush_pending_patch t) = False"
  "length (frames (flush_pending_patch t)) = length (frames t)"
  by (simp_all add: flush_pending_patch_def record_patch_hit_def bump_func_hit_def Let_def
      split: option.split)

lemma push_frame_frame [simp]:
  "trace_enabled (push_frame e h r t) = trace_enabled t"
  "trace_basic_blocks (push_frame e h r t) = trace_basic_blocks t"
  "patch_hit_loc (push_frame e h r t) = patch_hit_loc t"
  "basic_blocks (push_frame e h r t) = basic_blocks t"
  "printed_final (push_frame e h r t) = printed_final t"
  "trace_out (push_frame e h r t) = trace_out t"
  "pending_patch_hit (push_frame e h r t) = pending_patch_hit t"
  "pending_patch_pc (push_frame e h r t) = pending_patch_pc t"
  "patch_hits (push_frame e h r t) = patch_hits t"
  "frames (push_frame e h r t) = frames t @
     [\<lparr>f_entry = e, return_addr = r, has_entry = h, saw_patch_hit = False\<rparr>]"
  by (simp_all add: push_frame_def ensure_frames_def Let_def)

lemma insn_hit_frame [simp]:
  "trace_enabled (insn_hit pc t) = trace_enabled t"
  "trace_basic_blocks (insn_hit pc t) = trace_basic_blocks t"
  "patch_hit_loc (insn_hit pc t) = patch_hit_loc t"
  "basic_blocks (insn_hit pc t) = basic_blocks t"
  "printed_final (insn_hit pc t) = printed_final t"
  "trace_out (insn_hit pc t) = trace_out t"
  "patch_hits (insn_hit pc t) = patch_hits t"
  "frames (insn_hit pc t) = frames t"
  by (simp_all add: insn_hit_def Let_def)

lemma trace_call_frame [simp]:
  "trace_enabled (trace_call pc r e t) = trace_enabled t"
  "trace_basic_blocks (trace_call pc r e t) = trace_basic_blocks t"
  "patch_hit_loc (trace_call pc r e t) = patch_hit_loc t"
  "basic_blocks (trace_call pc r e t) = basic_blocks t"
  "printed_final (trace_call pc r e t) = printed_final t"
  "trace_out (trace_call pc r e t) = trace_out t"
  by (simp_all add: trace_call_def Let_def)

lemma trace_ret_frame [simp]:
  "trace_enabled (trace_ret pc r t) = trace_enabled t"
  "trace_basic_blocks (trace_ret pc r t) = trace_basic_blocks t"
  "patch_hit_loc (trace_ret pc r t) = patch_hit_loc t"
  "basic_blocks (trace_ret pc r t) = basic_blocks t"
  "printed_final (trace_ret pc r t) = printed_final t"
  "trace_out (trace_ret pc r t) = trace_out t"
  by (simp_all add: trace_ret_def Let_def)

lemma record_bb_frame [simp]:
  "trace_enabled (record_bb pc t) = trace_enabled t"
  "trace_basic_blocks (record_bb pc t) = trace_basic_blocks t"
  "patch_hit_loc (record_bb pc t) = patch_hit_loc t"
  "printed_final (record_bb pc t) = printed_final t"
  "trace_out (record_bb pc t) = trace_out t"
  by (simp_all add: record_bb_def bump_addr_hit_def)

lemma exec_step_frame [simp]:
  "trace_enabled (exec_step e t) = trace_enabled t"
  "trace_basic_blocks (exec_step e t) = trace_basic_blocks t"
  "patch_hit_loc (exec_step e t) = patch_hit_loc t"
  "printed_final (exec_step e t) = printed_final t"
  "trace_out (exec_step e t) = trace_out t"
  by (cases e; simp)+

lemma exec_frame [simp]:
  "trace_enabled (exec es t) = trace_enabled t"
  "trace_basic_blocks (exec es t) = trace_basic_blocks t"
  "patch_hit_loc (exec es t) = patch_hit_loc t"
  "printed_final (exec es t) = printed_final t"
  "trace_out (exec es t) = trace_out t"
  by (induction es arbitrary: t) simp_all

section \<open>Hits of the patch\<close>

text \<open>A hit that waits to be recorded.\<close>

definition waiting :: "tracer \<Rightarrow> bool" where
  "waiting t \<longleftrightarrow> pending_patch_hit t \<and> patch_hit_loc t \<noteq> 0 \<and> pending_patch_pc t = patch_hit_loc t"

lemma patch_hits_flush [simp]:
  "patch_hits (flush_pending_patch t) = patch_hits t + (if waiting t then 1 else 0)"
  by (simp add: flush_pending_patch_def record_patch_hit_def bump_func_hit_def Let_def waiting_def
      split: option.split)

lemma waiting_flush [simp]: "\<not> waiting (flush_pending_patch t)"
  by (simp add: waiting_def)

lemma waiting_insn:
  "trace_enabled t \<Longrightarrow> patch_hit_loc t \<noteq> 0 \<Longrightarrow>
     waiting (insn_hit pc t) \<longleftrightarrow> pc = patch_hit_loc t \<or> waiting t"
  by (auto simp: waiting_def insn_hit_def Let_def)

lemma waiting_insns:
  "trace_enabled t \<Longrightarrow> patch_hit_loc t \<noteq> 0 \<Longrightarrow>
     waiting (fold insn_hit pcs t) \<longleftrightarrow> patch_hit_loc t \<in> set pcs \<or> waiting t"
  by (induction pcs arbitrary: t) (auto simp: waiting_insn)

lemma insns_frame [simp]:
  "trace_enabled (fold insn_hit pcs t) = trace_enabled t"
  "trace_basic_blocks (fold insn_hit pcs t) = trace_basic_blocks t"
  "patch_hit_loc (fold insn_hit pcs t) = patch_hit_loc t"
  "patch_hits (fold insn_hit pcs t) = patch_hits t"
  by (induction pcs arbitrary: t) simp_all

text \<open>Recorded hits and the one that waits.\<close>

definition all_hits :: "tracer \<Rightarrow> u64" where
  "all_hits t = patch_hits t + (if waiting t then 1 else 0)"

lemma all_hits_flush: "patch_hits (flush_pending_patch t) = all_hits t"
  by (simp add: all_hits_def)

lemma waiting_push [simp]: "waiting (push_frame e h r t) = waiting t"
  by (simp add: waiting_def)

lemma trace_call_hits:
  "trace_enabled t \<Longrightarrow> all_hits (trace_call pc r e t) = all_hits t \<and> \<not> waiting (trace_call pc r e t)"
  by (auto simp: trace_call_def Let_def all_hits_def) (auto simp: waiting_def)

lemma trace_ret_hits:
  "trace_enabled t \<Longrightarrow> all_hits (trace_ret pc r t) = all_hits t \<and> \<not> waiting (trace_ret pc r t)"
  by (auto simp: trace_ret_def Let_def all_hits_def waiting_def)

lemma record_bb_hits:
  "traces_basic_blocks t \<Longrightarrow> all_hits (record_bb pc t) = all_hits t \<and> \<not> waiting (record_bb pc t)"
  by (auto simp: traces_basic_blocks_def record_bb_def bump_addr_hit_def all_hits_def waiting_def)

datatype block_end = Falls | Calls u64 u64 u64 | Returns u64 u64

primrec end_events :: "block_end \<Rightarrow> exec_event list" where
  "end_events Falls = []"
| "end_events (Calls pc r e) = [Call pc r e]"
| "end_events (Returns pc r) = [Ret pc r]"

text \<open>The events of an executed block: its entry, its instructions and how it ends.\<close>

definition block_events :: "u64 \<times> u64 list \<times> block_end \<Rightarrow> exec_event list" where
  "block_events b = (case b of (pc, is, e) \<Rightarrow> Block pc # map Insn is @ end_events e)"

lemma exec_insns: "exec (map Insn pcs) t = fold insn_hit pcs t"
  by (induction pcs arbitrary: t) simp_all

lemma exec_end_hits: "trace_enabled t \<Longrightarrow> all_hits (exec (end_events e) t) = all_hits t"
  by (cases e) (simp_all add: trace_call_hits trace_ret_hits)

lemma block_hits:
  assumes "traces_basic_blocks t" "patch_hit_loc t \<noteq> 0" "count_list is (patch_hit_loc t) \<le> 1"
  shows "all_hits (exec (block_events (pc, is, e)) t) =
    all_hits t + of_nat (count_list is (patch_hit_loc t))"
proof -
  let ?u = "record_bb pc t" and ?loc = "patch_hit_loc t"
  have en: "trace_enabled ?u" "trace_enabled t" using assms(1) by (simp_all add: traces_basic_blocks_def)
  note u = record_bb_hits [OF assms(1), of pc]
  have "count_list is ?loc = (if ?loc \<in> set is then 1 else 0)"
    using assms(3) count_list_0_iff [of "is" ?loc] by auto
  then have "all_hits (fold insn_hit is ?u) = all_hits t + of_nat (count_list is ?loc)"
    using u waiting_insns [of ?u "is"] en assms(2) by (auto simp: all_hits_def)
  then show ?thesis
    using en by (simp add: block_events_def exec_insns exec_end_hits)
qed

lemma blocks_hits:
  "traces_basic_blocks t \<Longrightarrow> patch_hit_loc t \<noteq> 0 \<Longrightarrow>
   list_all (\<lambda>(pc, is, e). count_list is (patch_hit_loc t) \<le> 1) bs \<Longrightarrow>
     all_hits (exec (concat (map block_events bs)) t) =
       all_hits t + of_nat (\<Sum>(pc, is, e) \<leftarrow> bs. count_list is (patch_hit_loc t))"
proof (induction bs arbitrary: t)
  case (Cons b bs)
  obtain pc "is" e where b: "b = (pc, is, e)" by (cases b)
  let ?u = "exec (block_events b) t"
  have "traces_basic_blocks ?u" "patch_hit_loc ?u = patch_hit_loc t"
    using Cons.prems(1) by (simp_all add: traces_basic_blocks_def)
  with Cons.IH [of ?u] Cons.prems block_hits [of t "is" pc e] show ?case
    by (simp add: b algebra_simps)
qed simp

section \<open>The shadow stack\<close>

text \<open>What a frame keeps while it is on the stack: all but the mark of a hit.\<close>

definition frame_key :: "frame \<Rightarrow> u64 \<times> u64 \<times> bool" where
  "frame_key f = (f_entry f, return_addr f, has_entry f)"

abbreviation keys :: "tracer \<Rightarrow> (u64 \<times> u64 \<times> bool) list" where
  "keys t \<equiv> map frame_key (frames t)"

lemma keys_mark: "map frame_key (fs[i := (fs ! i)\<lparr>saw_patch_hit := b\<rparr>]) = map frame_key fs"
  by (cases "i < length fs") (simp_all add: map_update frame_key_def list_update_same_conv list_update_beyond)

lemma keys_flush [simp]: "keys (flush_pending_patch t) = keys t"
  by (simp add: flush_pending_patch_def record_patch_hit_def bump_func_hit_def Let_def keys_mark
      split: option.split)

lemma keys_record_bb [simp]: "keys (record_bb pc t) = keys t"
  by (simp add: record_bb_def bump_addr_hit_def)

lemma keys_trace_call:
  "trace_enabled t \<Longrightarrow> keys (trace_call pc r e t) = keys t @ [(e, r, e \<noteq> 0)]"
  by (simp add: trace_call_def Let_def frame_key_def)

fun pop_keys :: "u64 \<Rightarrow> (u64 \<times> u64 \<times> bool) list \<Rightarrow> (u64 \<times> u64 \<times> bool) list" where
  "pop_keys ret [] = []"
| "pop_keys ret ((e, r, h) # ks) = (if r = ret then ks else pop_keys ret ks)"

lemma pop_frames_keys: "map frame_key (pop_frames ret fs) = pop_keys ret (map frame_key fs)"
  by (induction fs) (simp_all add: frame_key_def)

lemma keys_trace_ret:
  "trace_enabled t \<Longrightarrow> keys (trace_ret pc ret t) =
     take 1 (keys t) @ rev (pop_keys ret (rev (drop 1 (keys t))))"
  by (simp add: trace_ret_def Let_def pop_frames_keys flip: rev_map take_map drop_map)

inductive balanced :: "exec_event list \<Rightarrow> bool" where
  Done: "balanced []"
| Insn: "balanced es \<Longrightarrow> balanced (Insn pc # es)"
| Block: "balanced es \<Longrightarrow> balanced (Block pc # es)"
| Call: "balanced es \<Longrightarrow> balanced es' \<Longrightarrow> balanced (Call pc ret entry # es @ Ret pc' ret # es')"

lemma keys_balanced:
  "balanced es \<Longrightarrow> trace_enabled t \<Longrightarrow> frames t \<noteq> [] \<Longrightarrow> keys (exec es t) = keys t"
proof (induction es arbitrary: t rule: balanced.induct)
  case (Block es pc)
  with Block.IH [of "record_bb pc t"] show ?case
    by (metis exec_step.simps(2) fold_simps(2) keys_record_bb map_is_Nil_conv record_bb_frame(1))
next
  case (Call es es' pc ret entry pc')
  let ?u = "exec es (trace_call pc ret entry t)"
  let ?v = "trace_ret pc' ret ?u"
  have u: "keys ?u = keys t @ [(entry, ret, entry \<noteq> 0)]"
    using Call by (metis keys_trace_call map_is_Nil_conv snoc_eq_iff_butlast trace_call_frame(1))
  obtain k ks where k: "keys t = k # ks" using Call.prems(2) by (cases "frames t") auto
  have v: "keys ?v = keys t"
    using Call.prems(1) by (simp add: keys_trace_ret u k)
  then have "frames ?v \<noteq> []" using Call.prems(2) by (metis map_is_Nil_conv)
  with Call.IH(2) [of ?v] Call.prems(1) v show ?case by simp
qed simp_all

lemma pop_keys_all: "\<forall>(e, r, h) \<in> set ks. r \<noteq> ret \<Longrightarrow> pop_keys ret ks = []"
  by (induction ks) auto

lemma pop_keys_to:
  "\<forall>(e, r, h) \<in> set ks. r \<noteq> ret \<Longrightarrow> pop_keys ret (ks @ (e, ret, h) # ks') = ks'"
  by (induction ks) auto

text \<open>
  A return to the address of an outer frame, as after \<^verbatim>\<open>longjmp\<close>, unwinds to that frame; one to
  an address of no frame unwinds to the root, which is never removed.
\<close>

lemma trace_ret_unwinds:
  assumes "trace_enabled t" "\<forall>(e, r, h) \<in> set upper. r \<noteq> ret"
  shows "keys t = root # lower @ (e, ret, h) # upper \<Longrightarrow> keys (trace_ret pc ret t) = root # lower"
    "keys t = root # upper \<Longrightarrow> keys (trace_ret pc ret t) = [root]"
  using assms pop_keys_to [of "rev upper" ret e h "rev lower"] pop_keys_all [of "rev upper" ret]
  by (simp_all add: keys_trace_ret)

section \<open>Basic blocks\<close>

fun blocks_of :: "exec_event list \<Rightarrow> u64 list" where
  "blocks_of [] = []"
| "blocks_of (Block pc # es) = pc # blocks_of es"
| "blocks_of (_ # es) = blocks_of es"

lemma map_of_bump:
  "map_of (bump k xs) = (map_of xs)(k \<mapsto> (case map_of xs k of None \<Rightarrow> 1 | Some n \<Rightarrow> n + 1))"
  by (induction k xs rule: bump.induct) auto

lemma fst_bump: "fst ` set (bump k xs) = insert k (fst ` set xs)"
  by (induction k xs rule: bump.induct) auto

lemma distinct_bump: "distinct (map fst xs) \<Longrightarrow> distinct (map fst (bump k xs))"
  by (induction k xs rule: bump.induct) (auto simp: fst_bump)

lemma exec_basic_blocks:
  "traces_basic_blocks t \<Longrightarrow> basic_blocks (exec es t) = fold bump (blocks_of es) (basic_blocks t)"
proof (induction es arbitrary: t)
  case (Cons e es)
  have "traces_basic_blocks (exec_step e t)"
    using Cons.prems by (simp add: traces_basic_blocks_def)
  with Cons show ?case
    by (cases e) (simp_all add: record_bb_def bump_addr_hit_def traces_basic_blocks_def)
qed simp

lemma bumps:
  assumes "distinct (map fst xs)"
  shows "distinct (map fst (fold bump ks xs))"
    "fst ` set (fold bump ks xs) = fst ` set xs \<union> set ks"
    "map_of (fold bump ks xs) k = (if k \<in> set ks
       then Some ((case map_of xs k of None \<Rightarrow> 0 | Some n \<Rightarrow> n) + of_nat (count_list ks k)) else map_of xs k)"
  using assms
  by (induction ks arbitrary: xs)
    (auto simp: distinct_bump fst_bump map_of_bump count_notin algebra_simps split: option.splits)

lemma sort_by_key:
  assumes "distinct (map fst xs)"
  shows "sort_key fst xs = map (\<lambda>a. (a, the (map_of xs a))) (sorted_list_of_set (fst ` set xs))"
proof -
  let ?ys = "sort_key fst xs"
  have "distinct (map fst ?ys)"
    using assms by (simp add: distinct_map)
  then have "sorted_list_of_set (fst ` set xs) = map fst ?ys"
    using sorted_list_of_set.idem_if_sorted_distinct [of "map fst ?ys"] by simp
  moreover have "map (\<lambda>p. (fst p, the (map_of xs (fst p)))) ?ys = ?ys"
    using assms by (intro map_idI) (auto simp: map_of_eq_Some_iff)
  ultimately show ?thesis by (simp add: comp_def)
qed

lemma fold_trace_log:
  "trace_enabled t \<Longrightarrow> fold (\<lambda>x. trace_log (f x)) xs t = t\<lparr>trace_out := trace_out t @ map f xs\<rparr>"
  by (induction xs arbitrary: t) (simp_all add: trace_log_def)

lemma trace_start_blocks:
  "traces_basic_blocks t \<Longrightarrow> basic_blocks (trace_start pc t) = [] \<and> traces_basic_blocks (trace_start pc t)"
  by (simp add: trace_start_def reset_runtime_def traces_basic_blocks_def)

section \<open>Properties\<close>

text \<open>
  C17. With basic blocks traced, every execution of the patched address is counted: over a run of
  blocks that each contain the address at most once, the count of hits that the final report
  prints grows by the number of executions (modulo \<open>2 ^ 64\<close>).
\<close>

theorem patch_hits_counted_per_block:
  assumes "traces_basic_blocks t" "patch_hit_loc t \<noteq> 0" "\<not> waiting t"
    and "list_all (\<lambda>(pc, is, e). count_list is (patch_hit_loc t) \<le> 1) bs"
  shows "patch_hits (flush_pending_patch (exec (concat (map block_events bs)) t)) =
    patch_hits t + of_nat (\<Sum>(pc, is, e) \<leftarrow> bs. count_list is (patch_hit_loc t))"
  unfolding all_hits_flush using blocks_hits [OF assms(1, 2, 4)] assms(3) by (simp add: all_hits_def)

definition traced_blocks :: tracer where
  "traced_blocks = initial_tracer\<lparr>trace_enabled := True, trace_basic_blocks := True, patch_hit_loc := 16\<rparr>"

lemma traced_blocks_simps:
  "traces_basic_blocks traced_blocks" "patch_hit_loc traced_blocks = 16" "\<not> waiting traced_blocks"
  "patch_hits traced_blocks = 0" "trace_enabled traced_blocks"
  by (simp_all add: traced_blocks_def initial_tracer_def waiting_def traces_basic_blocks_def)

theorem patch_hits_counted_per_block_witness:
  "patch_hits (flush_pending_patch (exec (concat (map block_events
      [(16, [16, 20], Falls), (16, [16, 20], Calls 20 24 64), (64, [64], Returns 64 24)])) traced_blocks)) = 2"
  using patch_hits_counted_per_block [OF traced_blocks_simps(1) _ traced_blocks_simps(3), of
      "[(16, [16, 20], Falls), (16, [16, 20], Calls 20 24 64), (64, [64], Returns 64 24)]"]
  by (simp add: traced_blocks_simps)

text \<open>
  Without a block, call or return between them, any number of executions of the patched
  address count as one hit: a loop in a function that calls nothing is a single hit when basic
  blocks are not traced.
\<close>

theorem unseparated_patch_hits_count_once:
  assumes "trace_enabled t" "\<not> trace_basic_blocks t" "patch_hit_loc t \<noteq> 0" "\<not> waiting t" "0 < n"
  shows "patch_hits (flush_pending_patch
    (exec (concat (replicate n [Block pc, Insn (patch_hit_loc t)])) t)) = patch_hits t + 1"
proof -
  have skip: "record_bb pc u = u" if "\<not> trace_basic_blocks u" for u
    using that by (simp add: record_bb_def)
  have "exec (concat (replicate n [Block pc, Insn loc])) u = fold insn_hit (replicate n loc) u"
    if "\<not> trace_basic_blocks u" for u loc
    using that by (induction n arbitrary: u) (simp_all add: skip del: fold_replicate)
  with assms show ?thesis
    by (simp add: waiting_insns del: fold_replicate)
qed

theorem unseparated_patch_hits_count_once_witness:
  "patch_hits (flush_pending_patch (exec (concat (replicate 3 [Block 16, Insn 16]))
     (traced_blocks\<lparr>trace_basic_blocks := False\<rparr>))) = 1"
  using unseparated_patch_hits_count_once [of "traced_blocks\<lparr>trace_basic_blocks := False\<rparr>" 3 16]
    traced_blocks_simps
  by (simp add: waiting_def)

text \<open>
  The shadow stack: a run in which every call returns to its return address leaves the frames
  as they were, up to their marks.
\<close>

theorem balanced_run_restores_frames:
  assumes "balanced es" "trace_enabled t" "frames t \<noteq> []"
  shows "map frame_key (frames (exec es t)) = map frame_key (frames t)"
  by (rule keys_balanced [OF assms])

lemma balanced_example: "balanced [Block 16, Insn 16, Call 20 24 64, Block 64, Insn 64, Ret 64 24, Insn 24]"
  using balanced.Call [of "[Block 64, Insn 64]" "[Insn 24]" 20 24 64 64]
  by (auto intro!: balanced.intros)

theorem balanced_run_restores_frames_witness:
  "map frame_key (frames (exec [Block 16, Insn 16, Call 20 24 64, Block 64, Insn 64, Ret 64 24, Insn 24]
     (trace_start 16 traced_blocks))) = map frame_key (frames (trace_start 16 traced_blocks))"
  by (rule balanced_run_restores_frames [OF balanced_example])
    (simp_all add: trace_start_def traced_blocks_simps reset_runtime_def)

text \<open>
  The summary of basic blocks: after a run, every executed block is listed once, in ascending
  order of addresses, with the number of its executions (modulo \<open>2 ^ 64\<close>).
\<close>

theorem bb_summary_lists_counts:
  fixes es :: "exec_event list" and pc :: u64
  assumes "traces_basic_blocks t"
  defines "u \<equiv> exec es (trace_start pc t)" and "ks \<equiv> sorted_list_of_set (set (blocks_of es))"
  shows "trace_out (print_bb_summary u) = trace_out u @ L_bb_count (length ks) #
    map (\<lambda>(i, a). L_bb i a (of_nat (count_list (blocks_of es) a))) (enumerate 0 ks)"
proof -
  note start = trace_start_blocks [OF assms(1), of pc]
  have u: "basic_blocks u = fold bump (blocks_of es) []" "traces_basic_blocks u"
    using exec_basic_blocks [of "trace_start pc t" es] start by (simp_all add: u_def traces_basic_blocks_def)
  have "sort_key fst (basic_blocks u) = map (\<lambda>a. (a, the (map_of (basic_blocks u) a))) ks"
    using sort_by_key [of "basic_blocks u"] bumps [of "[]" "blocks_of es"] by (simp add: u ks_def)
  also have "\<dots> = map (\<lambda>a. (a, of_nat (count_list (blocks_of es) a))) ks"
    using bumps(3) [of "[]" "blocks_of es"] by (auto simp: u ks_def)
  finally have "sort_key fst (basic_blocks u) = map (\<lambda>a. (a, of_nat (count_list (blocks_of es) a))) ks" .
  then show ?thesis
    using u(2)
    by (simp add: print_bb_summary_def traces_basic_blocks_def Let_def fold_trace_log trace_log_def [of "L_bb_count _"]
        enumerate_eq_zip zip_map2 split_def comp_def)
qed

theorem bb_summary_lists_counts_witness:
  "trace_out (print_bb_summary (exec [Block 32, Insn 16, Block 16, Block 32] (trace_start 16 traced_blocks))) =
    [L_bb_count 2, L_bb 0 16 1, L_bb 1 32 2]"
proof -
  have ks: "sorted_list_of_set {16, 32 :: u64} = [16, 32]" by simp
  have out: "trace_out (trace_start 16 traced_blocks) = []"
    by (simp add: traced_blocks_def initial_tracer_def trace_start_def reset_runtime_def)
  have s: "set (blocks_of [Block 32, Insn 16, Block 16, Block 32]) = {16, 32}" by auto
  show ?thesis
    using bb_summary_lists_counts [OF traced_blocks_simps(1), of "[Block 32, Insn 16, Block 16, Block 32]" 16]
    unfolding s ks by (simp add: out)
qed

end
