(* ===== verification/Tracer_Files_Spec.thy ===== *)
theory Tracer_Files_Spec
  imports Tracer_Files
begin

text \<open>
  The file tracing refines a table of open file descriptions: a map from descriptors to
  descriptions and the offset of each description, as POSIX has them, restricted to seekable
  files.
\<close>

section \<open>Abstract descriptions\<close>

type_synonym descriptions = "(int \<rightharpoonup> nat) \<times> int list"

datatype file_event = Open int bool | Read int int | Seek int int | Close int | Dup int int | Nothing

fun file_step :: "file_event \<Rightarrow> descriptions \<Rightarrow> descriptions" where
  "file_step (Open fd True) d = ((fst d)(fd \<mapsto> length (snd d)), snd d @ [0])"
| "file_step (Open fd False) d = ((fst d)(fd := None), snd d)"
| "file_step (Read fd n) d =
    (case fst d fd of None \<Rightarrow> d | Some g \<Rightarrow> (fst d, (snd d)[g := snd d ! g + n]))"
| "file_step (Seek fd n) d = (case fst d fd of None \<Rightarrow> d | Some g \<Rightarrow> (fst d, (snd d)[g := n]))"
| "file_step (Close fd) d = ((fst d)(fd := None), snd d)"
| "file_step (Dup fd new) d = ((fst d)(new := fst d fd), snd d)"
| "file_step Nothing d = d"

definition described :: "tracer \<Rightarrow> descriptions" where
  "described t = ((\<lambda>fd. map_option fd_group (find_fd fd t)), map group_offset (groups t))"

section \<open>The invariant of descriptors and groups\<close>

definition users :: "nat \<Rightarrow> file_fd list \<Rightarrow> nat" where
  "users g is = length (filter (\<lambda>i. fd_group i = g) is)"

definition files_ok :: "tracer \<Rightarrow> bool" where
  "files_ok t \<longleftrightarrow> distinct (map fd_num (fds t)) \<and>
     (\<forall>i \<in> set (fds t). fd_group i < length (groups t)) \<and>
     (\<forall>g < length (groups t). group_refs (groups t ! g) = int (users g (fds t)))"

definition traces_files :: "tracer \<Rightarrow> bool" where
  "traces_files t \<longleftrightarrow> trace_enabled t \<and> patch_func_entry t \<noteq> 0"

lemma users_simps [simp]:
  "users g [] = 0" "users g (i # is) = (if fd_group i = g then Suc (users g is) else users g is)"
  by (simp_all add: users_def)

lemma find_Some_fd: "List.find (\<lambda>i. fd_num i = fd) is = Some i \<Longrightarrow> i \<in> set is \<and> fd_num i = fd"
  by (auto simp: find_Some_iff)

lemma find_None_fd: "List.find (\<lambda>i. fd_num i = fd) is = None \<longleftrightarrow> fd \<notin> fd_num ` set is"
  by (auto simp: find_None_iff)

lemma find_unlink:
  "distinct (map fd_num is) \<Longrightarrow> List.find (\<lambda>i. fd_num i = fd') (unlink_fd fd is) =
     (if fd' = fd then None else List.find (\<lambda>i. fd_num i = fd') is)"
  by (induction "is") (auto simp: find_None_fd)

lemma set_unlink: "set (unlink_fd fd is) \<subseteq> set is"
  by (induction "is") auto

lemma distinct_unlink: "distinct (map fd_num is) \<Longrightarrow> distinct (map fd_num (unlink_fd fd is))"
  using set_unlink by (induction "is") fastforce+

lemma unlink_fresh:
  "distinct (map fd_num is) \<Longrightarrow> fd \<notin> fd_num ` set (unlink_fd fd is)"
  using find_unlink [of "is" fd fd] by (simp add: find_None_fd)

lemma users_unlink:
  "List.find (\<lambda>i. fd_num i = fd) is = Some i \<Longrightarrow>
     int (users g (unlink_fd fd is)) = int (users g is) - (if fd_group i = g then 1 else 0)"
  by (induction "is") (auto split: if_splits)

lemma unlink_absent: "fd \<notin> fd_num ` set is \<Longrightarrow> unlink_fd fd is = is"
  by (induction "is") auto

section \<open>Steps\<close>

lemma trace_log_frame [simp]:
  "fds (trace_log l t) = fds t" "groups (trace_log l t) = groups t"
  "trace_enabled (trace_log l t) = trace_enabled t"
  "patch_func_entry (trace_log l t) = patch_func_entry t"
  by (simp_all add: trace_log_def)

lemma offsets_of_refs:
  "map group_offset (xs[g := (xs ! g)\<lparr>group_refs := r\<rparr>]) = map group_offset xs"
  by (cases "g < length xs") (simp_all add: map_update list_update_same_conv list_update_beyond)

lemma offsets_of_offset:
  "map group_offset (xs[g := (xs ! g)\<lparr>group_offset := n\<rparr>]) = (map group_offset xs)[g := n]"
  by (simp add: map_update)

lemma remove_fd_frame [simp]:
  "trace_enabled (remove_fd fd t) = trace_enabled t"
  "patch_func_entry (remove_fd fd t) = patch_func_entry t"
  "length (groups (remove_fd fd t)) = length (groups t)"
  by (simp_all add: remove_fd_def add_refs_def split: option.splits)

lemma remove_fd_ok:
  assumes "files_ok t"
  shows "files_ok (remove_fd fd t)" "described (remove_fd fd t) = file_step (Close fd) (described t)"
    "fd \<notin> fd_num ` set (fds (remove_fd fd t))"
proof -
  have d: "distinct (map fd_num (fds t))" using assms by (simp add: files_ok_def)
  have fds: "fds (remove_fd fd t) = unlink_fd fd (fds t)"
    by (auto simp: remove_fd_def add_refs_def find_fd_def find_None_fd unlink_absent split: option.splits)
  have offs: "map group_offset (groups (remove_fd fd t)) = map group_offset (groups t)"
    by (simp add: remove_fd_def add_refs_def offsets_of_refs split: option.split)
  show "fd \<notin> fd_num ` set (fds (remove_fd fd t))"
    using unlink_fresh [OF d] by (simp add: fds)
  show "described (remove_fd fd t) = file_step (Close fd) (described t)"
    using find_unlink [OF d] by (auto simp: described_def offs find_fd_def fds)
  show "files_ok (remove_fd fd t)"
  proof (cases "find_fd fd t")
    case None
    with assms show ?thesis by (simp add: remove_fd_def)
  next
    case (Some i)
    then have f: "List.find (\<lambda>i. fd_num i = fd) (fds t) = Some i"
      by (simp add: find_fd_def)
    with find_Some_fd [OF f] assms have "fd_group i < length (groups t)"
      by (auto simp: files_ok_def)
    with Some assms distinct_unlink [OF d, of fd] set_unlink [of fd "fds t"] users_unlink [OF f]
    show ?thesis
      by (auto simp: files_ok_def remove_fd_def add_refs_def nth_list_update)
  qed
qed

lemma add_fd_ok:
  assumes "files_ok t" "fd \<notin> fd_num ` set (fds t)" "g < length (groups t)"
  shows "files_ok (add_fd fd seek g (add_refs g 1 t))"
    "described (add_fd fd seek g (add_refs g 1 t)) =
       ((fst (described t))(fd \<mapsto> g), snd (described t))"
proof -
  show "files_ok (add_fd fd seek g (add_refs g 1 t))"
    using assms by (auto simp: files_ok_def add_fd_def add_refs_def nth_list_update)
  show "described (add_fd fd seek g (add_refs g 1 t)) =
       ((fst (described t))(fd \<mapsto> g), snd (described t))"
    by (auto simp: described_def add_fd_def add_refs_def offsets_of_refs find_fd_def)
qed

lemma new_group_ok:
  assumes "files_ok t"
  shows "files_ok (snd (new_group t))"
    "described (snd (new_group t)) = (fst (described t), snd (described t) @ [0])"
    "fst (new_group t) = length (snd (described t))"
    "length (groups (snd (new_group t))) = Suc (fst (new_group t))"
    "fds (snd (new_group t)) = fds t"
proof -
  have "users (length (groups t)) (fds t) = 0"
    using assms by (auto simp: files_ok_def users_def filter_empty_conv)
  with assms show "files_ok (snd (new_group t))"
    by (auto simp: files_ok_def new_group_def nth_append less_Suc_eq)
qed (simp_all add: described_def new_group_def find_fd_def)

lemma set_offset_ok:
  assumes "files_ok t" "g < length (groups t)"
  shows "files_ok (set_offset g n t)"
    "described (set_offset g n t) = (fst (described t), (snd (described t))[g := n])"
  using assms
  by (auto simp: files_ok_def set_offset_def nth_list_update described_def find_fd_def
      offsets_of_offset)

text \<open>Fields that the file state does not depend on.\<close>

lemma files_frame [simp]:
  "files_ok (trace_log l t) = files_ok t" "described (trace_log l t) = described t"
  "files_ok (t\<lparr>open_hits := n\<rparr>) = files_ok t" "described (t\<lparr>open_hits := n\<rparr>) = described t"
  "files_ok (t\<lparr>reads_after_patch := n\<rparr>) = files_ok t"
  "described (t\<lparr>reads_after_patch := n\<rparr>) = described t"
  "files_ok (t\<lparr>reads_before_patch := n\<rparr>) = files_ok t"
  "described (t\<lparr>reads_before_patch := n\<rparr>) = described t"
  by (simp_all add: files_ok_def described_def find_fd_def)

lemma traces_frame [simp]:
  "traces_files (trace_log l t) = traces_files t" "traces_files (remove_fd fd t) = traces_files t"
  "traces_files (set_offset g n t) = traces_files t"
  by (simp_all add: traces_files_def set_offset_def)

lemma find_described:
  assumes "files_ok t" "find_fd fd t = Some i"
  shows "fst (described t) fd = Some (fd_group i)" "fd_group i < length (groups t)"
  using assms find_Some_fd [of fd "fds t" i] by (auto simp: described_def files_ok_def find_fd_def)

lemma find_not_described: "find_fd fd t = None \<longleftrightarrow> fst (described t) fd = None"
  by (simp add: described_def)

lemma offset_described: "g < length (groups t) \<Longrightarrow> snd (described t) ! g = group_offset (groups t ! g)"
  by (simp add: described_def)

section \<open>Handlers\<close>

lemma note_open_ok:
  assumes "files_ok t" "traces_files t" "0 \<le> fd"
  shows "files_ok (note_open seekable fd path t)"
    "described (note_open seekable fd path t) = file_step (Open fd (seekable path)) (described t)"
    "traces_files (note_open seekable fd path t)"
proof -
  define u where "u = (remove_fd fd t)\<lparr>open_hits := open_hits (remove_fd fd t) + 1\<rparr>"
  define v where "v = snd (new_group u)"
  have ok: "files_ok u" "described u = file_step (Close fd) (described t)" "traces_files u"
    "fd \<notin> fd_num ` set (fds u)"
    using remove_fd_ok [OF assms(1), of fd] assms(2) by (auto simp: u_def traces_files_def)
  note grp = new_group_ok [OF ok(1), folded v_def]
  have "note_open seekable fd path t =
     (if seekable path then trace_log (L_open path fd (group_id (groups
        (add_fd fd True (fst (new_group u)) (add_refs (fst (new_group u)) 1 v)) ! fst (new_group u))) True
          (patch_func_entry_hit (add_fd fd True (fst (new_group u)) (add_refs (fst (new_group u)) 1 v))))
        (add_fd fd True (fst (new_group u)) (add_refs (fst (new_group u)) 1 v))
      else trace_log (L_open path fd 0 False (patch_func_entry_hit u)) u)"
    using assms(2, 3) by (simp add: note_open_def Let_def u_def v_def traces_files_def split_beta)
  moreover have "traces_files (add_fd fd True (fst (new_group u)) (add_refs (fst (new_group u)) 1 v))"
    using ok(3) by (simp add: traces_files_def add_fd_def add_refs_def v_def new_group_def)
  moreover note add_fd_ok [OF grp(1), of fd "fst (new_group u)" True]
  ultimately show "files_ok (note_open seekable fd path t)"
    "described (note_open seekable fd path t) = file_step (Open fd (seekable path)) (described t)"
    "traces_files (note_open seekable fd path t)"
    using ok grp by simp_all
qed

lemma note_close_ok:
  assumes "files_ok t" "traces_files t"
  shows "files_ok (note_close fd r t)"
    "described (note_close fd r t) = file_step (Close fd) (described t)"
    "traces_files (note_close fd r t)"
proof -
  have en: "trace_enabled t" "patch_func_entry t \<noteq> 0"
    using assms(2) by (simp_all add: traces_files_def)
  have u: "files_ok (trace_log l t)" "traces_files (trace_log l t)" for l
    using assms by simp_all
  have "described t = file_step (Close fd) (described t)" if "find_fd fd t = None"
    using that by (simp add: find_not_described prod_eq_iff fun_upd_idem)
  then show "files_ok (note_close fd r t)"
    "described (note_close fd r t) = file_step (Close fd) (described t)"
    "traces_files (note_close fd r t)"
    using remove_fd_ok [OF u(1), of fd] u(2) assms en
    by (auto simp: note_close_def Let_def split: option.split)
qed

lemma note_lseek_ok:
  assumes "files_ok t" "traces_files t" "0 \<le> r"
  shows "files_ok (note_lseek fd off wh r t)"
    "described (note_lseek fd off wh r t) = file_step (Seek fd r) (described t)"
    "traces_files (note_lseek fd off wh r t)"
proof -
  have "files_ok (note_lseek fd off wh r t) \<and> traces_files (note_lseek fd off wh r t) \<and>
    described (note_lseek fd off wh r t) = file_step (Seek fd r) (described t)"
  proof (cases "find_fd fd t")
    case None
    with assms find_not_described [of fd t] show ?thesis
      by (auto simp: note_lseek_def)
  next
    case (Some i)
    with find_described [OF assms(1) Some] assms set_offset_ok [OF assms(1), of "fd_group i" r]
    show ?thesis by (auto simp: note_lseek_def Let_def traces_files_def set_offset_def)
  qed
  then show "files_ok (note_lseek fd off wh r t)"
    "described (note_lseek fd off wh r t) = file_step (Seek fd r) (described t)"
    "traces_files (note_lseek fd off wh r t)" by simp_all
qed

section \<open>Runs of system calls\<close>

text \<open>
  What the tracer can follow: a read that keeps the offset in 63 bits, and a duplication of a
  descriptor onto another one, the source being tracked whenever the target is.
\<close>

fun file_fits :: "file_event \<Rightarrow> descriptions \<Rightarrow> bool" where
  "file_fits (Read fd n) d = (case fst d fd of None \<Rightarrow> True | Some g \<Rightarrow> snd d ! g + n < 2 ^ 63)"
| "file_fits (Dup fd new) d = (case fst d fd of None \<Rightarrow> fst d new = None | Some g \<Rightarrow> fd \<noteq> new)"
| "file_fits e d = True"

lemma note_read_ok:
  assumes "files_ok t" "traces_files t" "0 \<le> n" "file_fits (Read fd n) (described t)"
  shows "\<exists>t'. note_read fd n t = Some t' \<and> files_ok t' \<and> traces_files t' \<and>
    described t' = file_step (Read fd n) (described t)"
proof (cases "find_fd fd t")
  case None
  with assms find_not_described [of fd t] show ?thesis by (auto simp: note_read_def)
next
  case (Some i)
  let ?g = "fd_group i"
  let ?u = "set_offset ?g (group_offset (groups t ! ?g) + n) t"
  note d = find_described [OF assms(1) Some]
  note s = set_offset_ok [OF assms(1) d(2), of "group_offset (groups t ! ?g) + n"]
  have [simp]: "snd (described t) ! ?g = group_offset (groups t ! ?g)"
    by (rule offset_described [OF d(2)])
  show ?thesis
  proof (cases "n = 0")
    case True
    with assms Some d show ?thesis
      by (auto simp: note_read_def prod_eq_iff) (metis list_update_id offset_described)
  next
    case False
    let ?r = "if patch_func_entry_hit ?u
      then trace_log (L_read fd (group_id (groups ?u ! ?g)) (group_offset (groups t ! ?g)) (fd_seekable i) n)
             (?u\<lparr>reads_after_patch := reads_after_patch ?u + 1\<rparr>)
      else ?u\<lparr>reads_before_patch := reads_before_patch ?u + 1\<rparr>"
    have "note_read fd n t = Some ?r"
      using False assms Some d by (simp add: note_read_def Let_def traces_files_def)
    moreover have "files_ok ?r" "traces_files ?r" "described ?r = file_step (Read fd n) (described t)"
      using s d assms(2) by (simp_all add: traces_files_def set_offset_def)
    ultimately show ?thesis by blast
  qed
qed

text \<open>The entry of a tracked descriptor survives the removal of every other descriptor.\<close>

lemma find_after_remove:
  assumes "files_ok t"
  shows "find_fd fd (remove_fd new t) = (if fd = new then None else find_fd fd t)"
proof -
  have d: "distinct (map fd_num (fds t))" using assms by (simp add: files_ok_def)
  have "fds (remove_fd new t) = unlink_fd new (fds t)"
    by (auto simp: remove_fd_def add_refs_def find_fd_def find_None_fd unlink_absent split: option.splits)
  then show ?thesis using find_unlink [OF d] by (simp add: find_fd_def)
qed

lemma entry_after_remove:
  assumes "files_ok t" "find_fd fd t = Some i"
  shows "read_entry i (remove_fd new t) = (if fd = new then None else Some i)"
proof (cases "fd = new")
  case True
  have "fd_num i = fd" using assms(2) find_Some_fd by (auto simp: find_fd_def)
  with True remove_fd_ok(3) [OF assms(1), of new] show ?thesis by (auto simp: read_entry_def)
next
  case False
  then have "find_fd fd (remove_fd new t) = Some i" using find_after_remove [OF assms(1)] assms(2) by simp
  with False find_Some_fd show ?thesis by (auto simp: read_entry_def find_fd_def)
qed

lemma note_alias_ok:
  assumes "files_ok t" "traces_files t" "0 \<le> new" "file_fits (Dup fd new) (described t)"
  shows "\<exists>t'. note_alias fd new f cmd t = Some t' \<and> files_ok t' \<and> traces_files t' \<and>
    described t' = file_step (Dup fd new) (described t)"
proof (cases "find_fd fd t")
  case None
  with assms find_not_described [of fd t] show ?thesis
    by (auto simp: note_alias_def prod_eq_iff fun_upd_idem)
next
  case (Some i)
  note d = find_described [OF assms(1) Some]
  note r = remove_fd_ok [OF assms(1), of new]
  let ?u = "add_fd new (fd_seekable i) (fd_group i) (add_refs (fd_group i) 1 (remove_fd new t))"
  have "traces_files ?u"
    using assms(2) by (simp add: traces_files_def add_fd_def add_refs_def)
  moreover have "files_ok ?u" "described ?u = file_step (Dup fd new) (described t)"
    using add_fd_ok [OF r(1) r(3), of "fd_group i" "fd_seekable i"] d r(2) by simp_all
  moreover have "\<exists>l. note_alias fd new f cmd t = Some (trace_log l ?u)"
    using assms Some d entry_after_remove [OF assms(1) Some, of new]
    by (auto simp: note_alias_def traces_files_def Let_def)
  ultimately show ?thesis by (metis files_frame(1, 2) traces_frame(1))
qed

text \<open>A finished system call, with its result and first three arguments.\<close>

type_synonym call = "syscall \<times> int \<times> int \<times> int \<times> int"

fun event_of :: "(string \<Rightarrow> bool) \<Rightarrow> (int \<Rightarrow> string option) \<Rightarrow> call \<Rightarrow> file_event" where
  "event_of seekable guest (num, ret, a, b, c) = (if ret < 0 then Nothing else case num of
     Sys_open \<Rightarrow> (case guest a of None \<Rightarrow> Nothing
       | Some p \<Rightarrow> if to_int ret < 0 then Nothing else Open (to_int ret) (seekable p))
   | Sys_openat \<Rightarrow> (case guest b of None \<Rightarrow> Nothing
       | Some p \<Rightarrow> if to_int ret < 0 then Nothing else Open (to_int ret) (seekable p))
   | Sys_read \<Rightarrow> Read (to_int a) ret
   | Sys_lseek \<Rightarrow> Seek (to_int a) ret
   | Sys_close \<Rightarrow> Close (to_int a)
   | Sys_dup \<Rightarrow> if to_int ret < 0 then Nothing else Dup (to_int a) (to_int ret)
   | Sys_dup2 \<Rightarrow> if ret = b \<and> 0 \<le> to_int b then Dup (to_int a) (to_int b) else Nothing
   | Sys_dup3 \<Rightarrow> if ret = b \<and> 0 \<le> to_int b then Dup (to_int a) (to_int b) else Nothing
   | Sys_fcntl \<Rightarrow> if is_dupfd b \<and> 0 \<le> to_int ret then Dup (to_int a) (to_int ret) else Nothing
   | Sys_other \<Rightarrow> Nothing)"

fun post_calls :: "(string \<Rightarrow> bool) \<Rightarrow> (int \<Rightarrow> string option) \<Rightarrow> call list \<Rightarrow> tracer \<Rightarrow> tracer option" where
  "post_calls seekable guest [] t = Some t"
| "post_calls seekable guest ((num, ret, a, b, c) # cs) t =
    (case post_syscall seekable guest num ret a b c t of None \<Rightarrow> None
     | Some t \<Rightarrow> post_calls seekable guest cs t)"

fun all_fit :: "file_event list \<Rightarrow> descriptions \<Rightarrow> bool" where
  "all_fit [] d = True"
| "all_fit (e # es) d \<longleftrightarrow> file_fits e d \<and> all_fit es (file_step e d)"

lemma negative_alias: "new < 0 \<Longrightarrow> note_alias fd new f cmd t = Some t"
  by (simp add: note_alias_def)

lemma negative_open: "fd < 0 \<Longrightarrow> note_open seekable fd p t = t"
  by (simp add: note_open_def)

lemma post_syscall_ok:
  assumes "files_ok t" "traces_files t"
    "file_fits (event_of seekable guest (num, ret, a, b, c)) (described t)"
  shows "\<exists>t'. post_syscall seekable guest num ret a b c t = Some t' \<and> files_ok t' \<and>
    traces_files t' \<and>
    described t' = file_step (event_of seekable guest (num, ret, a, b, c)) (described t)"
proof (cases "ret < 0")
  case True
  with assms show ?thesis by (simp add: post_syscall_def)
next
  case False
  have en: "trace_enabled t" "patch_func_entry t \<noteq> 0"
    using assms(2) by (simp_all add: traces_files_def)
  note ok = note_open_ok [OF assms(1, 2)] note_close_ok [OF assms(1, 2)]
    note_lseek_ok [OF assms(1, 2)] negative_alias negative_open
  note read = note_read_ok [OF assms(1, 2), of ret "to_int a"]
  note dup = note_alias_ok [OF assms(1, 2), of "to_int ret" "to_int a"]
    note_alias_ok [OF assms(1, 2), of "to_int b" "to_int a"]
  show ?thesis
    using False assms en read
    by (cases num)
      (auto simp: post_syscall_def not_less not_le ok simp del: file_step.simps(1-6) file_fits.simps
        intro!: dup split: option.splits if_splits)
qed

text \<open>A call that does not fit ends the process or leaves the state as it is.\<close>

lemma unfit_read:
  assumes "files_ok t" "traces_files t" "\<not> file_fits (Read fd n) (described t)" "note_read fd n t = Some t'"
  shows "t' = t"
proof -
  obtain i where i: "find_fd fd t = Some i" "snd (described t) ! fd_group i + n \<ge> 2 ^ 63"
    using assms(3) by (auto simp: described_def split: option.splits)
  then have "group_offset (groups t ! fd_group i) + n \<ge> 2 ^ 63"
    using find_described(2) [OF assms(1) i(1)] by (simp add: described_def)
  with i(1) assms(2, 4) show ?thesis
    by (auto simp: note_read_def Let_def traces_files_def split: if_splits)
qed

lemma unfit_dup:
  assumes "files_ok t" "\<not> file_fits (Dup fd new) (described t)" "note_alias fd new f cmd t = Some t'"
  shows "t' = t"
proof (cases "find_fd fd t")
  case None
  with assms(3) show ?thesis by (simp add: note_alias_def split: if_splits)
next
  case (Some i)
  then have "fd = new" using assms(2) by (simp add: described_def)
  with Some assms(3) entry_after_remove [OF assms(1) Some, of new] show ?thesis
    by (simp add: note_alias_def split: if_splits)
qed

lemma post_syscall_keeps:
  assumes "files_ok t" "traces_files t" "post_syscall seekable guest num ret a b c t = Some t'"
  shows "files_ok t' \<and> traces_files t'"
proof (cases "file_fits (event_of seekable guest (num, ret, a, b, c)) (described t)")
  case True
  with post_syscall_ok [OF assms(1, 2) True] assms(3) show ?thesis by auto
next
  case False
  have "t' = t"
    using False assms unfit_read [OF assms(1, 2), of "to_int a" ret] unfit_dup [OF assms(1), of "to_int a"]
    by (cases num)
      (auto simp: post_syscall_def simp del: file_fits.simps(1, 2) split: option.splits if_splits)
  with assms show ?thesis by simp
qed

lemma post_calls_keeps:
  "post_calls seekable guest cs t = Some t' \<Longrightarrow> files_ok t \<Longrightarrow> traces_files t \<Longrightarrow>
     files_ok t' \<and> traces_files t'"
  by (induction seekable guest cs t rule: post_calls.induct)
    (auto split: option.splits dest: post_syscall_keeps)

lemma post_calls_ok:
  "files_ok t \<Longrightarrow> traces_files t \<Longrightarrow> all_fit (map (event_of seekable guest) cs) (described t) \<Longrightarrow>
     \<exists>t'. post_calls seekable guest cs t = Some t' \<and>
       described t' = fold file_step (map (event_of seekable guest) cs) (described t)"
proof (induction cs arbitrary: t)
  case (Cons e cs)
  obtain num ret a b c where e: "e = (num, ret, a, b, c)" by (cases e)
  obtain u where "post_syscall seekable guest num ret a b c t = Some u" "files_ok u" "traces_files u"
    "described u = file_step (event_of seekable guest e) (described t)"
    using post_syscall_ok [OF Cons.prems(1, 2)] Cons.prems(3) unfolding e by fastforce
  with Cons.IH [of u] Cons.prems(3) show ?case by (auto simp: e simp del: event_of.simps)
qed simp

lemma fresh_files:
  assumes "fds t = []" "groups t = []"
  shows "files_ok t" "described t = (Map.empty, [])"
  using assms by (auto simp: files_ok_def described_def find_fd_def)

text \<open>Closing the last descriptor of a description is what is logged as the close of the group.\<close>

lemma users_zero: "users g is = 0 \<longleftrightarrow> (\<forall>i \<in> set is. fd_group i \<noteq> g)"
  by (auto simp: users_def filter_empty_conv)

lemma described_group:
  assumes "files_ok t"
  shows "(\<exists>fd. fst (described t) fd = Some g) \<longleftrightarrow> (\<exists>i \<in> set (fds t). fd_group i = g)"
proof
  assume "\<exists>i \<in> set (fds t). fd_group i = g"
  then obtain i where i: "i \<in> set (fds t)" "fd_group i = g" by auto
  then have "List.find (\<lambda>j. fd_num j = fd_num i) (fds t) \<noteq> None"
    by (auto simp: find_None_iff)
  then obtain j where j: "List.find (\<lambda>j. fd_num j = fd_num i) (fds t) = Some j" by auto
  with i(1) assms have "j = i"
    using find_Some_fd [OF j] by (auto simp: files_ok_def distinct_map inj_on_def)
  with j i(2) show "\<exists>fd. fst (described t) fd = Some g"
    by (intro exI [of _ "fd_num i"]) (simp add: described_def find_fd_def)
qed (auto simp: described_def find_fd_def dest!: find_Some_fd)

lemma remove_fd_refs:
  assumes "files_ok t" "g < length (groups t)"
  shows "group_refs (groups (remove_fd fd t) ! g) \<le> 0 \<longleftrightarrow>
    (\<forall>fd'. fst (described (remove_fd fd t)) fd' \<noteq> Some g)"
proof -
  have "files_ok (remove_fd fd t)" by (rule remove_fd_ok [OF assms(1)])
  then show ?thesis
    using assms(2) described_group [of "remove_fd fd t" g]
    by (auto simp: files_ok_def users_zero simp flip: of_nat_0_eq_iff)
qed

lemma note_close_log:
  assumes "files_ok t" "traces_files t" "find_fd fd t = Some i"
  defines "grp \<equiv> groups t ! fd_group i"
  shows "trace_out (note_close fd r t) = trace_out t @
    L_close fd (group_id grp) (group_offset grp) r (patch_func_entry_hit t) #
    (if \<forall>fd'. fst (described (note_close fd r t)) fd' \<noteq> Some (fd_group i)
     then [L_group_close (group_id grp) (patch_func_entry_hit t)] else [])"
proof -
  let ?l = "L_close fd (group_id grp) (group_offset grp) r (patch_func_entry_hit t)"
  let ?u = "remove_fd fd (trace_log ?l t)"
  have ok: "files_ok (trace_log ?l t)" using assms(1) by simp
  have out: "trace_out ?u = trace_out t @ [?l]" "patch_func_entry_hit ?u = patch_func_entry_hit t"
    "trace_enabled ?u"
    using assms(2) by (simp_all add: remove_fd_def add_refs_def trace_log_def traces_files_def split: option.split)
  have close: "note_close fd r t = (if group_refs (groups ?u ! fd_group i) \<le> 0
      then trace_log (L_group_close (group_id grp) (patch_func_entry_hit t)) ?u else ?u)"
    using assms(2, 3) out(2)
    by (simp add: note_close_def Let_def traces_files_def grp_def)
  have "group_refs (groups ?u ! fd_group i) \<le> 0 \<longleftrightarrow>
      (\<forall>fd'. fst (described ?u) fd' \<noteq> Some (fd_group i))"
    using find_described(2) [OF assms(1, 3)] by (intro remove_fd_refs [OF ok]) simp
  moreover have "described (note_close fd r t) = described ?u"
    by (simp add: close)
  ultimately show ?thesis
    using out by (simp add: close trace_log_def [of _ ?u])
qed

section \<open>Properties\<close>

text \<open>
  C16. The file tracing implements the table of open file descriptions. Started with no tracked
  descriptor, a run of system calls whose events fit (offsets within 63 bits, no duplication of
  a tracked descriptor onto itself or of an untracked one onto a tracked one) is traced without
  an error, and the tracked descriptors, with the description and the offset of each, are those
  of the specification.
\<close>

theorem file_tracing_refines_descriptions:
  assumes "traces_files t" "fds t = []" "groups t = []"
    and "all_fit (map (event_of seekable guest) calls) (Map.empty, [])"
  shows "\<exists>t'. post_calls seekable guest calls t = Some t' \<and>
    described t' = fold file_step (map (event_of seekable guest) calls) (Map.empty, [])"
  using post_calls_ok [OF fresh_files(1) [OF assms(2, 3)] assms(1)] assms(4)
  by (simp add: fresh_files(2) [OF assms(2, 3)])

definition example_tracer :: tracer where
  "example_tracer = enable_trace (initial_tracer\<lparr>patch_func_entry := 4096\<rparr>)"

definition example_calls :: "call list" where
  "example_calls = [(Sys_open, 3, 1, 0, 0), (Sys_read, 10, 3, 0, 10), (Sys_dup, 4, 3, 0, 0),
     (Sys_close, 0, 3, 0, 0), (Sys_lseek, 100, 4, 100, 0)]"

lemma to_int_id: "0 \<le> v \<Longrightarrow> v < 2 ^ 31 \<Longrightarrow> to_int v = v"
  by (simp add: to_int_def sint_sbintrunc' signed_take_bit_int_eq_self)

lemma example_tracer_fresh:
  "traces_files example_tracer" "fds example_tracer = []" "groups example_tracer = []"
  by (simp_all add: example_tracer_def traces_files_def enable_trace_def initial_tracer_def)

lemma example_events: "map (event_of (\<lambda>_. True) (\<lambda>_. Some ''f'')) example_calls =
    [Open 3 True, Read 3 10, Dup 3 4, Close 3, Seek 4 100]"
  by (simp add: example_calls_def to_int_id)

theorem file_tracing_refines_descriptions_witness:
  "traces_files example_tracer \<and> (\<exists>t'. post_calls (\<lambda>_. True) (\<lambda>_. Some ''f'') example_calls example_tracer = Some t' \<and>
    described t' = ([4 \<mapsto> 0], [100]))"
proof -
  have "all_fit (map (event_of (\<lambda>_. True) (\<lambda>_. Some ''f'')) example_calls) (Map.empty, [])"
    by (simp add: example_events)
  from file_tracing_refines_descriptions [OF example_tracer_fresh this]
  show ?thesis
    by (auto simp: example_events example_tracer_fresh fun_upd_twist)
qed

text \<open>
  After any run of system calls that was traced to its end, closing a tracked descriptor logs
  the close with the offset of its description, and the close of the group exactly when no
  descriptor is left for the description.
\<close>

theorem group_closed_with_last_descriptor:
  assumes "traces_files t" "fds t = []" "groups t = []"
    and "post_calls seekable guest calls t = Some u" "find_fd fd u = Some i"
  defines "grp \<equiv> groups u ! fd_group i"
  shows "trace_out (note_close fd r u) = trace_out u @
    L_close fd (group_id grp) (group_offset grp) r (patch_func_entry_hit u) #
    (if \<forall>fd'. fst (described (note_close fd r u)) fd' \<noteq> Some (fd_group i)
     then [L_group_close (group_id grp) (patch_func_entry_hit u)] else [])"
  using post_calls_keeps [OF assms(4) fresh_files(1) [OF assms(2, 3)] assms(1)] assms(5)
  unfolding grp_def by (intro note_close_log) auto

definition example_open :: tracer where
  "example_open = note_open (\<lambda>_. True) 3 ''f'' example_tracer"

lemma example_open_run:
  "post_calls (\<lambda>_. True) (\<lambda>_. Some ''f'') [(Sys_open, 3, 1, 0, 0)] example_tracer = Some example_open"
  using example_tracer_fresh(1)
  by (simp add: post_syscall_def example_open_def to_int_id traces_files_def)

lemma example_open_ok:
  "files_ok example_open" "traces_files example_open"
  using note_open_ok [OF fresh_files(1) [OF example_tracer_fresh(2, 3)] example_tracer_fresh(1), of 3]
  by (simp_all add: example_open_def)

lemma example_open_fds: "fds example_open = [\<lparr>fd_num = 3, fd_seekable = True, fd_group = 0\<rparr>]"
  by (simp add: example_open_def note_open_def example_tracer_def enable_trace_def initial_tracer_def
      remove_fd_def find_fd_def new_group_def add_refs_def add_fd_def trace_log_def)

lemma example_open_groups:
  "groups example_open = [\<lparr>group_id = 1, group_offset = 0, group_refs = 1\<rparr>]"
  by (simp add: example_open_def note_open_def example_tracer_def enable_trace_def initial_tracer_def
      remove_fd_def find_fd_def new_group_def add_refs_def add_fd_def trace_log_def)

lemma example_open_find:
  "find_fd 3 example_open = Some \<lparr>fd_num = 3, fd_seekable = True, fd_group = 0\<rparr>"
  "find_fd 7 example_open = None"
  by (simp_all add: find_fd_def example_open_fds)

lemma example_open_closed: "fst (described (note_close 3 0 example_open)) = Map.empty"
  by (simp add: note_close_ok(2) [OF example_open_ok])
    (simp add: described_def find_fd_def example_open_fds fun_eq_iff)

theorem group_closed_with_last_descriptor_witness:
  "trace_out (note_close 3 0 example_open) = trace_out example_open @
    [L_close 3 1 0 0 (patch_func_entry_hit example_open),
     L_group_close 1 (patch_func_entry_hit example_open)]"
  using group_closed_with_last_descriptor [OF example_tracer_fresh example_open_run example_open_find(1), of 0]
  by (simp add: example_open_groups example_open_closed)

text \<open>
  C40. After any run of system calls that was traced to its end, the tracer's handling of a
  successful \<^verbatim>\<open>dup2\<close> of a tracked descriptor is undefined exactly when the descriptor is
  duplicated onto itself, which the kernel allows: the entry is found, freed with the new
  descriptor and then read. Onto any other descriptor it is defined.
\<close>

theorem self_duplication_uses_freed_entry:
  assumes "traces_files t" "fds t = []" "groups t = []"
    and "post_calls seekable guest calls t = Some u" "find_fd (to_int a) u = Some i" "0 \<le> b" "0 \<le> to_int b"
  shows "post_syscall seekable guest Sys_dup2 b a b c u = None \<longleftrightarrow> to_int a = to_int b"
proof -
  have u: "files_ok u" "traces_files u"
    using post_calls_keeps [OF assms(4) fresh_files(1) [OF assms(2, 3)] assms(1)] by simp_all
  then show ?thesis
    using assms(5-7) entry_after_remove [OF u(1) assms(5), of "to_int b"]
    by (auto simp: post_syscall_def note_alias_def traces_files_def Let_def)
qed

theorem self_duplication_uses_freed_entry_witness:
  "post_syscall (\<lambda>_. True) (\<lambda>_. Some ''f'') Sys_dup2 3 3 3 0 example_open = None \<and>
   post_syscall (\<lambda>_. True) (\<lambda>_. Some ''f'') Sys_dup2 7 3 7 0 example_open \<noteq> None"
  using self_duplication_uses_freed_entry [OF example_tracer_fresh example_open_run, of 3 _ 3 0]
    self_duplication_uses_freed_entry [OF example_tracer_fresh example_open_run, of 3 _ 7 0] example_open_find(1)
  by (simp add: to_int_id)

text \<open>
  A duplication of an untracked descriptor onto a tracked one leaves the tracked entry, though
  the kernel has closed its file: later reads are counted for the old description.
\<close>

theorem duplication_leaves_stale_descriptor:
  assumes "traces_files t" "find_fd (to_int a) t = None" "find_fd (to_int b) t = Some i"
    "0 \<le> b" "0 \<le> to_int b"
  shows "post_syscall seekable guest Sys_dup2 b a b c t = Some t \<and>
    fst (described t) (to_int b) = Some (fd_group i) \<and>
    fst (file_step (event_of seekable guest (Sys_dup2, b, a, b, c)) (described t)) (to_int b) = None"
  using assms by (simp_all add: post_syscall_def note_alias_def traces_files_def described_def)

theorem duplication_leaves_stale_descriptor_witness:
  "post_syscall (\<lambda>_. True) (\<lambda>_. Some ''f'') Sys_dup2 3 7 3 0 example_open = Some example_open \<and>
    fst (described example_open) 3 = Some 0"
  using duplication_leaves_stale_descriptor [OF example_open_ok(2), of 7 3] example_open_find
  by (simp add: to_int_id)

end
