(* ===== verification/Tracer_Report.thy ===== *)
theory Tracer_Report
  imports Tracer_Spec Tracer_Files_Spec
begin

text \<open>
  Whole runs of the tracer: execution events, system calls and the three reports that end a
  process. The reports of \<^verbatim>\<open>src/utils/binradar-trace.c\<close> share \<^verbatim>\<open>printed_final\<close>.
\<close>

section \<open>Runs\<close>

datatype tracer_event = Exec exec_event | Sys call | Exit int | Signal u64 int | Qasan u64 u64 int

fun tracer_step :: "(string \<Rightarrow> bool) \<Rightarrow> (int \<Rightarrow> string option) \<Rightarrow> (u64 \<Rightarrow> string) \<Rightarrow> tracer_event \<Rightarrow>
    tracer \<Rightarrow> tracer option" where
  "tracer_step seekable guest resolve (Exec e) t = Some (exec_step e t)"
| "tracer_step seekable guest resolve (Sys (num, ret, a, b, c)) t =
    post_syscall seekable guest num ret a b c t"
| "tracer_step seekable guest resolve (Exit code) t = Some (report_exit code t)"
| "tracer_step seekable guest resolve (Signal pc sig) t = Some (report_signal resolve pc sig t)"
| "tracer_step seekable guest resolve (Qasan pc addr sig) t =
    Some (report_qasan_crash resolve pc addr sig t)"

fun tracer_run :: "(string \<Rightarrow> bool) \<Rightarrow> (int \<Rightarrow> string option) \<Rightarrow> (u64 \<Rightarrow> string) \<Rightarrow> tracer_event list \<Rightarrow>
    tracer \<Rightarrow> tracer option" where
  "tracer_run seekable guest resolve [] t = Some t"
| "tracer_run seekable guest resolve (e # es) t =
    (case tracer_step seekable guest resolve e t of None \<Rightarrow> None
     | Some t \<Rightarrow> tracer_run seekable guest resolve es t)"

fun ends_process :: "tracer_event \<Rightarrow> bool" where
  "ends_process (Exec e) = False"
| "ends_process (Sys c) = False"
| "ends_process _ = True"

section \<open>Results in the log\<close>

fun is_result :: "log_line \<Rightarrow> bool" where
  "is_result (L_exit r) = True"
| "is_result _ = False"

definition results :: "tracer \<Rightarrow> log_line list" where
  "results t = filter is_result (trace_out t)"

text \<open>What the end of a process depends on.\<close>

definition final_state :: "tracer \<Rightarrow> bool \<times> bool \<times> log_line list" where
  "final_state t = (trace_enabled t, printed_final t, results t)"

lemma final_state_log:
  "final_state (trace_log l t) =
     (trace_enabled t, printed_final t, results t @ (if trace_enabled t \<and> is_result l then [l] else []))"
  by (simp add: final_state_def results_def trace_log_def)

lemma final_state_log_other [simp]: "\<not> is_result l \<Longrightarrow> final_state (trace_log l t) = final_state t"
  by (simp add: final_state_log) (simp add: final_state_def)

lemma final_state_cong:
  "trace_enabled t = trace_enabled u \<Longrightarrow> printed_final t = printed_final u \<Longrightarrow>
     trace_out t = trace_out u \<Longrightarrow> final_state t = final_state u"
  by (simp add: final_state_def results_def)

lemma final_state_files [simp]:
  "final_state (remove_fd fd t) = final_state t" "final_state (add_refs g d t) = final_state t"
  "final_state (set_offset g n t) = final_state t" "final_state (add_fd fd s g t) = final_state t"
  "final_state (snd (new_group t)) = final_state t"
  "final_state (t\<lparr>open_hits := w\<rparr>) = final_state t"
  "final_state (t\<lparr>reads_after_patch := w\<rparr>) = final_state t"
  "final_state (t\<lparr>reads_before_patch := w\<rparr>) = final_state t"
  "final_state (t\<lparr>basic_blocks := bs\<rparr>) = final_state t"
  "final_state (t\<lparr>func_hits := bs\<rparr>) = final_state t"
  "final_state (flush_pending_patch t) = final_state t"
  "final_state (exec_step e t) = final_state t"
  by (rule final_state_cong;
      simp add: remove_fd_def add_refs_def set_offset_def add_fd_def new_group_def split: option.split)+

lemma final_state_open [simp]: "final_state (note_open seekable fd p t) = final_state t"
  by (simp add: note_open_def Let_def split_def)

lemma final_state_alias: "note_alias a b f c t = Some u \<Longrightarrow> final_state u = final_state t"
  by (auto simp: note_alias_def Let_def split: option.splits if_splits)

lemma final_state_close [simp]: "final_state (note_close fd r t) = final_state t"
  by (simp add: note_close_def Let_def split: option.split)

lemma final_state_lseek [simp]: "final_state (note_lseek fd off w r t) = final_state t"
  by (simp add: note_lseek_def Let_def split: option.split)

lemma final_state_read: "note_read fd n t = Some u \<Longrightarrow> final_state u = final_state t"
  by (auto simp: note_read_def Let_def split: option.splits if_splits)

lemma final_state_syscall:
  "post_syscall seekable guest num ret a b c t = Some u \<Longrightarrow> final_state u = final_state t"
  by (cases num)
    (auto simp: post_syscall_def final_state_alias final_state_read split: option.splits if_splits)

section \<open>Reports\<close>

lemma final_state_fold_log:
  "\<forall>x \<in> set xs. \<not> is_result (f x) \<Longrightarrow> final_state (fold (\<lambda>x. trace_log (f x)) xs t) = final_state t"
  by (induction xs arbitrary: t) simp_all

lemma final_state_stack_lines: "final_state (snd (stack_lines resolve fs i fault t)) = final_state t"
  by (induction resolve fs i fault t rule: stack_lines.induct) (simp add: Let_def)+

lemma final_state_stacktrace [simp]: "final_state (print_stacktrace resolve pc addr t) = final_state t"
  by (simp add: print_stacktrace_def Let_def split_def final_state_stack_lines split: option.split)

lemma final_state_final_common [simp]: "final_state (print_final_common t) = final_state t"
  by (simp add: print_final_common_def print_bb_summary_def print_file_summary_def
      print_patch_summary_def Let_def split_def final_state_fold_log)

lemma final_state_marked:
  "final_state t = (True, True, rs) \<Longrightarrow>
     final_state (trace_log l t) = (True, True, rs @ (if is_result l then [l] else []))"
  by (simp add: final_state_log) (simp add: final_state_def)

lemma crash_result:
  "final_state t = (True, True, rs) \<Longrightarrow>
     final_state (print_crash_common resolve pc addr sig t) = (True, True, rs @ [L_exit ''crash''])"
  by (simp add: print_crash_common_def Let_def final_state_marked)

lemma exit_result:
  assumes "trace_enabled t" "\<not> printed_final t"
  shows "final_state (report_exit code t) = (True, True, results t @ [L_exit ''ok''])"
proof -
  have "final_state (t\<lparr>printed_final := True\<rparr>) = (True, True, results t)"
    using assms by (simp add: final_state_def results_def)
  then show ?thesis using assms by (simp add: report_exit_def Let_def final_state_marked)
qed

lemma report_final:
  assumes "ends_process e" "tracer_step seekable guest resolve e t = Some u" "trace_enabled t"
  shows "trace_enabled u \<and> printed_final u \<and>
    (if printed_final t then results u = results t else \<exists>r. results u = results t @ [L_exit r])"
proof (cases "printed_final t")
  case True
  then have "u = t"
    using assms by (cases e) (auto simp: report_exit_def report_signal_def report_qasan_crash_def)
  with True assms show ?thesis by simp
next
  case False
  have "final_state (t\<lparr>printed_final := True\<rparr>) = (True, True, results t)"
    using assms(3) by (simp add: final_state_def results_def)
  then have "\<exists>r. final_state u = (True, True, results t @ [L_exit r])"
    using assms False
    by (cases e) (auto simp: report_signal_def report_qasan_crash_def exit_result crash_result)
  with False show ?thesis by (auto simp: final_state_def)
qed

lemma step_final:
  assumes "\<not> ends_process e" "tracer_step seekable guest resolve e t = Some u"
  shows "final_state u = final_state t"
proof (cases e)
  case (Sys c)
  with assms show ?thesis by (cases c) (simp add: final_state_syscall)
qed (use assms in auto)

lemma run_final:
  assumes "tracer_run seekable guest resolve es t = Some u" "trace_enabled t"
  shows "if printed_final t \<or> \<not> list_ex ends_process es then results u = results t
    else \<exists>r. results u = results t @ [L_exit r]"
  using assms
proof (induction es arbitrary: t)
  case (Cons e es)
  then obtain v where v: "tracer_step seekable guest resolve e t = Some v"
    "tracer_run seekable guest resolve es v = Some u"
    by (auto split: option.splits)
  show ?case
  proof (cases "ends_process e")
    case True
    from report_final [OF True v(1) Cons.prems(2)] Cons.IH [OF v(2)] True show ?thesis
      by (auto split: if_splits)
  next
    case False
    from step_final [OF False v(1)] Cons.IH [OF v(2)] Cons.prems(2) False show ?thesis
      by (auto simp: final_state_def split: if_splits)
  qed
qed simp

section \<open>Property\<close>

text \<open>
  C18. A traced process reports its result once: in a run of instructions, blocks, calls, returns
  and system calls with any number of exits, signals and sanitizer reports, the log gets exactly
  one result line when at least one of the three happens, and none otherwise.
\<close>

theorem one_result_per_run:
  assumes "tracer_run seekable guest resolve es t = Some u"
    and "trace_enabled t" "\<not> printed_final t" "results t = []"
  shows "length (results u) = (if list_ex ends_process es then 1 else 0)"
  using run_final [OF assms(1, 2)] assms(3, 4) by (auto split: if_splits)

theorem one_result_per_run_witness:
  "\<exists>u. tracer_run (\<lambda>_. True) (\<lambda>_. None) (\<lambda>_. []) [Exec (Block 16), Signal 16 11, Exit 1] traced_blocks = Some u \<and>
     length (results u) = 1"
proof -
  let ?u = "report_exit 1 (report_signal (\<lambda>_. []) 16 11 (record_bb 16 traced_blocks))"
  have run: "tracer_run (\<lambda>_. True) (\<lambda>_. None) (\<lambda>_. []) [Exec (Block 16), Signal 16 11, Exit 1] traced_blocks = Some ?u"
    by simp
  moreover have "length (results ?u) = 1"
    using one_result_per_run [OF run traced_blocks_simps(5)]
    by (simp add: traced_blocks_def initial_tracer_def results_def)
  ultimately show ?thesis by blast
qed

end
