(* ===== verification/MD5.thy ===== *)
theory MD5
  imports Prelude
begin

text \<open>
  The digest of \<^verbatim>\<open>src/solver/fuzzy-sat/lib/md5.c\<close>, by which the search recognises inputs it has
  tried. Buffers are lists of bytes; a write or a read outside of a buffer is \<open>None\<close>.
\<close>

section \<open>Tables\<close>

abbreviation (input) S11 :: nat where "S11 \<equiv> 7"
abbreviation (input) S12 :: nat where "S12 \<equiv> 12"
abbreviation (input) S13 :: nat where "S13 \<equiv> 17"
abbreviation (input) S14 :: nat where "S14 \<equiv> 22"
abbreviation (input) S21 :: nat where "S21 \<equiv> 5"
abbreviation (input) S22 :: nat where "S22 \<equiv> 9"
abbreviation (input) S23 :: nat where "S23 \<equiv> 14"
abbreviation (input) S24 :: nat where "S24 \<equiv> 20"
abbreviation (input) S31 :: nat where "S31 \<equiv> 4"
abbreviation (input) S32 :: nat where "S32 \<equiv> 11"
abbreviation (input) S33 :: nat where "S33 \<equiv> 16"
abbreviation (input) S34 :: nat where "S34 \<equiv> 23"
abbreviation (input) S41 :: nat where "S41 \<equiv> 6"
abbreviation (input) S42 :: nat where "S42 \<equiv> 10"
abbreviation (input) S43 :: nat where "S43 \<equiv> 15"
abbreviation (input) S44 :: nat where "S44 \<equiv> 21"

datatype Table = Table (tab_sin: u32) (tab_x: nat) (tab_rot: nat)

definition tab :: "Table list" where
  "tab =
    [Table 0xd76aa478 0 S11, Table 0xe8c7b756 1 S12, Table 0x242070db 2 S13, Table 0xc1bdceee 3 S14,
     Table 0xf57c0faf 4 S11, Table 0x4787c62a 5 S12, Table 0xa8304613 6 S13, Table 0xfd469501 7 S14,
     Table 0x698098d8 8 S11, Table 0x8b44f7af 9 S12, Table 0xffff5bb1 10 S13, Table 0x895cd7be 11 S14,
     Table 0x6b901122 12 S11, Table 0xfd987193 13 S12, Table 0xa679438e 14 S13, Table 0x49b40821 15 S14,
     Table 0xf61e2562 1 S21, Table 0xc040b340 6 S22, Table 0x265e5a51 11 S23, Table 0xe9b6c7aa 0 S24,
     Table 0xd62f105d 5 S21, Table 0x2441453 10 S22, Table 0xd8a1e681 15 S23, Table 0xe7d3fbc8 4 S24,
     Table 0x21e1cde6 9 S21, Table 0xc33707d6 14 S22, Table 0xf4d50d87 3 S23, Table 0x455a14ed 8 S24,
     Table 0xa9e3e905 13 S21, Table 0xfcefa3f8 2 S22, Table 0x676f02d9 7 S23, Table 0x8d2a4c8a 12 S24,
     Table 0xfffa3942 5 S31, Table 0x8771f681 8 S32, Table 0x6d9d6122 11 S33, Table 0xfde5380c 14 S34,
     Table 0xa4beea44 1 S31, Table 0x4bdecfa9 4 S32, Table 0xf6bb4b60 7 S33, Table 0xbebfbc70 10 S34,
     Table 0x289b7ec6 13 S31, Table 0xeaa127fa 0 S32, Table 0xd4ef3085 3 S33, Table 0x4881d05 6 S34,
     Table 0xd9d4d039 9 S31, Table 0xe6db99e5 12 S32, Table 0x1fa27cf8 15 S33, Table 0xc4ac5665 2 S34,
     Table 0xf4292244 0 S41, Table 0x432aff97 7 S42, Table 0xab9423a7 14 S43, Table 0xfc93a039 5 S44,
     Table 0x655b59c3 12 S41, Table 0x8f0ccc92 3 S42, Table 0xffeff47d 10 S43, Table 0x85845dd1 1 S44,
     Table 0x6fa87e4f 8 S41, Table 0xfe2ce6e0 15 S42, Table 0xa3014314 6 S43, Table 0x4e0811a1 13 S44,
     Table 0xf7537e82 4 S41, Table 0xbd3af235 11 S42, Table 0x2ad7d2bb 2 S43, Table 0xeb86d391 9 S44]"

record MD5state =
  md5_len :: u32
  md5_words :: "u32 list"

section \<open>Encoding\<close>

text \<open>\<open>off\<close> is the position of the pointer in its buffer; the length is four times the number of words.\<close>

fun encode :: "u8 list \<Rightarrow> nat \<Rightarrow> u32 list \<Rightarrow> u8 list option" where
  "encode out off [] = Some out"
| "encode out off (x # xs) = (if off + 4 \<le> length out
     then encode (out[off := ucast x, off + 1 := ucast (drop_bit 8 x), off + 2 := ucast (drop_bit 16 x),
                      off + 3 := ucast (drop_bit 24 x)]) (off + 4) xs
     else None)"

fun decode :: "u8 list \<Rightarrow> nat \<Rightarrow> nat \<Rightarrow> u32 list option" where
  "decode inp off 0 = Some []"
| "decode inp off (Suc n) = (if off + 4 \<le> length inp
     then case decode inp (off + 4) n of None \<Rightarrow> None
       | Some xs \<Rightarrow> Some ((ucast (inp ! off) OR push_bit 8 (ucast (inp ! (off + 1))) OR
           push_bit 16 (ucast (inp ! (off + 2))) OR push_bit 24 (ucast (inp ! (off + 3)))) # xs)
     else None)"

section \<open>Rounds\<close>

type_synonym abcd = "u32 \<times> u32 \<times> u32 \<times> u32"

definition md5_round :: "u32 list \<Rightarrow> nat \<Rightarrow> abcd \<Rightarrow> abcd" where
  "md5_round x i s = (case s of (a, b, c, d) \<Rightarrow>
     let t = tab ! i;
         a = a + (if i div 16 = 0 then (b AND c) OR (NOT b AND d)
                  else if i div 16 = 1 then (b AND d) OR (c AND NOT d)
                  else if i div 16 = 2 then b XOR c XOR d
                  else c XOR (b OR NOT d));
         a = a + (x ! tab_x t + tab_sin t);
         a = push_bit (tab_rot t) a OR drop_bit (32 - tab_rot t) a;
         a = a + b
     in (d, a, b, c))"

definition md5_block :: "u32 list \<Rightarrow> u32 list \<Rightarrow> u32 list" where
  "md5_block x s = (let (a, b, c, d) = fold (md5_round x) [0..<64] (s ! 0, s ! 1, s ! 2, s ! 3)
     in [s ! 0 + a, s ! 1 + b, s ! 2 + c, s ! 3 + d])"

function md5_blocks :: "u8 list \<Rightarrow> nat \<Rightarrow> nat \<Rightarrow> u32 list \<Rightarrow> u32 list option" where
  "md5_blocks p pos stop s = (if pos < stop
     then case decode p pos 16 of None \<Rightarrow> None
       | Some x \<Rightarrow> md5_blocks p (pos + 64) stop (md5_block x s)
     else Some s)"
  by auto
termination by (relation "measure (\<lambda>(p, pos, stop, s). stop - pos)") auto

declare md5_blocks.simps [simp del]

definition md5_pad :: "u32 \<Rightarrow> u32" where
  "md5_pad len = (let i = len AND 0x3f in if i < 56 then 56 - i else 120 - i)"

definition memset_pad :: "u8 list \<Rightarrow> nat \<Rightarrow> nat \<Rightarrow> u8 list option" where
  "memset_pad p len i = (if len + i \<le> length p
     then Some (if i > 0 then take len p @ 0x80 # replicate (i - 1) 0 @ drop (len + i) p else p)
     else None)"

text \<open>The state and the digest are returned; the digest is as before when the code writes none.\<close>

definition md5_update :: "u8 list \<Rightarrow> u32 \<Rightarrow> u8 list \<Rightarrow> MD5state \<Rightarrow> (MD5state \<times> u8 list) option" where
  "md5_update p len digest s =
    (let s = s\<lparr>md5_len := md5_len s + len\<rparr> in
     if len AND 0x3f \<noteq> 0 \<or> len = 0
     then case memset_pad p (unat len) (unat (md5_pad len)) of None \<Rightarrow> None
       | Some p \<Rightarrow> let len = len + md5_pad len in
         case encode p (unat len) [push_bit 3 (md5_len s), drop_bit 29 (md5_len s)] of None \<Rightarrow> None
         | Some p \<Rightarrow> (case md5_blocks p 0 (unat len) (md5_words s) of None \<Rightarrow> None
           | Some ws \<Rightarrow> (case encode digest 0 ws of None \<Rightarrow> None
             | Some digest \<Rightarrow> Some (s\<lparr>md5_words := ws\<rparr>, digest)))
     else case md5_blocks p 0 (unat len) (md5_words s) of None \<Rightarrow> None
       | Some ws \<Rightarrow> Some (s\<lparr>md5_words := ws\<rparr>, digest))"

text \<open>The contents of the fresh copy beyond the message are unspecified: \<open>junk\<close>.\<close>

definition md5 :: "(nat \<Rightarrow> u8) \<Rightarrow> u8 list \<Rightarrow> u32 \<Rightarrow> u8 list \<Rightarrow> u8 list option" where
  "md5 junk p len digest =
    (let copy_p = map junk [0..<unat (len + 64)] in
     if unat len \<le> length p \<and> unat len \<le> length copy_p
     then map_option snd (md5_update (take (unat len) p @ drop (unat len) copy_p) len digest
       \<lparr>md5_len = 0, md5_words = [0x67452301, 0xefcdab89, 0x98badcfe, 0x10325476]\<rparr>)
     else None)"

end
