(* ===== verification/MD5_Spec.thy ===== *)
theory MD5_Spec
  imports MD5
begin

text \<open>
  The algorithm of RFC 1321 as a function on messages, and for which lengths of the message
  \<^verbatim>\<open>md5\<close> computes it.
\<close>

section \<open>The algorithm of the RFC\<close>

definition rfc_sine :: "u32 list" where
  "rfc_sine =
    [0xd76aa478, 0xe8c7b756, 0x242070db, 0xc1bdceee, 0xf57c0faf, 0x4787c62a, 0xa8304613, 0xfd469501,
     0x698098d8, 0x8b44f7af, 0xffff5bb1, 0x895cd7be, 0x6b901122, 0xfd987193, 0xa679438e, 0x49b40821,
     0xf61e2562, 0xc040b340, 0x265e5a51, 0xe9b6c7aa, 0xd62f105d, 0x2441453, 0xd8a1e681, 0xe7d3fbc8,
     0x21e1cde6, 0xc33707d6, 0xf4d50d87, 0x455a14ed, 0xa9e3e905, 0xfcefa3f8, 0x676f02d9, 0x8d2a4c8a,
     0xfffa3942, 0x8771f681, 0x6d9d6122, 0xfde5380c, 0xa4beea44, 0x4bdecfa9, 0xf6bb4b60, 0xbebfbc70,
     0x289b7ec6, 0xeaa127fa, 0xd4ef3085, 0x4881d05, 0xd9d4d039, 0xe6db99e5, 0x1fa27cf8, 0xc4ac5665,
     0xf4292244, 0x432aff97, 0xab9423a7, 0xfc93a039, 0x655b59c3, 0x8f0ccc92, 0xffeff47d, 0x85845dd1,
     0x6fa87e4f, 0xfe2ce6e0, 0xa3014314, 0x4e0811a1, 0xf7537e82, 0xbd3af235, 0x2ad7d2bb, 0xeb86d391]"

definition rfc_aux :: "nat \<Rightarrow> u32 \<Rightarrow> u32 \<Rightarrow> u32 \<Rightarrow> u32" where
  "rfc_aux i x y z = (if i < 16 then (x AND y) OR (NOT x AND z)
     else if i < 32 then (x AND z) OR (y AND NOT z)
     else if i < 48 then x XOR y XOR z else y XOR (x OR NOT z))"

definition rfc_index :: "nat \<Rightarrow> nat" where
  "rfc_index i = (if i < 16 then i else if i < 32 then (5 * i + 1) mod 16
     else if i < 48 then (3 * i + 5) mod 16 else 7 * i mod 16)"

definition rfc_shift :: "nat \<Rightarrow> nat" where
  "rfc_shift i = (if i < 16 then [7, 12, 17, 22] else if i < 32 then [5, 9, 14, 20]
     else if i < 48 then [4, 11, 16, 23] else [6, 10, 15, 21]) ! (i mod 4)"

definition rfc_round :: "u32 list \<Rightarrow> nat \<Rightarrow> abcd \<Rightarrow> abcd" where
  "rfc_round x i s = (case s of (a, b, c, d) \<Rightarrow>
     (d, b + word_rotl (rfc_shift i) (a + rfc_aux i b c d + x ! rfc_index i + rfc_sine ! i), b, c))"

definition rfc_block :: "u32 list \<Rightarrow> abcd \<Rightarrow> abcd" where
  "rfc_block x s = (case (s, fold (rfc_round x) [0..<64] s) of
     ((a, b, c, d), (a', b', c', d')) \<Rightarrow> (a + a', b + b', c + c', d + d'))"

definition le_bytes :: "nat \<Rightarrow> 'a::len word \<Rightarrow> u8 list" where
  "le_bytes n w = map (\<lambda>k. ucast (drop_bit (8 * k) w)) [0..<n]"

fun chunks :: "nat \<Rightarrow> nat \<Rightarrow> 'a list \<Rightarrow> 'a list list" where
  "chunks n 0 xs = []"
| "chunks n (Suc k) xs = take n xs # chunks n k (drop n xs)"

definition le_words :: "u8 list \<Rightarrow> u32 list" where
  "le_words bs = map (\<lambda>b. word_rcat (rev b)) (chunks 4 (length bs div 4) bs)"

definition padded :: "u8 list \<Rightarrow> u8 list" where
  "padded m = m @ 0x80 # replicate ((119 - length m mod 64) mod 64) 0 @
     le_bytes 8 (word_of_nat (8 * length m) :: u64)"

definition rfc_md5 :: "u8 list \<Rightarrow> u8 list" where
  "rfc_md5 m = (let p = padded m;
     (a, b, c, d) = fold rfc_block (map le_words (chunks 64 (length p div 64) p))
       (0x67452301, 0xefcdab89, 0x98badcfe, 0x10325476)
     in concat (map (le_bytes 4) [a, b, c, d]))"

section \<open>Rounds\<close>

lemma rotl_shifts:
  assumes "0 < n" "n < 32"
  shows "push_bit n a OR drop_bit (32 - n) a = word_rotl n (a :: u32)"
proof (rule bit_word_eqI)
  fix k assume "k < LENGTH(32)"
  with assms show "bit (push_bit n a OR drop_bit (32 - n) a) k \<longleftrightarrow> bit (word_rotl n a) k"
    by (cases "k < n") (auto simp: bit_simps mod_if add.commute [of k] dest: bit_imp_le_length)
qed

lemma tab_entry:
  assumes "i < 64"
  shows "tab_sin (tab ! i) = rfc_sine ! i \<and> tab_x (tab ! i) = rfc_index i \<and>
    tab_rot (tab ! i) = rfc_shift i \<and> 0 < rfc_shift i \<and> rfc_shift i < 32"
proof -
  have "list_all (\<lambda>i. tab_sin (tab ! i) = rfc_sine ! i \<and> tab_x (tab ! i) = rfc_index i \<and>
    tab_rot (tab ! i) = rfc_shift i \<and> 0 < rfc_shift i \<and> rfc_shift i < 32) [0..<64]"
    by code_simp
  with assms show ?thesis by (simp add: list_all_iff)
qed

lemma md5_round_rfc:
  assumes "i < 64"
  shows "md5_round x i s = rfc_round x i s"
proof -
  obtain a b c d where s: "s = (a, b, c, d)" by (cases s)
  have aux: "(if i div 16 = 0 then (b AND c) OR (NOT b AND d)
      else if i div 16 = 1 then (b AND d) OR (c AND NOT d)
      else if i div 16 = 2 then b XOR c XOR d else c XOR (b OR NOT d)) = rfc_aux i b c d"
    using assms by (auto simp: rfc_aux_def)
  show ?thesis
    unfolding md5_round_def rfc_round_def s Let_def prod.case aux
    using tab_entry [OF assms] by (simp add: rotl_shifts algebra_simps)
qed

lemma md5_block_rfc:
  "md5_block x [a, b, c, d] =
     (case rfc_block x (a, b, c, d) of (a, b, c, d) \<Rightarrow> [a, b, c, d])"
proof -
  have "fold (md5_round x) [0..<64] s = fold (rfc_round x) [0..<64] s" for s
    by (intro fold_cong) (simp_all add: md5_round_rfc fun_eq_iff)
  then show ?thesis
    by (simp add: md5_block_def rfc_block_def split_def Let_def)
qed

section \<open>Buffers\<close>

lemma update_four:
  assumes "off + 4 \<le> length xs"
  shows "xs[off := a, off + 1 := b, off + 2 := c, off + 3 := d] =
    take off xs @ [a, b, c, d] @ drop (off + 4) xs"
proof -
  obtain p q r t where "take 4 (drop off xs) = [p, q, r, t]"
  proof -
    have "length (take 4 (drop off xs)) = Suc (Suc (Suc (Suc 0)))" using assms by simp
    then show thesis using that by (auto simp only: length_Suc_conv length_0_conv)
  qed
  then have "xs = take off xs @ [p, q, r, t] @ drop (off + 4) xs"
    by (metis append_take_drop_id drop_drop add.commute)
  then obtain pre post where "xs = pre @ [p, q, r, t] @ post" "length pre = off"
    using assms by (metis length_take min_absorb2 add_leD1)
  then show ?thesis by (simp add: list_update_append)
qed

lemma le_bytes_4: "le_bytes 4 x = [ucast x, ucast (drop_bit 8 x), ucast (drop_bit 16 x), ucast (drop_bit 24 x)]"
  by (simp add: le_bytes_def upt_rec [of _ 4])

lemma encode_eq:
  "off + 4 * length xs \<le> length out \<Longrightarrow>
     encode out off xs = Some (take off out @ concat (map (le_bytes 4) xs) @ drop (off + 4 * length xs) out)"
proof (induction out off xs rule: encode.induct)
  case (2 out off x xs)
  then have l: "off + 4 \<le> length out" by simp
  let ?o = "take off out @ le_bytes 4 x @ drop (off + 4) out"
  have "out[off := ucast x, off + 1 := ucast (drop_bit 8 x), off + 2 := ucast (drop_bit 16 x),
      off + 3 := ucast (drop_bit 24 x)] = ?o"
    unfolding le_bytes_4 by (rule update_four [OF l])
  moreover have "length ?o = length out"
    using l by (simp add: le_bytes_def)
  moreover have "take (off + 4) ?o = take off out @ le_bytes 4 x"
    using l by (simp add: le_bytes_def)
  moreover have "drop (off + 4 + 4 * length xs) ?o = drop (off + 4 + 4 * length xs) out"
    using l by (simp add: le_bytes_def add.commute)
  ultimately show ?case
    using 2 l by (simp add: add.assoc)
qed simp

lemma encode_short:
  "off + 4 * length xs > length out \<Longrightarrow> xs \<noteq> [] \<Longrightarrow> encode out off xs = None"
proof (induction out off xs rule: encode.induct)
  case (2 out off x xs)
  then show ?case by (cases xs) auto
qed simp

lemma or_high: "(ucast (a :: u8) :: u32) OR push_bit 8 y = ucast a + 256 * y"
proof -
  have "ucast a + push_bit 8 y = (ucast a :: u32) OR push_bit 8 y"
    by (rule disjunctive_add_eq_or) (auto simp: bit_eq_iff bit_simps dest: bit_imp_le_length)
  then show ?thesis by (simp add: push_bit_eq_mult mult.commute)
qed

lemma word_of_bytes:
  "ucast a OR push_bit 8 (ucast b) OR push_bit 16 (ucast c) OR push_bit 24 (ucast d) =
     (word_rcat [d, c, b, a :: u8] :: u32)"
proof -
  have "ucast a OR push_bit 8 (ucast b) OR push_bit 16 (ucast c) OR push_bit 24 (ucast d) =
      (ucast a :: u32) OR push_bit 8 (ucast b OR push_bit 8 (ucast c OR push_bit 8 (ucast d)))"
    by (simp add: push_bit_or)
  also have "\<dots> = word_rcat [d, c, b, a]"
    unfolding or_high by (simp add: word_rcat_def push_bit_eq_mult algebra_simps)
  finally show ?thesis by (simp add: or.assoc)
qed

lemma decode_eq:
  "off + 4 * n \<le> length inp \<Longrightarrow>
     decode inp off n = Some (map (\<lambda>b. word_rcat (rev b)) (chunks 4 n (drop off inp)))"
proof (induction inp off n rule: decode.induct)
  case (2 inp off n)
  have "take 4 (drop off inp) = [inp ! off, inp ! (off + 1), inp ! (off + 2), inp ! (off + 3)]"
    using "2.prems" by (intro nth_equalityI) (auto simp: less_Suc_eq numeral_eq_Suc)
  with 2 show ?case by (simp add: word_of_bytes add.commute)
qed simp

lemma chunks_take: "chunks n k (take (n * k) xs) = chunks n k xs"
  by (induction k arbitrary: xs) (simp_all add: min_def drop_take)

lemma le_words_take:
  assumes "64 \<le> length xs"
  shows "le_words (take 64 xs) = map (\<lambda>b. word_rcat (rev b)) (chunks 4 16 xs)"
  using assms chunks_take [of 4 16 xs] by (simp add: le_words_def)

abbreviation (input) as_list :: "abcd \<Rightarrow> u32 list" where
  "as_list s \<equiv> (case s of (a, b, c, d) \<Rightarrow> [a, b, c, d])"

lemma md5_blocks_eq:
  "pos + 64 * k \<le> length p \<Longrightarrow> stop \<le> pos + 64 * k \<Longrightarrow> k = 0 \<or> pos + 64 * (k - 1) < stop \<Longrightarrow>
     md5_blocks p pos stop (as_list s) =
       Some (as_list (fold rfc_block (map le_words (chunks 64 k (drop pos p))) s))"
proof (induction k arbitrary: pos s)
  case (Suc k)
  obtain a b c d where s: "s = (a, b, c, d)" by (cases s)
  let ?x = "le_words (take 64 (drop pos p))"
  have x: "decode p pos 16 = Some ?x"
    using Suc.prems by (simp add: decode_eq le_words_take)
  have "pos < stop" using Suc.prems by simp
  then have "md5_blocks p pos stop [a, b, c, d] =
      md5_blocks p (pos + 64) stop (as_list (rfc_block ?x s))"
    by (subst md5_blocks.simps) (simp add: x md5_block_rfc s)
  also have "\<dots> = Some (as_list (fold rfc_block (map le_words (chunks 64 k (drop (pos + 64) p)))
      (rfc_block ?x s)))"
    using Suc.prems by (intro Suc.IH) auto
  finally show ?case by (simp add: s add.commute)
qed (simp add: split_def md5_blocks.simps)

lemma unat_low6: "unat (len AND 0x3f :: u32) = unat len mod 64"
proof -
  have "len AND 0x3f = take_bit 6 len"
    by (simp add: take_bit_eq_mask mask_eq_exp_minus_1)
  then show ?thesis by (simp add: take_bit_eq_mod unat_mod_distrib)
qed

lemma unat_md5_pad:
  "unat (md5_pad len) = (if unat len mod 64 < 56 then 56 - unat len mod 64 else 120 - unat len mod 64)"
proof -
  let ?i = "len AND 0x3f"
  have i: "unat ?i = unat len mod 64" by (rule unat_low6)
  have "?i \<le> 120" "?i < 56 \<longleftrightarrow> unat len mod 64 < 56"
    using i mod_less_divisor [of 64 "unat len"] by (simp_all add: word_le_nat_alt word_less_nat_alt)
  then show ?thesis
    using i by (simp add: md5_pad_def Let_def unat_sub word_le_nat_alt word_less_nat_alt)
qed

lemma count_bytes:
  assumes "n < 2 ^ 32"
  shows "le_bytes 8 (word_of_nat (8 * n) :: u64) =
    le_bytes 4 (push_bit 3 (word_of_nat n :: u32)) @ le_bytes 4 (drop_bit 29 (word_of_nat n :: u32))"
proof -
  let ?w = "word_of_nat n :: u32"
  have "(word_of_nat n :: u64) = ucast ?w"
    using assms by (simp add: unsigned_of_nat take_bit_nat_eq_self)
  then have w: "(word_of_nat (8 * n) :: u64) = push_bit 3 (ucast ?w)"
    by (simp add: push_bit_eq_mult mult.commute)
  have low: "(ucast (drop_bit (8 * k) (push_bit 3 (ucast ?w :: u64))) :: u8) = ucast (drop_bit (8 * k) (push_bit 3 ?w))"
    if "k < 4" for k
    using that by (intro bit_word_eqI) (auto simp: bit_simps)
  have high: "(ucast (drop_bit (8 * (4 + k)) (push_bit 3 (ucast ?w :: u64))) :: u8) = ucast (drop_bit (8 * k) (drop_bit 29 ?w))"
    if "k < 4" for k
    using that by (intro bit_word_eqI) (auto simp: bit_simps algebra_simps)
  show ?thesis
    unfolding w le_bytes_def
    using low [of 0] low [of 1] low [of 2] low [of 3] high [of 0] high [of 1] high [of 2] high [of 3]
    by (simp add: upt_rec [of _ 8] upt_rec [of _ 4])
qed

section \<open>Whole messages\<close>

lemma len_zero: "(len :: u32) AND 0x3f \<noteq> 0 \<longleftrightarrow> unat len mod 64 \<noteq> 0"
  using unat_low6 [of len] by (metis unat_eq_0)

text \<open>The buffer after padding, and how long it has to be.\<close>

definition copy_of :: "(nat \<Rightarrow> u8) \<Rightarrow> u8 list \<Rightarrow> u8 list" where
  "copy_of junk m = m @ map junk [length m..<length m + 64]"

lemma copy_of_length [simp]: "length (copy_of junk m) = length m + 64"
  by (simp add: copy_of_def)

lemma md5_copy:
  assumes "length m + 64 < 2 ^ 32"
  shows "md5 junk m (word_of_nat (length m)) digest =
    map_option snd (md5_update (copy_of junk m) (word_of_nat (length m)) digest
      \<lparr>md5_len = 0, md5_words = [0x67452301, 0xefcdab89, 0x98badcfe, 0x10325476]\<rparr>)"
proof -
  let ?l = "word_of_nat (length m) :: u32"
  have "unat ?l = length m" "unat (?l + 64) = length m + 64"
    using assms by (simp_all add: unat_word_ariths unsigned_of_nat take_bit_nat_eq_self)
  then show ?thesis
    by (simp add: md5_def Let_def copy_of_def drop_map drop_upt)
qed

lemma padded_buffer:
  assumes "length m mod 64 < 56" "length m < 2 ^ 32"
  defines "n \<equiv> 56 - length m mod 64"
  shows "\<exists>p rest. memset_pad (copy_of junk m) (length m) n = Some p \<and>
    encode p (length m + n) [push_bit 3 (word_of_nat (length m)), drop_bit 29 (word_of_nat (length m))] =
      Some (padded m @ rest) \<and> length (padded m) = length m + n + 8"
proof -
  have e: "119 - length m mod 64 = 64 + (n - 1)" "n - 1 < 64"
    using assms(1) by (simp_all add: n_def)
  have "(119 - length m mod 64) mod 64 = n - 1"
    unfolding e(1) using e(2) by simp
  then have n: "0 < n" "n \<le> 56" "(119 - length m mod 64) mod 64 = n - 1"
    using assms(1) by (simp_all add: n_def)
  define q where "q = (0x80 :: u8) # replicate (n - 1) 0"
  define j where "j = map junk [length m..<length m + 64]"
  have l: "length q = n" "length j = 64" using n by (simp_all add: q_def j_def)
  have pad: "padded m = m @ q @ le_bytes 4 (push_bit 3 (word_of_nat (length m) :: u32)) @
      le_bytes 4 (drop_bit 29 (word_of_nat (length m) :: u32))"
    using n by (simp only: padded_def q_def count_bytes [OF assms(2)] append_assoc append_Cons)
  have "memset_pad (copy_of junk m) (length m) n = Some (m @ q @ drop n j)"
    using n by (simp add: memset_pad_def copy_of_def q_def j_def)
  moreover have "encode (m @ q @ drop n j) (length m + n)
      [push_bit 3 (word_of_nat (length m)), drop_bit 29 (word_of_nat (length m))] =
      Some (padded m @ drop (n + 8) j)"
    using n l by (subst encode_eq) (simp_all add: pad add.commute)
  moreover have "length (padded m) = length m + n + 8"
    using l by (simp add: pad le_bytes_def)
  ultimately show ?thesis by blast
qed

lemma chunks_append: "length xs = n * k \<Longrightarrow> chunks n k (xs @ ys) = chunks n k xs"
  using chunks_take [of n k "xs @ ys"] by simp

lemma unat_len: "n < 2 ^ 32 \<Longrightarrow> unat (word_of_nat n :: u32) = n"
  by (simp add: unsigned_of_nat take_bit_nat_eq_self)

lemma unat_len_pad:
  assumes "n + 64 < 2 ^ 32"
  shows "unat (word_of_nat n + md5_pad (word_of_nat n) :: u32) =
    n + (if n mod 64 < 56 then 56 - n mod 64 else 120 - n mod 64)"
proof -
  have "unat (word_of_nat n :: u32) = n" using assms by (simp add: unat_len)
  moreover from this have "unat (md5_pad (word_of_nat n)) = (if n mod 64 < 56 then 56 - n mod 64 else 120 - n mod 64)"
    using unat_md5_pad [of "word_of_nat n"] by simp
  moreover have "(if n mod 64 < 56 then 56 - n mod 64 else 120 - n mod 64) \<le> 64" by auto
  ultimately show ?thesis using assms by (simp add: unat_word_ariths)
qed

lemma round_up: "r < 56 \<Longrightarrow> 64 * q + r + (56 - r) + 8 = 64 * (q + 1 :: nat)"
  by simp

section \<open>Properties\<close>

text \<open>
  C19. For an empty message, and for lengths that are 1 to 55 modulo 64, \<^verbatim>\<open>md5\<close> writes the digest of
  RFC 1321, whatever its stack buffer held.
\<close>

theorem md5_computes_rfc:
  assumes "length m mod 64 < 56" "length m mod 64 \<noteq> 0 \<or> m = []" "length m + 64 < 2 ^ 32"
    and "length digest = 16"
  shows "md5 junk m (word_of_nat (length m)) digest = Some (rfc_md5 m)"
proof -
  let ?l = "word_of_nat (length m) :: u32" and ?n = "56 - length m mod 64"
  let ?s = "(0x67452301, 0xefcdab89, 0x98badcfe, 0x10325476)"
  obtain p rest where p: "memset_pad (copy_of junk m) (length m) ?n = Some p"
    "encode p (length m + ?n) [push_bit 3 ?l, drop_bit 29 ?l] = Some (padded m @ rest)"
    "length (padded m) = length m + ?n + 8"
    using padded_buffer [of m junk] assms(1, 3) by auto
  define k where "k = length (padded m) div 64"
  have k: "length (padded m) = 64 * k" "k \<noteq> 0"
  proof -
    have "length (padded m) = 64 * (length m div 64 + 1)"
      using round_up [OF assms(1), of "length m div 64"] p(3) by simp
    then show "length (padded m) = 64 * k" "k \<noteq> 0" by (simp_all add: k_def)
  qed
  let ?t = "fold rfc_block (map le_words (chunks 64 k (padded m))) ?s"
  have "md5_blocks (padded m @ rest) 0 (length m + ?n) (as_list ?s) = Some (as_list ?t)"
    using md5_blocks_eq [of 0 k "padded m @ rest" "length m + ?n" ?s] k p(3)
    by (simp add: chunks_append)
  moreover have "encode digest 0 (as_list ?t) = Some (concat (map (le_bytes 4) (as_list ?t)))"
    using assms(4) by (subst encode_eq) (simp_all add: split_def)
  moreover have "?l AND 0x3f \<noteq> 0 \<or> ?l = 0" "unat ?l = length m"
    "unat (md5_pad ?l) = ?n" "unat (?l + md5_pad ?l) = length m + ?n"
    using assms(1-3) unat_md5_pad [of ?l] unat_len_pad [of "length m"] unat_len [of "length m"]
    by (auto simp: len_zero)
  ultimately show ?thesis
    using p by (simp add: md5_copy [OF assms(3)] md5_update_def rfc_md5_def Let_def k_def split_def
        del: encode.simps)
qed

text \<open>
  For lengths that are 56 to 63 modulo 64, the padding needs up to 72 bytes and \<^verbatim>\<open>md5\<close> has
  64: the count is written past the end of the buffer on the stack.
\<close>

theorem md5_overflows_its_buffer:
  assumes "56 \<le> length m mod 64" "length m + 64 < 2 ^ 32"
  shows "md5 junk m (word_of_nat (length m)) digest = None"
proof -
  let ?l = "word_of_nat (length m) :: u32"
  have u: "unat ?l = length m" using assms(2) by (simp add: unat_len)
  have r: "?l AND 0x3f \<noteq> 0" "unat (md5_pad ?l) = 120 - length m mod 64"
    "unat (?l + md5_pad ?l) = length m + (120 - length m mod 64)"
    using assms unat_md5_pad [of ?l] unat_len_pad [of "length m"] u by (auto simp: len_zero)
  have "encode p (length m + (120 - length m mod 64)) [x, y] = None"
    if "memset_pad (copy_of junk m) (length m) (120 - length m mod 64) = Some p" for p x y
  proof (rule encode_short)
    have "length p = length m + 64"
      using that by (auto simp: memset_pad_def split: if_splits)
    then show "length p < length m + (120 - length m mod 64) + 4 * length [x, y]"
      using mod_less_divisor [of 64 "length m"] by simp
  qed simp
  then show ?thesis
    using r u
    by (simp add: md5_copy [OF assms(2)] md5_update_def Let_def del: encode.simps split: option.split)
qed

text \<open>For a positive multiple of 64 bytes, \<^verbatim>\<open>md5\<close> returns without writing a digest.\<close>

theorem md5_leaves_digest_unset:
  assumes "length m mod 64 = 0" "m \<noteq> []" "length m + 64 < 2 ^ 32"
  shows "md5 junk m (word_of_nat (length m)) digest = Some digest"
proof -
  let ?l = "word_of_nat (length m) :: u32"
  let ?s = "(0x67452301, 0xefcdab89, 0x98badcfe, 0x10325476)"
  have u: "unat ?l = length m" using assms(3) by (simp add: unat_len)
  have "?l AND 0x3f = 0" "?l \<noteq> 0"
    using assms(1, 2) u len_zero [of ?l] by auto
  moreover have "md5_blocks (copy_of junk m) 0 (length m) (as_list ?s) \<noteq> None"
  proof -
    obtain k where k: "length m = 64 * k" using assms(1) by (auto elim: dvdE)
    then have "k \<noteq> 0" using assms(2) by (cases k) auto
    with k show ?thesis
      using md5_blocks_eq [of 0 k "copy_of junk m" "length m" ?s] by simp
  qed
  ultimately show ?thesis
    using u by (auto simp: md5_copy [OF assms(3)] md5_update_def Let_def)
qed

theorem md5_computes_rfc_witness:
  "md5 (\<lambda>_. 7) [97, 98, 99] 3 (replicate 16 0) = Some (rfc_md5 [97, 98, 99])"
  using md5_computes_rfc [of "[97, 98, 99]" "replicate 16 0" "\<lambda>_. 7"] by simp

theorem md5_overflows_its_buffer_witness:
  "md5 (\<lambda>_. 7) (replicate 60 0) 60 (replicate 16 0) = None"
  using md5_overflows_its_buffer [of "replicate 60 0" "\<lambda>_. 7" "replicate 16 0"] by simp

theorem md5_leaves_digest_unset_witness:
  "md5 (\<lambda>_. 7) (replicate 64 0) 64 (replicate 16 0) = Some (replicate 16 0)"
  using md5_leaves_digest_unset [of "replicate 64 0" "\<lambda>_. 7" "replicate 16 0"] by simp

lemma rfc_md5_abc: "rfc_md5 [97, 98, 99] = [0x90, 0x01, 0x50, 0x98, 0x3c, 0xd2, 0x4f, 0xb0,
    0xd6, 0x96, 0x3f, 0x7d, 0x28, 0xe1, 0x7f, 0x72]"
  by code_simp

end
