(* ===== verification/Gradient.thy ===== *)
theory Gradient
  imports Prelude "HOL-Library.Log_Nat"
begin

text \<open>
  The minimiser \<^verbatim>\<open>src/solver/fuzzy-sat/lib/gradient_descend.c\<close>. The function to minimise is a
  parameter: \<open>None\<close> when it asks to exit. Results are a pair of the vector the code was given, as
  the code leaves it, and the value on \<^verbatim>\<open>EXIT_OK\<close>; \<open>None\<close> around it is undefined behaviour or an
  abort. With \<^verbatim>\<open>ALLOW_RANDOM_RESTART\<close> and \<^verbatim>\<open>MAX_RANDOM_INPUT\<close> at 0 no random numbers are drawn.
\<close>

section \<open>Floating point\<close>

text \<open>
  Rounding to the nearest value with \<open>p\<close> significant bits, ties to even. The values of the code
  stay far from the limits of the exponents. \<^verbatim>\<open>double\<close> has 53 bits, \<^verbatim>\<open>long double\<close> 64.
\<close>

definition round_even :: "rat \<Rightarrow> int" where
  "round_even m = (let f = \<lfloor>m\<rfloor>; r = m - of_int f in
     if r < 1 / 2 \<or> r = 1 / 2 \<and> even f then f else f + 1)"

definition exponent :: "rat \<Rightarrow> int" where
  "exponent q = (let (n, d) = quotient_of q;
     k = int (floorlog 2 (nat n)) - int (floorlog 2 (nat d))
     in if 2 powi k \<le> q then k else k - 1)"

definition rnd :: "nat \<Rightarrow> rat \<Rightarrow> rat" where
  "rnd p q = (if q = 0 then 0 else let e = exponent \<bar>q\<bar> - (int p - 1) in
     sgn q * of_int (round_even (\<bar>q\<bar> / 2 powi e)) * 2 powi e)"

abbreviation dbl :: "rat \<Rightarrow> rat" where
  "dbl \<equiv> rnd 53"

definition of_u64 :: "u64 \<Rightarrow> rat" where
  "of_u64 x = of_nat (unat x)"

text \<open>The conversion of a \<^verbatim>\<open>double\<close> to \<^verbatim>\<open>uint64_t\<close>, undefined outside of its range.\<close>

definition to_u64 :: "rat \<Rightarrow> u64 option" where
  "to_u64 q = (if - 1 < q \<and> q < 2 ^ 64 then Some (word_of_int (if q < 0 then 0 else \<lfloor>q\<rfloor>)) else None)"

section \<open>Gradients\<close>

datatype direction = STATIONARY | ASCENDING | DESCENDING

record gradient_el =
  g_value :: u64
  g_direction :: direction
  g_pct :: rat

type_synonym fn = "u64 list \<Rightarrow> u64 option"
type_synonym 'a run = "(u64 list \<times> 'a option) option"

text \<open>Signed subtraction, undefined on overflow.\<close>

definition ssub :: "u64 \<Rightarrow> u64 \<Rightarrow> u64 option" where
  "ssub a b = (if - (2 ^ 63) \<le> sint a - sint b \<and> sint a - sint b < 2 ^ 63 then Some (a - b) else None)"

definition slope :: "u64 \<Rightarrow> u64 \<Rightarrow> u64 \<Rightarrow> (u64 \<times> direction) option" where
  "slope f0 f_plus f_minus =
    (if sint f0 \<le> sint f_minus \<and> sint f0 \<le> sint f_plus then Some (0, STATIONARY)
     else if sint f_plus < sint f0 \<and> sint f0 \<le> sint f_minus
     then map_option (\<lambda>v. (v, DESCENDING)) (ssub f0 f_plus)
     else if sint f_minus < sint f0 \<and> sint f0 \<le> sint f_plus
     then map_option (\<lambda>v. (v, ASCENDING)) (ssub f0 f_minus)
     else if sint f_minus < sint f0 \<and> sint f_plus < sint f0 \<and> sint f_minus < sint f_plus
     then map_option (\<lambda>v. (v, ASCENDING)) (ssub f0 f_minus)
     else if sint f_minus < sint f0 \<and> sint f_plus < sint f0 \<and> sint f_minus \<ge> sint f_plus
     then map_option (\<lambda>v. (v, DESCENDING)) (ssub f0 f_plus)
     else None)"

definition partial_derivative :: "fn \<Rightarrow> u64 \<Rightarrow> u64 list \<Rightarrow> nat \<Rightarrow> (u64 \<times> direction) run" where
  "partial_derivative fn f0 x0 i = (if i \<ge> length x0 then None else
     let original_val = x0 ! i; x0 = x0[i := original_val + 1] in
     case fn x0 of None \<Rightarrow> Some (x0, None)
     | Some f_plus \<Rightarrow> let x0 = x0[i := original_val - 1] in
       case fn x0 of None \<Rightarrow> Some (x0, None)
       | Some f_minus \<Rightarrow> map_option (\<lambda>r. (x0[i := original_val], Some r)) (slope f0 f_plus f_minus))"

text \<open>The loop of \<^verbatim>\<open>compute_gradient\<close> from index \<open>i\<close>, with \<open>k\<close> indices to go.\<close>

fun gradient_from :: "fn \<Rightarrow> u64 \<Rightarrow> u64 list \<Rightarrow> nat \<Rightarrow> nat \<Rightarrow> gradient_el list run" where
  "gradient_from fn f0 x0 i 0 = Some (x0, Some [])"
| "gradient_from fn f0 x0 i (Suc k) = (case partial_derivative fn f0 x0 i of None \<Rightarrow> None
     | Some (x0, None) \<Rightarrow> Some (x0, None)
     | Some (x0, Some (v, d)) \<Rightarrow> (case gradient_from fn f0 x0 (Suc i) k of None \<Rightarrow> None
       | Some (x0, None) \<Rightarrow> Some (x0, None)
       | Some (x0, Some gs) \<Rightarrow>
           Some (x0, Some (\<lparr>g_value = v, g_direction = d, g_pct = 0\<rparr> # gs))))"

definition compute_gradient :: "fn \<Rightarrow> u64 \<Rightarrow> u64 list \<Rightarrow> nat \<Rightarrow> gradient_el list run" where
  "compute_gradient fn f0 x0 n = gradient_from fn f0 x0 0 n"

definition max_gradient :: "gradient_el list \<Rightarrow> u64" where
  "max_gradient grad = fold (\<lambda>g m. if g_value g > m then g_value g else m) grad 0"

text \<open>
  With \<^verbatim>\<open>GD_MOMENTUM_BETA\<close> at 0 the old percentage adds nothing; the quotient is a \<^verbatim>\<open>long double\<close>,
  stored as a \<^verbatim>\<open>double\<close>.
\<close>

definition normalize_gradient :: "gradient_el list \<Rightarrow> gradient_el list" where
  "normalize_gradient grad = (let m = max_gradient grad in
     map (\<lambda>g. g\<lparr>g_pct := dbl (rnd 64 (dbl (of_u64 (g_value g)) / of_u64 m))\<rparr>) grad)"

definition delta_one :: "gradient_el \<Rightarrow> u64 \<Rightarrow> bool \<Rightarrow> u64 \<Rightarrow> u64 option" where
  "delta_one g step descending x =
    (let move = dbl (g_pct g * dbl (of_u64 step)); x' = dbl (of_u64 x) in
     if descending \<and> g_direction g = ASCENDING then to_u64 (dbl (x' - move))
     else if descending \<and> g_direction g = DESCENDING then to_u64 (dbl (x' + move))
     else if \<not> descending \<and> g_direction g = ASCENDING then to_u64 (dbl (x' + move))
     else if \<not> descending \<and> g_direction g = DESCENDING then to_u64 (dbl (x' - move))
     else Some x)"

fun compute_delta_all :: "u64 list \<Rightarrow> gradient_el list \<Rightarrow> u64 \<Rightarrow> bool \<Rightarrow> u64 list option" where
  "compute_delta_all (x # xs) (g # gs) step descending =
    (case delta_one g step descending x of None \<Rightarrow> None
     | Some y \<Rightarrow> map_option (Cons y) (compute_delta_all xs gs step descending))"
| "compute_delta_all xs gs step descending = Some xs"

section \<open>Descent\<close>

text \<open>
  The two loops of \<^verbatim>\<open>descend\<close> that double the step while the value decreases, by how they move:
  whether the function ran to the end, the vector and the value.
\<close>

function line_search :: "fn \<Rightarrow> (u64 \<Rightarrow> u64 list \<Rightarrow> u64 list option) \<Rightarrow> u64 list \<Rightarrow> u64 \<Rightarrow> u64 \<Rightarrow>
    (bool \<times> u64 list \<times> u64) option" where
  "line_search fn move x f_prev step = (case move step x of None \<Rightarrow> None
     | Some x_next \<Rightarrow> case fn x_next of None \<Rightarrow> Some (False, x_next, f_prev)
       | Some f_next \<Rightarrow> if sint f_next \<ge> sint f_prev then Some (True, x, f_prev)
           else line_search fn move x_next f_next (step * 2))"
  by pat_completeness auto
termination
proof (relation "measure (\<lambda>(fn, move, x, f, step). nat (sint f + 2 ^ 63))")
  fix f_prev f_next :: u64
  assume "\<not> sint f_prev \<le> sint f_next"
  moreover have "- (2 ^ 63) \<le> sint f_next" using sint_ge [of f_next] by simp
  ultimately show "((fn, move, x_next, f_next, step * 2), fn, move, x, f_prev, step)
      \<in> measure (\<lambda>(fn, move, x, f, step). nat (sint f + 2 ^ 63))" for fn move x_next x step
    by simp
qed simp

declare line_search.simps [simp del]

definition move_coordinate :: "gradient_el list \<Rightarrow> nat \<Rightarrow> u64 \<Rightarrow> u64 list \<Rightarrow> u64 list option" where
  "move_coordinate grad i step x =
    (case to_u64 (dbl (g_pct (grad ! i) * dbl (of_u64 step))) of None \<Rightarrow> None
     | Some movement \<Rightarrow> (case g_direction (grad ! i) of
         ASCENDING \<Rightarrow> Some (x[i := x ! i - movement])
       | DESCENDING \<Rightarrow> Some (x[i := x ! i + movement])
       | STATIONARY \<Rightarrow> None))"

definition next_index :: "gradient_el list \<Rightarrow> nat \<Rightarrow> nat" where
  "next_index grad i = i + length (takeWhile (\<lambda>g. g_pct g < dbl (1 / 100)) (drop i grad))"

function coordinates :: "fn \<Rightarrow> gradient_el list \<Rightarrow> u64 list \<Rightarrow> u64 \<Rightarrow> nat \<Rightarrow>
    (bool \<times> u64 list \<times> u64) option" where
  "coordinates fn grad x f i = (if i \<ge> length grad then Some (True, x, f)
     else case line_search fn (move_coordinate grad i) x f 1 of None \<Rightarrow> None
       | Some (ok, x, f) \<Rightarrow> if ok then coordinates fn grad x f (next_index grad (Suc i))
           else Some (False, x, f))"
  by pat_completeness auto
termination by (relation "measure (\<lambda>(fn, grad, x, f, i). length grad - i)") (auto simp: next_index_def)

declare coordinates.simps [simp del]

definition descend :: "fn \<Rightarrow> gradient_el list \<Rightarrow> u64 list \<Rightarrow> u64 \<Rightarrow> nat \<Rightarrow>
    (bool \<times> u64 list \<times> u64) option" where
  "descend fn grad x0 f0 n =
    (case line_search fn (\<lambda>step x. compute_delta_all x grad step True) x0 f0 1 of None \<Rightarrow> None
     | Some (ok, x, f) \<Rightarrow> if \<not> ok \<or> n = 1 then Some (ok, x, f)
         else coordinates fn grad x f (next_index grad 0))"

definition MAX_EPOCH :: nat where "MAX_EPOCH = 1000"

text \<open>The loop over epochs, with the number of epochs to go.\<close>

fun epochs :: "fn \<Rightarrow> nat \<Rightarrow> u64 list \<Rightarrow> u64 \<Rightarrow> nat \<Rightarrow> (bool \<times> u64 list \<times> u64) option" where
  "epochs fn n x f 0 = Some (True, x, f)"
| "epochs fn n x f (Suc k) = (case compute_gradient fn f x n of None \<Rightarrow> None
     | Some (x_prev, None) \<Rightarrow> Some (False, x, f)
     | Some (x_prev, Some grad) \<Rightarrow> if max_gradient grad = 0 then Some (True, x, f)
         else case descend fn (normalize_gradient grad) x_prev f n of None \<Rightarrow> None
           | Some (ok, x', f') \<Rightarrow> if \<not> ok then Some (False, x', f')
               else if f = f' then Some (True, x', f')
               else epochs fn n x' f' k)"

text \<open>The vector \<^verbatim>\<open>out_x_min\<close>, and \<^verbatim>\<open>out_f_min\<close> on \<^verbatim>\<open>EXIT_OK\<close>.\<close>

definition gd_minimize :: "fn \<Rightarrow> u64 list \<Rightarrow> nat \<Rightarrow> u64 run" where
  "gd_minimize fn x0 n = (case fn x0 of None \<Rightarrow> Some (x0, None)
     | Some f \<Rightarrow> map_option (\<lambda>(ok, x, f). (x, if ok then Some f else None)) (epochs fn n x0 f MAX_EPOCH))"

section \<open>Single steps\<close>

definition init_tmp_gradient :: "nat \<Rightarrow> nat \<Rightarrow> nat" where
  "init_tmp_gradient n tmp_gradient_size = (if tmp_gradient_size < n then n else tmp_gradient_size)"

text \<open>The static buffer is created for ten variables, unless \<^verbatim>\<open>/dev/urandom\<close> cannot be opened.\<close>

definition gd_init :: "bool \<Rightarrow> nat option" where
  "gd_init opened = (if opened then Some 10 else None)"

definition gd_free :: "nat \<Rightarrow> nat" where
  "gd_free tmp_gradient_size = 0"

definition EXIT_ERROR :: int where "EXIT_ERROR = 0xffff"

record gd_out =
  gd_res :: int
  gd_x0 :: "u64 list"
  gd_x :: "u64 list"
  gd_f :: u64

definition gd_descend_transf :: "fn \<Rightarrow> u64 list \<Rightarrow> u64 list \<Rightarrow> u64 \<Rightarrow> nat \<Rightarrow> gd_out option" where
  "gd_descend_transf fn x0 out_x out_f n =
    (case fn x0 of None \<Rightarrow> Some \<lparr>gd_res = EXIT_ERROR, gd_x0 = x0, gd_x = out_x, gd_f = out_f\<rparr>
     | Some f0 \<Rightarrow> (case compute_gradient fn f0 x0 n of None \<Rightarrow> None
       | Some (x0, None) \<Rightarrow> Some \<lparr>gd_res = EXIT_ERROR, gd_x0 = x0, gd_x = out_x, gd_f = out_f\<rparr>
       | Some (x0, Some grad) \<Rightarrow> if max_gradient grad = 0
           then Some \<lparr>gd_res = 1, gd_x0 = x0, gd_x = out_x, gd_f = out_f\<rparr>
           else map_option (\<lambda>(ok, x, f). \<lparr>gd_res = (if ok then 0 else EXIT_ERROR), gd_x0 = x0,
                  gd_x = x, gd_f = f\<rparr>) (descend fn (normalize_gradient grad) x0 f0 n)))"

definition gd_max_gradient :: "fn \<Rightarrow> u64 list \<Rightarrow> nat \<Rightarrow> u64 \<Rightarrow> (int \<times> u64 list \<times> u64) option" where
  "gd_max_gradient fn x0 n v = (case fn x0 of None \<Rightarrow> Some (0, x0, v)
     | Some f0 \<Rightarrow> (case compute_gradient fn f0 x0 n of None \<Rightarrow> None
       | Some (x0, None) \<Rightarrow> Some (0, x0, v)
       | Some (x0, Some grad) \<Rightarrow> Some (1, x0, max_gradient grad)))"

end
