(* ===== verification/Gradient_Spec.thy ===== *)
theory Gradient_Spec
  imports Gradient
begin

text \<open>
  What the minimiser promises: it never makes the value worse, reports the value of the vector
  it returns, and stops by itself at local minima. Where floating point makes it fail.
\<close>

section \<open>Derivatives\<close>

lemma slope_zero: "slope f0 p m = Some (v, d) \<Longrightarrow> v = 0 \<longleftrightarrow> sint f0 \<le> sint m \<and> sint f0 \<le> sint p"
  by (auto simp: slope_def ssub_def split: if_splits)

lemma slope_defined:
  assumes "0 \<le> sint f0" "0 \<le> sint p" "0 \<le> sint m"
  shows "\<exists>v d. slope f0 p m = Some (v, d)"
proof -
  have "sint f0 < 2 ^ 63" "sint p < 2 ^ 63" "sint m < 2 ^ 63"
    using sint_lt [of f0] sint_lt [of p] sint_lt [of m] by simp_all
  with assms have "ssub f0 p = Some (f0 - p)" "ssub f0 m = Some (f0 - m)"
    by (simp_all add: ssub_def)
  then show ?thesis by (simp add: slope_def not_le)
qed

lemma slope_direction:
  assumes "slope f0 p m = Some (v, d)"
  shows "d = STATIONARY \<longleftrightarrow> v = 0" "d = ASCENDING \<Longrightarrow> sint m < sint f0" "d = DESCENDING \<Longrightarrow> sint p < sint f0"
  using assms by (auto simp: slope_def ssub_def split: if_splits)

lemma partial_derivative_restores:
  "partial_derivative fn f0 x0 i = Some (x0', Some r) \<Longrightarrow> x0' = x0"
  by (auto simp: partial_derivative_def Let_def split: option.splits if_splits)

text \<open>The value of the function one step away in coordinate \<open>i\<close>.\<close>

definition near :: "u64 list \<Rightarrow> nat \<Rightarrow> u64 \<Rightarrow> u64 list" where
  "near x i d = x[i := x ! i + d]"

lemma partial_derivative_slope:
  "partial_derivative fn f0 x0 i = Some (x0', Some r) \<longleftrightarrow> i < length x0 \<and> x0' = x0 \<and>
     (\<exists>p m. fn (near x0 i 1) = Some p \<and> fn (near x0 i (- 1)) = Some m \<and> slope f0 p m = Some r)"
  by (cases r) (auto simp: partial_derivative_def near_def Let_def split: option.splits if_splits)

lemma gradient_from_ok:
  "gradient_from fn f0 x i k = Some (x', Some gs) \<Longrightarrow> x' = x \<and> length gs = k \<and>
     (\<forall>j < k. i + j < length x \<and> (\<exists>p m. fn (near x (i + j) 1) = Some p \<and> fn (near x (i + j) (- 1)) = Some m \<and>
        slope f0 p m = Some (g_value (gs ! j), g_direction (gs ! j))))"
proof (induction k arbitrary: i gs x')
  case (Suc k)
  from Suc.prems obtain y v d gs' where
    y: "partial_derivative fn f0 x i = Some (y, Some (v, d))"
    "gradient_from fn f0 y (Suc i) k = Some (x', Some gs')"
    "gs = \<lparr>g_value = v, g_direction = d, g_pct = 0\<rparr> # gs'"
    by (auto split: option.splits)
  from partial_derivative_restores [OF y(1)] y have
    p: "partial_derivative fn f0 x i = Some (x, Some (v, d))"
    "gradient_from fn f0 x (Suc i) k = Some (x', Some gs')"
    "gs = \<lparr>g_value = v, g_direction = d, g_pct = 0\<rparr> # gs'" by simp_all
  from p(1) Suc.IH [OF p(2)] show ?case
    unfolding p(3) partial_derivative_slope by (auto simp: nth_Cons less_Suc_eq_0_disj)
qed simp

lemma max_gradient_zero: "max_gradient gs = 0 \<longleftrightarrow> (\<forall>g \<in> set gs. g_value g = 0)"
proof -
  have "fold (\<lambda>g m. if g_value g > m then g_value g else m) gs m = 0 \<longleftrightarrow> m = 0 \<and> (\<forall>g \<in> set gs. g_value g = 0)"
    for m
    by (induction gs arbitrary: m) (auto simp: word_gt_0)
  then show ?thesis by (simp add: max_gradient_def)
qed

text \<open>Minimal among the neighbours that differ by one in one of the first \<open>n\<close> coordinates.\<close>

definition local_min :: "fn \<Rightarrow> nat \<Rightarrow> u64 list \<Rightarrow> bool" where
  "local_min fn n x \<longleftrightarrow> (\<forall>i < n. sint (the (fn x)) \<le> sint (the (fn (near x i 1))) \<and>
     sint (the (fn x)) \<le> sint (the (fn (near x i (- 1)))))"

lemma compute_gradient_ok:
  assumes "compute_gradient fn f0 x n = Some (x', Some gs)" "fn x = Some f0"
  shows "x' = x" "length gs = n" "max_gradient gs = 0 \<longleftrightarrow> local_min fn n x"
proof -
  note g = gradient_from_ok [OF assms(1) [unfolded compute_gradient_def]]
  show "x' = x" "length gs = n" using g by simp_all
  have v: "g_value (gs ! j) = 0 \<longleftrightarrow> sint f0 \<le> sint (the (fn (near x j 1))) \<and> sint f0 \<le> sint (the (fn (near x j (- 1))))"
    if "j < n" for j
    using g that slope_zero by (metis add_0 option.sel)
  show "max_gradient gs = 0 \<longleftrightarrow> local_min fn n x"
    using v g assms(2) by (auto simp: max_gradient_zero local_min_def all_set_conv_all_nth)
qed

section \<open>Descent\<close>

lemma line_search_improves:
  "line_search fn move x f step = Some (True, x', f') \<Longrightarrow> fn x = Some f \<Longrightarrow>
     fn x' = Some f' \<and> sint f' \<le> sint f"
proof (induction fn move x f step arbitrary: x' f' rule: line_search.induct)
  case (1 fn move x f step)
  from "1.prems"(1) obtain y g where y: "move step x = Some y" "fn y = Some g"
    "sint f \<le> sint g \<and> x' = x \<and> f' = f \<or>
     sint g < sint f \<and> line_search fn move y g (step * 2) = Some (True, x', f')"
    by (auto simp: line_search.simps [of fn move x f step] split: option.splits if_splits)
  from y(3) show ?case
  proof
    assume "sint g < sint f \<and> line_search fn move y g (step * 2) = Some (True, x', f')"
    with "1.IH" [OF y(1, 2)] y(2) show ?thesis by force
  qed (use "1.prems"(2) in simp)
qed

lemma coordinates_improves:
  "coordinates fn grad x f i = Some (True, x', f') \<Longrightarrow> fn x = Some f \<Longrightarrow>
     fn x' = Some f' \<and> sint f' \<le> sint f"
proof (induction fn grad x f i arbitrary: x' f' rule: coordinates.induct)
  case (1 fn grad x f i)
  show ?case
  proof (cases "i < length grad")
    case False
    with "1.prems" show ?thesis by (simp add: coordinates.simps [of fn grad x f])
  next
    case True
    with "1.prems"(1) obtain y g where s: "line_search fn (move_coordinate grad i) x f 1 = Some (True, y, g)"
      "coordinates fn grad y g (next_index grad (Suc i)) = Some (True, x', f')"
      by (auto simp: coordinates.simps [of fn grad x f] split: option.splits if_splits)
    from line_search_improves [OF s(1) "1.prems"(2)] have y: "fn y = Some g" "sint g \<le> sint f" by simp_all
    with "1.IH" [OF _ s(1) refl refl _ s(2)] True show ?thesis by force
  qed
qed

lemma descend_improves:
  assumes "descend fn grad x f n = Some (True, x', f')" "fn x = Some f"
  shows "fn x' = Some f' \<and> sint f' \<le> sint f"
proof -
  obtain ok y g where s: "line_search fn (\<lambda>step x. compute_delta_all x grad step True) x f 1 = Some (ok, y, g)"
    using assms(1) by (auto simp: descend_def split: option.splits)
  with assms(1) have "ok" by (auto simp: descend_def split: if_splits)
  with s assms(2) have "fn y = Some g \<and> sint g \<le> sint f" by (simp add: line_search_improves)
  moreover have "x' = y \<and> f' = g \<or> coordinates fn grad y g (next_index grad 0) = Some (True, x', f')"
    using assms(1) s \<open>ok\<close> by (auto simp: descend_def split: if_splits)
  ultimately show ?thesis
    using coordinates_improves [of fn grad y g "next_index grad 0" x' f'] by auto
qed

lemma epochs_improves:
  "epochs fn n x f k = Some (True, x', f') \<Longrightarrow> fn x = Some f \<Longrightarrow> fn x' = Some f' \<and> sint f' \<le> sint f"
proof (induction k arbitrary: x f)
  case (Suc k)
  from Suc.prems(1) obtain y gs where g: "compute_gradient fn f x n = Some (y, Some gs)"
    by (auto split: option.splits)
  have [simp]: "y = x" using compute_gradient_ok(1) [OF g Suc.prems(2)] .
  show ?case
  proof (cases "max_gradient gs = 0")
    case True
    with Suc.prems g show ?thesis by simp
  next
    case False
    with Suc.prems(1) g obtain z h where d: "descend fn (normalize_gradient gs) x f n = Some (True, z, h)"
      "x' = z \<and> f' = h \<or> epochs fn n z h k = Some (True, x', f')"
      by (auto split: option.splits if_splits)
    from descend_improves [OF d(1) Suc.prems(2)] d(2) Suc.IH [of z h] show ?thesis by auto
  qed
qed simp

section \<open>Exact arithmetic of small values\<close>

lemma bit_length:
  assumes "0 < n"
  shows "2 ^ (floorlog 2 n - 1) \<le> n" "0 < floorlog 2 n"
  using floorlog_bounds [OF assms, of 2] floorlog_eq_zero_iff [of 2 n] assms by auto

lemma exponent_nat:
  assumes "0 < n"
  shows "exponent (of_nat n) = int (floorlog 2 n) - 1"
proof -
  have q: "quotient_of (of_nat n) = (int n, 1)"
    using quotient_of_int [of "int n"] by simp
  have one: "floorlog 2 (Suc 0) = 1" by (simp add: floorlog_def)
  note b = bit_length [OF assms]
  have "(2 :: rat) powi (int (floorlog 2 n) - 1) = of_nat (2 ^ (floorlog 2 n - 1))"
    using b by (simp add: power_int_def nat_diff_distrib)
  then have "(2 :: rat) powi (int (floorlog 2 n) - 1) \<le> of_nat n"
    using b by (simp only: of_nat_le_iff)
  then show ?thesis by (simp add: exponent_def q one Let_def)
qed

lemma round_even_of_int [simp]: "round_even (of_int k) = k"
  by (simp add: round_even_def)

lemma rnd_nat:
  assumes "n < 2 ^ p"
  shows "rnd p (of_nat n) = of_nat n"
proof (cases "n = 0")
  case False
  then have n: "0 < n" by simp
  let ?l = "floorlog 2 n"
  note b = bit_length [OF n]
  have "?l \<le> p"
  proof (rule ccontr)
    assume "\<not> ?l \<le> p"
    then have "(2 :: nat) ^ p \<le> 2 ^ (?l - 1)" by (intro power_increasing) auto
    with b(1) assms show False by linarith
  qed
  define e where "e = int ?l - 1 - (int p - 1)"
  have e: "e = - int (p - ?l)" using \<open>?l \<le> p\<close> by (simp add: e_def)
  have q: "(of_nat n :: rat) / 2 powi e = of_int (int n * 2 ^ (p - ?l))"
    unfolding e by (simp add: power_int_minus divide_inverse)
  have "rnd p (of_nat n) = of_int (round_even (of_nat n / 2 powi e)) * 2 powi e"
    using n by (simp add: rnd_def exponent_nat Let_def e_def)
  also have "\<dots> = of_nat n"
    unfolding q round_even_of_int by (simp add: e power_int_minus)
  finally show ?thesis .
qed (simp add: rnd_def)

section \<open>One variable\<close>

lemma rnd_u64: "unat x < 2 ^ p \<Longrightarrow> rnd p (of_u64 x) = of_u64 x"
  by (simp add: of_u64_def rnd_nat del: of_nat_unat)

lemma rnd_one [simp]: "0 < p \<Longrightarrow> rnd p 1 = 1"
  using rnd_nat [of 1 p] one_less_power [of "2 :: nat" p] by simp

lemma gradient_one:
  assumes "fn [x + 1] = Some p" "fn [x - 1] = Some m" "slope f0 p m = Some (v, d)"
  shows "compute_gradient fn f0 [x] (Suc 0) = Some ([x], Some [\<lparr>g_value = v, g_direction = d, g_pct = 0\<rparr>])"
  using assms by (simp add: compute_gradient_def partial_derivative_def Let_def)

lemma normalize_one:
  assumes "v \<noteq> 0" "unat v < 2 ^ 53"
  shows "normalize_gradient [\<lparr>g_value = v, g_direction = d, g_pct = 0\<rparr>] =
    [\<lparr>g_value = v, g_direction = d, g_pct = 1\<rparr>]"
proof -
  have "of_u64 v \<noteq> 0" using assms(1) by (simp add: of_u64_def unat_eq_0 del: of_nat_unat)
  with assms show ?thesis
    by (simp add: normalize_gradient_def max_gradient_def rnd_u64 word_gt_0)
qed

lemma descend_one:
  assumes "fn [x] = Some f0" "fn [x + 1] = Some p" "fn [x - 1] = Some m"
    and "slope f0 p m = Some (v, d)" "v \<noteq> 0" "unat v < 2 ^ 53"
  shows "gd_descend_transf fn [x] out_x out_f 1 =
    map_option (\<lambda>(ok, x', f). \<lparr>gd_res = (if ok then 0 else EXIT_ERROR), gd_x0 = [x], gd_x = x', gd_f = f\<rparr>)
      (line_search fn (\<lambda>step x. compute_delta_all x [\<lparr>g_value = v, g_direction = d, g_pct = 1\<rparr>] step True)
        [x] f0 1)"
  using assms
  by (simp add: gd_descend_transf_def gradient_one [of fn x p m f0 v d] max_gradient_zero normalize_one descend_def
      map_option_case split_def split: option.split)

lemma to_u64_of_u64 [simp]: "to_u64 (of_nat n) = (if n < 2 ^ 64 then Some (word_of_nat n) else None)"
proof -
  have "(of_nat n :: rat) < 2 ^ 64 \<longleftrightarrow> n < 2 ^ 64"
    by (metis of_nat_less_iff of_nat_numeral of_nat_power)
  then show ?thesis by (simp add: to_u64_def)
qed

lemma delta_small:
  assumes "unat x + unat s < 2 ^ 53"
  shows "unat s \<le> unat x \<Longrightarrow> delta_one \<lparr>g_value = v, g_direction = ASCENDING, g_pct = 1\<rparr> s True x = Some (x - s)"
    "delta_one \<lparr>g_value = v, g_direction = DESCENDING, g_pct = 1\<rparr> s True x = Some (x + s)"
proof -
  have r: "dbl (of_u64 x) = of_nat (unat x)" "dbl (of_u64 s) = of_nat (unat s)"
    "dbl (of_nat (unat s)) = of_nat (unat s)"
    using assms rnd_u64 [of x 53] rnd_u64 [of s 53] by (simp_all add: of_u64_def del: of_nat_unat)
  have "dbl (of_nat (unat x) + of_nat (unat s)) = of_nat (unat x + unat s)"
    using assms rnd_nat [of "unat x + unat s" 53] by (simp del: of_nat_unat)
  moreover have "to_u64 (of_nat (unat x + unat s)) = Some (x + s)"
    using assms unfolding to_u64_of_u64 by simp
  ultimately show "delta_one \<lparr>g_value = v, g_direction = DESCENDING, g_pct = 1\<rparr> s True x = Some (x + s)"
    by (simp only: delta_one_def r Let_def gradient_el.simps mult_1 direction.simps simp_thms if_True if_False)
  assume le: "unat s \<le> unat x"
  then have "dbl (of_nat (unat x) - of_nat (unat s)) = of_nat (unat x - unat s)"
    using assms rnd_nat [of "unat x - unat s" 53] by (simp add: of_nat_diff del: of_nat_unat)
  moreover have "to_u64 (of_nat (unat x - unat s)) = Some (x - s)"
    using assms le unfolding to_u64_of_u64 by (simp add: of_nat_diff)
  ultimately show "delta_one \<lparr>g_value = v, g_direction = ASCENDING, g_pct = 1\<rparr> s True x = Some (x - s)"
    by (simp only: delta_one_def r Let_def gradient_el.simps mult_1 direction.simps simp_thms if_True if_False)
qed

lemma rnd_minus: "rnd p (- q) = - rnd p q"
  by (simp add: rnd_def Let_def)

lemma delta_zero: "delta_one \<lparr>g_value = v, g_direction = ASCENDING, g_pct = 1\<rparr> 1 True 0 = None"
proof -
  have "dbl (of_u64 0) = 0" "dbl (of_u64 1) = 1" "dbl (- 1) = - 1"
    using rnd_minus [of 53 1] by (simp_all add: of_u64_def rnd_nat [of 0 53, simplified])
  then show ?thesis by (simp add: delta_one_def Let_def to_u64_def)
qed

lemma rnd_by_exponent:
  assumes "2 ^ k \<le> n" "n < 2 ^ Suc k" "p \<le> k"
  shows "rnd (Suc p) (of_nat n) = of_int (round_even (of_nat n / 2 ^ (k - p))) * 2 ^ (k - p)"
proof -
  have "floorlog 2 n = Suc k"
    using assms(1, 2) by (intro antisym floorlog_leI floorlog_geI) auto
  moreover have "0 < n" using assms(1) by (meson less_le_trans zero_less_numeral zero_less_power)
  ultimately have "exponent (of_nat n) = int k" by (simp add: exponent_nat)
  moreover have "(2 :: rat) powi (int k - int p) = 2 ^ (k - p)"
    using assms(3) by (simp add: power_int_def nat_diff_distrib)
  ultimately show ?thesis using \<open>0 < n\<close> by (simp add: rnd_def Let_def)
qed

lemma delta_large: "delta_one \<lparr>g_value = v, g_direction = ASCENDING, g_pct = 1\<rparr> 1 True (2 ^ 60) = Some (2 ^ 60)"
proof -
  have "round_even (1152921504606846976 / 256) = 4503599627370496"
    using round_even_of_int [of 4503599627370496] by simp
  then have x: "dbl 1152921504606846976 = 1152921504606846976"
    using rnd_by_exponent [of 60 1152921504606846976 52] by simp
  have "\<lfloor>1152921504606846975 / 128 :: rat\<rfloor> = 9007199254740991"
    by (simp add: floor_eq_iff)
  then have "round_even (1152921504606846975 / 128) = 9007199254740992"
    by (simp add: round_even_def Let_def)
  then have y: "dbl 1152921504606846975 = 1152921504606846976"
    using rnd_by_exponent [of 59 1152921504606846975 52] by simp
  show ?thesis
    by (simp add: delta_one_def Let_def of_u64_def to_u64_def x y)
qed

section \<open>Gradients that are defined\<close>

text \<open>A function that never asks to exit and whose values are distances.\<close>

definition distance :: "fn \<Rightarrow> bool" where
  "distance fn \<longleftrightarrow> (\<forall>x. \<exists>f. fn x = Some f \<and> 0 \<le> sint f)"

lemma partial_derivative_defined:
  assumes "distance fn" "0 \<le> sint f0" "i < length x"
  shows "\<exists>v d. partial_derivative fn f0 x i = Some (x, Some (v, d))"
proof -
  obtain p m where "fn (near x i 1) = Some p" "0 \<le> sint p" "fn (near x i (- 1)) = Some m" "0 \<le> sint m"
    using assms(1) by (meson distance_def)
  with slope_defined [OF assms(2)] assms(3) show ?thesis by (force simp: partial_derivative_slope)
qed

lemma gradient_from_defined:
  assumes "distance fn" "0 \<le> sint f0" "i + k \<le> length x"
  shows "\<exists>gs. gradient_from fn f0 x i k = Some (x, Some gs)"
  using assms(3)
proof (induction k arbitrary: i)
  case (Suc k)
  then obtain gs where "gradient_from fn f0 x (Suc i) k = Some (x, Some gs)" by force
  with partial_derivative_defined [OF assms(1, 2), of i x] Suc.prems show ?case by auto
qed simp

section \<open>Properties\<close>

text \<open>
  C20. When the minimisation runs to its end, the value it reports is the value of the vector it
  returns, and it is at most the value at the start.
\<close>

theorem gd_minimize_improves:
  assumes "gd_minimize fn x0 n = Some (x, Some f)" "fn x0 = Some f0"
  shows "fn x = Some f \<and> sint f \<le> sint f0"
  using assms epochs_improves [of fn n x0 f0 MAX_EPOCH x f]
  by (auto simp: gd_minimize_def split: if_splits)

text \<open>
  C34. For a function that never asks to exit and whose values are not negative, a single descent
  answers 1 exactly at the points where no coordinate can be improved by one; there it leaves its
  outputs alone.
\<close>

theorem gd_descend_transf_stops_at_local_minima:
  assumes "distance fn" "n \<le> length x0"
  shows "gd_descend_transf fn x0 out_x out_f n =
      Some \<lparr>gd_res = 1, gd_x0 = x0, gd_x = out_x, gd_f = out_f\<rparr> \<longleftrightarrow> local_min fn n x0"
proof -
  obtain f0 where f0: "fn x0 = Some f0" "0 \<le> sint f0" using assms(1) by (meson distance_def)
  obtain gs where gs: "compute_gradient fn f0 x0 n = Some (x0, Some gs)"
    using gradient_from_defined [OF assms(1) f0(2), of 0 n x0] assms(2) by (auto simp: compute_gradient_def)
  have "map_option (\<lambda>(ok, x, f). \<lparr>gd_res = (if ok then 0 else EXIT_ERROR), gd_x0 = x0, gd_x = x, gd_f = f\<rparr>) r \<noteq>
      Some \<lparr>gd_res = 1, gd_x0 = x0, gd_x = out_x, gd_f = out_f\<rparr>" for r
    by (auto simp: EXIT_ERROR_def split_def)
  with compute_gradient_ok(3) [OF gs f0(1)] show ?thesis
    by (simp add: gd_descend_transf_def f0 gs)
qed

text \<open>
  C35. In one variable between 1 and \<open>2 ^ 53 - 2\<close>, with a slope below \<open>2 ^ 53\<close>, a descent that returns 0
  makes progress: the value is strictly smaller.
\<close>

theorem gd_descend_transf_progress:
  assumes "fn [x] = Some f0" "fn [x + 1] = Some p" "fn [x - 1] = Some m"
    and "slope f0 p m = Some (v, d)" "v \<noteq> 0" "unat v < 2 ^ 53" "0 < unat x" "unat x + 1 < 2 ^ 53"
    and "gd_descend_transf fn [x] out_x out_f 1 = Some r" "gd_res r = 0"
  shows "sint (gd_f r) < sint f0 \<and> fn (gd_x r) = Some (gd_f r)"
proof -
  let ?move = "\<lambda>step x. compute_delta_all x [\<lparr>g_value = v, g_direction = d, g_pct = 1\<rparr>] step True"
  obtain y g where y: "?move 1 [x] = Some [y]" "fn [y] = Some g" "sint g < sint f0"
  proof (cases d)
    case STATIONARY
    with slope_direction(1) [OF assms(4)] assms(5) show ?thesis by simp
  next
    case ASCENDING
    with that [of "x - 1" m] slope_direction(2) [OF assms(4)] assms(3) delta_small(1) [of x 1] assms(7, 8)
    show ?thesis by simp
  next
    case DESCENDING
    with that [of "x + 1" p] slope_direction(3) [OF assms(4)] assms(2) delta_small(2) [of x 1] assms(8)
    show ?thesis by simp
  qed
  have "line_search fn ?move [x] f0 1 = Some (True, gd_x r, gd_f r)"
    using assms(9, 10) unfolding descend_one [OF assms(1-6)]
    by (auto simp: EXIT_ERROR_def split: if_splits)
  then have "line_search fn ?move [y] g 2 = Some (True, gd_x r, gd_f r)"
    using y by (simp add: line_search.simps [of fn ?move "[x]" f0 1])
  from line_search_improves [OF this y(2)] y(3) show ?thesis by simp
qed

text \<open>
  Floating point defeats the descent at both ends of the range: at 0, with the smaller value at
  the wrapped-around neighbour, a negative \<^verbatim>\<open>double\<close> is converted to \<^verbatim>\<open>uint64_t\<close>, which is undefined;
  at \<open>2 ^ 60\<close> the step of one is lost in rounding, and the descent returns 0 at the same point and
  value though its neighbour is smaller.
\<close>

theorem gd_descend_transf_float_limits:
  assumes "fn [x] = Some f0" "fn [x + 1] = Some p" "fn [x - 1] = Some m"
    and "slope f0 p m = Some (v, ASCENDING)" "unat v < 2 ^ 53"
  shows "(x = 0 \<longrightarrow> gd_descend_transf fn [x] out_x out_f 1 = None) \<and>
    (x = 2 ^ 60 \<longrightarrow> gd_descend_transf fn [x] out_x out_f 1 =
      Some \<lparr>gd_res = 0, gd_x0 = [x], gd_x = [x], gd_f = f0\<rparr>)"
proof -
  have "v \<noteq> 0" using slope_direction(1) [OF assms(4)] by simp
  note d = descend_one [OF assms(1-4) this assms(5), of out_x out_f]
  let ?move = "\<lambda>step x. compute_delta_all x [\<lparr>g_value = v, g_direction = ASCENDING, g_pct = 1\<rparr>] step True"
  have "line_search fn ?move [x] f0 1 = None" if "x = 0"
    using that delta_zero [of v] by (subst line_search.simps) simp
  moreover have "line_search fn ?move [x] f0 1 = Some (True, [x], f0)" if "x = 2 ^ 60"
    using that delta_large [of v] assms(1) by (subst line_search.simps) simp
  ultimately show ?thesis unfolding d by simp
qed

section \<open>Examples\<close>

text \<open>The distance to 7 in the first variable, as the solver minimises it for an equality.\<close>

definition to_seven :: fn where
  "to_seven x = Some (take_bit 62 (if hd x < 7 then 7 - hd x else hd x - 7))"

lemma distance_to_seven: "distance to_seven"
proof -
  have "0 \<le> sint (take_bit 62 w :: u64)" for w
    by (simp add: sint_uint unsigned_take_bit_eq bit_take_bit_iff)
  then show ?thesis by (auto simp: distance_def to_seven_def)
qed

lemma to_seven_values:
  "to_seven [5] = Some 2" "to_seven [6] = Some 1" "to_seven [7] = Some 0" "to_seven [8] = Some 1" "to_seven [9] = Some 2"
  by (simp_all add: to_seven_def)

lemma slope_to_seven: "slope 1 0 2 = Some (1, DESCENDING)" "slope 0 1 1 = Some (0, STATIONARY)"
  by (simp_all add: slope_def ssub_def)

lemma search_to_seven:
  "line_search to_seven (\<lambda>step x. compute_delta_all x [\<lparr>g_value = 1, g_direction = DESCENDING, g_pct = 1\<rparr>] step True)
     [6] 1 1 = Some (True, [7], 0)"
  using delta_small(2) [of 6 1 1] delta_small(2) [of 7 2 1]
  by (simp add: line_search.simps [of to_seven _ "[6]"] line_search.simps [of to_seven _ "[7]"] to_seven_values)

lemma minimize_to_seven: "gd_minimize to_seven [6] 1 = Some ([7], Some 0)"
proof -
  have a: "compute_gradient to_seven 1 [6] (Suc 0) = Some ([6], Some [\<lparr>g_value = 1, g_direction = DESCENDING, g_pct = 0\<rparr>])"
    using gradient_one [of to_seven 6 0 2 1 1 DESCENDING] slope_to_seven by (simp add: to_seven_values)
  have b: "compute_gradient to_seven 0 [7] (Suc 0) = Some ([7], Some [\<lparr>g_value = 0, g_direction = STATIONARY, g_pct = 0\<rparr>])"
    using gradient_one [of to_seven 7 1 1 0 0 STATIONARY] slope_to_seven by (simp add: to_seven_values)
  have n: "normalize_gradient [\<lparr>g_value = 1, g_direction = DESCENDING, g_pct = 0\<rparr>] =
      [\<lparr>g_value = 1, g_direction = DESCENDING, g_pct = 1\<rparr>]"
    by (rule normalize_one) simp_all
  have "epochs to_seven (Suc 0) [6] 1 (Suc (Suc k)) = Some (True, [7], 0)" for k
    by (simp add: a b n max_gradient_zero descend_def search_to_seven)
  from this [of 998] show ?thesis
    by (simp add: gd_minimize_def MAX_EPOCH_def to_seven_values)
qed

theorem gd_minimize_improves_witness: "to_seven [7] = Some 0 \<and> sint (0 :: u64) \<le> sint (1 :: u64)"
  using gd_minimize_improves [OF minimize_to_seven to_seven_values(2)] by simp

theorem gd_descend_transf_stops_at_local_minima_witness:
  "gd_descend_transf to_seven [7] [] 0 1 = Some \<lparr>gd_res = 1, gd_x0 = [7], gd_x = [], gd_f = 0\<rparr>"
proof -
  have "local_min to_seven 1 [7]" by (simp add: local_min_def near_def to_seven_values)
  then show ?thesis
    using gd_descend_transf_stops_at_local_minima [OF distance_to_seven, of 1 "[7]" "[]" 0] by simp
qed

theorem gd_descend_transf_progress_witness:
  "\<exists>r. gd_descend_transf to_seven [6] [] 0 1 = Some r \<and> sint (gd_f r) < sint (1 :: u64)"
proof -
  have v: "to_seven [6 + 1] = Some 0" "to_seven [6 - 1] = Some 2" by (simp_all add: to_seven_values)
  let ?r = "\<lparr>gd_res = 0, gd_x0 = [6], gd_x = [7], gd_f = 0\<rparr>"
  have r: "gd_descend_transf to_seven [6] [] 0 1 = Some ?r"
    using descend_one [OF to_seven_values(2) v slope_to_seven(1), of "[]" 0] by (simp add: search_to_seven)
  moreover have "sint (gd_f ?r) < sint (1 :: u64)"
    using gd_descend_transf_progress [OF to_seven_values(2) v slope_to_seven(1) _ _ _ _ r] by simp
  ultimately show ?thesis by blast
qed

theorem gd_descend_transf_float_limits_witness:
  "gd_descend_transf (\<lambda>x. Some (if x = [2 ^ 60 - 1] then 0 else 1)) [2 ^ 60] [] 0 1 =
    Some \<lparr>gd_res = 0, gd_x0 = [2 ^ 60], gd_x = [2 ^ 60], gd_f = 1\<rparr>"
proof -
  have "slope 1 1 0 = Some (1, ASCENDING)" by (simp add: slope_def ssub_def)
  then show ?thesis
    using gd_descend_transf_float_limits [of "\<lambda>x. Some (if x = [2 ^ 60 - 1] then 0 else 1)" "2 ^ 60" 1 1 0 1 "[]" 0]
    by simp
qed

end
