(* ===== verification/Testcase_List.thy ===== *)
theory Testcase_List
  imports Dyn_Array
begin

text \<open>
  The lists of test cases: \<^verbatim>\<open>solver/fuzzy-sat/lib/testcase-list.c\<close>, on the growable array, and
  \<^verbatim>\<open>solver/testcase-list.c\<close>, on a fixed one. A file is its bytes, \<open>None\<close> when it cannot be opened;
  the terms of Z3 are built by parameters. \<open>None\<close> as a result is an abort or a write out of bounds.
\<close>

section \<open>The list of the fuzzing library\<close>

record 'z testcase_t =
  tc_values :: "u64 block"
  z3_values :: "'z block"
  value_sizes :: "u8 block"
  values_len :: u32
  testcase_len :: u32

definition DA_INIT_SIZE :: nat where "DA_INIT_SIZE = 100"

definition init_testcase_list :: "'z testcase_t da" where
  "init_testcase_list = da_init DA_INIT_SIZE"

text \<open>The loop that reads the bytes, from index \<open>i\<close>, an \<^verbatim>\<open>int\<close> that must not overflow.\<close>

fun read_values :: "(u8 \<Rightarrow> 'z) \<Rightarrow> u8 list \<Rightarrow> nat \<Rightarrow> 'z testcase_t \<Rightarrow> 'z testcase_t option" where
  "read_values mk [] i tc = Some tc"
| "read_values mk (c # cs) i tc = (if i < length (tc_values tc) \<and> i < 2147483647
     then read_values mk cs (Suc i) (tc\<lparr>tc_values := (tc_values tc)[i := Some (ucast c)],
            z3_values := (z3_values tc)[i := Some (mk c)], value_sizes := (value_sizes tc)[i := Some 8]\<rparr>)
     else None)"

definition load_testcase :: "(u8 \<Rightarrow> 'z) \<Rightarrow> 'z testcase_t da \<Rightarrow> u8 list option \<Rightarrow> 'z testcase_t da option" where
  "load_testcase mk t file = (if \<not> da_size t < da_max_size t then None else
     case file of None \<Rightarrow> None
     | Some bytes \<Rightarrow> let len = word_of_nat (length bytes) :: u32;
         tc = \<lparr>tc_values = malloc (unat len), z3_values = malloc (unat len),
               value_sizes = malloc (unat len), values_len = len, testcase_len = len\<rparr> in
       case read_values mk bytes 0 tc of None \<Rightarrow> None | Some tc \<Rightarrow> da_add_item t tc)"

text \<open>
  What \<^verbatim>\<open>fts_read\<close> returns for a logical traversal: a folder is found before its contents as
  \<^verbatim>\<open>FTS_D\<close> and after them as \<^verbatim>\<open>FTS_DP\<close>.
\<close>

datatype fts_entry = FTS_D | FTS_DC | FTS_DEFAULT | FTS_DNR | FTS_DP | FTS_ERR
  | FTS_F "u8 list option" | FTS_NS | FTS_SLNONE

fun load_entries :: "(u8 \<Rightarrow> 'z) \<Rightarrow> 'z testcase_t da \<Rightarrow> fts_entry list \<Rightarrow> 'z testcase_t da option" where
  "load_entries mk t [] = Some t"
| "load_entries mk t (e # es) = (case e of
       FTS_D \<Rightarrow> load_entries mk t es
     | FTS_F file \<Rightarrow> (case load_testcase mk t file of None \<Rightarrow> None | Some t \<Rightarrow> load_entries mk t es)
     | _ \<Rightarrow> load_entries mk t es)"

text \<open>
  \<open>opened\<close>: whether \<^verbatim>\<open>fts_open\<close> and \<^verbatim>\<open>fts_children\<close> succeed. Before the first \<^verbatim>\<open>fts_read\<close> the latter
  returns the list of the arguments, so it says nothing of what is in the folder, nor whether
  there is one: a folder that cannot be found is a traversal of one \<^verbatim>\<open>FTS_NS\<close>.
\<close>

definition load_testcase_folder :: "(u8 \<Rightarrow> 'z) \<Rightarrow> 'z testcase_t da \<Rightarrow> bool \<Rightarrow> fts_entry list \<Rightarrow>
    'z testcase_t da option" where
  "load_testcase_folder mk t opened es = (if opened then load_entries mk t es else None)"

text \<open>The terms that are released, in order; cells before \<^verbatim>\<open>values_len\<close> must have been written.\<close>

definition released :: "'z testcase_t \<Rightarrow> 'z list option" where
  "released tc = (let n = unat (values_len tc) in
     if filled n (z3_values tc) then Some (cells n (z3_values tc)) else None)"

fun release_all :: "'z testcase_t list \<Rightarrow> 'z list option" where
  "release_all [] = Some []"
| "release_all (tc # tcs) = (case (released tc, release_all tcs) of
     (Some zs, Some rest) \<Rightarrow> Some (zs @ rest) | _ \<Rightarrow> None)"

definition free_testcase_list :: "'z testcase_t da \<Rightarrow> ('z testcase_t da \<times> 'z list) option" where
  "free_testcase_list t = (case release_all (da_list t) of None \<Rightarrow> None
     | Some zs \<Rightarrow> map_option (\<lambda>(t, _). (t, zs)) (da_free False (t\<lparr>da_size := 0\<rparr>)))"

section \<open>The list of the solver\<close>

record 'z solver_testcase =
  st_testcase :: "u8 block"
  st_formula :: "'z option"
  st_len :: u64

record 'z solver_list =
  sl_list :: "'z solver_testcase block"
  sl_size :: nat
  sl_max_size :: nat

definition MAX_TESTCASE_LIST_SIZE :: nat where "MAX_TESTCASE_LIST_SIZE = 100"

definition solver_init :: "'z solver_list \<Rightarrow> 'z solver_list" where
  "solver_init t = t\<lparr>sl_max_size := MAX_TESTCASE_LIST_SIZE\<rparr>"

text \<open>The loop over the bytes: the index stays 0.\<close>

fun read_bytes :: "(u8 \<Rightarrow> 'z) \<Rightarrow> ('z \<Rightarrow> 'z \<Rightarrow> 'z) \<Rightarrow> u8 list \<Rightarrow> 'z solver_testcase \<Rightarrow> 'z solver_testcase option" where
  "read_bytes mk cat [] tc = Some tc"
| "read_bytes mk cat (c # cs) tc = (if 0 < length (st_testcase tc)
     then read_bytes mk cat cs (tc\<lparr>st_testcase := (st_testcase tc)[0 := Some c],
       st_formula := Some (case st_formula tc of None \<Rightarrow> mk c | Some z \<Rightarrow> cat (mk c) z)\<rparr>)
     else None)"

definition solver_load_testcase :: "(u8 \<Rightarrow> 'z) \<Rightarrow> ('z \<Rightarrow> 'z \<Rightarrow> 'z) \<Rightarrow> 'z solver_list \<Rightarrow> u8 list option \<Rightarrow>
    'z solver_list option" where
  "solver_load_testcase mk cat t file = (if sl_size t \<ge> sl_max_size t then None else
     case file of None \<Rightarrow> None
     | Some bytes \<Rightarrow> (case read_bytes mk cat bytes \<lparr>st_testcase = malloc (length bytes), st_formula = None,
           st_len = word_of_nat (length bytes)\<rparr> of None \<Rightarrow> None
       | Some tc \<Rightarrow> if sl_size t < length (sl_list t)
           then Some (t\<lparr>sl_list := (sl_list t)[sl_size t := Some tc], sl_size := sl_size t + 1\<rparr>) else None))"

fun solver_load_entries :: "(u8 \<Rightarrow> 'z) \<Rightarrow> ('z \<Rightarrow> 'z \<Rightarrow> 'z) \<Rightarrow> 'z solver_list \<Rightarrow> fts_entry list \<Rightarrow>
    'z solver_list option" where
  "solver_load_entries mk cat t [] = Some t"
| "solver_load_entries mk cat t (e # es) = (case e of
       FTS_D \<Rightarrow> solver_load_entries mk cat t es
     | FTS_F file \<Rightarrow> (case solver_load_testcase mk cat t file of None \<Rightarrow> None
         | Some t \<Rightarrow> solver_load_entries mk cat t es)
     | _ \<Rightarrow> solver_load_entries mk cat t es)"

definition solver_free :: "'z solver_list \<Rightarrow> 'z solver_list" where
  "solver_free t = t\<lparr>sl_size := 0\<rparr>"

section \<open>Loading into the library's list\<close>

definition testcase_of :: "(u8 \<Rightarrow> 'z) \<Rightarrow> u8 list \<Rightarrow> 'z testcase_t" where
  "testcase_of mk bytes = \<lparr>tc_values = map (\<lambda>c. Some (ucast c)) bytes, z3_values = map (\<lambda>c. Some (mk c)) bytes,
     value_sizes = map (\<lambda>c. Some 8) bytes, values_len = word_of_nat (length bytes),
     testcase_len = word_of_nat (length bytes)\<rparr>"

lemma fill_step: "i < length xs \<Longrightarrow> take (Suc i) (xs[i := x]) = take i xs @ [x]"
  by (simp add: take_Suc_conv_app_nth)

lemma read_values_eq:
  assumes "i + length cs < 2147483648" "length (tc_values tc) = i + length cs" "length (z3_values tc) = i + length cs"
    "length (value_sizes tc) = i + length cs"
  shows "read_values mk cs i tc = Some (tc\<lparr>tc_values := take i (tc_values tc) @ map (\<lambda>c. Some (ucast c)) cs,
    z3_values := take i (z3_values tc) @ map (\<lambda>c. Some (mk c)) cs,
    value_sizes := take i (value_sizes tc) @ map (\<lambda>c. Some 8) cs\<rparr>)"
  using assms by (induction mk cs i tc rule: read_values.induct) (simp_all add: fill_step)

lemma load_testcase_eq:
  assumes "length bytes < 2147483648"
  shows "load_testcase mk t (Some bytes) =
    (if da_size t < da_max_size t then da_add_item t (testcase_of mk bytes) else None)"
proof -
  have "unat (word_of_nat (length bytes) :: u32) = length bytes"
    using assms by (simp add: unsigned_of_nat take_bit_nat_eq_self)
  then show ?thesis
    using assms by (simp add: load_testcase_def read_values_eq testcase_of_def malloc_def Let_def)
qed

text \<open>The files of a traversal, in order.\<close>

definition files_of :: "fts_entry list \<Rightarrow> u8 list option list" where
  "files_of es = List.map_filter (\<lambda>e. case e of FTS_F file \<Rightarrow> Some file | _ \<Rightarrow> None) es"

lemma load_entries_files:
  "load_entries mk t es = load_entries mk t (map FTS_F (files_of es))"
  by (induction mk t es rule: load_entries.induct)
    (auto simp: files_of_def List.map_filter_simps split: fts_entry.splits option.splits)

lemma load_entries_full:
  assumes "da_wf DA_INIT_SIZE t" "da_live t" "da_max_size t = DA_INIT_SIZE"
    and "list_all (\<lambda>bs. length bs < 2147483648) fs"
  shows "if length (da_list t) + length fs \<le> DA_INIT_SIZE
    then \<exists>t'. load_entries mk t (map FTS_F (map Some fs)) = Some t' \<and> da_wf DA_INIT_SIZE t' \<and>
      da_list t' = da_list t @ map (testcase_of mk) fs
    else load_entries mk t (map FTS_F (map Some fs)) = None"
  using assms
proof (induction fs arbitrary: t)
  case Nil
  then have "length (da_list t) \<le> DA_INIT_SIZE"
    by (auto simp: da_wf_def da_list_def filled_def split: option.splits)
  with Nil show ?case by simp
next
  case (Cons bs fs)
  have size: "da_size t = length (da_list t)" using da_size_list [OF Cons.prems(1)] by simp
  show ?case
  proof (cases "da_size t < da_max_size t")
    case True
    obtain t' where t': "da_add_item t (testcase_of mk bs) = Some t'" "da_wf DA_INIT_SIZE t'" "da_live t'"
      "da_list t' = da_list t @ [testcase_of mk bs]"
      using da_add_item_ok [OF Cons.prems(1, 2)] by blast
    moreover have "da_max_size t' = da_max_size t"
      using t'(1) True by (auto simp: da_add_item_def Let_def split: option.splits if_splits)
    ultimately show ?thesis
      using Cons.IH [of t'] Cons.prems(3, 4) True by (auto simp: load_testcase_eq split: if_splits)
  next
    case False
    with Cons.prems size show ?thesis by (simp add: load_testcase_eq)
  qed
qed

lemma release_loaded:
  assumes "list_all (\<lambda>bs. length bs < 2147483648) fs"
  shows "release_all (map (testcase_of mk) fs) = Some (List.concat (map (map mk) fs))"
  using assms
proof (induction fs)
  case (Cons bs fs)
  have "unat (word_of_nat (length bs) :: u32) = length bs"
    using Cons.prems by (simp add: unsigned_of_nat take_bit_nat_eq_self)
  then have "released (testcase_of mk bs) = Some (map mk bs)"
    by (simp add: released_def testcase_of_def filled_def cells_def Let_def comp_def)
  with Cons show ?case by simp
qed simp

lemma read_bytes_first:
  "cs \<noteq> [] \<Longrightarrow> st_testcase tc \<noteq> [] \<Longrightarrow> \<exists>z. read_bytes mk cat cs tc =
     Some (tc\<lparr>st_testcase := (st_testcase tc)[0 := Some (last cs)], st_formula := Some z\<rparr>)"
proof (induction mk cat cs tc rule: read_bytes.induct)
  case (2 mk cat c cs tc)
  then show ?case by (cases cs) auto
qed simp

section \<open>Properties\<close>

text \<open>
  C36. Whatever a traversal finds beside regular files - the folder itself before and after its
  contents, folders below it, dangling links, what cannot be read - is passed over: up to 100
  files of less than \<open>2 ^ 31\<close> bytes are loaded in order, each with its values, sizes and terms, and
  freeing the list releases each term once. The 101st file ends the process, though the array it
  would go to can grow.
\<close>

theorem testcases_loaded_up_to_limit:
  assumes "files_of es = map Some fs" "list_all (\<lambda>bs. length bs < 2147483648) fs"
  shows "if length fs \<le> DA_INIT_SIZE
    then \<exists>t. load_testcase_folder mk init_testcase_list True es = Some t \<and>
      da_list t = map (testcase_of mk) fs \<and>
      free_testcase_list t = Some (da_zero, List.concat (map (map mk) fs))
    else load_testcase_folder mk init_testcase_list True es = None"
proof -
  have "0 < DA_INIT_SIZE" by (simp add: DA_INIT_SIZE_def)
  then have init: "da_wf DA_INIT_SIZE (init_testcase_list :: 'a testcase_t da)" "da_live (init_testcase_list :: 'a testcase_t da)"
    "da_max_size (init_testcase_list :: 'a testcase_t da) = DA_INIT_SIZE" "da_list (init_testcase_list :: 'a testcase_t da) = []"
    by (simp_all add: init_testcase_list_def) (simp add: da_init_def)
  note load = load_entries_full [OF init(1-3) assms(2), of mk]
  show ?thesis
    using load release_loaded [OF assms(2), of mk] init(4) load_entries_files [of mk _ es]
    by (auto simp: assms(1) load_testcase_folder_def free_testcase_list_def da_free_def da_freed_def)
qed

text \<open>
  The solver's own list keeps one byte of a test case: after loading a file, the first byte of
  the buffer is the last byte of the file, and the others are uninitialised.
\<close>

theorem solver_testcase_keeps_last_byte:
  assumes "bytes \<noteq> []" "sl_size t < sl_max_size t" "sl_size t < length (sl_list t)"
  shows "\<exists>t' tc. solver_load_testcase mk cat t (Some bytes) = Some t' \<and>
    sl_list t' ! sl_size t = Some tc \<and>
    st_testcase tc = Some (last bytes) # replicate (length bytes - 1) None"
proof -
  let ?tc = "\<lparr>st_testcase = malloc (length bytes), st_formula = None, st_len = word_of_nat (length bytes)\<rparr>"
  obtain z where "read_bytes mk cat bytes ?tc =
      Some (?tc\<lparr>st_testcase := (malloc (length bytes))[0 := Some (last bytes)], st_formula := Some z\<rparr>)"
    using read_bytes_first [of bytes ?tc mk cat] assms(1) by (auto simp: malloc_def)
  moreover have "(malloc (length bytes))[0 := Some (last bytes)] = Some (last bytes) # replicate (length bytes - 1) None"
    using assms(1) by (cases bytes) (simp_all add: malloc_def)
  ultimately show ?thesis
    using assms(2, 3) by (simp add: solver_load_testcase_def)
qed

text \<open>A folder with a folder and a dangling link in it, and one with 101 files.\<close>

definition ex_folder :: "fts_entry list" where
  "ex_folder = [FTS_D, FTS_F (Some [1, 2]), FTS_D, FTS_F (Some [3]), FTS_DP, FTS_SLNONE, FTS_F (Some []), FTS_DP]"

definition ex_large_folder :: "fts_entry list" where
  "ex_large_folder = [FTS_D] @ map FTS_F (replicate 101 (Some [0])) @ [FTS_DP]"

lemma ex_folder_files:
  "files_of ex_folder = map Some [[1, 2], [3], []]" "files_of ex_large_folder = map Some (replicate 101 [0])"
  by (simp_all add: files_of_def ex_folder_def ex_large_folder_def List.map_filter_def comp_def)

theorem testcases_loaded_up_to_limit_witness:
  "(\<exists>t. load_testcase_folder id init_testcase_list True ex_folder = Some t \<and>
      da_list t = map (testcase_of id) [[1, 2], [3], []] \<and> free_testcase_list t = Some (da_zero, [1, 2, 3])) \<and>
    load_testcase_folder id init_testcase_list True ex_large_folder = None"
  using testcases_loaded_up_to_limit [OF ex_folder_files(1), of id]
    testcases_loaded_up_to_limit [OF ex_folder_files(2), of id]
  by (simp add: DA_INIT_SIZE_def list_all_iff)

theorem solver_testcase_keeps_last_byte_witness:
  "\<exists>t' tc. solver_load_testcase id (\<lambda>x y. x)
      \<lparr>sl_list = malloc 100, sl_size = 0, sl_max_size = 100\<rparr> (Some [1, 2, 3]) = Some t' \<and>
    sl_list t' ! 0 = Some tc \<and> st_testcase tc = [Some 3, None, None]"
  using solver_testcase_keeps_last_byte [of "[1, 2, 3]" "\<lparr>sl_list = malloc 100, sl_size = 0, sl_max_size = 100\<rparr>" id "\<lambda>x y. x"]
  by (simp add: malloc_def numeral_2_eq_2)

end
