(* ===== verification/Fuzzy_Search.thy ===== *)
theory Fuzzy_Search
  imports Wrapped_Interval
begin

text \<open>
  The core of the search in \<^verbatim>\<open>src/solver/fuzzy-sat/lib/z3-fuzzy.c\<close>: the input that is mutated, its
  validity with respect to the known intervals and its evaluation. What the analysis of a query
  has found is given: the groups of input bytes, constants and intervals, the evaluators of the
  branch condition and of the query, the hash of an input and the results of the timer.
\<close>

section \<open>State\<close>

datatype stat = NUM_EVALUATE | NUM_SAT | NUM_TIMEOUTS | SAT_IN_SEED | REUSE | INPUT_TO_STATE | SIMPLE_MATH
  | INPUT_TO_STATE_EXT | BRUTE_FORCE | RANGE_BRUTE_FORCE | RANGE_BRUTE_FORCE_OPT | FLIP1 | FLIP2 | FLIP4 | FLIP8 | ARITH8_SUM | ARITH8_SUB | INT8
  | FLIP16 | ARITH16_SUM_LE | ARITH16_SUB_LE | ARITH16_SUM_BE | ARITH16_SUB_BE | INT16
  | FLIP32 | ARITH32_SUM_LE | ARITH32_SUB_LE | ARITH32_SUM_BE | ARITH32_SUB_BE | INT32
  | FLIP64 | ARITH64_SUM_LE | ARITH64_SUB_LE | ARITH64_SUM_BE | ARITH64_SUB_BE | INT64 | GRADIENT_DESCEND | HAVOC

datatype skip = SKIP_REUSE | SKIP_INPUT_TO_STATE | SKIP_SIMPLE_MATH | SKIP_INPUT_TO_STATE_EXTENDED
  | SKIP_BRUTE_FORCE | SKIP_RANGE_BRUTE_FORCE | SKIP_RANGE_BRUTE_FORCE_OPT | SKIP_AFL_DETERMINISTIC | SKIP_SINGLE_WALKING_BIT | SKIP_TWO_WALKING_BIT
  | SKIP_FOUR_WALKING_BIT | SKIP_BYTE_FLIP | SKIP_ARITH8 | SKIP_INT8 | SKIP_FLIP_SHORT | SKIP_ARITH16
  | SKIP_INT16 | SKIP_FLIP_INT | SKIP_ARITH32 | SKIP_INT32 | SKIP_FLIP_LONG | SKIP_ARITH64 | SKIP_INT64
  | SKIP_GRADIENT_DESCEND | SKIP_AFL_HAVOC

record seed =
  seed_values :: "u64 list"
  seed_len :: nat

text \<open>The first test case is the current one. \<open>timer\<close> has the results of successive \<^verbatim>\<open>check_timer\<close>.\<close>

record problem =
  eval_cond :: "u64 list \<Rightarrow> u64"
  eval_query :: "u64 list \<Rightarrow> u64 \<times> u32"
  seeds :: "seed list"
  intervals :: "nat \<Rightarrow> (nat list \<times> wrapped_interval_t) list"
  group_interval :: "nat list \<Rightarrow> wrapped_interval_t option"
  aggressive_optimistic :: bool
  timer :: "(nat \<Rightarrow> bool) option"
  digest :: "u64 list \<Rightarrow> u8 list"
  n_symbols :: nat
  check_unnecessary_eval :: bool
  check_is_valid :: bool
  skips :: "skip \<Rightarrow> bool"

record search =
  tmp_input :: "u64 list"
  tmp_proof :: "u8 list"
  proof_size :: "nat option"
  stats :: "stat \<Rightarrow> nat"
  processed_set :: "u8 list set"
  opt_found :: bool
  opt_num_sat :: u32
  tmp_opt_input :: "u64 list"
  tmp_opt_proof :: "u8 list"
  timer_ticks :: nat
  timer_polls :: nat

definition TIMEOUT_V :: int where "TIMEOUT_V = 0xffff"

definition bump_stat :: "stat \<Rightarrow> search \<Rightarrow> search" where
  "bump_stat c s = s\<lparr>stats := (stats s)(c := stats s c + 1)\<rparr>"

section \<open>Evaluation\<close>

definition timer_check_wrapper :: "problem \<Rightarrow> search \<Rightarrow> bool \<times> search" where
  "timer_check_wrapper p s = (case timer p of None \<Rightarrow> (False, s)
     | Some expired \<Rightarrow> let i = timer_ticks s + 1 in
         if bit i 4 then (expired (timer_polls s), s\<lparr>timer_ticks := 0, timer_polls := timer_polls s + 1\<rparr>)
         else (False, s\<lparr>timer_ticks := i\<rparr>))"

text \<open>Copies and reads fail outside of the arrays: of the values given and of the buffers of the search.\<close>

definition vals_long_to_char :: "u64 list \<Rightarrow> u8 list \<Rightarrow> nat \<Rightarrow> u8 list option" where
  "vals_long_to_char vals out n = (if n \<le> length vals \<and> n \<le> length out
     then Some (map ucast (take n vals) @ drop n out) else None)"

definition check_or_add_digest :: "problem \<Rightarrow> u64 list \<Rightarrow> search \<Rightarrow> (bool \<times> search) option" where
  "check_or_add_digest p values s = (if n_symbols p \<le> length values
     then let d = digest p (take (n_symbols p) values) in
       if d \<in> processed_set s then Some (True, s)
       else Some (False, s\<lparr>processed_set := insert d (processed_set s)\<rparr>)
     else None)"

text \<open>
  The input with the most conjuncts of the query so far is kept as the optimistic solution, by the
  sizes of the first test case.
\<close>

definition keep_optimistic :: "problem \<Rightarrow> u64 list \<Rightarrow> u32 \<Rightarrow> search \<Rightarrow> search option" where
  "keep_optimistic p values depth s = (if \<not> opt_found s \<or> depth > opt_num_sat s
     then let t = hd (seeds p); n = length (seed_values t) in
       if n \<le> length values \<and> n \<le> length (tmp_opt_input s)
       then map_option (\<lambda>bytes. s\<lparr>opt_found := True, opt_num_sat := depth,
              tmp_opt_input := take n values @ drop n (tmp_opt_input s), tmp_opt_proof := bytes\<rparr>)
            (vals_long_to_char values (tmp_opt_proof s) (seed_len t))
       else None
     else Some s)"

text \<open>Results are converted to \<^verbatim>\<open>int\<close>, as the code does. \<open>None\<close> is an access outside of an array.\<close>

definition evaluate_branch_query :: "problem \<Rightarrow> u64 list \<Rightarrow> search \<Rightarrow> (int \<times> search) option" where
  "evaluate_branch_query p values s = (let (late, s) = timer_check_wrapper p s in
     if late then Some (TIMEOUT_V, bump_stat NUM_TIMEOUTS s)
     else let s = bump_stat NUM_EVALUATE s in
       case (if check_unnecessary_eval p then check_or_add_digest p values s else Some (False, s)) of
         None \<Rightarrow> None
       | Some (seen, s) \<Rightarrow>
         if seen then Some (0, s)
         else if (ucast (eval_cond p values) :: u32) = 0 then Some (0, s)
         else let (res, depth) = eval_query p values in
           map_option (\<lambda>s. (if (ucast res :: u32) \<noteq> 0 then 1 else 0, s)) (keep_optimistic p values depth s))"

section \<open>Groups\<close>

text \<open>
  The value of a group of input bytes, the first index the most significant. \<open>None\<close> is a read
  outside of the input.
\<close>

definition index_group_to_value :: "nat list \<Rightarrow> u64 list \<Rightarrow> u64 option" where
  "index_group_to_value ig values = (if list_all (\<lambda>i. i < length values) ig
     then Some (fold (\<lambda>k res. res OR push_bit (8 * k) (values ! (ig ! (length ig - k - 1)))) [0..<length ig] 0)
     else None)"

fun in_intervals :: "(nat list \<times> wrapped_interval_t) list \<Rightarrow> u64 list \<Rightarrow> bool option" where
  "in_intervals [] values = Some True"
| "in_intervals ((ig, wi) # gs) values = (case index_group_to_value ig values of None \<Rightarrow> None
     | Some v \<Rightarrow> if wi_contains_element wi v then in_intervals gs values else Some False)"

definition is_valid_eval_index :: "problem \<Rightarrow> nat \<Rightarrow> u64 list \<Rightarrow> bool option" where
  "is_valid_eval_index p i values =
    (if \<not> check_is_valid p then Some True else in_intervals (intervals p i) values)"

fun is_valid_eval_group :: "problem \<Rightarrow> nat list \<Rightarrow> u64 list \<Rightarrow> bool option" where
  "is_valid_eval_group p [] values = Some True"
| "is_valid_eval_group p (i # is) values = (case is_valid_eval_index p i values of None \<Rightarrow> None
     | Some ok \<Rightarrow> if ok then is_valid_eval_group p is values else Some False)"

definition extract_from_long :: "u64 \<Rightarrow> nat \<Rightarrow> u64" where
  "extract_from_long v k = drop_bit (8 * k) v AND 0xff"

fun write_input :: "(nat \<times> u64) list \<Rightarrow> search \<Rightarrow> search option" where
  "write_input [] s = Some s"
| "write_input ((i, v) # ws) s = (if i < length (tmp_input s)
     then write_input ws (s\<lparr>tmp_input := (tmp_input s)[i := v]\<rparr>) else None)"

text \<open>The writes of \<^verbatim>\<open>set_tmp_input_group_to_value\<close>, of its inverse and of \<^verbatim>\<open>restore_tmp_input_group\<close>.\<close>

definition group_writes_inv :: "nat list \<Rightarrow> u64 \<Rightarrow> (nat \<times> u64) list" where
  "group_writes_inv ig v = map (\<lambda>k. (ig ! k, extract_from_long v k)) [0..<length ig]"

definition group_writes :: "nat list \<Rightarrow> u64 \<Rightarrow> (nat \<times> u64) list" where
  "group_writes ig v = map (\<lambda>k. (ig ! (length ig - k - 1), extract_from_long v k)) [0..<length ig]"

section \<open>Attempts\<close>

text \<open>
  A part of the search goes on (the code's result 0), stops with a result, or crashes on an access
  outside of its arrays.
\<close>

datatype phase_result = Next search | Stop int search | Crash

fun bind :: "phase_result \<Rightarrow> (search \<Rightarrow> phase_result) \<Rightarrow> phase_result" where
  "bind (Next s) f = f s"
| "bind (Stop r s) f = Stop r s"
| "bind Crash f = Crash"

definition write_then :: "(nat \<times> u64) list \<Rightarrow> (search \<Rightarrow> phase_result) \<Rightarrow> search \<Rightarrow> phase_result" where
  "write_then ws f s = (case write_input ws s of None \<Rightarrow> Crash | Some s \<Rightarrow> f s)"

text \<open>What every phase does with an input that satisfies the query.\<close>

definition found :: "stat list \<Rightarrow> u64 list \<Rightarrow> nat \<Rightarrow> nat \<Rightarrow> search \<Rightarrow> phase_result" where
  "found cs values len sz s = (let s = fold bump_stat cs s in
     case vals_long_to_char values (tmp_proof s) len of None \<Rightarrow> Crash
     | Some bytes \<Rightarrow> Stop 1 (s\<lparr>tmp_proof := bytes, proof_size := Some sz\<rparr>))"

text \<open>
  The evaluation of the current input that every phase repeats, with the counters to increment,
  the reported size, and whether a timeout ends the phase.
\<close>

definition evaluate_tmp :: "problem \<Rightarrow> stat list \<Rightarrow> nat \<Rightarrow> bool \<Rightarrow> search \<Rightarrow> phase_result" where
  "evaluate_tmp p cs sz heed s = (case evaluate_branch_query p (tmp_input s) s of None \<Rightarrow> Crash
   | Some (v, s) \<Rightarrow>
     if v = 1 then found cs (tmp_input s) (seed_len (hd (seeds p))) sz s
     else if v = TIMEOUT_V \<and> heed then Stop TIMEOUT_V s
     else Next s)"

definition attempt :: "problem \<Rightarrow> nat list \<Rightarrow> stat list \<Rightarrow> nat \<Rightarrow> bool \<Rightarrow> search \<Rightarrow> phase_result" where
  "attempt p is cs sz heed s = (case is_valid_eval_group p is (tmp_input s) of None \<Rightarrow> Crash
     | Some ok \<Rightarrow> if ok then evaluate_tmp p cs sz heed s else Next s)"

text \<open>A candidate: the writes, the indexes to validate, its counter and whether a timeout counts.\<close>

type_synonym candidate = "(nat \<times> u64) list \<times> nat list \<times> stat \<times> bool"

fun run_candidates :: "problem \<Rightarrow> candidate list \<Rightarrow> search \<Rightarrow> phase_result" where
  "run_candidates p [] s = Next s"
| "run_candidates p ((ws, is, c, heed) # cs) s =
    write_then ws (\<lambda>s. bind (attempt p is [c, NUM_SAT] (seed_len (hd (seeds p))) heed s) (run_candidates p cs)) s"

end
