(* ===== verification/Fuzzy_Phases.thy ===== *)
theory Fuzzy_Phases
  imports Fuzzy_Search
begin

text \<open>
  The phases of \<^verbatim>\<open>z3-fuzzy.c\<close> that draw no random numbers, up to the deterministic mutations of AFL.
  The result 0 of a phase is \<open>Next\<close>.
\<close>

abbreviation cur :: "problem \<Rightarrow> u64 list" where
  "cur p \<equiv> seed_values (hd (seeds p))"

definition restores :: "problem \<Rightarrow> nat list \<Rightarrow> (nat \<times> u64) list" where
  "restores p is = map (\<lambda>i. (i, cur p ! i)) is"

text \<open>Reads of the current test case outside of it are undefined.\<close>

definition reading :: "problem \<Rightarrow> nat list \<Rightarrow> phase_result \<Rightarrow> phase_result" where
  "reading p is r = (if list_all (\<lambda>i. i < length (cur p)) is then r else Crash)"

definition restore :: "problem \<Rightarrow> nat list \<Rightarrow> search \<Rightarrow> phase_result" where
  "restore p is s = reading p is (write_then (restores p is) Next s)"

section \<open>Reuse\<close>

definition reuse_seed :: "problem \<Rightarrow> seed \<Rightarrow> search \<Rightarrow> phase_result" where
  "reuse_seed p t s = (case evaluate_branch_query p (seed_values t) s of None \<Rightarrow> Crash
   | Some (v, s) \<Rightarrow>
     if v = 1 then found [REUSE] (seed_values t) (seed_len t) (seed_len t) s
     else if v = TIMEOUT_V then Stop TIMEOUT_V s
     else Next s)"

fun reuse_from :: "problem \<Rightarrow> seed list \<Rightarrow> search \<Rightarrow> phase_result" where
  "reuse_from p [] s = Next s"
| "reuse_from p (t # ts) s = bind (reuse_seed p t s) (reuse_from p ts)"

definition PHASE_reuse :: "problem \<Rightarrow> search \<Rightarrow> phase_result" where
  "PHASE_reuse p s = (if skips p SKIP_REUSE then Next s
     else if length (seeds p) \<le> 1 then Crash else reuse_from p (tl (seeds p)) s)"

section \<open>Input to state\<close>

text \<open>Bytes that the current test case has already are not written.\<close>

definition changed_writes :: "problem \<Rightarrow> (nat \<times> u64) list \<Rightarrow> (nat \<times> u64) list" where
  "changed_writes p ws = filter (\<lambda>(i, v). cur p ! i \<noteq> v) ws"

definition PHASE_input_to_state :: "problem \<Rightarrow> bool \<Rightarrow> nat list \<Rightarrow> u64 \<Rightarrow> search \<Rightarrow> phase_result" where
  "PHASE_input_to_state p is_input_to_state grp const s =
    (if skips p SKIP_INPUT_TO_STATE then Next s
     else if \<not> is_input_to_state then Crash
     else reading p grp (write_then (changed_writes p (group_writes grp const))
       (\<lambda>s. bind (attempt p grp [INPUT_TO_STATE, NUM_SAT] (seed_len (hd (seeds p))) True s)
              (restore p (rev grp))) s))"

section \<open>Ranges\<close>

definition RANGE_MAX_WIDTH_BRUTE_FORCE :: nat where
  "RANGE_MAX_WIDTH_BRUTE_FORCE = 2048"

text \<open>What \<^verbatim>\<open>__check_if_range\<close> finds in a comparison of a group of bytes with a constant.\<close>

record comparison =
  cmp_group :: "nat list"
  cmp_const :: u64
  cmp_op :: optype
  add_constant :: u64
  sub_constant :: u64
  should_invert :: bool
  add_sub_const_size :: nat
  const_size :: nat

text \<open>The interval of the values of the group; \<open>None\<close> when an assertion on the sizes fails.\<close>

definition comparison_interval :: "comparison \<Rightarrow> wrapped_interval_t option" where
  "comparison_interval c = (case wi_init (const_size c) of None \<Rightarrow> None
     | Some wi \<Rightarrow> (case wi_update_cmp wi (cmp_const c) (cmp_op c) of None \<Rightarrow> None
       | Some (_, wi) \<Rightarrow>
         let wi = (if add_constant c > 0 then wi_update_sub (wi_modify_size wi (add_sub_const_size c)) (add_constant c)
                   else wi);
             wi = (if sub_constant c > 0
                   then let wi = wi_modify_size wi (add_sub_const_size c) in
                     wi_update_add (if should_invert c then wi_update_invert wi else wi) (sub_constant c)
                   else wi)
         in Some (wi_modify_size wi (length (cmp_group c) * 8))))"

definition get_range :: "problem \<Rightarrow> comparison \<Rightarrow> wrapped_interval_t option" where
  "get_range p c = map_option (\<lambda>wi. case group_interval p (cmp_group c) of None \<Rightarrow> wi
     | Some cached \<Rightarrow> if aggressive_optimistic p then wi else snd (wi_intersect wi cached))
     (comparison_interval c)"

text \<open>
  The loop over the values of an interval, by its iterator, for at most \<open>n\<close> values. It ends by
  itself when the interval has fewer.
\<close>

fun try_values :: "problem \<Rightarrow> stat \<Rightarrow> nat list \<Rightarrow> wrapped_interval_iter_t \<Rightarrow> nat \<Rightarrow> search \<Rightarrow> phase_result" where
  "try_values p c ig it 0 s = Next s"
| "try_values p c ig it (Suc n) s = (case wi_iter_get_next it of (it, None) \<Rightarrow> Next s
     | (it, Some v) \<Rightarrow> write_then (group_writes ig v)
         (\<lambda>s. bind (evaluate_tmp p [c, NUM_SAT] (seed_len (hd (seeds p))) True s)
                (try_values p c ig it n)) s)"

definition try_bound :: "problem \<Rightarrow> stat \<Rightarrow> nat list \<Rightarrow> u64 \<Rightarrow> search \<Rightarrow> phase_result" where
  "try_bound p c ig v s = reading p ig (write_then (changed_writes p (group_writes ig v))
     (attempt p ig [c, NUM_SAT] (length (cur p)) True) s)"

text \<open>The common end of \<^verbatim>\<open>PHASE_simple_math\<close> and \<^verbatim>\<open>PHASE_range_bruteforce\<close>: all values, or the two bounds.\<close>

definition try_interval :: "problem \<Rightarrow> stat \<Rightarrow> nat list \<Rightarrow> wrapped_interval_t \<Rightarrow> search \<Rightarrow> phase_result" where
  "try_interval p c ig wi s = (if unat (wi_get_range wi) > RANGE_MAX_WIDTH_BRUTE_FORCE
     then bind (try_bound p c ig (wmin wi) s)
            (\<lambda>s. bind (try_bound p c ig (wmax wi) s) (restore p (rev ig)))
     else bind (try_values p c ig (wi_init_iter_values wi) (RANGE_MAX_WIDTH_BRUTE_FORCE + 2) s) (Stop 2))"

definition PHASE_simple_math :: "problem \<Rightarrow> comparison option \<Rightarrow> search \<Rightarrow> phase_result" where
  "PHASE_simple_math p cmp s = (if skips p SKIP_SIMPLE_MATH then Next s
     else case cmp of None \<Rightarrow> Next s
     | Some c \<Rightarrow> (case get_range p c of None \<Rightarrow> Crash
       | Some wi \<Rightarrow> try_interval p SIMPLE_MATH (cmp_group c) wi s))"

definition PHASE_range_bruteforce :: "problem \<Rightarrow> nat list list \<Rightarrow> search \<Rightarrow> phase_result" where
  "PHASE_range_bruteforce p groups s =
    (if skips p SKIP_RANGE_BRUTE_FORCE \<or> aggressive_optimistic p \<or> length groups \<noteq> 1 then Next s
     else let ig = hd groups in if ig = [] then Crash
     else case group_interval p ig of None \<Rightarrow> Next s
     | Some wi \<Rightarrow> try_interval p RANGE_BRUTE_FORCE ig wi s)"

text \<open>The optimistic variant tries the first 513 values of every group and does not restore the input.\<close>

fun opt_groups :: "problem \<Rightarrow> nat list list \<Rightarrow> search \<Rightarrow> phase_result" where
  "opt_groups p [] s = Next s"
| "opt_groups p (ig # igs) s = (if ig = [] then Crash
     else case group_interval p ig of None \<Rightarrow> opt_groups p igs s
     | Some wi \<Rightarrow> bind (try_values p RANGE_BRUTE_FORCE_OPT ig (wi_init_iter_values wi)
         (RANGE_MAX_WIDTH_BRUTE_FORCE div 4 + 1) s) (opt_groups p igs))"

definition PHASE_range_bruteforce_opt :: "problem \<Rightarrow> nat list list \<Rightarrow> search \<Rightarrow> phase_result" where
  "PHASE_range_bruteforce_opt p groups s =
    (if skips p SKIP_RANGE_BRUTE_FORCE_OPT then Next s else opt_groups p groups s)"

section \<open>Input to state, extended\<close>

definition ext_stats :: "stat list" where
  "ext_stats = [INPUT_TO_STATE_EXT, NUM_SAT]"

definition try_constant :: "problem \<Rightarrow> u64 \<Rightarrow> nat list \<Rightarrow> search \<Rightarrow> phase_result" where
  "try_constant p v ig s =
    write_then (group_writes ig v) (\<lambda>s. bind (attempt p ig ext_stats (length (cur p)) True s)
      (\<lambda>s. write_then (group_writes_inv ig v)
        (\<lambda>s. bind (attempt p ig ext_stats (length (cur p)) True s) (restore p ig)) s)) s"

fun try_constants :: "problem \<Rightarrow> (u64 \<times> nat list) list \<Rightarrow> search \<Rightarrow> phase_result" where
  "try_constants p [] s = Next s"
| "try_constants p ((v, ig) # rest) s = bind (try_constant p v ig s) (try_constants p rest)"

definition PHASE_input_to_state_extended :: "problem \<Rightarrow> u64 list \<Rightarrow> nat list list \<Rightarrow> (nat list \<times> u64) list \<Rightarrow>
    search \<Rightarrow> phase_result" where
  "PHASE_input_to_state_extended p values groups ites s =
    (if skips p SKIP_INPUT_TO_STATE_EXTENDED then Next s
     else if values = [] \<and> ites = [] then Crash
     else bind (try_constants p (List.product values groups) s)
       (write_then (concat (map (\<lambda>(ig, v). group_writes ig v) ites))
         (\<lambda>s. bind (evaluate_tmp p ext_stats (length (cur p)) True s)
                (restore p (concat (map fst ites))))))"

section \<open>Brute force\<close>

fun try_bytes :: "problem \<Rightarrow> nat \<Rightarrow> u64 list \<Rightarrow> search \<Rightarrow> phase_result" where
  "try_bytes p i [] s = Next s"
| "try_bytes p i (b # bs) s = write_then [(i, b)]
    (\<lambda>s. bind (evaluate_tmp p [BRUTE_FORCE, NUM_SAT] (seed_len (hd (seeds p))) True s) (try_bytes p i bs)) s"

text \<open>\<open>indexes\<close> is the set of involved bytes in the order of its iteration; its first element is used.\<close>

definition PHASE_brute_force :: "problem \<Rightarrow> nat list \<Rightarrow> search \<Rightarrow> phase_result" where
  "PHASE_brute_force p indexes s = (if skips p SKIP_BRUTE_FORCE then Stop 2 s
     else case indexes of [] \<Rightarrow> Crash
     | i # _ \<Rightarrow> try_bytes p i (map word_of_nat [0..<256]) s)"

end
