(* ===== verification/Fuzzy_Deterministic.thy ===== *)
theory Fuzzy_Deterministic
  imports Fuzzy_Phases
begin

text \<open>
  The deterministic mutations after AFL in \<^verbatim>\<open>z3-fuzzy.c\<close>. Each \<^verbatim>\<open>SUBPHASE\<close> is the list of the inputs it
  tries, in order, with the counter it increments; the code's own counters and shifts are kept.
\<close>

section \<open>Interesting values\<close>

definition interesting8 :: "int list" where
  "interesting8 =
    [- 128, - 1, 0, 1, 2, 16, 32, 64, 100, 127]"

definition interesting16 :: "int list" where
  "interesting16 =
    [- 32768, - 129, 128, 255, 256, 512, 1000, 1024, 4096, 32767, - 20561, - 128, - 1, 0, 
     1, 2, 16, 32, 64, 100, 127]"

definition interesting32 :: "int list" where
  "interesting32 =
    [- 2147483648, - 100663046, - 32769, 32768, 65535, 65536, 16777215, 2147483647, 
     - 32768, 8421504, - 129, 16711935, 128, 255, 256, 512, 1000, 1024, 1280, 4096, 32767, 
     344064, - 128, - 1, 0, 1, 2, 16, 32, 64, 100, 127]"

definition interesting64 :: "int list" where
  "interesting64 =
    [- 9223372036854775807, 9223372036854775807, - 2147483648, - 100663046, - 32769, 32768, 
     65535, 65536, 16777215, 2147483647, - 32768, - 129, 72057589759737855, 128, 255, 256, 
     512, 1000, 1024, 4096, 32767, - 128, - 1, 0, 1, 2, 16, 32, 64, 100, 127]"

section \<open>Bytes\<close>

definition byte_at :: "problem \<Rightarrow> nat \<Rightarrow> u8" where
  "byte_at p i = ucast (cur p ! i)"

definition flip_bit :: "nat \<Rightarrow> u8 \<Rightarrow> u8" where
  "flip_bit i b = b XOR push_bit i 1"

definition subphase :: "problem \<Rightarrow> skip \<Rightarrow> nat list \<Rightarrow> candidate list \<Rightarrow> search \<Rightarrow> phase_result" where
  "subphase p sk is cs s = (if skips p sk then Next s else reading p is (run_candidates p cs s))"

definition single_walking_bit :: "problem \<Rightarrow> nat \<Rightarrow> candidate list" where
  "single_walking_bit p x = map (\<lambda>i. ([(x, ucast (flip_bit i (byte_at p x)))], [x], FLIP1, True)) [0..<8]"

definition SUBPHASE_afl_det_single_waliking_bit :: "problem \<Rightarrow> nat \<Rightarrow> search \<Rightarrow> phase_result" where
  "SUBPHASE_afl_det_single_waliking_bit p x = subphase p SKIP_SINGLE_WALKING_BIT [x] (single_walking_bit p x)"

definition two_walking_bits :: "problem \<Rightarrow> nat \<Rightarrow> candidate list" where
  "two_walking_bits p x = map (\<lambda>i. ([(x, ucast (flip_bit (i + 1) (flip_bit i (byte_at p x))))],
     [x], FLIP2, True)) [0..<7]"

definition SUBPHASE_afl_det_two_waliking_bits :: "problem \<Rightarrow> nat \<Rightarrow> search \<Rightarrow> phase_result" where
  "SUBPHASE_afl_det_two_waliking_bits p x = subphase p SKIP_TWO_WALKING_BIT [x] (two_walking_bits p x)"

definition four_walking_bits :: "problem \<Rightarrow> nat \<Rightarrow> candidate list" where
  "four_walking_bits p x = map (\<lambda>i. ([(x, ucast (flip_bit (i + 3) (flip_bit (i + 2) (flip_bit (i + 1)
     (flip_bit i (byte_at p x))))))], [x], FLIP4, True)) [0..<5]"

definition SUBPHASE_afl_det_four_waliking_bits :: "problem \<Rightarrow> nat \<Rightarrow> search \<Rightarrow> phase_result" where
  "SUBPHASE_afl_det_four_waliking_bits p x = subphase p SKIP_FOUR_WALKING_BIT [x] (four_walking_bits p x)"

text \<open>Flips of whole bytes, of one to eight indexes.\<close>

definition flip_all :: "problem \<Rightarrow> nat list \<Rightarrow> stat \<Rightarrow> candidate list" where
  "flip_all p xs c = [(map (\<lambda>x. (x, ucast (byte_at p x) XOR 0xff)) xs, xs, c, True)]"

definition SUBPHASE_afl_det_byte_flip :: "problem \<Rightarrow> nat \<Rightarrow> search \<Rightarrow> phase_result" where
  "SUBPHASE_afl_det_byte_flip p x = subphase p SKIP_BYTE_FLIP [x] (flip_all p [x] FLIP8)"

definition arith8 :: "problem \<Rightarrow> nat \<Rightarrow> candidate list" where
  "arith8 p x = concat (map (\<lambda>i.
     [([(x, ucast (byte_at p x + word_of_nat i))], [x], ARITH8_SUM, True),
      ([(x, ucast (byte_at p x - word_of_nat i))], [x], ARITH8_SUB, True)]) [1..<35])"

definition SUBPHASE_afl_det_arith8 :: "problem \<Rightarrow> nat \<Rightarrow> search \<Rightarrow> phase_result" where
  "SUBPHASE_afl_det_arith8 p x = subphase p SKIP_ARITH8 [x] (arith8 p x)"

definition int8 :: "nat \<Rightarrow> candidate list" where
  "int8 x = map (\<lambda>v. ([(x, ucast (word_of_int v :: u8))], [x], INT8, True)) interesting8"

definition SUBPHASE_afl_det_int8 :: "problem \<Rightarrow> nat \<Rightarrow> search \<Rightarrow> phase_result" where
  "SUBPHASE_afl_det_int8 p x = subphase p SKIP_INT8 [] (int8 x)"

section \<open>Words\<close>

text \<open>The bytes of a value written to indexes, least significant first.\<close>

definition le_writes :: "nat list \<Rightarrow> u64 \<Rightarrow> (nat \<times> u64) list" where
  "le_writes xs v = group_writes_inv xs v"

fun le_value :: "u8 list \<Rightarrow> u64" where
  "le_value [] = 0"
| "le_value (b # bs) = ucast b OR push_bit 8 (le_value bs)"

text \<open>
  The four inputs of an iteration of \<^verbatim>\<open>arith16\<close>, \<^verbatim>\<open>arith32\<close> and \<^verbatim>\<open>arith64\<close>, on \<open>w\<close> bits: sum and difference of the
  little-endian and of the big-endian value.
\<close>

definition arith_words :: "problem \<Rightarrow> nat list \<Rightarrow> nat \<Rightarrow> stat \<Rightarrow> stat \<Rightarrow> stat \<Rightarrow> stat \<Rightarrow> candidate list" where
  "arith_words p xs w c1 c2 c3 c4 =
    (let le = le_value (map (byte_at p) xs); be = le_value (map (byte_at p) (rev xs)) in
     concat (map (\<lambda>i.
       [(le_writes xs (take_bit w (le + word_of_nat i)), xs, c1, True),
        (le_writes xs (take_bit w (le - word_of_nat i)), xs, c2, True),
        (le_writes (rev xs) (take_bit w (be + word_of_nat i)), xs, c3, True),
        (le_writes (rev xs) (take_bit w (be - word_of_nat i)), xs, c4, True)]) [1..<35]))"

definition SUBPHASE_afl_det_flip_short :: "problem \<Rightarrow> nat list \<Rightarrow> search \<Rightarrow> phase_result" where
  "SUBPHASE_afl_det_flip_short p xs = subphase p SKIP_FLIP_SHORT xs (flip_all p xs FLIP16)"

text \<open>The last counter is that of the 32-bit subtraction, as in the code.\<close>

definition SUBPHASE_afl_det_arith16 :: "problem \<Rightarrow> nat list \<Rightarrow> search \<Rightarrow> phase_result" where
  "SUBPHASE_afl_det_arith16 p xs = subphase p SKIP_ARITH16 xs
     (arith_words p xs 16 ARITH16_SUM_LE ARITH16_SUB_LE ARITH16_SUM_BE ARITH32_SUB_BE)"

definition int16 :: "nat list \<Rightarrow> candidate list" where
  "int16 xs = map (\<lambda>v. (le_writes xs (word_of_int v), xs, INT16, True)) interesting16"

definition SUBPHASE_afl_det_int16 :: "problem \<Rightarrow> nat list \<Rightarrow> search \<Rightarrow> phase_result" where
  "SUBPHASE_afl_det_int16 p xs = subphase p SKIP_INT16 [] (int16 xs)"

definition SUBPHASE_afl_det_flip_int :: "problem \<Rightarrow> nat list \<Rightarrow> search \<Rightarrow> phase_result" where
  "SUBPHASE_afl_det_flip_int p xs = subphase p SKIP_FLIP_INT xs (flip_all p xs FLIP32)"

definition SUBPHASE_afl_det_arith32 :: "problem \<Rightarrow> nat list \<Rightarrow> search \<Rightarrow> phase_result" where
  "SUBPHASE_afl_det_arith32 p xs = subphase p SKIP_ARITH32 xs
     (arith_words p xs 32 ARITH32_SUM_LE ARITH32_SUB_LE ARITH32_SUM_BE ARITH32_SUB_BE)"

text \<open>A timeout in the first evaluation is not heeded.\<close>

definition int32 :: "nat list \<Rightarrow> candidate list" where
  "int32 xs = concat (map (\<lambda>v. [(le_writes xs (word_of_int v), xs, INT32, False),
     (le_writes (rev xs) (word_of_int v), xs, INT32, True)]) interesting32)"

definition SUBPHASE_afl_det_int32 :: "problem \<Rightarrow> nat list \<Rightarrow> search \<Rightarrow> phase_result" where
  "SUBPHASE_afl_det_int32 p xs = subphase p SKIP_INT32 [] (int32 xs)"

definition SUBPHASE_afl_det_flip_long :: "problem \<Rightarrow> nat list \<Rightarrow> search \<Rightarrow> phase_result" where
  "SUBPHASE_afl_det_flip_long p xs = subphase p SKIP_FLIP_LONG xs (flip_all p xs FLIP64)"

definition SUBPHASE_afl_det_arith64 :: "problem \<Rightarrow> nat list \<Rightarrow> search \<Rightarrow> phase_result" where
  "SUBPHASE_afl_det_arith64 p xs = subphase p SKIP_ARITH64 xs
     (arith_words p xs 64 ARITH64_SUM_LE ARITH64_SUB_LE ARITH64_SUM_BE ARITH64_SUB_BE)"

text \<open>The shifts of the upper four bytes are 24, and the flag is that of \<^verbatim>\<open>int32\<close>, as in the code.\<close>

definition int64_shifts :: "nat list" where
  "int64_shifts = [0, 8, 16, 24, 24, 24, 24, 24]"

definition int64 :: "nat list \<Rightarrow> candidate list" where
  "int64 xs = map (\<lambda>v. (zip xs (map (\<lambda>k. drop_bit k (word_of_int v) AND 0xff) int64_shifts), xs, INT64, True))
     interesting64"

definition SUBPHASE_afl_det_int64 :: "problem \<Rightarrow> nat list \<Rightarrow> search \<Rightarrow> phase_result" where
  "SUBPHASE_afl_det_int64 p xs = subphase p SKIP_INT32 [] (int64 xs)"

section \<open>Phases\<close>

text \<open>Parts run one after the other, up to the first that does not go on.\<close>

fun seq :: "(search \<Rightarrow> phase_result) list \<Rightarrow> search \<Rightarrow> phase_result" where
  "seq [] s = Next s"
| "seq (f # fs) s = bind (f s) (seq fs)"

text \<open>\<open>indexes\<close> and \<open>groups\<close> are the involved bytes and groups in the order of their iteration.\<close>

definition bytes_of_group :: "problem \<Rightarrow> nat list \<Rightarrow> search \<Rightarrow> phase_result" where
  "bytes_of_group p g = seq (map (\<lambda>x. seq
     [SUBPHASE_afl_det_single_waliking_bit p x, SUBPHASE_afl_det_two_waliking_bits p x,
      SUBPHASE_afl_det_four_waliking_bits p x, SUBPHASE_afl_det_int8 p x, restore p [x]]) g)"

definition words_of_group :: "problem \<Rightarrow> nat list \<Rightarrow> nat list \<Rightarrow> search \<Rightarrow> phase_result" where
  "words_of_group p indexes g =
    (if length g = 2 then let y = g ! 1 in seq
       [SUBPHASE_afl_det_flip_short p g, SUBPHASE_afl_det_arith16 p g, SUBPHASE_afl_det_int16 p g,
        if y + 1 \<in> set indexes \<and> y + 2 \<in> set indexes
        then seq [SUBPHASE_afl_det_int32 p (g @ [y + 1, y + 2]), restore p [y + 1, y + 2]] else Next,
        restore p g]
     else if length g = 4 then let y = g ! 3 in seq
       [SUBPHASE_afl_det_flip_int p g, SUBPHASE_afl_det_arith32 p g, SUBPHASE_afl_det_int32 p g,
        if y + 1 \<in> set indexes \<and> y + 2 \<in> set indexes \<and> y + 3 \<in> set indexes \<and> y + 4 \<in> set indexes
        then seq [SUBPHASE_afl_det_int64 p (g @ [y + 1, y + 2, y + 3, y + 4]),
                  restore p [y + 1, y + 2, y + 3, y + 4]] else Next,
        restore p g]
     else if length g = 8 then seq
       [SUBPHASE_afl_det_flip_long p g, SUBPHASE_afl_det_arith64 p g, SUBPHASE_afl_det_int64 p g, restore p g]
     else seq (map (\<lambda>x. seq
       [SUBPHASE_afl_det_byte_flip p x, SUBPHASE_afl_det_arith8 p x,
        if x + 1 \<in> set indexes then seq [SUBPHASE_afl_det_int16 p [x, x + 1], restore p [x + 1]] else Next,
        restore p [x]]) g))"

definition PHASE_afl_deterministic_groups :: "problem \<Rightarrow> nat list \<Rightarrow> nat list list \<Rightarrow> search \<Rightarrow> phase_result" where
  "PHASE_afl_deterministic_groups p indexes groups s = (if skips p SKIP_AFL_DETERMINISTIC then Next s
     else seq (map (\<lambda>g. seq [bytes_of_group p g, words_of_group p indexes g]) groups) s)"

definition mutate_index :: "problem \<Rightarrow> nat list \<Rightarrow> nat \<Rightarrow> search \<Rightarrow> phase_result" where
  "mutate_index p indexes x = seq
    [SUBPHASE_afl_det_single_waliking_bit p x, SUBPHASE_afl_det_two_waliking_bits p x,
     SUBPHASE_afl_det_four_waliking_bits p x, SUBPHASE_afl_det_byte_flip p x, SUBPHASE_afl_det_arith8 p x,
     SUBPHASE_afl_det_int8 p x, restore p [x],
     if x + 1 \<notin> set indexes then Next else seq
       [SUBPHASE_afl_det_flip_short p [x, x + 1], SUBPHASE_afl_det_arith16 p [x, x + 1],
        SUBPHASE_afl_det_int16 p [x, x + 1], restore p [x, x + 1],
        if x + 2 \<notin> set indexes \<or> x + 3 \<notin> set indexes then Next else seq
          [SUBPHASE_afl_det_flip_int p [x, x + 1, x + 2, x + 3],
           SUBPHASE_afl_det_arith32 p [x, x + 1, x + 2, x + 3],
           SUBPHASE_afl_det_int32 p [x, x + 1, x + 2, x + 3], restore p [x, x + 1, x + 2, x + 3]]]]"

definition PHASE_afl_deterministic :: "problem \<Rightarrow> nat list \<Rightarrow> search \<Rightarrow> phase_result" where
  "PHASE_afl_deterministic p indexes s = (if skips p SKIP_AFL_DETERMINISTIC then Next s
     else seq (map (mutate_index p indexes) indexes) s)"

end
