(* ===== verification/Fuzzy_Logic.thy ===== *)
theory Fuzzy_Logic
  imports Fuzzy_Deterministic
begin

text \<open>
  A program logic for the phases of the search. The locale \<open>search_logic\<close> has an invariant indexed
  by the set of the input bytes that may have been changed, and a condition on results; it shows
  that the phases keep them and do not crash, from what single writes and evaluations do.
\<close>

named_theorems triple_intros

section \<open>Well-formed problems\<close>

abbreviation in_bounds :: "problem \<Rightarrow> nat list \<Rightarrow> bool" where
  "in_bounds p is \<equiv> list_all (\<lambda>i. i < length (cur p)) is"

definition wf_problem :: "problem \<Rightarrow> bool" where
  "wf_problem p = (\<forall>i. list_all (\<lambda>(ig, wi). in_bounds p ig) (intervals p i))"

text \<open>
  The sizes that the evaluation of an input relies on: the buffers of the search, which are made for
  the first test case, are large enough for it and for the other test cases, and these are not
  shorter than it.
\<close>

definition room :: "problem \<Rightarrow> search \<Rightarrow> bool" where
  "room p s = (n_symbols p \<le> length (cur p) \<and> seed_len (hd (seeds p)) \<le> length (cur p) \<and>
     length (cur p) \<le> length (tmp_opt_input s) \<and> seed_len (hd (seeds p)) \<le> length (tmp_proof s) \<and>
     seed_len (hd (seeds p)) \<le> length (tmp_opt_proof s) \<and>
     list_all (\<lambda>t. length (cur p) \<le> length (seed_values t) \<and> seed_len t \<le> length (seed_values t) \<and>
       seed_len t \<le> length (tmp_proof s)) (tl (seeds p)))"

lemma room_cong:
  "length (tmp_proof s') = length (tmp_proof s) \<Longrightarrow> length (tmp_opt_input s') = length (tmp_opt_input s) \<Longrightarrow>
   length (tmp_opt_proof s') = length (tmp_opt_proof s) \<Longrightarrow> room p s' = room p s"
  by (simp add: room_def)

text \<open>The sizes that the phases report for an input of theirs.\<close>

definition sizes :: "problem \<Rightarrow> nat set" where
  "sizes p = {seed_len (hd (seeds p)), length (cur p)}"

lemma sizes_simps [simp]: "seed_len (hd (seeds p)) \<in> sizes p" "length (cur p) \<in> sizes p"
  by (simp_all add: sizes_def)

definition post :: "(search \<Rightarrow> bool) \<Rightarrow> (int \<Rightarrow> search \<Rightarrow> bool) \<Rightarrow> phase_result \<Rightarrow> bool" where
  "post Q R r = (case r of Next s \<Rightarrow> Q s | Stop v s \<Rightarrow> R v s | Crash \<Rightarrow> False)"

lemma post_simps [simp]:
  "post Q R (Next s) = Q s"
  "post Q R (Stop v s) = R v s"
  "\<not> post Q R Crash"
  by (simp_all add: post_def)

lemma post_bind:
  assumes "post Q R r" and "\<And>s. Q s \<Longrightarrow> post Q' R (f s)"
  shows "post Q' R (bind r f)"
  using assms by (cases r) simp_all

lemma post_mono:
  assumes "post Q R r" and "\<And>s. Q s \<Longrightarrow> Q' s"
  shows "post Q' R r"
  using assms by (cases r) simp_all

lemma bind_assoc: "bind (bind r f) g = bind r (\<lambda>s. bind (f s) g)"
  by (cases r) simp_all

lemma seq_append: "seq (fs @ gs) = (\<lambda>s. bind (seq fs s) (seq gs))"
  by (induction fs) (auto simp: bind_assoc)

lemma write_input_defined:
  assumes "list_all (\<lambda>w. fst w < length (tmp_input s)) ws"
  shows "\<exists>s'. write_input ws s = Some s'"
  using assms by (induction ws s rule: write_input.induct) simp_all

lemma index_group_to_value_defined [simp]:
  "list_all (\<lambda>i. i < length values) ig \<Longrightarrow> \<exists>v. index_group_to_value ig values = Some v"
  by (simp add: index_group_to_value_def)

lemma in_intervals_defined:
  assumes "list_all (\<lambda>(ig, wi). list_all (\<lambda>i. i < length vs) ig) gs"
  shows "\<exists>ok. in_intervals gs vs = Some ok"
  using assms
proof (induction gs vs rule: in_intervals.induct)
  case (2 ig wi gs vs)
  then obtain v where "index_group_to_value ig vs = Some v"
    using index_group_to_value_defined by fastforce
  with 2 show ?case by auto
qed (rule exI [of _ True], simp)

lemma is_valid_eval_group_defined:
  assumes "wf_problem p" "length vs = length (cur p)"
  shows "\<exists>ok. is_valid_eval_group p is vs = Some ok"
proof (induction "is")
  case (Cons i "is")
  have "list_all (\<lambda>(ig, wi). list_all (\<lambda>i. i < length vs) ig) (intervals p i)"
    using assms by (simp add: wf_problem_def)
  then obtain ok where "is_valid_eval_index p i vs = Some ok"
    using in_intervals_defined [of vs "intervals p i"] by (cases "check_is_valid p") (auto simp: is_valid_eval_index_def)
  with Cons show ?case by auto
qed (rule exI [of _ True], simp)

section \<open>The logic\<close>

locale search_logic =
  fixes p :: problem
    and I :: "nat set \<Rightarrow> search \<Rightarrow> bool"
    and R :: "int \<Rightarrow> search \<Rightarrow> bool"
  assumes wf: "I X s \<Longrightarrow> wf_problem p"
    and len: "I X s \<Longrightarrow> length (tmp_input s) = length (cur p)"
    and weaken: "I X s \<Longrightarrow> X \<subseteq> Y \<Longrightarrow> I Y s"
    and writes: "I X s \<Longrightarrow> write_input ws s = Some s' \<Longrightarrow> fst ` set ws \<subseteq> X \<Longrightarrow> I X s'"
    and restored: "I X s \<Longrightarrow> in_bounds p is \<Longrightarrow> write_input (restores p is) s = Some s' \<Longrightarrow> I (X - set is) s'"
    and evaluated: "I X s \<Longrightarrow> sz \<in> sizes p \<Longrightarrow> post (I X) R (evaluate_tmp p cs sz heed s)"
    and reused: "I X s \<Longrightarrow> t \<in> set (tl (seeds p)) \<Longrightarrow> post (I X) R (reuse_seed p t s)"
    and exhausted: "I X s \<Longrightarrow> R 0 s"
    and timed_out: "I X s \<Longrightarrow> R TIMEOUT_V s"
    and unsat: "R 2 s \<Longrightarrow> R 0 s"
begin

definition triple :: "nat set \<Rightarrow> (search \<Rightarrow> phase_result) \<Rightarrow> nat set \<Rightarrow> bool" where
  "triple X f Y = (\<forall>s. I X s \<longrightarrow> post (I Y) R (f s))"

lemma tripleI: "(\<And>s. I X s \<Longrightarrow> post (I Y) R (f s)) \<Longrightarrow> triple X f Y"
  by (simp add: triple_def)

lemma tripleD: "triple X f Y \<Longrightarrow> I X s \<Longrightarrow> post (I Y) R (f s)"
  by (simp add: triple_def)

lemma triple_Next [triple_intros]: "X \<subseteq> Y \<Longrightarrow> triple X Next Y"
  by (rule tripleI) (auto intro: weaken)

lemma triple_weaken: "triple X f Y \<Longrightarrow> X' \<subseteq> X \<Longrightarrow> Y \<subseteq> Y' \<Longrightarrow> triple X' f Y'"
  by (rule tripleI) (blast intro: post_mono tripleD weaken)

lemma triple_bind: "triple X f Y \<Longrightarrow> triple Y g Z \<Longrightarrow> triple X (\<lambda>s. bind (f s) g) Z"
  by (auto intro!: tripleI elim: post_bind [OF tripleD] dest: tripleD)

lemma triple_write:
  assumes "list_all (\<lambda>w. fst w < length (cur p)) ws" "triple (X \<union> fst ` set ws) f Y"
  shows "triple X (write_then ws f) Y"
proof (rule tripleI)
  fix s assume i: "I X s"
  then obtain s' where s': "write_input ws s = Some s'"
    using assms(1) write_input_defined [of s ws] by (auto simp: len)
  have "I (X \<union> fst ` set ws) s'"
    using writes [OF weaken [OF i] s'] by auto
  with assms(2) show "post (I Y) R (write_then ws f s)"
    by (simp add: write_then_def s' tripleD)
qed

lemma triple_evaluate: "sz \<in> sizes p \<Longrightarrow> triple X (evaluate_tmp p cs sz heed) X"
  by (simp add: tripleI evaluated)

lemma triple_attempt:
  assumes "sz \<in> sizes p"
  shows "triple X (attempt p is cs sz heed) X"
proof (rule tripleI)
  fix s assume i: "I X s"
  then obtain ok where "is_valid_eval_group p is (tmp_input s) = Some ok"
    using is_valid_eval_group_defined [OF wf [OF i] len [OF i]] by blast
  with i assms show "post (I X) R (attempt p is cs sz heed s)"
    by (simp add: attempt_def evaluated)
qed

lemma triple_restore [triple_intros]:
  assumes "in_bounds p is"
  shows "triple X (restore p is) (X - set is)"
proof (rule tripleI)
  fix s assume i: "I X s"
  have "list_all (\<lambda>w. fst w < length (tmp_input s)) (restores p is)"
    using assms i by (auto simp: restores_def list_all_iff len)
  then obtain s' where "write_input (restores p is) s = Some s'"
    using write_input_defined by blast
  with i assms show "post (I (X - set is)) R (restore p is s)"
    by (simp add: restore_def reading_def write_then_def restored)
qed

lemma triple_seq_Nil [triple_intros]: "X \<subseteq> Y \<Longrightarrow> triple X (seq []) Y"
  by (rule tripleI) (auto intro: weaken)

lemma triple_seq_Cons: "triple X f Y \<Longrightarrow> triple Y (seq fs) Z \<Longrightarrow> triple X (seq (f # fs)) Z"
  by (rule tripleI) (auto intro: post_bind tripleD)

lemma triple_seq_map: "(\<And>x. x \<in> set xs \<Longrightarrow> triple X (f x) X) \<Longrightarrow> triple X (seq (map f xs)) X"
  by (induction xs) (auto intro: triple_intros triple_seq_Cons)

lemma triple_if: "(b \<Longrightarrow> triple X f Y) \<Longrightarrow> (\<not> b \<Longrightarrow> triple X g Y) \<Longrightarrow> triple X (if b then f else g) Y"
  by simp

lemma triple_candidates:
  assumes "list_all (\<lambda>c. fst ` set (fst c) \<subseteq> X) cs" "X \<subseteq> {..<length (cur p)}"
  shows "triple X (run_candidates p cs) X"
  using assms(1)
proof (induction cs)
  case Nil
  show ?case by (rule tripleI) simp
next
  case (Cons c cs)
  obtain ws "is" st heed where c: "c = (ws, is, st, heed)" by (cases c)
  with Cons.prems have sub: "fst ` set ws \<subseteq> X" by simp
  have "list_all (\<lambda>w. fst w < length (cur p)) ws"
    using sub assms(2) by (auto simp: list_all_iff)
  moreover have "triple (X \<union> fst ` set ws)
      (\<lambda>s. bind (attempt p is [st, NUM_SAT] (seed_len (hd (seeds p))) heed s) (run_candidates p cs)) X"
    using triple_bind [OF triple_attempt [OF sizes_simps(1)] Cons.IH] Cons.prems sub by (simp add: Un_absorb2)
  ultimately show ?case
    unfolding c by (auto intro!: tripleI dest: triple_write tripleD)
qed

lemma triple_subphase:
  assumes "list_all (\<lambda>c. fst ` set (fst c) \<subseteq> set xs) cs" "set xs \<subseteq> Y" "in_bounds p is"
    "Y \<subseteq> {..<length (cur p)}"
  shows "triple Y (subphase p sk is cs) Y"
proof (rule tripleI)
  fix s assume "I Y s"
  moreover have "list_all (\<lambda>c. fst ` set (fst c) \<subseteq> Y) cs"
    using assms(1,2) unfolding list_all_iff by blast
  then have "triple Y (run_candidates p cs) Y"
    using assms(4) by (rule triple_candidates)
  ultimately show "post (I Y) R (subphase p sk is cs s)"
    using assms(3) by (simp add: subphase_def reading_def tripleD)
qed

end

section \<open>Where the mutations write\<close>

lemma fst_set_writes [simp]:
  "fst ` set (group_writes_inv ig v) = set ig" "fst ` set (le_writes ig v) = set ig"
proof -
  have "map fst (group_writes_inv ig v) = ig"
    by (simp add: group_writes_inv_def comp_def map_nth)
  then show "fst ` set (group_writes_inv ig v) = set ig"
    by (metis list.set_map)
  then show "fst ` set (le_writes ig v) = set ig"
    by (simp add: le_writes_def)
qed

lemma fst_set_group_writes [simp]: "fst ` set (group_writes ig v) = set ig"
proof -
  have "map fst (group_writes ig v) = rev ig"
    by (auto simp: group_writes_def rev_nth intro: nth_equalityI)
  then show ?thesis by (metis list.set_map set_rev)
qed

lemma mutations_within:
  "list_all (\<lambda>c. fst ` set (fst c) \<subseteq> {x}) (single_walking_bit p x)"
  "list_all (\<lambda>c. fst ` set (fst c) \<subseteq> {x}) (two_walking_bits p x)"
  "list_all (\<lambda>c. fst ` set (fst c) \<subseteq> {x}) (four_walking_bits p x)"
  "list_all (\<lambda>c. fst ` set (fst c) \<subseteq> {x}) (arith8 p x)"
  "list_all (\<lambda>c. fst ` set (fst c) \<subseteq> {x}) (int8 x)"
  "list_all (\<lambda>c. fst ` set (fst c) \<subseteq> set xs) (flip_all p xs st)"
  "list_all (\<lambda>c. fst ` set (fst c) \<subseteq> set xs) (arith_words p xs w c1 c2 c3 c4)"
  "list_all (\<lambda>c. fst ` set (fst c) \<subseteq> set xs) (int16 xs)"
  "list_all (\<lambda>c. fst ` set (fst c) \<subseteq> set xs) (int32 xs)"
  "list_all (\<lambda>c. fst ` set (fst c) \<subseteq> set xs) (int64 xs)"
  by (auto simp: list_all_iff single_walking_bit_def two_walking_bits_def four_walking_bits_def arith8_def
      int8_def flip_all_def arith_words_def int16_def int32_def int64_def Let_def dest: set_zip_leftD)

section \<open>The subphases and phases\<close>

context search_logic
begin

text \<open>The bytes that a part may change are those that it is given.\<close>

lemma triple_bytes [triple_intros]:
  assumes "x \<in> Y" "Y \<subseteq> {..<length (cur p)}"
  shows "triple Y (SUBPHASE_afl_det_single_waliking_bit p x) Y"
    "triple Y (SUBPHASE_afl_det_two_waliking_bits p x) Y"
    "triple Y (SUBPHASE_afl_det_four_waliking_bits p x) Y"
    "triple Y (SUBPHASE_afl_det_byte_flip p x) Y"
    "triple Y (SUBPHASE_afl_det_arith8 p x) Y"
    "triple Y (SUBPHASE_afl_det_int8 p x) Y"
proof -
  note sub = triple_subphase [where xs = "[x]", simplified, OF _ assms(1) _ assms(2)]
  have b: "in_bounds p [x]" using assms by auto
  show "triple Y (SUBPHASE_afl_det_single_waliking_bit p x) Y"
    "triple Y (SUBPHASE_afl_det_two_waliking_bits p x) Y"
    "triple Y (SUBPHASE_afl_det_four_waliking_bits p x) Y"
    "triple Y (SUBPHASE_afl_det_byte_flip p x) Y"
    "triple Y (SUBPHASE_afl_det_arith8 p x) Y"
    "triple Y (SUBPHASE_afl_det_int8 p x) Y"
    using mutations_within(6) [of "[x]" p]
    unfolding SUBPHASE_afl_det_single_waliking_bit_def SUBPHASE_afl_det_two_waliking_bits_def
      SUBPHASE_afl_det_four_waliking_bits_def SUBPHASE_afl_det_byte_flip_def SUBPHASE_afl_det_arith8_def
      SUBPHASE_afl_det_int8_def
    by (auto intro!: sub mutations_within b)
qed

lemma triple_words [triple_intros]:
  assumes "set xs \<subseteq> Y" "Y \<subseteq> {..<length (cur p)}"
  shows "triple Y (SUBPHASE_afl_det_flip_short p xs) Y"
    "triple Y (SUBPHASE_afl_det_arith16 p xs) Y"
    "triple Y (SUBPHASE_afl_det_int16 p xs) Y"
    "triple Y (SUBPHASE_afl_det_flip_int p xs) Y"
    "triple Y (SUBPHASE_afl_det_arith32 p xs) Y"
    "triple Y (SUBPHASE_afl_det_int32 p xs) Y"
    "triple Y (SUBPHASE_afl_det_flip_long p xs) Y"
    "triple Y (SUBPHASE_afl_det_arith64 p xs) Y"
    "triple Y (SUBPHASE_afl_det_int64 p xs) Y"
proof -
  note sub = triple_subphase [OF _ assms(1) _ assms(2)]
  have b: "in_bounds p xs" "in_bounds p []" using assms by (auto simp: list_all_iff)
  show "triple Y (SUBPHASE_afl_det_flip_short p xs) Y"
    "triple Y (SUBPHASE_afl_det_arith16 p xs) Y"
    "triple Y (SUBPHASE_afl_det_int16 p xs) Y"
    "triple Y (SUBPHASE_afl_det_flip_int p xs) Y"
    "triple Y (SUBPHASE_afl_det_arith32 p xs) Y"
    "triple Y (SUBPHASE_afl_det_int32 p xs) Y"
    "triple Y (SUBPHASE_afl_det_flip_long p xs) Y"
    "triple Y (SUBPHASE_afl_det_arith64 p xs) Y"
    "triple Y (SUBPHASE_afl_det_int64 p xs) Y"
    unfolding SUBPHASE_afl_det_flip_short_def SUBPHASE_afl_det_arith16_def SUBPHASE_afl_det_int16_def
      SUBPHASE_afl_det_flip_int_def SUBPHASE_afl_det_arith32_def SUBPHASE_afl_det_int32_def
      SUBPHASE_afl_det_flip_long_def SUBPHASE_afl_det_arith64_def SUBPHASE_afl_det_int64_def
    by (intro sub mutations_within b)+
qed

text \<open>A part that starts with an unchanged input may assume more changes, and the rules go through a sequence.\<close>

lemma triple_from_empty: "triple X f Y \<Longrightarrow> triple {} f Y"
  by (rule triple_weaken) auto

lemma triple_restores: "in_bounds p is \<Longrightarrow> X \<subseteq> set is \<union> Y \<Longrightarrow> triple X (restore p is) Y"
  by (rule triple_weaken [OF triple_restore]) auto

lemma triple_seq_append: "triple X (seq fs) Y \<Longrightarrow> triple Y (seq gs) Z \<Longrightarrow> triple X (seq (fs @ gs)) Z"
  by (rule tripleI) (auto simp: seq_append intro: post_bind tripleD)

text \<open>Parts that change some bytes, then the restore of these bytes, then the rest.\<close>

lemma triple_block:
  assumes "\<And>f. f \<in> set fs \<Longrightarrow> triple (set is) f (set is)" "in_bounds p is" "triple {} (seq gs) Y"
  shows "triple {} (seq (fs @ restore p is # gs)) Y"
proof -
  have "triple (set is) (seq (map id fs)) (set is)"
    by (rule triple_seq_map) (simp add: assms(1))
  moreover have "triple (set is) (seq (restore p is # gs)) Y"
    by (rule triple_seq_Cons [OF triple_restores assms(3)]) (simp_all add: assms(2))
  ultimately show ?thesis
    by (auto intro: triple_from_empty [OF triple_seq_append])
qed

lemma triple_seq_last: "triple X f Y \<Longrightarrow> triple X (seq [f]) Y"
  by (auto intro: triple_seq_Cons triple_seq_Nil)

lemma triple_mutate_index:
  assumes "set indexes \<subseteq> {..<length (cur p)}" "x \<in> set indexes"
  shows "triple {} (mutate_index p indexes x) {}"
proof -
  have lt: "y < length (cur p)" if "y \<in> set indexes" for y
    using assms that by auto
  let ?b2 = "[x, x + 1]" and ?b4 = "[x, x + 1, x + 2, x + 3]"
  have four: "triple {} (seq [SUBPHASE_afl_det_flip_int p ?b4, SUBPHASE_afl_det_arith32 p ?b4,
      SUBPHASE_afl_det_int32 p ?b4, restore p ?b4]) {}"
    if "x + 1 \<in> set indexes" "x + 2 \<in> set indexes" "x + 3 \<in> set indexes"
    using lt [OF assms(2)] that [THEN lt]
    by (intro triple_block [of "[_, _, _]" _ "[]", unfolded append.simps]) (auto intro!: triple_words triple_seq_Nil)
  have two: "triple {} (seq [SUBPHASE_afl_det_flip_short p ?b2, SUBPHASE_afl_det_arith16 p ?b2,
      SUBPHASE_afl_det_int16 p ?b2, restore p ?b2, f]) {}"
    if "x + 1 \<in> set indexes" "triple {} f {}" for f
    using lt [OF assms(2)] that(1) [THEN lt] that(2)
    by (intro triple_block [of "[_, _, _]" _ "[_]", unfolded append.simps]) (auto intro!: triple_words triple_seq_last)
  have one: "triple {} (seq [SUBPHASE_afl_det_single_waliking_bit p x, SUBPHASE_afl_det_two_waliking_bits p x,
     SUBPHASE_afl_det_four_waliking_bits p x, SUBPHASE_afl_det_byte_flip p x, SUBPHASE_afl_det_arith8 p x,
     SUBPHASE_afl_det_int8 p x, restore p [x], f]) {}" if "triple {} f {}" for f
    using lt [OF assms(2)] that
    by (intro triple_block [of "[_, _, _, _, _, _]" _ "[_]", unfolded append.simps])
      (auto intro!: triple_bytes triple_seq_last)
  show ?thesis
    unfolding mutate_index_def
    by (intro one triple_if triple_Next two four) auto
qed

lemma triple_afl_deterministic:
  assumes "set indexes \<subseteq> {..<length (cur p)}"
  shows "triple {} (PHASE_afl_deterministic p indexes) {}"
  using triple_seq_map [of indexes "{}" "mutate_index p indexes"] triple_mutate_index [OF assms]
  by (auto simp: PHASE_afl_deterministic_def intro!: tripleI dest: tripleD)

lemma triple_bytes_of_group:
  assumes "set g \<subseteq> {..<length (cur p)}"
  shows "triple {} (bytes_of_group p g) {}"
  unfolding bytes_of_group_def using assms
  by (intro triple_seq_map triple_block [of "[_, _, _, _]" _ "[]", unfolded append.simps])
    (auto intro!: triple_bytes triple_seq_Nil)

text \<open>A mutation of further bytes, which is undone, inside of a block.\<close>

lemma triple_further:
  assumes "\<And>Y. set (g @ ys) \<subseteq> Y \<Longrightarrow> Y \<subseteq> {..<length (cur p)} \<Longrightarrow> triple Y f Y" "in_bounds p (g @ ys)"
  shows "triple (set g) (seq [f, restore p ys]) (set g)"
proof -
  have "triple (set (g @ ys)) f (set (g @ ys))"
    using assms by (auto simp: list_all_iff)
  then have "triple (set (g @ ys)) (seq [f, restore p ys]) (set g)"
    using assms(2) by (auto intro!: triple_seq_Cons [where Y = "set (g @ ys)"] triple_seq_last triple_restores)
  then show ?thesis
    by (rule triple_weaken) auto
qed

lemma triple_further_words:
  assumes "in_bounds p (g @ ys)"
  shows "triple (set g) (seq [SUBPHASE_afl_det_int16 p (g @ ys), restore p ys]) (set g)"
    "triple (set g) (seq [SUBPHASE_afl_det_int32 p (g @ ys), restore p ys]) (set g)"
    "triple (set g) (seq [SUBPHASE_afl_det_int64 p (g @ ys), restore p ys]) (set g)"
  using assms by (blast intro: triple_further triple_words)+

lemma triple_words_of_group:
  assumes g: "set g \<subseteq> {..<length (cur p)}" and ind: "set indexes \<subseteq> {..<length (cur p)}"
  shows "triple {} (words_of_group p indexes g) {}"
proof -
  have lt: "y < length (cur p)" if "y \<in> set indexes" for y
    using ind that by auto
  have b: "in_bounds p g" using g by (auto simp: list_all_iff)
  note blk = triple_block [of _ g, OF _ b]
  consider (two) "length g = 2" | (four) "length g = 4" | (eight) "length g = 8"
    | (other) "length g \<noteq> 2" "length g \<noteq> 4" "length g \<noteq> 8" by blast
  then show ?thesis
  proof cases
    case two
    then show ?thesis
      using g b lt by (auto simp: words_of_group_def Let_def intro!: blk [of "[_, _, _, _]" "[]", unfolded append.simps]
          triple_words triple_further_words triple_seq_Nil triple_Next)
  next
    case four
    then show ?thesis
      using g b lt by (auto simp: words_of_group_def Let_def intro!: blk [of "[_, _, _, _]" "[]", unfolded append.simps]
          triple_words triple_further_words triple_seq_Nil triple_Next)
  next
    case eight
    then show ?thesis
      using g by (auto simp: words_of_group_def intro!: blk [of "[_, _, _]" "[]", unfolded append.simps]
          triple_words triple_seq_Nil)
  next
    case other
    have gx: "x < length (cur p)" if "x \<in> set g" for x
      using g that by auto
    have "triple {x} (seq [SUBPHASE_afl_det_int16 p [x, Suc x], restore p [Suc x]]) {x}"
      if "x \<in> set g" "Suc x \<in> set indexes" for x
      using triple_further_words(1) [of "[x]" "[Suc x]"] gx lt that by simp
    with other show ?thesis
      by (auto simp: words_of_group_def gx intro!: triple_seq_map triple_Next
          triple_block [of "[_, _, _]" _ "[]", unfolded append.simps] triple_bytes triple_words triple_seq_Nil)
  qed
qed

lemma triple_afl_deterministic_groups:
  assumes "\<forall>g\<in>set groups. set g \<subseteq> {..<length (cur p)}" "set indexes \<subseteq> {..<length (cur p)}"
  shows "triple {} (PHASE_afl_deterministic_groups p indexes groups) {}"
proof -
  have "triple {} (seq [bytes_of_group p g, words_of_group p indexes g]) {}" if "g \<in> set groups" for g
    using assms that
    by (intro triple_seq_Cons [OF triple_bytes_of_group] triple_seq_last triple_words_of_group) auto
  then show ?thesis
    using triple_seq_map [of groups "{}" "\<lambda>g. seq [bytes_of_group p g, words_of_group p indexes g]"]
    by (auto simp: PHASE_afl_deterministic_groups_def intro!: tripleI dest: tripleD)
qed

end

end
