(* ===== verification/Fuzzy_Gradient.thy ===== *)
theory Fuzzy_Gradient
  imports Fuzzy_Phases
begin

text \<open>
  The gradient phase of \<^verbatim>\<open>z3-fuzzy.c\<close>: the mapping of the minimiser's variables to input bytes and the
  loop around the minimiser. A run of the minimiser, which evaluates a Z3 term that
  \<^verbatim>\<open>__gradient_transf_init\<close> builds, is the argument \<open>descent\<close>: its result, its variables and the state.
\<close>

section \<open>Mapping\<close>

record mapping_subel =
  sub_idx :: nat
  sub_shift :: nat
  sub_mask :: u64

type_synonym mapping = "mapping_subel list list"

text \<open>
  \<^verbatim>\<open>0xff << (fixed_i * 8)\<close> is a shift of an \<^verbatim>\<open>int\<close>: sign-extended for the fourth byte, undefined beyond.
\<close>

definition int_mask :: "nat \<Rightarrow> u64 option" where
  "int_mask k = (if k < 4 then Some (scast (push_bit (8 * k) (0xff :: u32))) else None)"

fun group_subels :: "nat list \<Rightarrow> mapping_subel list option" where
  "group_subels [] = Some []"
| "group_subels (x # g) = Option.bind (group_subels g) (\<lambda>subs. map_option (\<lambda>m.
     subs @ [\<lparr>sub_idx = x mod 2 ^ 32, sub_shift = 8 * length g, sub_mask = m\<rparr>]) (int_mask (length g)))"

fun all_defined :: "'a option list \<Rightarrow> 'a list option" where
  "all_defined [] = Some []"
| "all_defined (x # xs) = Option.bind x (\<lambda>x. map_option (Cons x) (all_defined xs))"

definition check_overlapping_groups :: "nat list list \<Rightarrow> bool" where
  "check_overlapping_groups groups = (\<not> distinct (concat groups))"

text \<open>The mapping and the initial variables; the groups, or single bytes when groups overlap.\<close>

definition gd_init_eval :: "nat list \<Rightarrow> nat list list \<Rightarrow> u64 list \<Rightarrow> (mapping \<times> u64 list) option" where
  "gd_init_eval ix groups inp =
    (if \<not> check_overlapping_groups groups
     then Option.bind (all_defined (map group_subels groups)) (\<lambda>mp. map_option (Pair mp)
       (all_defined (map (\<lambda>g. index_group_to_value g inp) groups)))
     else if list_all (\<lambda>i. i < length inp) ix
     then Some (map (\<lambda>i. [\<lparr>sub_idx = i mod 2 ^ 32, sub_shift = 0, sub_mask = 0xff\<rparr>]) ix, map (\<lambda>i. inp ! i) ix)
     else None)"

definition gd_writes :: "mapping \<Rightarrow> u64 list \<Rightarrow> (nat \<times> u64) list" where
  "gd_writes mp x = concat (map (\<lambda>(el, v). map (\<lambda>sub.
     (sub_idx sub, drop_bit (sub_shift sub) (v AND sub_mask sub) AND 0xff)) el) (zip mp x))"

definition gd_fix_tmp_input :: "mapping \<Rightarrow> u64 list \<Rightarrow> (search \<Rightarrow> phase_result) \<Rightarrow> search \<Rightarrow> phase_result" where
  "gd_fix_tmp_input mp x = write_then (gd_writes mp x)"

definition gd_restore_tmp_input :: "problem \<Rightarrow> mapping \<Rightarrow> search \<Rightarrow> phase_result" where
  "gd_restore_tmp_input p mp = restore p (map sub_idx (concat mp))"

section \<open>The loop\<close>

type_synonym descent = "search \<Rightarrow> u64 list \<Rightarrow> (int \<times> u64 list \<times> search) option"

text \<open>
  The loop ends when the minimiser fails or returns variables it has returned before, by their
  digest. The minimiser keeps the number of variables.
\<close>

function gradient_loop :: "problem \<Rightarrow> (u64 list \<Rightarrow> u8 list) \<Rightarrow> descent \<Rightarrow> mapping \<Rightarrow> u8 list set \<Rightarrow> u64 list \<Rightarrow>
    search \<Rightarrow> phase_result" where
  "gradient_loop p dig descent mp seen x s = (case descent s x of None \<Rightarrow> Crash
     | Some (ret, x', s') \<Rightarrow>
       if length x' \<noteq> length x then Crash
       else if ret = TIMEOUT_V then Stop TIMEOUT_V s'
       else if ret \<noteq> 0 \<or> dig x' \<in> seen then gd_restore_tmp_input p mp s'
       else gd_fix_tmp_input mp x' (\<lambda>s.
         bind (evaluate_tmp p [GRADIENT_DESCEND, NUM_SAT] (seed_len (hd (seeds p))) True s)
           (gradient_loop p dig descent mp (insert (dig x') seen) x')) s')"
  by pat_completeness auto
termination
proof (relation "measure (\<lambda>(p, dig, descent, mp, seen, x, s). card (dig ` {y. length y = length x} - seen))")
  fix p and dig :: "u64 list \<Rightarrow> u8 list" and descent mp seen and x x' :: "u64 list" and s s'' :: search and ret
  assume "\<not> length x' \<noteq> length x" "\<not> (ret \<noteq> (0 :: int) \<or> dig x' \<in> seen)"
  moreover have "finite {y :: u64 list. length y = length x}"
    using finite_lists_length_eq [of "UNIV :: u64 set" "length x"] by simp
  ultimately have "card (dig ` {y. length y = length x'} - insert (dig x') seen) < card (dig ` {y. length y = length x} - seen)"
    by (intro psubset_card_mono finite_Diff finite_imageI) auto
  then show "((p, dig, descent, mp, insert (dig x') seen, x', s''), (p, dig, descent, mp, seen, x, s))
      \<in> measure (\<lambda>(p, dig, descent, mp, seen, x, s). card (dig ` {y. length y = length x} - seen))"
    by simp
qed simp_all

declare gradient_loop.simps [simp del]

definition PHASE_gradient_descend :: "problem \<Rightarrow> bool \<Rightarrow> (u64 list \<Rightarrow> u8 list) \<Rightarrow> descent \<Rightarrow> nat list \<Rightarrow> nat list list \<Rightarrow>
    search \<Rightarrow> phase_result" where
  "PHASE_gradient_descend p valid_for_gd dig descent ix groups s =
    (if skips p SKIP_GRADIENT_DESCEND \<or> \<not> valid_for_gd then Next s
     else case gd_init_eval ix groups (tmp_input s) of None \<Rightarrow> Crash
     | Some (mp, x) \<Rightarrow> gradient_loop p dig descent mp {} x s)"

end
