(* ===== verification/Fuzzy_Havoc.thy ===== *)
theory Fuzzy_Havoc
  imports Fuzzy_Deterministic Fuzzy_Gradient
begin

text \<open>
  The random mutations of \<^verbatim>\<open>PHASE_afl_havoc\<close> in \<^verbatim>\<open>z3-fuzzy.c\<close>, and the driver of all phases. The numbers
  that \<^verbatim>\<open>random\<close> returns are the sequence \<open>rnd\<close>, and the position in it is threaded through.
\<close>

section \<open>Random numbers\<close>

type_synonym rng = "nat \<Rightarrow> nat"

definition HAVOC_STACK_POW2 :: nat where "HAVOC_STACK_POW2 = 7"

definition HAVOC_C :: nat where "HAVOC_C = 20"

text \<open>The reseeding of the generator only changes the sequence. A limit of 0 is a division by 0.\<close>

definition UR :: "rng \<Rightarrow> nat \<Rightarrow> nat \<Rightarrow> (nat \<times> nat) option" where
  "UR rnd limit k = (if limit = 0 then None else Some (rnd k mod limit, k + 1))"

text \<open>An element of an array at a random position.\<close>

definition pick :: "rng \<Rightarrow> 'a list \<Rightarrow> nat \<Rightarrow> ('a \<times> nat) option" where
  "pick rnd xs k = map_option (\<lambda>(r, k). (xs ! r, k)) (UR rnd (length xs) k)"

section \<open>Random choice of bytes\<close>

record havoc_pool =
  h_indexes :: "nat list"
  ig_16 :: "nat list list"
  ig_32 :: "nat list list"
  ig_64 :: "nat list list"

definition havoc_init :: "nat list \<Rightarrow> nat list list \<Rightarrow> havoc_pool" where
  "havoc_init indexes groups = \<lparr>h_indexes = indexes,
     ig_16 = filter (\<lambda>g. length g = 2) groups, ig_32 = filter (\<lambda>g. length g = 4) groups,
     ig_64 = filter (\<lambda>g. length g = 8) groups\<rparr>"

definition mutation_pool :: "havoc_pool \<Rightarrow> nat" where
  "mutation_pool h = 5 + (if length (ig_64 h) + length (ig_32 h) + length (ig_16 h) > 0 then 3 else 0) +
     (if length (ig_64 h) + length (ig_32 h) > 0 then 3 else 0)"

text \<open>Two neighbouring bytes of a group, possibly swapped through a 32-bit variable.\<close>

definition random_word :: "rng \<Rightarrow> havoc_pool \<Rightarrow> nat \<Rightarrow> (nat list \<times> nat) option" where
  "random_word rnd h k = Option.bind (UR rnd (length (ig_16 h) + length (ig_32 h) + length (ig_64 h)) k) (\<lambda>(pool, k).
     if pool < length (ig_16 h) then Some (take 2 (ig_16 h ! pool), k)
     else if pool < length (ig_32 h) + length (ig_16 h)
       then map_option (\<lambda>(r, k). (take 2 (drop r (ig_32 h ! (pool - length (ig_16 h)))), k)) (UR rnd 3 k)
     else map_option (\<lambda>(r, k). (take 2 (drop r (ig_64 h ! (pool - length (ig_32 h) - length (ig_16 h)))), k))
       (UR rnd 7 k))"

definition swap_word :: "nat \<Rightarrow> nat list \<Rightarrow> nat list" where
  "swap_word r xs = (if r \<noteq> 0 then [xs ! 1, xs ! 0 mod 2 ^ 32] else xs)"

definition random_dword :: "rng \<Rightarrow> havoc_pool \<Rightarrow> nat \<Rightarrow> (nat list \<times> nat) option" where
  "random_dword rnd h k = Option.bind (UR rnd (length (ig_32 h) + length (ig_64 h)) k) (\<lambda>(pool, k).
     if pool < length (ig_32 h) then Some (take 4 (ig_32 h ! pool), k)
     else map_option (\<lambda>(r, k). (take 4 (drop r (ig_64 h ! (pool - length (ig_32 h)))), k)) (UR rnd 5 k))"

text \<open>The code exchanges the first with the last byte, and then the third with the last.\<close>

definition swap_dword :: "nat \<Rightarrow> nat list \<Rightarrow> nat list" where
  "swap_dword r xs = (if r \<noteq> 0 then [xs ! 3, xs ! 1, xs ! 0 mod 2 ^ 32, xs ! 2 mod 2 ^ 32] else xs)"

section \<open>Mutations\<close>

text \<open>The value of bytes, least significant first, truncated by the caller to its type.\<close>

definition bytes_value :: "u64 list \<Rightarrow> nat list \<Rightarrow> u64" where
  "bytes_value inp xs = fold (\<lambda>k v. v OR push_bit (8 * k) (inp ! (xs ! k))) [0..<length xs] 0"

text \<open>A mutation of one byte, of two bytes, of four bytes: the writes it makes.\<close>

definition mutate_byte :: "rng \<Rightarrow> nat \<Rightarrow> havoc_pool \<Rightarrow> u64 list \<Rightarrow> nat \<Rightarrow> ((nat \<times> u64) list \<times> nat) option" where
  "mutate_byte rnd c h inp k = Option.bind (pick rnd (h_indexes h) k) (\<lambda>(x, k).
     if c = 0 then map_option (\<lambda>(b, k). ([(x, inp ! x XOR push_bit b 1)], k)) (UR rnd 8 k)
     else if c = 1 then map_option (\<lambda>(v, k). ([(x, word_of_int v)], k)) (pick rnd interesting8 k)
     else if c = 2 then map_option (\<lambda>(r, k). ([(x, inp ! x - word_of_nat (r + 1))], k)) (UR rnd 35 k)
     else if c = 3 then map_option (\<lambda>(r, k). ([(x, inp ! x + word_of_nat (r + 1))], k)) (UR rnd 35 k)
     else map_option (\<lambda>(r, k). ([(x, inp ! x XOR word_of_nat (r + 1))], k)) (UR rnd 255 k))"

definition mutate_word :: "rng \<Rightarrow> nat \<Rightarrow> havoc_pool \<Rightarrow> u64 list \<Rightarrow> nat \<Rightarrow> ((nat \<times> u64) list \<times> nat) option" where
  "mutate_word rnd c h inp k = Option.bind (random_word rnd h k) (\<lambda>(xs, k).
     if c = 5 then Option.bind (pick rnd interesting16 k) (\<lambda>(v, k).
         map_option (\<lambda>(r, k). (le_writes (swap_word r xs) (word_of_int v), k)) (UR rnd 2 k))
     else Option.bind (UR rnd 2 k) (\<lambda>(r, k). map_option (\<lambda>(d, k).
         let xs = swap_word r xs; v = bytes_value inp xs; d = word_of_nat (d + 1) in
         (le_writes xs (if c = 6 then v - d else v + d), k)) (UR rnd 35 k)))"

definition mutate_dword :: "rng \<Rightarrow> nat \<Rightarrow> havoc_pool \<Rightarrow> u64 list \<Rightarrow> nat \<Rightarrow> ((nat \<times> u64) list \<times> nat) option" where
  "mutate_dword rnd c h inp k = Option.bind (random_dword rnd h k) (\<lambda>(xs, k).
     if c = 8 then Option.bind (pick rnd interesting32 k) (\<lambda>(v, k).
         map_option (\<lambda>(r, k). (le_writes (swap_dword r xs) (word_of_int v), k)) (UR rnd 2 k))
     else Option.bind (UR rnd 2 k) (\<lambda>(r, k). map_option (\<lambda>(d, k).
         let xs = swap_dword r xs; v = bytes_value inp xs; d = word_of_nat (d + 1) in
         (le_writes xs (if c = 9 then v - d else v + d), k)) (UR rnd 35 k)))"

definition havoc_mutation :: "rng \<Rightarrow> havoc_pool \<Rightarrow> u64 list \<Rightarrow> nat \<Rightarrow> ((nat \<times> u64) list \<times> nat) option" where
  "havoc_mutation rnd h inp k = Option.bind (UR rnd (mutation_pool h) k) (\<lambda>(c, k).
     if c < 5 then mutate_byte rnd c h inp k
     else if c < 8 then mutate_word rnd c h inp k
     else mutate_dword rnd c h inp k)"

section \<open>The phase\<close>

text \<open>A stack of mutations of the current input.\<close>

fun havoc_stack :: "rng \<Rightarrow> havoc_pool \<Rightarrow> nat \<Rightarrow> nat \<Rightarrow> search \<Rightarrow> (search \<times> nat) option" where
  "havoc_stack rnd h 0 k s = Some (s, k)"
| "havoc_stack rnd h (Suc j) k s = Option.bind (havoc_mutation rnd h (tmp_input s) k) (\<lambda>(ws, k).
     Option.bind (write_input ws s) (havoc_stack rnd h j k))"

fun havoc_rounds :: "problem \<Rightarrow> rng \<Rightarrow> havoc_pool \<Rightarrow> nat \<Rightarrow> nat \<Rightarrow> search \<Rightarrow> phase_result" where
  "havoc_rounds p rnd h 0 k s = Next s"
| "havoc_rounds p rnd h (Suc n) k s =
    (case Option.bind (UR rnd HAVOC_STACK_POW2 k) (\<lambda>(r, k). havoc_stack rnd h (2 ^ (1 + r)) k s) of
       None \<Rightarrow> Crash
     | Some (s, k) \<Rightarrow> bind (evaluate_tmp p [HAVOC, NUM_SAT] (seed_len (hd (seeds p))) True s)
         (havoc_rounds p rnd h n k))"

definition PHASE_afl_havoc :: "problem \<Rightarrow> rng \<Rightarrow> nat list \<Rightarrow> nat list list \<Rightarrow> search \<Rightarrow> phase_result" where
  "PHASE_afl_havoc p rnd indexes groups s = (if skips p SKIP_AFL_HAVOC then Next s
     else havoc_rounds p rnd (havoc_init indexes groups) (length indexes * HAVOC_C mod 2 ^ 32) 0 s)"

section \<open>The driver\<close>

text \<open>
  What the analysis of the branch condition found, with the runs of the minimiser and the random
  numbers.
\<close>

record analysis =
  indexes :: "nat list"
  index_groups :: "nat list list"
  is_input_to_state :: bool
  input_to_state_group :: "nat list"
  input_to_state_const :: u64
  range_comparison :: "comparison option"
  const_values :: "u64 list"
  inp_to_state_ite :: "(nat list \<times> u64) list"
  valid_for_gd :: bool
  gd_digest :: "u64 list \<Rightarrow> u8 list"
  gd_descent :: descent
  random_numbers :: rng

text \<open>A phase that has shown the query unsatisfiable returns 2, and the driver 0.\<close>

fun unsat_ends :: "phase_result \<Rightarrow> phase_result" where
  "unsat_ends (Stop r s) = Stop (if r = 2 then 0 else r) s"
| "unsat_ends r = r"

fun brute_force_ends :: "phase_result \<Rightarrow> phase_result" where
  "brute_force_ends (Next s) = Stop 0 s"
| "brute_force_ends (Stop r s) = (if r = 2 then Next s else Stop r s)"
| "brute_force_ends Crash = Crash"

definition check_seed :: "problem \<Rightarrow> stat list \<Rightarrow> search \<Rightarrow> phase_result" where
  "check_seed p cs s = evaluate_tmp p cs (seed_len (hd (seeds p))) True s"

definition query_check_phases :: "problem \<Rightarrow> analysis \<Rightarrow> search \<Rightarrow> phase_result" where
  "query_check_phases p a = seq
     [if is_input_to_state a
        then \<lambda>s. unsat_ends (PHASE_input_to_state p True (input_to_state_group a) (input_to_state_const a) s)
        else Next,
      \<lambda>s. unsat_ends (PHASE_simple_math p (range_comparison a) s),
      \<lambda>s. unsat_ends (PHASE_range_bruteforce p (index_groups a) s),
      PHASE_range_bruteforce_opt p (index_groups a),
      if const_values a \<noteq> [] \<or> inp_to_state_ite a \<noteq> []
        then PHASE_input_to_state_extended p (const_values a) (index_groups a) (inp_to_state_ite a) else Next,
      if length (indexes a) = 1 then \<lambda>s. brute_force_ends (PHASE_brute_force p (indexes a) s) else Next,
      PHASE_gradient_descend p (valid_for_gd a) (gd_digest a) (gd_descent a) (indexes a) (index_groups a),
      PHASE_afl_deterministic_groups p (indexes a) (index_groups a),
      PHASE_afl_havoc p (random_numbers a) (indexes a) (index_groups a)]"

text \<open>A branch condition without involved bytes is constant, and evaluated once more.\<close>

definition query_check_light :: "problem \<Rightarrow> analysis \<Rightarrow> search \<Rightarrow> phase_result" where
  "query_check_light p a s = bind (seq
    [check_seed p [SAT_IN_SEED],
     if length (seeds p) > 1 then PHASE_reuse p else Next,
     if indexes a = [] then \<lambda>s. bind (check_seed p [] s) (Stop 0) else query_check_phases p a] s) (Stop 0)"

end
