(* ===== verification/Fuzzy_Phase_Logic.thy ===== *)
theory Fuzzy_Phase_Logic
  imports Fuzzy_Logic Fuzzy_Havoc
begin

text \<open>The program logic of the search, for the phases before the mutations.\<close>

section \<open>Results of single evaluations\<close>

lemma evaluate_tmp_results: "evaluate_tmp p cs sz heed s = Stop r s' \<Longrightarrow> r = 1 \<or> r = TIMEOUT_V"
  by (auto simp: evaluate_tmp_def found_def Let_def split: option.splits prod.splits if_splits)

lemma try_bytes_results: "try_bytes p i bs s = Stop r s' \<Longrightarrow> r = 1 \<or> r = TIMEOUT_V"
proof (induction bs arbitrary: s)
  case (Cons b bs)
  then obtain s1 where s1: "bind (evaluate_tmp p [BRUTE_FORCE, NUM_SAT] (seed_len (hd (seeds p))) True s1)
      (try_bytes p i bs) = Stop r s'"
    by (auto simp: write_then_def split: option.splits if_splits)
  then show ?case
    using Cons.IH evaluate_tmp_results
    by (cases "evaluate_tmp p [BRUTE_FORCE, NUM_SAT] (seed_len (hd (seeds p))) True s1") auto
qed simp

section \<open>The rules\<close>

context search_logic
begin

lemma triple_reading: "in_bounds p is \<Longrightarrow> triple X f Y \<Longrightarrow> triple X (\<lambda>s. reading p is (f s)) Y"
  by (simp add: reading_def triple_def)

lemma triple_write_within:
  assumes "fst ` set ws \<subseteq> set ig" "in_bounds p ig" "set ig \<subseteq> X" "triple X f Y"
  shows "triple X (write_then ws f) Y"
proof (rule triple_write)
  have "fst w \<in> set ig" if "w \<in> set ws" for w
    using assms(1) that by blast
  then show "list_all (\<lambda>w. fst w < length (cur p)) ws"
    using assms(2) by (simp add: list_all_iff)
  have "X \<union> fst ` set ws = X"
    using assms(1,3) by blast
  then show "triple (X \<union> fst ` set ws) f Y"
    using assms(4) by simp
qed

lemma changed_writes_within: "fst ` set (changed_writes p (group_writes ig v)) \<subseteq> set ig"
  unfolding changed_writes_def using fst_set_group_writes [of ig v] by fastforce

lemmas triple_group_writes =
  triple_write_within [OF eq_refl [OF fst_set_group_writes]]
  triple_write_within [OF eq_refl [OF fst_set_writes(1)]]
  triple_write_within [OF changed_writes_within]

lemma triple_input_to_state:
  assumes "in_bounds p grp" "is_its"
  shows "triple {} (PHASE_input_to_state p is_its grp v) {}"
proof -
  have "triple (set grp) (\<lambda>s. reading p grp (write_then (changed_writes p (group_writes grp v))
       (\<lambda>s. bind (attempt p grp [INPUT_TO_STATE, NUM_SAT] (seed_len (hd (seeds p))) True s)
              (restore p (rev grp))) s)) {}"
    using assms by (intro triple_reading triple_group_writes triple_bind [OF triple_attempt] triple_restores) auto
  then have "triple {} (\<lambda>s. reading p grp (write_then (changed_writes p (group_writes grp v))
       (\<lambda>s. bind (attempt p grp [INPUT_TO_STATE, NUM_SAT] (seed_len (hd (seeds p))) True s)
              (restore p (rev grp))) s)) {}"
    by (rule triple_from_empty)
  with assms(2) show ?thesis
    by (auto simp: PHASE_input_to_state_def intro!: tripleI dest: tripleD)
qed

lemma triple_try_values:
  assumes "in_bounds p ig" "set ig \<subseteq> X"
  shows "triple X (try_values p c ig it n) X"
proof (induction n arbitrary: it)
  case 0
  show ?case by (rule tripleI) simp
next
  case (Suc n)
  obtain it' r where nx: "wi_iter_get_next it = (it', r)" by fastforce
  show ?case
  proof (cases r)
    case None
    then show ?thesis by (auto simp: nx intro: tripleI)
  next
    case (Some v)
    have "triple X (write_then (group_writes ig v) (\<lambda>s. bind (evaluate_tmp p [c, NUM_SAT]
        (seed_len (hd (seeds p))) True s) (try_values p c ig it' n))) X"
      using assms by (intro triple_group_writes triple_bind [OF triple_evaluate Suc]) simp_all
    then show ?thesis by (auto simp: nx Some intro!: tripleI dest: tripleD)
  qed
qed

text \<open>A phase that may exhaust its values, as the driver reads its result.\<close>

lemma triple_unsat_ends: "triple X f Y \<Longrightarrow> triple X (\<lambda>s. unsat_ends (f s)) Y"
proof (rule tripleI)
  fix s assume "triple X f Y" "I X s"
  then have "post (I Y) R (f s)" by (rule tripleD)
  then show "post (I Y) R (unsat_ends (f s))" by (cases "f s") (auto intro: unsat)
qed

lemma triple_try_interval:
  assumes "in_bounds p ig"
  shows "triple {} (\<lambda>s. unsat_ends (try_interval p c ig wi s)) {}"
proof -
  have bound: "triple (set ig) (try_bound p c ig v) (set ig)" for v
    unfolding try_bound_def using assms by (intro triple_reading triple_group_writes triple_attempt) auto
  have "triple (set ig) (\<lambda>s. unsat_ends (bind (try_bound p c ig (wmin wi) s)
       (\<lambda>s. bind (try_bound p c ig (wmax wi) s) (restore p (rev ig))))) {}"
    using assms by (intro triple_unsat_ends triple_bind [OF bound] triple_restores) auto
  moreover have "post (I {}) R (unsat_ends (bind (try_values p c ig it n s) (Stop 2)))" if "I (set ig) s" for it n s
    using tripleD [OF triple_try_values [OF assms order_refl, of c it n] that]
    by (cases "try_values p c ig it n s") (auto intro: unsat exhausted)
  ultimately have "triple (set ig) (\<lambda>s. unsat_ends (try_interval p c ig wi s)) {}"
    unfolding try_interval_def triple_def by (auto simp del: try_values.simps)
  then show ?thesis by (rule triple_from_empty)
qed

lemma triple_simple_math:
  assumes "\<And>c. cmp = Some c \<Longrightarrow> in_bounds p (cmp_group c) \<and> get_range p c \<noteq> None"
  shows "triple {} (\<lambda>s. unsat_ends (PHASE_simple_math p cmp s)) {}"
  using assms
  by (auto simp: PHASE_simple_math_def split: option.splits intro!: tripleI tripleD [OF triple_try_interval])

lemma triple_range_bruteforce:
  assumes "\<And>g. g \<in> set groups \<Longrightarrow> g \<noteq> [] \<and> in_bounds p g"
  shows "triple {} (\<lambda>s. unsat_ends (PHASE_range_bruteforce p groups s)) {}"
proof (rule tripleI)
  fix s assume i: "I {} s"
  have "post (I {}) R (unsat_ends (try_interval p RANGE_BRUTE_FORCE (hd groups) wi s))" "hd groups \<noteq> []"
    if "length groups = 1" for wi
    using assms [of "hd groups"] that i tripleD [OF triple_try_interval] by (cases groups; force)+
  with i show "post (I {}) R (unsat_ends (PHASE_range_bruteforce p groups s))"
    by (auto simp: PHASE_range_bruteforce_def Let_def split: option.splits)
qed

lemma triple_opt_groups:
  assumes "\<And>g. g \<in> set groups \<Longrightarrow> g \<noteq> [] \<and> in_bounds p g \<and> set g \<subseteq> X"
  shows "triple X (opt_groups p groups) X"
  using assms
proof (induction groups)
  case Nil
  show ?case by (rule tripleI) simp
next
  case (Cons g groups)
  have rest: "triple X (opt_groups p groups) X"
    using Cons by simp
  have "triple X (\<lambda>s. bind (try_values p RANGE_BRUTE_FORCE_OPT g (wi_init_iter_values wi) n s)
      (opt_groups p groups)) X" for wi n
    using Cons.prems [of g] by (intro triple_bind [OF triple_try_values rest]) simp_all
  from tripleD [OF this] tripleD [OF rest] Cons.prems [of g] show ?case
    by (auto simp del: try_values.simps intro!: tripleI split: option.splits)
qed

lemma triple_range_bruteforce_opt:
  assumes "\<And>g. g \<in> set groups \<Longrightarrow> g \<noteq> [] \<and> in_bounds p g \<and> set g \<subseteq> X"
  shows "triple X (PHASE_range_bruteforce_opt p groups) X"
  using tripleD [OF triple_opt_groups [of groups, OF assms]]
  by (auto simp: PHASE_range_bruteforce_opt_def intro!: tripleI)

lemma triple_try_constants:
  assumes "\<And>v g. (v, g) \<in> set cs \<Longrightarrow> in_bounds p g"
  shows "triple {} (try_constants p cs) {}"
  using assms
proof (induction cs)
  case Nil
  show ?case by (rule tripleI) simp
next
  case (Cons c cs)
  obtain v g where c: "c = (v, g)" by (cases c)
  have b: "in_bounds p g" using Cons.prems c by auto
  have "triple (set g) (try_constant p v g) {}"
    unfolding try_constant_def using b
    by (intro triple_group_writes triple_bind [OF triple_attempt] triple_restores) auto
  then have "triple {} (\<lambda>s. bind (try_constant p v g s) (try_constants p cs)) {}"
    using Cons by (intro triple_bind [OF triple_from_empty]) auto
  then show ?case
    by (auto simp: c intro!: tripleI dest: tripleD)
qed

lemma triple_input_to_state_extended:
  assumes "vals \<noteq> [] \<or> ites \<noteq> []" "\<And>g. g \<in> set groups \<Longrightarrow> in_bounds p g"
    "\<And>g v. (g, v) \<in> set ites \<Longrightarrow> in_bounds p g"
  shows "triple {} (PHASE_input_to_state_extended p vals groups ites) {}"
proof -
  let ?ws = "concat (map (\<lambda>(ig, v). group_writes ig v) ites)" and ?is = "concat (map fst ites)"
  have "fst ` set ?ws = set ?is"
    by (auto simp: image_UN split_beta)
  moreover have "in_bounds p ?is"
    using assms(3) by (fastforce simp: list_all_iff)
  ultimately have "triple (set ?is) (write_then ?ws (\<lambda>s. bind (evaluate_tmp p ext_stats (length (cur p)) True s)
      (restore p ?is))) {}"
    by (intro triple_write_within [of _ ?is] triple_bind [OF triple_evaluate] triple_restores) auto
  then have "triple {} (\<lambda>s. bind (try_constants p (List.product vals groups) s)
     (write_then ?ws (\<lambda>s. bind (evaluate_tmp p ext_stats (length (cur p)) True s) (restore p ?is)))) {}"
    using assms(2) by (intro triple_bind [OF triple_try_constants triple_from_empty]) auto
  then show ?thesis
    using assms(1) by (auto simp: PHASE_input_to_state_extended_def intro!: tripleI dest: tripleD)
qed

lemma triple_try_bytes:
  assumes "i < length (cur p)" "i \<in> X"
  shows "triple X (try_bytes p i bs) X"
proof (induction bs)
  case Nil
  show ?case by (rule tripleI) simp
next
  case (Cons b bs)
  have "triple X (write_then [(i, b)] (\<lambda>s. bind (evaluate_tmp p [BRUTE_FORCE, NUM_SAT]
      (seed_len (hd (seeds p))) True s) (try_bytes p i bs))) X"
    using assms by (intro triple_write_within [of _ "[i]"] triple_bind [OF triple_evaluate Cons]) auto
  then show ?case by (auto intro!: tripleI dest: tripleD)
qed

lemma triple_brute_force_ends:
  assumes "ix \<noteq> []" "set ix \<subseteq> X" "X \<subseteq> {..<length (cur p)}"
  shows "triple X (\<lambda>s. brute_force_ends (PHASE_brute_force p ix s)) X"
proof (rule tripleI)
  fix s assume i: "I X s"
  obtain x xs where ix: "ix = x # xs" using assms(1) by (cases ix) auto
  let ?r = "try_bytes p x (map word_of_nat [0..<256]) s"
  have "post (I X) R ?r"
    using assms(2,3) i by (intro tripleD [OF triple_try_bytes]) (auto simp: ix)
  moreover have "r = 1 \<or> r = TIMEOUT_V" if "?r = Stop r s'" for r s'
    using that try_bytes_results by blast
  ultimately show "post (I X) R (brute_force_ends (PHASE_brute_force p ix s))"
    using i by (cases ?r) (auto simp: ix TIMEOUT_V_def PHASE_brute_force_def intro: exhausted)
qed

lemma triple_reuse:
  assumes "length (seeds p) > 1"
  shows "triple X (PHASE_reuse p) X"
proof -
  have "triple X (reuse_from p ts) X" if "set ts \<subseteq> set (tl (seeds p))" for ts
    using that
  proof (induction ts)
    case Nil
    show ?case by (rule tripleI) simp
  next
    case (Cons t ts)
    have "triple X (reuse_seed p t) X" "triple X (reuse_from p ts) X"
      using Cons by (auto intro: tripleI reused)
    then have "triple X (\<lambda>s. bind (reuse_seed p t s) (reuse_from p ts)) X"
      by (rule triple_bind)
    then show ?case by (auto intro!: tripleI dest: tripleD)
  qed
  from tripleD [OF this [OF order_refl]] assms show ?thesis
    by (auto simp: PHASE_reuse_def intro!: tripleI)
qed

text \<open>Bytes that may be changed already stay so: every rule holds within a larger set.\<close>

lemma framed: "search_logic p (\<lambda>X. I (X \<union> F)) R"
proof
  fix X s "is" s'
  assume "I (X \<union> F) s" "in_bounds p is" "write_input (restores p is) s = Some s'"
  then have "I ((X \<union> F) - set is) s'" by (rule restored)
  then show "I (X - set is \<union> F) s'" by (rule weaken) auto
qed (auto intro: wf weaken writes evaluated reused exhausted timed_out unsat dest: len wf)

lemma framed_triple: "search_logic.triple (\<lambda>X. I (X \<union> F)) R {} f {} \<Longrightarrow> triple F f F"
  unfolding search_logic.triple_def [OF framed] triple_def by simp

end

end
