(* ===== verification/Fuzzy_Driver_Logic.thy ===== *)
theory Fuzzy_Driver_Logic
  imports Fuzzy_Phase_Logic
begin

text \<open>The program logic of the search, for the random mutations and the driver.\<close>

section \<open>Random choices\<close>

lemma UR_defined [simp]: "0 < limit \<Longrightarrow> UR rnd limit k = Some (rnd k mod limit, k + 1)"
  by (simp add: UR_def)

lemma pick_defined [simp]: "xs \<noteq> [] \<Longrightarrow> pick rnd xs k = Some (xs ! (rnd k mod length xs), k + 1)"
  by (simp add: pick_def)

definition pool_ok :: "nat set \<Rightarrow> havoc_pool \<Rightarrow> bool" where
  "pool_ok X h = (X \<subseteq> {..<2 ^ 32} \<and> h_indexes h \<noteq> [] \<and> set (h_indexes h) \<subseteq> X \<and>
     list_all (\<lambda>g. length g = 2 \<and> set g \<subseteq> X) (ig_16 h) \<and> list_all (\<lambda>g. length g = 4 \<and> set g \<subseteq> X) (ig_32 h) \<and>
     list_all (\<lambda>g. length g = 8 \<and> set g \<subseteq> X) (ig_64 h))"

lemma pool_ok_init:
  assumes "X \<subseteq> {..<2 ^ 32}" "ix \<noteq> []" "set ix \<subseteq> X" "\<And>g. g \<in> set gs \<Longrightarrow> set g \<subseteq> X"
  shows "pool_ok X (havoc_init ix gs)"
  using assms by (auto simp: pool_ok_def havoc_init_def list_all_iff)

lemma part_of_group:
  assumes "r + n \<le> length g" "set g \<subseteq> X"
  shows "length (take n (drop r g)) = n" "set (take n (drop r g)) \<subseteq> X"
  using assms by (auto dest: in_set_takeD in_set_dropD)

lemma random_word_ok:
  assumes "pool_ok X h" "ig_16 h \<noteq> [] \<or> ig_32 h \<noteq> [] \<or> ig_64 h \<noteq> []"
  shows "\<exists>xs k'. random_word rnd h k = Some (xs, k') \<and> length xs = 2 \<and> set xs \<subseteq> X"
proof -
  let ?n = "length (ig_16 h) + length (ig_32 h) + length (ig_64 h)" and ?m = "length (ig_32 h) + length (ig_16 h)"
  define q where "q = rnd k mod ?n"
  have n: "0 < ?n" using assms(2) by auto
  then have q: "q < ?n" by (simp add: q_def)
  have g: "length g = 2 \<Longrightarrow> set g \<subseteq> X \<Longrightarrow> length (take 2 g) = 2 \<and> set (take 2 g) \<subseteq> X" for g :: "nat list"
    by simp
  consider "q < length (ig_16 h)" | "\<not> q < length (ig_16 h)" "q < ?m" | "\<not> q < ?m" "q - length (ig_32 h) - length (ig_16 h) < length (ig_64 h)"
    using q by linarith
  then show ?thesis
  proof cases
    case 1
    with assms(1) n show ?thesis
      using g by (fastforce simp: random_word_def pool_ok_def list_all_length simp flip: q_def)
  next
    case 2
    let ?g = "ig_32 h ! (q - length (ig_16 h))"
    have "length ?g = 4" "set ?g \<subseteq> X"
      using assms(1) 2 by (auto simp: pool_ok_def list_all_length)
    then show ?thesis
      using 2 n part_of_group [of "rnd (k + 1) mod 3" 2 ?g X]
      by (simp add: random_word_def flip: q_def)
  next
    case 3
    let ?g = "ig_64 h ! (q - length (ig_32 h) - length (ig_16 h))"
    have "length ?g = 8" "set ?g \<subseteq> X"
      using assms(1) 3 by (auto simp: pool_ok_def list_all_length)
    then show ?thesis
      using 3 n part_of_group [of "rnd (k + 1) mod 7" 2 ?g X]
      by (simp add: random_word_def flip: q_def)
  qed
qed

lemma random_dword_ok:
  assumes "pool_ok X h" "ig_32 h \<noteq> [] \<or> ig_64 h \<noteq> []"
  shows "\<exists>xs k'. random_dword rnd h k = Some (xs, k') \<and> length xs = 4 \<and> set xs \<subseteq> X"
proof -
  let ?n = "length (ig_32 h) + length (ig_64 h)"
  define q where "q = rnd k mod ?n"
  have n: "0 < ?n" using assms(2) by auto
  then have q: "q < ?n" by (simp add: q_def)
  show ?thesis
  proof (cases "q < length (ig_32 h)")
    case True
    let ?g = "ig_32 h ! q"
    have "length ?g = 4" "set ?g \<subseteq> X"
      using assms(1) True by (auto simp: pool_ok_def list_all_length)
    then show ?thesis
      using True n by (simp add: random_dword_def flip: q_def)
  next
    case False
    let ?g = "ig_64 h ! (q - length (ig_32 h))"
    have "length ?g = 8" "set ?g \<subseteq> X"
      using assms(1) False q by (auto simp: pool_ok_def list_all_length)
    then show ?thesis
      using False n part_of_group [of "rnd (k + 1) mod 5" 4 ?g X]
      by (simp add: random_dword_def flip: q_def)
  qed
qed

lemma swap_within:
  assumes "set xs \<subseteq> X" "X \<subseteq> {..<2 ^ 32}"
  shows "length xs = 2 \<Longrightarrow> set (swap_word r xs) \<subseteq> X" "length xs = 4 \<Longrightarrow> set (swap_dword r xs) \<subseteq> X"
proof -
  have "xs ! i \<in> X \<and> xs ! i mod 2 ^ 32 \<in> X" if "i < length xs" for i
  proof -
    have "xs ! i \<in> X" using assms(1) that by auto
    moreover from this have "xs ! i mod 2 ^ 32 = xs ! i" using assms(2) by auto
    ultimately show ?thesis by simp
  qed
  with assms(1) show "length xs = 2 \<Longrightarrow> set (swap_word r xs) \<subseteq> X" "length xs = 4 \<Longrightarrow> set (swap_dword r xs) \<subseteq> X"
    by (auto simp: swap_word_def swap_dword_def)
qed

definition writes_ok :: "nat set \<Rightarrow> ((nat \<times> u64) list \<times> nat) option \<Rightarrow> bool" where
  "writes_ok X r = (case r of None \<Rightarrow> False | Some (ws, k) \<Rightarrow> fst ` set ws \<subseteq> X)"

lemma writes_ok_simps [simp]:
  "\<not> writes_ok X None" "writes_ok X (Some (ws, k)) = (fst ` set ws \<subseteq> X)"
  by (simp_all add: writes_ok_def)

lemma mutate_byte_ok:
  assumes "pool_ok X h"
  shows "writes_ok X (mutate_byte rnd c h inp k)"
proof -
  have "h_indexes h ! i \<in> X" if "i < length (h_indexes h)" for i
    using assms that by (auto simp: pool_ok_def)
  with assms show ?thesis
    by (simp add: mutate_byte_def pool_ok_def interesting8_def)
qed

lemma mutate_word_ok:
  assumes "pool_ok X h" "ig_16 h \<noteq> [] \<or> ig_32 h \<noteq> [] \<or> ig_64 h \<noteq> []"
  shows "writes_ok X (mutate_word rnd c h inp k)"
proof -
  obtain xs k' where "random_word rnd h k = Some (xs, k')" "length xs = 2" "set xs \<subseteq> X"
    using random_word_ok [OF assms] by blast
  moreover have "X \<subseteq> {..<2 ^ 32}" using assms(1) by (simp add: pool_ok_def)
  ultimately show ?thesis
    using swap_within(1) by (simp add: mutate_word_def interesting16_def Let_def)
qed

lemma mutate_dword_ok:
  assumes "pool_ok X h" "ig_32 h \<noteq> [] \<or> ig_64 h \<noteq> []"
  shows "writes_ok X (mutate_dword rnd c h inp k)"
proof -
  obtain xs k' where "random_dword rnd h k = Some (xs, k')" "length xs = 4" "set xs \<subseteq> X"
    using random_dword_ok [OF assms] by blast
  moreover have "X \<subseteq> {..<2 ^ 32}" using assms(1) by (simp add: pool_ok_def)
  ultimately show ?thesis
    using swap_within(2) by (simp add: mutate_dword_def interesting32_def Let_def)
qed

text \<open>The number of the mutation is below the size of the pool, so that its group exists.\<close>

lemma havoc_mutation_ok:
  assumes "pool_ok X h"
  shows "writes_ok X (havoc_mutation rnd h inp k)"
proof -
  define c where "c = rnd k mod mutation_pool h"
  have pos: "0 < mutation_pool h" by (simp add: mutation_pool_def)
  then have "c < mutation_pool h" by (simp add: c_def)
  then have "c < 5 \<or> c < 8 \<and> (ig_16 h \<noteq> [] \<or> ig_32 h \<noteq> [] \<or> ig_64 h \<noteq> []) \<or> (ig_32 h \<noteq> [] \<or> ig_64 h \<noteq> [])"
    by (auto simp: mutation_pool_def split: if_splits)
  then show ?thesis
    using assms pos
    by (auto simp: havoc_mutation_def mutate_byte_ok mutate_word_ok mutate_dword_ok simp flip: c_def)
qed

section \<open>The random phase and the driver\<close>

definition analysis_ok :: "problem \<Rightarrow> analysis \<Rightarrow> bool" where
  "analysis_ok p a = (length (cur p) \<le> 2 ^ 32 \<and> in_bounds p (indexes a) \<and>
     list_all (\<lambda>g. g \<noteq> [] \<and> in_bounds p g) (index_groups a) \<and>
     (is_input_to_state a \<longrightarrow> in_bounds p (input_to_state_group a)) \<and>
     (case range_comparison a of None \<Rightarrow> True | Some c \<Rightarrow> in_bounds p (cmp_group c) \<and> get_range p c \<noteq> None) \<and>
     list_all (\<lambda>(g, v). in_bounds p g) (inp_to_state_ite a) \<and>
     (valid_for_gd a \<longrightarrow> distinct (concat (index_groups a)) \<longrightarrow> list_all (\<lambda>g. length g \<le> 4) (index_groups a)))"

lemma gradient_measure:
  fixes x x' :: "u64 list" and dig :: "u64 list \<Rightarrow> u8 list"
  assumes "length x' = length x" "dig x' \<notin> seen"
  shows "card (dig ` {y. length y = length x'} - insert (dig x') seen) < card (dig ` {y. length y = length x} - seen)"
proof -
  have "finite {y :: u64 list. length y = length x}"
    using finite_lists_length_eq [of "UNIV :: u64 set" "length x"] by simp
  with assms show ?thesis
    by (intro psubset_card_mono finite_Diff finite_imageI) auto
qed

lemma all_defined_map: "(\<And>x. x \<in> set xs \<Longrightarrow> f x = Some (g x)) \<Longrightarrow> all_defined (map f xs) = Some (map g xs)"
  by (induction xs) auto

lemma group_subels_ok:
  assumes "length g \<le> 4" "set g \<subseteq> {..<2 ^ 32}"
  shows "\<exists>subs. group_subels g = Some subs \<and> set (map sub_idx subs) = set g"
  using assms
proof (induction g)
  case (Cons x g)
  then obtain subs where "group_subels g = Some subs" "set (map sub_idx subs) = set g" by auto
  with Cons.prems show ?case by (auto simp: int_mask_def)
qed simp

lemma gd_init_eval_ok:
  assumes ix: "set ix \<subseteq> X" and gs: "\<And>g. g \<in> set gs \<Longrightarrow> set g \<subseteq> X"
    and X: "X \<subseteq> {..<length inp}" "length inp \<le> 2 ^ 32"
    and four: "\<And>g. distinct (concat gs) \<Longrightarrow> g \<in> set gs \<Longrightarrow> length g \<le> 4"
  shows "\<exists>mp x. gd_init_eval ix gs inp = Some (mp, x) \<and> set (map sub_idx (concat mp)) \<subseteq> X"
proof (cases "distinct (concat gs)")
  case True
  define sub where "sub g = the (group_subels g)" for g
  have sub: "group_subels g = Some (sub g) \<and> set (map sub_idx (sub g)) = set g" if "g \<in> set gs" for g
    using group_subels_ok [of g] four [OF True that] gs [OF that] X by (fastforce simp: sub_def)
  have "all_defined (map group_subels gs) = Some (map sub gs)"
    using sub by (intro all_defined_map) auto
  moreover have "all_defined (map (\<lambda>g. index_group_to_value g inp) gs) =
      Some (map (\<lambda>g. the (index_group_to_value g inp)) gs)"
    using gs X(1) by (intro all_defined_map) (fastforce simp: index_group_to_value_def list_all_iff)
  moreover have "set (map sub_idx (concat (map sub gs))) \<subseteq> X"
    using sub gs by fastforce
  ultimately show ?thesis
    using True by (simp add: gd_init_eval_def check_overlapping_groups_def)
next
  case False
  have "x mod 2 ^ 32 = x" if "x \<in> set ix" for x
    using ix X that by (intro mod_less) force
  with False ix X show ?thesis
    by (fastforce simp: gd_init_eval_def check_overlapping_groups_def list_all_iff)
qed

context search_logic
begin

lemma havoc_stack_ok:
  assumes "pool_ok X h" "X \<subseteq> {..<length (cur p)}" "I X s"
  shows "\<exists>s' k'. havoc_stack rnd h n k s = Some (s', k') \<and> I X s'"
  using assms(3)
proof (induction n arbitrary: k s)
  case (Suc n)
  obtain ws k1 where ws: "havoc_mutation rnd h (tmp_input s) k = Some (ws, k1)" "fst ` set ws \<subseteq> X"
    using havoc_mutation_ok [OF assms(1), of rnd "tmp_input s" k]
    by (auto simp: writes_ok_def split: option.splits prod.splits)
  have "list_all (\<lambda>w. fst w < length (tmp_input s)) ws"
    using ws(2) assms(2) len [OF Suc.prems] by (auto simp: list_all_iff)
  then obtain s1 where s1: "write_input ws s = Some s1"
    using write_input_defined by blast
  with ws Suc show ?case
    using writes [OF Suc.prems s1 ws(2)] by simp
qed simp

lemma triple_afl_havoc:
  assumes "ix \<noteq> []" "set ix \<subseteq> X" "\<And>g. g \<in> set gs \<Longrightarrow> set g \<subseteq> X" "X \<subseteq> {..<length (cur p)}" "length (cur p) \<le> 2 ^ 32"
  shows "triple X (PHASE_afl_havoc p rnd ix gs) X"
proof -
  have pool: "pool_ok X (havoc_init ix gs)"
    using assms by (intro pool_ok_init) auto
  have "post (I X) R (havoc_rounds p rnd (havoc_init ix gs) n k s)" if "I X s" for n k s
    using that
  proof (induction n arbitrary: k s)
    case (Suc n)
    obtain s1 k1 where s1: "havoc_stack rnd (havoc_init ix gs) (2 ^ (1 + rnd k mod HAVOC_STACK_POW2)) (k + 1) s = Some (s1, k1)"
      "I X s1"
      using havoc_stack_ok [OF pool assms(4) Suc.prems] by blast
    have "0 < HAVOC_STACK_POW2" by (simp add: HAVOC_STACK_POW2_def)
    then show ?case
      using s1 post_bind [OF evaluated [OF s1(2) sizes_simps(1)] Suc.IH] by simp
  qed simp
  then show ?thesis
    by (auto simp: PHASE_afl_havoc_def intro: tripleI)
qed

text \<open>A run of the minimiser changes the mapped bytes only, and keeps the number of variables.\<close>

definition descent_ok :: "nat set \<Rightarrow> descent \<Rightarrow> bool" where
  "descent_ok X f = (\<forall>s x. I X s \<longrightarrow> (\<exists>r x' s'. f s x = Some (r, x', s') \<and> length x' = length x \<and> I X s'))"

lemma gradient_loop_ok:
  assumes f: "descent_ok X f" and mp: "set (map sub_idx (concat mp)) \<subseteq> X" and X: "X \<subseteq> {..<length (cur p)}"
  shows "I X s \<Longrightarrow> post (I (X - set (map sub_idx (concat mp)))) R (gradient_loop p dig f mp seen x s)"
proof (induction "card (dig ` {y. length y = length x} - seen)" arbitrary: seen x s rule: less_induct)
  case less
  let ?Y = "X - set (map sub_idx (concat mp))"
  obtain r x' s' where d: "f s x = Some (r, x', s')" "length x' = length x" "I X s'"
    using f less.prems unfolding descent_ok_def by blast
  have b: "in_bounds p (map sub_idx (concat mp))"
    using mp X by (auto simp: list_all_iff)
  then have rest: "post (I ?Y) R (gd_restore_tmp_input p mp s')"
    unfolding gd_restore_tmp_input_def using d(3) by (intro tripleD [OF triple_restore])
  have next_round: "triple X (gradient_loop p dig f mp (insert (dig x') seen) x') ?Y"
    if "dig x' \<notin> seen"
    by (rule tripleI) (rule less.hyps [OF gradient_measure [where dig = dig, OF d(2) that]])
  have "fst ` set (gd_writes mp x') \<subseteq> set (map sub_idx (concat mp))"
    by (fastforce simp: gd_writes_def dest: set_zip_leftD)
  then have "triple X (gd_fix_tmp_input mp x' (\<lambda>s. bind (evaluate_tmp p [GRADIENT_DESCEND, NUM_SAT]
      (seed_len (hd (seeds p))) True s) (gradient_loop p dig f mp (insert (dig x') seen) x'))) ?Y"
    if "dig x' \<notin> seen"
    unfolding gd_fix_tmp_input_def using that mp b
    by (intro triple_write_within [of _ "map sub_idx (concat mp)"] triple_bind [OF triple_evaluate next_round]) simp_all
  from tripleD [OF this d(3)] d rest timed_out show ?case
    by (subst gradient_loop.simps) auto
qed

lemma triple_gradient_descend:
  assumes "descent_ok X f" "X \<subseteq> {..<length (cur p)}" "length (cur p) \<le> 2 ^ 32" "set ix \<subseteq> X"
    "\<And>g. g \<in> set gs \<Longrightarrow> set g \<subseteq> X"
    "\<And>g. valid \<Longrightarrow> distinct (concat gs) \<Longrightarrow> g \<in> set gs \<Longrightarrow> length g \<le> 4"
  shows "triple X (PHASE_gradient_descend p valid dig f ix gs) X"
proof (rule tripleI)
  fix s assume i: "I X s"
  have "post (I X) R (case gd_init_eval ix gs (tmp_input s) of None \<Rightarrow> Crash
      | Some (mp, x) \<Rightarrow> gradient_loop p dig f mp {} x s)" if valid
  proof -
    have "\<exists>mp x. gd_init_eval ix gs (tmp_input s) = Some (mp, x) \<and> set (map sub_idx (concat mp)) \<subseteq> X"
      by (rule gd_init_eval_ok) (use assms that len [OF i] in auto)
    then obtain mp x where mp: "gd_init_eval ix gs (tmp_input s) = Some (mp, x)" "set (map sub_idx (concat mp)) \<subseteq> X"
      by blast
    show ?thesis
      using post_mono [OF gradient_loop_ok [OF assms(1) mp(2) assms(2) i] weaken] mp(1) by auto
  qed
  with i show "post (I X) R (PHASE_gradient_descend p valid dig f ix gs s)"
    by (simp add: PHASE_gradient_descend_def)
qed

lemma triple_seq_all: "list_all (\<lambda>f. triple X f X) fs \<Longrightarrow> triple X (seq fs) X"
  using triple_seq_map [of fs X "\<lambda>f. f"] by (auto simp: list_all_iff)

lemma triple_check_seed: "triple X (check_seed p cs) X"
  unfolding check_seed_def by (rule triple_evaluate) simp

theorem triple_query_check_light:
  assumes ok: "analysis_ok p a"
    and gd: "descent_ok {..<length (cur p)} (gd_descent a)"
  shows "triple {} (query_check_light p a) {..<length (cur p)}"
proof -
  let ?F = "{..<length (cur p)}"
  note frame = framed_triple [of ?F]
  note logic = framed [of ?F]
  note seqs = triple_seq_Cons [of ?F _ ?F]
  have b: "set (indexes a) \<subseteq> ?F" "\<And>g. g \<in> set (index_groups a) \<Longrightarrow> g \<noteq> [] \<and> in_bounds p g \<and> set g \<subseteq> ?F"
    "is_input_to_state a \<Longrightarrow> in_bounds p (input_to_state_group a)"
    "\<And>c. range_comparison a = Some c \<Longrightarrow> in_bounds p (cmp_group c) \<and> get_range p c \<noteq> None"
    "\<And>g v. (g, v) \<in> set (inp_to_state_ite a) \<Longrightarrow> in_bounds p g" "length (cur p) \<le> 2 ^ 32"
    "\<And>g. valid_for_gd a \<Longrightarrow> distinct (concat (index_groups a)) \<Longrightarrow> g \<in> set (index_groups a) \<Longrightarrow> length g \<le> 4"
    using ok by (auto simp: analysis_ok_def list_all_iff)
  have its: "triple ?F (\<lambda>s. unsat_ends (PHASE_input_to_state p True (input_to_state_group a) (input_to_state_const a) s)) ?F"
    if "is_input_to_state a"
    using that by (intro triple_unsat_ends frame [OF search_logic.triple_input_to_state [OF logic b(3)]]) simp_all
  have math: "triple ?F (\<lambda>s. unsat_ends (PHASE_simple_math p (range_comparison a) s)) ?F"
    by (rule frame [OF search_logic.triple_simple_math [OF logic b(4)]])
  have range: "triple ?F (\<lambda>s. unsat_ends (PHASE_range_bruteforce p (index_groups a) s)) ?F"
    using b(2) by (intro frame [OF search_logic.triple_range_bruteforce [OF logic]]) auto
  have ext: "triple ?F (PHASE_input_to_state_extended p (const_values a) (index_groups a) (inp_to_state_ite a)) ?F"
    if "const_values a \<noteq> [] \<or> inp_to_state_ite a \<noteq> []"
    using b(2,5) that by (intro frame [OF search_logic.triple_input_to_state_extended [OF logic]]) auto
  have det: "triple ?F (PHASE_afl_deterministic_groups p (indexes a) (index_groups a)) ?F"
    using b(1,2) by (intro frame [OF search_logic.triple_afl_deterministic_groups [OF logic]]) auto
  have stop0: "triple ?F (Stop 0) Y" for Y
    by (rule tripleI) (auto intro: exhausted)
  have opt: "triple ?F (PHASE_range_bruteforce_opt p (index_groups a)) ?F"
    using b(2) by (rule triple_range_bruteforce_opt)
  have brute: "triple ?F (\<lambda>s. brute_force_ends (PHASE_brute_force p (indexes a) s)) ?F" if "indexes a \<noteq> []"
    using that b(1) by (intro triple_brute_force_ends) simp_all
  have grad: "triple ?F (PHASE_gradient_descend p (valid_for_gd a) (gd_digest a) (gd_descent a) (indexes a) (index_groups a)) ?F"
    by (rule triple_gradient_descend [OF gd _ b(6,1)]) (use b(2,7) in simp_all)
  have havoc: "triple ?F (PHASE_afl_havoc p (random_numbers a) (indexes a) (index_groups a)) ?F" if "indexes a \<noteq> []"
    by (rule triple_afl_havoc [OF that b(1)]) (use b(2,6) in simp_all)
  have const: "triple ?F (\<lambda>s. bind (check_seed p [] s) (Stop 0)) ?F"
    by (rule triple_bind [OF triple_check_seed stop0])
  have nxt: "triple ?F Next ?F" by (rule triple_Next) simp
  note parts = its math range opt ext brute grad det havoc const nxt triple_check_seed triple_reuse
  have inner: "triple ?F (query_check_phases p a) ?F" if "indexes a \<noteq> []"
    unfolding query_check_phases_def by (rule triple_seq_all) (simp add: parts that)
  have "triple ?F (query_check_light p a) ?F"
    unfolding query_check_light_def
    by (rule triple_bind [OF triple_seq_all stop0]) (simp add: parts inner)
  then show ?thesis by (rule triple_from_empty)
qed

end

end
