(* ===== verification/Fuzzy_Spec.thy ===== *)
theory Fuzzy_Spec
  imports Fuzzy_Driver_Logic
begin

text \<open>
  What the search promises. Two interpretations of the program logic: the bytes that differ from
  the test case, with the soundness of what is reported; and the optimistic solution.
\<close>

section \<open>Soundness and restored inputs\<close>

text \<open>The query and the branch condition hold, as the evaluators' results are read.\<close>

definition satisfies :: "problem \<Rightarrow> u64 list \<Rightarrow> bool" where
  "satisfies p vals = ((ucast (eval_cond p vals) :: u32) \<noteq> 0 \<and> (ucast (fst (eval_query p vals)) :: u32) \<noteq> 0)"

text \<open>The proof is the bytes of a satisfying input: the mutated one or another test case.\<close>

definition reports_input :: "problem \<Rightarrow> search \<Rightarrow> u64 list \<Rightarrow> nat \<Rightarrow> bool" where
  "reports_input p s vals n = (satisfies p vals \<and> take (min n (length vals)) (tmp_proof s) = map ucast (take n vals))"

definition reported :: "problem \<Rightarrow> search \<Rightarrow> bool" where
  "reported p s = (reports_input p s (tmp_input s) (seed_len (hd (seeds p))) \<and> length (tmp_input s) = length (cur p) \<and>
       proof_size s \<in> Some ` sizes p \<or>
     (\<exists>t\<in>set (tl (seeds p)). reports_input p s (seed_values t) (seed_len t) \<and> proof_size s = Some (seed_len t)))"

definition result_ok :: "problem \<Rightarrow> int \<Rightarrow> search \<Rightarrow> bool" where
  "result_ok p r s = (r = 0 \<or> r = TIMEOUT_V \<or> r = 1 \<and> reported p s)"

definition differs_only :: "problem \<Rightarrow> nat set \<Rightarrow> search \<Rightarrow> bool" where
  "differs_only p X s = (wf_problem p \<and> room p s \<and> length (tmp_input s) = length (cur p) \<and>
     (\<forall>i<length (cur p). i \<notin> X \<longrightarrow> tmp_input s ! i = cur p ! i))"

lemma differs_only_empty: "differs_only p {} s = (wf_problem p \<and> room p s \<and> tmp_input s = cur p)"
  by (auto simp: differs_only_def intro: nth_equalityI)

lemma write_input_only: "write_input ws s = Some s' \<Longrightarrow> \<exists>inp. s' = s\<lparr>tmp_input := inp\<rparr> \<and> length inp = length (tmp_input s) \<and>
    (\<forall>i. i \<notin> fst ` set ws \<longrightarrow> inp ! i = tmp_input s ! i)"
proof (induction ws s rule: write_input.induct)
  case (1 s)
  then show ?case by (intro exI [of _ "tmp_input s"]) simp
next
  case (2 i v ws s)
  then obtain inp where "s' = s\<lparr>tmp_input := inp\<rparr>" "length inp = length (tmp_input s)"
    "\<forall>j. j \<notin> fst ` set ws \<longrightarrow> inp ! j = (tmp_input s)[i := v] ! j"
    by (auto split: if_splits)
  then show ?case by (intro exI [of _ inp]) auto
qed

lemma write_restores:
  "write_input (restores p is) s = Some s' \<Longrightarrow> i \<in> set is \<Longrightarrow> tmp_input s' ! i = cur p ! i"
proof (induction "is" arbitrary: s)
  case (Cons x xs)
  show ?case
  proof (cases "i \<in> set xs")
    case True
    with Cons show ?thesis by (auto simp: restores_def split: if_splits)
  next
    case False
    have "fst ` set (restores p xs) = set xs"
      by (force simp: restores_def)
    with Cons.prems False show ?thesis
      by (auto simp: restores_def dest!: write_input_only split: if_splits)
  qed
qed simp

lemma write_input_room: "write_input ws s = Some s' \<Longrightarrow> room p s' = room p s"
  by (auto simp: room_def dest!: write_input_only)

lemma keep_optimistic_room:
  assumes "room p s" "length (cur p) \<le> length vals"
  obtains s' where "keep_optimistic p vals depth s = Some s'" "room p s'" "tmp_input s' = tmp_input s"
    "tmp_proof s' = tmp_proof s" "processed_set s' = processed_set s"
proof (cases "\<not> opt_found s \<or> depth > opt_num_sat s")
  case True
  let ?n = "length (cur p)" and ?m = "seed_len (hd (seeds p))"
  have ok: "?n \<le> length vals" "?n \<le> length (tmp_opt_input s)" "?m \<le> length vals" "?m \<le> length (tmp_opt_proof s)"
    using assms by (auto simp: room_def)
  let ?s = "s\<lparr>opt_found := True, opt_num_sat := depth, tmp_opt_input := take ?n vals @ drop ?n (tmp_opt_input s),
      tmp_opt_proof := map ucast (take ?m vals) @ drop ?m (tmp_opt_proof s)\<rparr>"
  show ?thesis
  proof (rule that)
    show "keep_optimistic p vals depth s = Some ?s"
      using True ok by (auto simp: keep_optimistic_def vals_long_to_char_def Let_def)
    show "room p ?s"
      using assms(1) ok by (subst room_cong [of _ s]) simp_all
  qed simp_all
next
  case False
  with assms that show ?thesis by (simp add: keep_optimistic_def)
qed

lemma bump_stat_simps [simp]:
  "room p (bump_stat c s) = room p s" "tmp_input (bump_stat c s) = tmp_input s" "tmp_proof (bump_stat c s) = tmp_proof s"
  "processed_set (bump_stat c s) = processed_set s"
  by (simp_all add: bump_stat_def room_def)

lemma timer_keeps:
  "timer_check_wrapper p s = (late, s') \<Longrightarrow> room q s' = room q s \<and> tmp_input s' = tmp_input s \<and> tmp_proof s' = tmp_proof s"
  by (auto simp: timer_check_wrapper_def Let_def room_def split: option.splits if_splits)

lemma check_or_add_digest_room:
  assumes "room p s" "length (cur p) \<le> length vals"
  shows "\<exists>seen s'. check_or_add_digest p vals s = Some (seen, s') \<and> room p s' \<and> tmp_input s' = tmp_input s \<and>
    tmp_proof s' = tmp_proof s"
  using assms by (auto simp: check_or_add_digest_def room_def Let_def)

text \<open>An evaluation has a result when there is room, and 1 is only the result for a satisfying input.\<close>

lemma evaluate_branch_query_sat:
  assumes room: "room p s" and vals: "length (cur p) \<le> length vals"
  obtains v s' where "evaluate_branch_query p vals s = Some (v, s')" "tmp_input s' = tmp_input s" "tmp_proof s' = tmp_proof s"
    "room p s'" "v = 0 \<or> v = 1 \<or> v = TIMEOUT_V" "v = 1 \<longrightarrow> satisfies p vals"
proof -
  obtain late s1 where t: "timer_check_wrapper p s = (late, s1)" by fastforce
  note s1 = timer_keeps [OF t, of p]
  let ?s = "bump_stat NUM_EVALUATE s1"
  obtain seen s2 where d: "(if check_unnecessary_eval p then check_or_add_digest p vals ?s else Some (False, ?s)) = Some (seen, s2)"
      "room p s2" "tmp_input s2 = tmp_input s" "tmp_proof s2 = tmp_proof s"
    using check_or_add_digest_room [of p ?s vals] room vals s1 by (cases "check_unnecessary_eval p") auto
  obtain res depth where q: "eval_query p vals = (res, depth)" by fastforce
  obtain s3 where k: "keep_optimistic p vals depth s2 = Some s3" "room p s3" "tmp_input s3 = tmp_input s2" "tmp_proof s3 = tmp_proof s2"
    by (rule keep_optimistic_room [OF d(2) vals])
  show ?thesis
  proof (cases late)
    case True
    with t s1 room show ?thesis by (intro that [of TIMEOUT_V "bump_stat NUM_TIMEOUTS s1"]) (auto simp: evaluate_branch_query_def TIMEOUT_V_def)
  next
    case False
    have eq: "evaluate_branch_query p vals s = (if seen then Some (0, s2) else if (ucast (eval_cond p vals) :: u32) = 0
        then Some (0, s2) else Some (if (ucast res :: u32) \<noteq> 0 then 1 else 0, s3))"
      using False by (simp add: evaluate_branch_query_def t d(1) q k(1))
    consider "seen \<or> (ucast (eval_cond p vals) :: u32) = 0"
      | "\<not> seen" "(ucast (eval_cond p vals) :: u32) \<noteq> 0" by blast
    then show ?thesis
    proof cases
      case 1
      with eq d show ?thesis by (intro that [of 0 s2]) auto
    next
      case 2
      with eq d k q show ?thesis
        by (intro that [of "if (ucast res :: u32) \<noteq> 0 then 1 else 0" s3]) (auto simp: satisfies_def)
    qed
  qed
qed

lemma fold_bump_stat: "fold bump_stat cs s = s\<lparr>stats := stats (fold bump_stat cs s)\<rparr>"
proof (induction cs arbitrary: s)
  case (Cons c cs)
  show ?case
    using Cons.IH [of "bump_stat c s"] by (simp add: bump_stat_def)
qed simp

lemma fold_bump_stat_simps [simp]:
  "tmp_input (fold bump_stat cs s) = tmp_input s" "opt_found (fold bump_stat cs s) = opt_found s"
  "tmp_proof (fold bump_stat cs s) = tmp_proof s" "opt_num_sat (fold bump_stat cs s) = opt_num_sat s" "tmp_opt_input (fold bump_stat cs s) = tmp_opt_input s"
  "tmp_opt_proof (fold bump_stat cs s) = tmp_opt_proof s"
  by (subst fold_bump_stat, simp)+

lemma found_reports:
  assumes "satisfies p vals" "n \<le> length vals" "n \<le> length (tmp_proof s)"
  obtains s' where "found cs vals n sz s = Stop 1 s'" "tmp_input s' = tmp_input s" "reports_input p s' vals n"
    "proof_size s' = Some sz"
  using assms that by (auto simp: found_def Let_def reports_input_def vals_long_to_char_def)

interpretation restoring: search_logic p "differs_only p" "result_ok p" for p
proof
  fix X s ws s'
  assume "differs_only p X s" "write_input ws s = Some s'" "fst ` set ws \<subseteq> X"
  then show "differs_only p X s'"
    using write_input_room [of ws s s' p] by (fastforce simp: differs_only_def dest!: write_input_only)
next
  fix X s "is" s'
  assume d: "differs_only p X s" and w: "write_input (restores p is) s = Some s'"
  have ids: "fst ` set (restores p is) = set is"
    by (force simp: restores_def)
  obtain inp where s': "s' = s\<lparr>tmp_input := inp\<rparr>" "length inp = length (tmp_input s)"
    and keep: "\<And>i. i \<notin> set is \<Longrightarrow> inp ! i = tmp_input s ! i"
    using write_input_only [OF w] unfolding ids by blast
  have "inp ! i = cur p ! i" if "i < length (cur p)" "i \<notin> X - set is" for i
    using that d keep [of i] write_restores [OF w, of i] s'(1) by (cases "i \<in> set is") (auto simp: differs_only_def)
  with d s' write_input_room [OF w, of p] show "differs_only p (X - set is) s'"
    by (simp add: differs_only_def)
next
  fix X s sz cs heed
  assume d: "differs_only p X s" and sz: "sz \<in> sizes p"
  have room: "room p s" "length (cur p) \<le> length (tmp_input s)" "seed_len (hd (seeds p)) \<le> length (tmp_input s)"
      "seed_len (hd (seeds p)) \<le> length (tmp_proof s)"
    using d by (auto simp: differs_only_def room_def)
  obtain v s1 where e: "evaluate_branch_query p (tmp_input s) s = Some (v, s1)" "tmp_input s1 = tmp_input s"
      "tmp_proof s1 = tmp_proof s" "room p s1" "v = 0 \<or> v = 1 \<or> v = TIMEOUT_V" "v = 1 \<longrightarrow> satisfies p (tmp_input s)"
    by (rule evaluate_branch_query_sat [OF room(1,2)])
  show "post (differs_only p X) (result_ok p) (evaluate_tmp p cs sz heed s)"
  proof (cases "v = 1")
    case True
    obtain s2 where "found cs (tmp_input s1) (seed_len (hd (seeds p))) sz s1 = Stop 1 s2" "tmp_input s2 = tmp_input s1"
        "reports_input p s2 (tmp_input s1) (seed_len (hd (seeds p)))" "proof_size s2 = Some sz"
      using found_reports [of p "tmp_input s1" "seed_len (hd (seeds p))" s1 cs sz] e True room by metis
    with d e True sz show ?thesis
      by (simp add: evaluate_tmp_def result_ok_def reported_def differs_only_def)
  next
    case False
    with d e show ?thesis by (auto simp: evaluate_tmp_def result_ok_def differs_only_def)
  qed
next
  fix X s t
  assume d: "differs_only p X s" and t: "t \<in> set (tl (seeds p))"
  have room: "room p s" "length (cur p) \<le> length (seed_values t)" "seed_len t \<le> length (seed_values t)"
      "seed_len t \<le> length (tmp_proof s)"
    using d t by (auto simp: differs_only_def room_def list_all_iff)
  obtain v s1 where e: "evaluate_branch_query p (seed_values t) s = Some (v, s1)" "tmp_input s1 = tmp_input s"
      "tmp_proof s1 = tmp_proof s" "room p s1" "v = 0 \<or> v = 1 \<or> v = TIMEOUT_V" "v = 1 \<longrightarrow> satisfies p (seed_values t)"
    by (rule evaluate_branch_query_sat [OF room(1,2)])
  show "post (differs_only p X) (result_ok p) (reuse_seed p t s)"
  proof (cases "v = 1")
    case True
    obtain s2 where "found [REUSE] (seed_values t) (seed_len t) (seed_len t) s1 = Stop 1 s2" "tmp_input s2 = tmp_input s1"
        "reports_input p s2 (seed_values t) (seed_len t)" "proof_size s2 = Some (seed_len t)"
      using found_reports [of p "seed_values t" "seed_len t" s1 "[REUSE]" "seed_len t"] e True room by metis
    with t e True show ?thesis
      by (auto simp: reuse_seed_def result_ok_def reported_def)
  next
    case False
    with d e show ?thesis by (auto simp: reuse_seed_def result_ok_def differs_only_def)
  qed
qed (auto simp: differs_only_def result_ok_def TIMEOUT_V_def)

text \<open>
  A run of the minimiser keeps the numbers of its variables and of the input's bytes and the size of
  the proof, and does not touch the optimistic solution.
\<close>

definition descent_keeps :: "problem \<Rightarrow> descent \<Rightarrow> bool" where
  "descent_keeps p f = (\<forall>s x. length (tmp_input s) = length (cur p) \<longrightarrow>
     (\<exists>r x' s'. f s x = Some (r, x', s') \<and> length x' = length x \<and> length (tmp_input s') = length (cur p) \<and>
        opt_found s' = opt_found s \<and> opt_num_sat s' = opt_num_sat s \<and> tmp_opt_input s' = tmp_opt_input s \<and>
        tmp_opt_proof s' = tmp_opt_proof s \<and> length (tmp_proof s') = length (tmp_proof s)))"

lemma query_check_light_not_Next: "query_check_light p a s \<noteq> Next s'"
proof -
  have "bind r (Stop 0) \<noteq> Next s'" for r by (cases r) simp_all
  then show ?thesis by (simp only: query_check_light_def not_False_eq_True)
qed

lemma post_Stop: "post Q R r \<Longrightarrow> (\<And>s. r \<noteq> Next s) \<Longrightarrow> \<exists>v s. r = Stop v s \<and> R v s"
  by (cases r) auto

section \<open>The optimistic solution\<close>

text \<open>
  The input kept as optimistic solution satisfies the branch condition, the number kept is the
  number of conjuncts of the query that hold for it, and the bytes kept are its bytes.
\<close>

definition opt_ok :: "problem \<Rightarrow> search \<Rightarrow> bool" where
  "opt_ok p s = (opt_found s \<longrightarrow> (let v = take (length (cur p)) (tmp_opt_input s); n = seed_len (hd (seeds p)) in
     length v = length (cur p) \<and> (ucast (eval_cond p v) :: u32) \<noteq> 0 \<and> snd (eval_query p v) = opt_num_sat s \<and>
     take (min n (length v)) (tmp_opt_proof s) = map ucast (take n v)))"

definition opt_inv :: "problem \<Rightarrow> nat set \<Rightarrow> search \<Rightarrow> bool" where
  "opt_inv p X s = (wf_problem p \<and> room p s \<and> list_all (\<lambda>t. length (seed_values t) = length (cur p)) (tl (seeds p)) \<and>
     length (tmp_input s) = length (cur p) \<and> opt_ok p s)"

lemma opt_ok_cong:
  "opt_found s' = opt_found s \<Longrightarrow> opt_num_sat s' = opt_num_sat s \<Longrightarrow> tmp_opt_input s' = tmp_opt_input s \<Longrightarrow>
    tmp_opt_proof s' = tmp_opt_proof s \<Longrightarrow> opt_ok p s' = opt_ok p s"
  by (simp add: opt_ok_def)

lemma opt_ok_keep:
  assumes "opt_ok p s" "length vals = length (cur p)" "(ucast (eval_cond p vals) :: u32) \<noteq> 0"
    "keep_optimistic p vals (snd (eval_query p vals)) s = Some s'"
  shows "opt_ok p s'"
proof (cases "\<not> opt_found s \<or> snd (eval_query p vals) > opt_num_sat s")
  case True
  have "take (min n (length vals)) (map ucast (take n vals) @ ys) = (map ucast (take n vals) :: u8 list)" for n ys
    by (cases "n \<le> length vals") simp_all
  with True assms(2-4) show ?thesis
    by (auto simp: keep_optimistic_def opt_ok_def vals_long_to_char_def Let_def split: if_splits)
qed (use assms in \<open>simp add: keep_optimistic_def\<close>)

lemma evaluate_branch_query_opt:
  assumes "evaluate_branch_query p vals s = Some (v, s')" "opt_ok p s" "length vals = length (cur p)"
  shows "opt_ok p s'"
proof -
  obtain late s1 where t: "timer_check_wrapper p s = (late, s1)" by fastforce
  define s2 where "s2 = bump_stat NUM_EVALUATE s1"
  have s1: "opt_ok p s1 = opt_ok p s"
    using t by (intro opt_ok_cong) (auto simp: timer_check_wrapper_def Let_def split: option.splits if_splits)
  have s2: "opt_ok p s2 = opt_ok p s1" "opt_ok p (bump_stat NUM_TIMEOUTS s1) = opt_ok p s1"
    by (rule opt_ok_cong; simp add: s2_def bump_stat_def)+
  have s3: "opt_ok p s3 = opt_ok p s2"
    if "(if check_unnecessary_eval p then check_or_add_digest p vals s2 else Some (False, s2)) = Some (seen, s3)" for seen s3
    using that by (intro opt_ok_cong) (auto simp: check_or_add_digest_def Let_def split: if_splits)
  show ?thesis
  proof (cases late)
    case True
    with assms(1,2) t s1 s2(2) show ?thesis by (auto simp: evaluate_branch_query_def)
  next
    case False
    obtain seen s3 where d: "(if check_unnecessary_eval p then check_or_add_digest p vals s2 else Some (False, s2)) = Some (seen, s3)"
      using assms(1) False by (fastforce simp: evaluate_branch_query_def t simp flip: s2_def split: option.splits)
    obtain res depth where q: "eval_query p vals = (res, depth)" by fastforce
    have ok: "opt_ok p s3" using s3 [OF d] s2(1) s1 assms(2) by simp
    have "s' = s3 \<or> (ucast (eval_cond p vals) :: u32) \<noteq> 0 \<and> keep_optimistic p vals depth s3 = Some s'"
      using assms(1) False by (auto simp: evaluate_branch_query_def t d q simp flip: s2_def split: if_splits)
    with ok opt_ok_keep [OF ok assms(3), of s'] show ?thesis by (auto simp: q)
  qed
qed

lemma found_opt:
  assumes "n \<le> length vals" "n \<le> length (tmp_proof s)"
  shows "\<exists>s'. found cs vals n sz s = Stop 1 s' \<and> opt_ok p s' = opt_ok p s"
proof -
  let ?s = "(fold bump_stat cs s)\<lparr>tmp_proof := map ucast (take n vals) @ drop n (tmp_proof s), proof_size := Some sz\<rparr>"
  have "found cs vals n sz s = Stop 1 ?s"
    using assms by (simp add: found_def vals_long_to_char_def Let_def)
  moreover have "opt_ok p ?s = opt_ok p s"
    by (rule opt_ok_cong) simp_all
  ultimately show ?thesis by blast
qed

interpretation optimistic: search_logic p "opt_inv p" "\<lambda>r. opt_ok p" for p
proof
  fix X s ws s'
  assume "opt_inv p X s" "write_input ws s = Some s'"
  then show "opt_inv p X s'"
    using write_input_room [of ws s s' p] by (auto simp: opt_inv_def opt_ok_def dest!: write_input_only)
next
  fix X s "is" s'
  assume "opt_inv p X s" "write_input (restores p is) s = Some s'"
  then show "opt_inv p (X - set is) s'"
    using write_input_room [of "restores p is" s s' p] by (auto simp: opt_inv_def opt_ok_def dest!: write_input_only)
next
  fix X s sz cs heed
  assume d: "opt_inv p X s"
  then have room: "room p s" "length (cur p) \<le> length (tmp_input s)" "length (tmp_input s) = length (cur p)"
      "seed_len (hd (seeds p)) \<le> length (tmp_input s)" "seed_len (hd (seeds p)) \<le> length (tmp_proof s)"
    by (auto simp: opt_inv_def room_def)
  obtain v s1 where e: "evaluate_branch_query p (tmp_input s) s = Some (v, s1)" "tmp_input s1 = tmp_input s"
      "tmp_proof s1 = tmp_proof s" "room p s1" "v = 0 \<or> v = 1 \<or> v = TIMEOUT_V"
    by (rule evaluate_branch_query_sat [OF room(1,2)])
  have ok: "opt_ok p s1" using evaluate_branch_query_opt [OF e(1) _ room(3)] d by (simp add: opt_inv_def)
  have inv: "opt_inv p X s1" using d e(2,4) ok by (simp add: opt_inv_def)
  obtain s2 where "found cs (tmp_input s1) (seed_len (hd (seeds p))) sz s1 = Stop 1 s2" "opt_ok p s2"
    using found_opt [of "seed_len (hd (seeds p))" "tmp_input s1" s1 cs sz p] room(4,5) e(2,3) ok by auto
  with ok inv show "post (opt_inv p X) (\<lambda>r. opt_ok p) (evaluate_tmp p cs sz heed s)"
    by (simp add: evaluate_tmp_def e(1))
next
  fix X s t
  assume d: "opt_inv p X s" and t: "t \<in> set (tl (seeds p))"
  then have room: "room p s" "length (cur p) \<le> length (seed_values t)" "length (seed_values t) = length (cur p)"
      "seed_len t \<le> length (seed_values t)" "seed_len t \<le> length (tmp_proof s)"
    by (auto simp: opt_inv_def room_def list_all_iff)
  obtain v s1 where e: "evaluate_branch_query p (seed_values t) s = Some (v, s1)" "tmp_input s1 = tmp_input s"
      "tmp_proof s1 = tmp_proof s" "room p s1" "v = 0 \<or> v = 1 \<or> v = TIMEOUT_V"
    by (rule evaluate_branch_query_sat [OF room(1,2)])
  have ok: "opt_ok p s1" using evaluate_branch_query_opt [OF e(1) _ room(3)] d by (simp add: opt_inv_def)
  have inv: "opt_inv p X s1" using d e(2,4) ok by (simp add: opt_inv_def)
  obtain s2 where "found [REUSE] (seed_values t) (seed_len t) (seed_len t) s1 = Stop 1 s2" "opt_ok p s2"
    using found_opt [of "seed_len t" "seed_values t" s1 "[REUSE]" "seed_len t" p] room(4,5) e(3) ok by auto
  with ok inv show "post (opt_inv p X) (\<lambda>r. opt_ok p) (reuse_seed p t s)"
    by (simp add: reuse_seed_def e(1))
qed (auto simp: opt_inv_def)

section \<open>Properties\<close>

text \<open>An input of two bytes; the branch condition wants 5 in the first and the query 6 in the second.\<close>

fun demo_cond :: "u8 list \<Rightarrow> u64" where
  "demo_cond [a, b] = (if a = 5 then 1 else 0)"
| "demo_cond _ = 0"

fun demo_query :: "u8 list \<Rightarrow> u64 \<times> u32" where
  "demo_query [a, b] = (if b = 6 then 1 else 0, 1)"
| "demo_query _ = (0, 0)"

definition demo_problem :: problem where
  "demo_problem = \<lparr>eval_cond = \<lambda>v. demo_cond (map ucast (take 2 v)), eval_query = \<lambda>v. demo_query (map ucast (take 2 v)),
     seeds = [\<lparr>seed_values = [4, 6], seed_len = 2\<rparr>], intervals = \<lambda>_. [], group_interval = \<lambda>_. None,
     aggressive_optimistic = False, timer = None, digest = map ucast, n_symbols = 2,
     check_unnecessary_eval = True, check_is_valid = True, skips = \<lambda>_. False\<rparr>"

definition demo_search :: search where
  "demo_search = \<lparr>tmp_input = [4, 6], tmp_proof = [0, 0], proof_size = None, stats = \<lambda>_. 0, processed_set = {},
     opt_found = False, opt_num_sat = 0, tmp_opt_input = [0, 0], tmp_opt_proof = [0, 0], timer_ticks = 0,
     timer_polls = 0\<rparr>"

definition demo_analysis :: analysis where
  "demo_analysis = \<lparr>indexes = [0], index_groups = [[0]], is_input_to_state = True, input_to_state_group = [0],
     input_to_state_const = 5, range_comparison = None, const_values = [], inp_to_state_ite = [],
     valid_for_gd = True, gd_digest = map ucast, gd_descent = \<lambda>s x. Some (1, x, s), random_numbers = \<lambda>k. k\<rparr>"

lemmas demo_defs = demo_problem_def demo_search_def demo_analysis_def

text \<open>
  C3. When the buffers of the search have room for every test case and no other test case is
  shorter than the current one, a search ends with a result and makes no access outside of its
  arrays: neither of the input and the groups nor in the digest of an input and the copies to the
  proof and the optimistic solution. When it
  reports a satisfying input, the branch condition and the query evaluate to true on it, and the
  proof handed out is its bytes, for the mutated input or for another test case.
\<close>

theorem query_check_light_sound:
  assumes "wf_problem p" "analysis_ok p a" "descent_keeps p (gd_descent a)" "tmp_input s = cur p" "room p s"
  shows "\<exists>r s'. query_check_light p a s = Stop r s' \<and> (r = 0 \<or> r = TIMEOUT_V \<or> r = 1 \<and> reported p s')"
proof -
  have "restoring.descent_ok p {..<length (cur p)} (gd_descent a)"
    using assms(1,3) unfolding restoring.descent_ok_def descent_keeps_def differs_only_def by (fastforce simp: room_def)
  then have "restoring.triple p {} (query_check_light p a) {..<length (cur p)}"
    by (rule restoring.triple_query_check_light [OF assms(2)])
  moreover have "differs_only p {} s"
    using assms(1,4,5) by (simp add: differs_only_empty)
  ultimately have "post (differs_only p {..<length (cur p)}) (result_ok p) (query_check_light p a s)"
    by (rule restoring.tripleD)
  from post_Stop [OF this query_check_light_not_Next] show ?thesis
    by (auto simp: result_ok_def)
qed

theorem query_check_light_sound_witness:
  "wf_problem demo_problem \<and> analysis_ok demo_problem demo_analysis \<and>
   (\<exists>r s'. query_check_light demo_problem demo_analysis demo_search = Stop r s' \<and>
     (r = 0 \<or> r = TIMEOUT_V \<or> r = 1 \<and> reported demo_problem s'))"
proof -
  have "wf_problem demo_problem" "analysis_ok demo_problem demo_analysis"
    "descent_keeps demo_problem (gd_descent demo_analysis)" "tmp_input demo_search = cur demo_problem"
    "room demo_problem demo_search"
    by (simp_all add: wf_problem_def analysis_ok_def descent_keeps_def room_def demo_defs)
  then show ?thesis
    using query_check_light_sound by blast
qed

text \<open>
  C5. The deterministic mutations of groups, those of single bytes and the extended input-to-state
  phase give back the current test case when they find no input: every byte they have changed is
  restored, on every path through the groups, their words and the neighbouring bytes. There is to
  be room in the buffers. The phase over optimistic ranges, the brute force and the random
  mutations do not restore it.
\<close>

theorem phases_restore_input:
  assumes "wf_problem p" "room p s" "tmp_input s = cur p" "set ix \<subseteq> {..<length (cur p)}"
    "list_all (\<lambda>g. set g \<subseteq> {..<length (cur p)}) groups" "vals \<noteq> [] \<or> ites \<noteq> []"
    "list_all (\<lambda>(g, v). set g \<subseteq> {..<length (cur p)}) ites"
  shows "post (\<lambda>s'. tmp_input s' = cur p) (result_ok p) (PHASE_afl_deterministic_groups p ix groups s) \<and>
    post (\<lambda>s'. tmp_input s' = cur p) (result_ok p) (PHASE_afl_deterministic p ix s) \<and>
    post (\<lambda>s'. tmp_input s' = cur p) (result_ok p) (PHASE_input_to_state_extended p vals groups ites s)"
proof -
  have start: "differs_only p {} s"
    using assms(1-3) by (simp add: differs_only_empty)
  have fin: "post (\<lambda>s'. tmp_input s' = cur p) (result_ok p) (f s)" if "restoring.triple p {} f {}" for f
    by (rule post_mono [OF restoring.tripleD [OF that start]]) (simp add: differs_only_empty)
  have "post (\<lambda>s'. tmp_input s' = cur p) (result_ok p) (PHASE_afl_deterministic_groups p ix groups s)"
    using assms(4,5) by (intro fin restoring.triple_afl_deterministic_groups) (auto simp: list_all_iff)
  moreover have "post (\<lambda>s'. tmp_input s' = cur p) (result_ok p) (PHASE_afl_deterministic p ix s)"
    using assms(4) by (intro fin restoring.triple_afl_deterministic)
  moreover have "post (\<lambda>s'. tmp_input s' = cur p) (result_ok p) (PHASE_input_to_state_extended p vals groups ites s)"
    using assms(5,6,7) by (intro fin restoring.triple_input_to_state_extended) (auto simp: list_all_iff)
  ultimately show ?thesis by simp
qed

theorem phases_restore_input_witness:
  "wf_problem demo_problem \<and>
   post (\<lambda>s'. tmp_input s' = cur demo_problem) (result_ok demo_problem)
     (PHASE_afl_deterministic_groups demo_problem [0, 1] [[0, 1]] demo_search)"
proof -
  have "wf_problem demo_problem" "room demo_problem demo_search" "tmp_input demo_search = cur demo_problem"
    by (simp_all add: wf_problem_def room_def demo_defs)
  then show ?thesis
    using phases_restore_input [of demo_problem demo_search "[0, 1]" "[[0, 1]]" "[1]" "[]"]
    by (simp add: demo_problem_def)
qed

text \<open>
  C7. The optimistic solution that a search leaves satisfies the branch condition, the number kept
  with it is the number of conjuncts of the query that hold for it, and the bytes kept are its own,
  when the test cases have the length of the current one and there is room in the buffers.
\<close>

theorem query_check_light_optimistic:
  assumes "wf_problem p" "analysis_ok p a" "descent_keeps p (gd_descent a)" "tmp_input s = cur p" "room p s"
    "list_all (\<lambda>t. length (seed_values t) = length (cur p)) (tl (seeds p))" "\<not> opt_found s"
  shows "\<exists>r s'. query_check_light p a s = Stop r s' \<and> opt_ok p s'"
proof -
  have "optimistic.descent_ok p {..<length (cur p)} (gd_descent a)"
    unfolding optimistic.descent_ok_def
  proof (intro allI impI)
    fix s x assume i: "opt_inv p {..<length (cur p)} s"
    then obtain r x' s' where d: "gd_descent a s x = Some (r, x', s')" "length x' = length x"
      "length (tmp_input s') = length (cur p)" "opt_found s' = opt_found s" "opt_num_sat s' = opt_num_sat s"
      "tmp_opt_input s' = tmp_opt_input s" "tmp_opt_proof s' = tmp_opt_proof s" "length (tmp_proof s') = length (tmp_proof s)"
      using assms(3) unfolding descent_keeps_def opt_inv_def by blast
    with i show "\<exists>r x' s'. gd_descent a s x = Some (r, x', s') \<and> length x' = length x \<and>
        opt_inv p {..<length (cur p)} s'"
      by (simp add: opt_inv_def opt_ok_cong [of s' s] room_cong [of s' s])
  qed
  then have "optimistic.triple p {} (query_check_light p a) {..<length (cur p)}"
    by (rule optimistic.triple_query_check_light [OF assms(2)])
  moreover have "opt_inv p {} s"
    using assms(1,4-7) by (simp add: opt_inv_def opt_ok_def)
  ultimately have "post (opt_inv p {..<length (cur p)}) (\<lambda>r. opt_ok p) (query_check_light p a s)"
    by (rule optimistic.tripleD)
  from post_Stop [OF this query_check_light_not_Next] show ?thesis .
qed

theorem query_check_light_optimistic_witness:
  "wf_problem demo_problem \<and> analysis_ok demo_problem demo_analysis \<and>
   (\<exists>r s'. query_check_light demo_problem demo_analysis demo_search = Stop r s' \<and> opt_ok demo_problem s')"
proof -
  have "wf_problem demo_problem" "analysis_ok demo_problem demo_analysis"
    "descent_keeps demo_problem (gd_descent demo_analysis)" "tmp_input demo_search = cur demo_problem"
    "list_all (\<lambda>t. length (seed_values t) = length (cur demo_problem)) (tl (seeds demo_problem))" "\<not> opt_found demo_search" "room demo_problem demo_search"
    by (simp_all add: room_def wf_problem_def analysis_ok_def descent_keeps_def demo_defs)
  then show ?thesis
    using query_check_light_optimistic by blast
qed

end
