(* ===== verification/Fuzzy_Complete.thy ===== *)
theory Fuzzy_Complete
  imports Fuzzy_Spec
begin

text \<open>
  The phases that try all values decide their query. Inputs with the same digest are evaluated
  once only, so that digests must tell satisfying inputs from others.
\<close>

definition exact :: "problem \<Rightarrow> bool" where
  "exact p = (timer p = None \<and> (\<forall>v w. digest p (take (n_symbols p) v) = digest p (take (n_symbols p) w) \<longrightarrow>
     satisfies p v = satisfies p w))"

text \<open>What has been evaluated before in this query did not satisfy it.\<close>

definition unsat_seen :: "problem \<Rightarrow> search \<Rightarrow> bool" where
  "unsat_seen p s = (\<forall>v. digest p (take (n_symbols p) v) \<in> processed_set s \<longrightarrow> \<not> satisfies p v)"

text \<open>An evaluation ends the phase exactly when the input satisfies the query.\<close>

definition decides :: "problem \<Rightarrow> bool \<Rightarrow> (search \<Rightarrow> bool) \<Rightarrow> phase_result \<Rightarrow> bool" where
  "decides p b Q r = (if b then \<exists>s. r = Stop 1 s else \<exists>s. r = Next s \<and> unsat_seen p s \<and> room p s \<and> Q s)"

lemma evaluate_branch_query_exact:
  assumes "exact p" "unsat_seen p s" "room p s" "length (cur p) \<le> length vals"
  obtains s' where "evaluate_branch_query p vals s = Some (if satisfies p vals then 1 else 0, s')"
    "\<not> satisfies p vals \<longrightarrow> unsat_seen p s'" "room p s'" "tmp_input s' = tmp_input s" "tmp_proof s' = tmp_proof s"
proof -
  have timer: "timer_check_wrapper p s = (False, s)"
    using assms(1) by (simp add: timer_check_wrapper_def exact_def)
  let ?s = "bump_stat NUM_EVALUATE s" and ?d = "digest p (take (n_symbols p) vals)"
  obtain seen s2 where d: "(if check_unnecessary_eval p then check_or_add_digest p vals ?s else Some (False, ?s)) = Some (seen, s2)"
      "room p s2" "tmp_input s2 = tmp_input s" "tmp_proof s2 = tmp_proof s"
    using check_or_add_digest_room [of p ?s vals] assms(3,4) by (cases "check_unnecessary_eval p") auto
  have seen: "seen \<Longrightarrow> \<not> satisfies p vals"
    using d(1) assms(2) by (auto simp: check_or_add_digest_def unsat_seen_def Let_def split: if_splits)
  have "processed_set s2 \<subseteq> insert ?d (processed_set s)"
    using d(1) by (auto simp: check_or_add_digest_def Let_def split: if_splits)
  then have s2: "\<not> satisfies p vals \<longrightarrow> unsat_seen p s2"
    using assms(1,2) unfolding unsat_seen_def exact_def by blast
  obtain res depth where q: "eval_query p vals = (res, depth)" by fastforce
  obtain s3 where k: "keep_optimistic p vals depth s2 = Some s3" "room p s3" "tmp_input s3 = tmp_input s2"
      "tmp_proof s3 = tmp_proof s2" "processed_set s3 = processed_set s2"
    by (rule keep_optimistic_room [OF d(2) assms(4)])
  have s3: "\<not> satisfies p vals \<longrightarrow> unsat_seen p s3" using s2 k(5) by (simp add: unsat_seen_def)
  have ev: "evaluate_branch_query p vals s = (if seen \<or> (ucast (eval_cond p vals) :: u32) = 0 then Some (0, s2)
      else Some (if (ucast res :: u32) \<noteq> 0 then 1 else 0, s3))"
    by (simp add: evaluate_branch_query_def timer d(1) q k(1))
  show ?thesis
  proof (cases "seen \<or> (ucast (eval_cond p vals) :: u32) = 0")
    case True
    with seen have "\<not> satisfies p vals" by (auto simp: satisfies_def)
    with True ev s2 d show ?thesis by (intro that [of s2]) auto
  next
    case False
    with ev s3 k d q show ?thesis by (intro that [of s3]) (auto simp: satisfies_def)
  qed
qed

lemma evaluate_tmp_decides:
  assumes "exact p" "unsat_seen p s" "room p s" "length (tmp_input s) = length (cur p)"
  shows "decides p (satisfies p (tmp_input s)) (\<lambda>s'. tmp_input s' = tmp_input s) (evaluate_tmp p cs sz heed s)"
proof -
  obtain s' where e: "evaluate_branch_query p (tmp_input s) s = Some (if satisfies p (tmp_input s) then 1 else 0, s')"
      "\<not> satisfies p (tmp_input s) \<longrightarrow> unsat_seen p s'" "room p s'" "tmp_input s' = tmp_input s" "tmp_proof s' = tmp_proof s"
    using evaluate_branch_query_exact [OF assms(1-3), of "tmp_input s"] assms(4) by (metis order_refl)
  have "seed_len (hd (seeds p)) \<le> length (tmp_input s')" "seed_len (hd (seeds p)) \<le> length (tmp_proof s')"
    using assms(3,4) e(4,5) by (simp_all add: room_def)
  then show ?thesis
    using e by (auto simp: evaluate_tmp_def decides_def found_def vals_long_to_char_def TIMEOUT_V_def Let_def)
qed

text \<open>A candidate, then the others.\<close>

lemma decides_bind:
  assumes "decides p a Q r" "\<And>s. unsat_seen p s \<Longrightarrow> room p s \<Longrightarrow> Q s \<Longrightarrow> decides p b Q' (f s)"
  shows "decides p (a \<or> b) Q' (bind r f)"
  using assms by (cases a) (auto simp: decides_def)

definition apply_writes :: "(nat \<times> u64) list \<Rightarrow> u64 list \<Rightarrow> u64 list" where
  "apply_writes ws inp = fold (\<lambda>(i, v) xs. xs[i := v]) ws inp"

lemma apply_writes_simps [simp]:
  "apply_writes [] inp = inp" "apply_writes ((i, v) # ws) inp = apply_writes ws (inp[i := v])"
  by (simp_all add: apply_writes_def)

lemma length_apply_writes [simp]: "length (apply_writes ws inp) = length inp"
  by (induction ws arbitrary: inp) auto

lemma write_input_apply:
  assumes "list_all (\<lambda>w. fst w < length (tmp_input s)) ws"
  shows "write_input ws s = Some (s\<lparr>tmp_input := apply_writes ws (tmp_input s)\<rparr>)"
  using assms by (induction ws s rule: write_input.induct) simp_all

lemma apply_writes_overwrite: "length a = length b \<Longrightarrow> (\<And>i. i < length a \<Longrightarrow> i \<notin> fst ` set ws \<Longrightarrow> a ! i = b ! i) \<Longrightarrow>
    apply_writes ws a = apply_writes ws b"
proof (induction ws arbitrary: a b)
  case Nil
  then show ?case by (auto intro: nth_equalityI)
next
  case (Cons w ws)
  obtain i v where w: "w = (i, v)" by (cases w)
  have "a[i := v] ! j = b[i := v] ! j" if "j < length a" "j \<notin> fst ` set ws" for j
    using Cons.prems that by (cases "j = i") (auto simp: w)
  with Cons show ?case by (auto simp: w intro!: Cons.IH)
qed

lemma apply_writes_other: "i \<notin> fst ` set ws \<Longrightarrow> apply_writes ws inp ! i = inp ! i"
  by (induction ws arbitrary: inp) auto

lemma apply_writes_twice:
  assumes "fst ` set ws = fst ` set ws'"
  shows "apply_writes ws (apply_writes ws' inp) = apply_writes ws inp"
  by (rule apply_writes_overwrite) (auto simp: assms apply_writes_other)

section \<open>Brute force\<close>

lemma try_bytes_decides:
  assumes "exact p" "unsat_seen p s" "room p s" "length (tmp_input s) = length (cur p)" "i < length (tmp_input s)"
  shows "decides p (\<exists>b\<in>set bs. satisfies p ((tmp_input s)[i := b])) (\<lambda>_. True) (try_bytes p i bs s)"
  using assms(2-)
proof (induction bs arbitrary: s)
  case (Cons b bs)
  let ?s = "s\<lparr>tmp_input := (tmp_input s)[i := b]\<rparr>"
  have "unsat_seen p ?s" "room p ?s" "length (tmp_input ?s) = length (cur p)"
    using Cons.prems(1-3) by (simp_all add: unsat_seen_def room_def)
  note here = evaluate_tmp_decides [OF assms(1) this, of "[BRUTE_FORCE, NUM_SAT]" "seed_len (hd (seeds p))" True]
  have "decides p (satisfies p ((tmp_input s)[i := b]) \<or> (\<exists>b'\<in>set bs. satisfies p ((tmp_input s)[i := b'])))
      (\<lambda>_. True) (bind (evaluate_tmp p [BRUTE_FORCE, NUM_SAT] (seed_len (hd (seeds p))) True ?s) (try_bytes p i bs))"
  proof (rule decides_bind)
    fix s' assume "unsat_seen p s'" "room p s'" "tmp_input s' = tmp_input ?s"
    then show "decides p (\<exists>b'\<in>set bs. satisfies p ((tmp_input s)[i := b'])) (\<lambda>_. True) (try_bytes p i bs s')"
      using Cons.IH [of s'] Cons.prems(3,4) by simp
  qed (use here in simp)
  then show ?case
    using Cons.prems(4) by (simp add: write_then_def)
qed (simp add: decides_def)

text \<open>
  C4. On a query with one involved byte, with room in the buffers, without a timer and when digests tell satisfying inputs
  from others, the brute force decides: it reports an input if one of the 256 values of the byte
  satisfies the query, and otherwise goes through all of them.
\<close>

theorem brute_force_decides:
  assumes "exact p" "unsat_seen p s" "room p s" "length (tmp_input s) = length (cur p)"
    "i < length (tmp_input s)" "\<not> skips p SKIP_BRUTE_FORCE"
  shows "if \<exists>b :: u8. satisfies p ((tmp_input s)[i := ucast b])
    then \<exists>s'. PHASE_brute_force p (i # is) s = Stop 1 s' else \<exists>s'. PHASE_brute_force p (i # is) s = Next s'"
proof -
  have "(\<exists>b\<in>set (map word_of_nat [0..<256]). Q b) = (\<exists>b :: u8. Q (ucast b))" for Q :: "u64 \<Rightarrow> bool"
  proof
    assume "\<exists>b\<in>set (map word_of_nat [0..<256]). Q b"
    then obtain n where n: "n < 256" "Q (word_of_nat n)" by auto
    have "(ucast (word_of_nat n :: u8) :: u64) = word_of_nat n"
      using n(1) by (simp add: unsigned_of_nat take_bit_nat_eq_self)
    with n(2) show "\<exists>b :: u8. Q (ucast b)" by metis
  next
    assume "\<exists>b :: u8. Q (ucast b)"
    then obtain b :: u8 where "Q (ucast b)" by blast
    moreover have "unat b < 256" using unsigned_less [of b, where 'a = nat] by simp
    ultimately show "\<exists>b\<in>set (map word_of_nat [0..<256]). Q b"
      by (auto intro!: bexI [of _ "unat b"])
  qed
  with try_bytes_decides [OF assms(1-5), of "map word_of_nat [0..<256]"] assms(6) show ?thesis
    by (auto simp: decides_def PHASE_brute_force_def simp del: set_map split: if_splits)
qed

lemma demo_exact: "exact demo_problem" "unsat_seen demo_problem demo_search" "room demo_problem demo_search"
  "length (tmp_input demo_search) = length (cur demo_problem)"
proof -
  have "satisfies demo_problem v = satisfies demo_problem w"
    if "(map ucast (take 2 v) :: u8 list) = map ucast (take 2 w)" for v w :: "u64 list"
    unfolding satisfies_def demo_problem_def using that by simp
  moreover have "timer demo_problem = None" "digest demo_problem = map ucast" "n_symbols demo_problem = 2"
    by (simp_all add: demo_problem_def)
  ultimately show "exact demo_problem"
    unfolding exact_def by (metis (no_types))
  show "unsat_seen demo_problem demo_search" "room demo_problem demo_search"
    "length (tmp_input demo_search) = length (cur demo_problem)"
    by (simp_all add: unsat_seen_def room_def demo_defs)
qed

theorem brute_force_decides_witness:
  "exact demo_problem \<and> unsat_seen demo_problem demo_search \<and>
   (\<exists>s'. PHASE_brute_force demo_problem [0] demo_search = Stop 1 s') \<and>
   (\<exists>s'. PHASE_brute_force demo_problem [1] demo_search = Next s')"
proof -
  have "satisfies demo_problem ((tmp_input demo_search)[0 := ucast (5 :: u8)])"
    by (simp add: satisfies_def demo_defs)
  then have "\<exists>b :: u8. satisfies demo_problem ((tmp_input demo_search)[0 := ucast b])" by blast
  moreover have "\<not> satisfies demo_problem ((tmp_input demo_search)[1 := ucast b])" for b :: u8
    by (simp add: satisfies_def demo_defs)
  ultimately show ?thesis
    using demo_exact brute_force_decides [of demo_problem demo_search 0 "[]"]
      brute_force_decides [of demo_problem demo_search 1 "[]"]
    by (simp add: demo_defs)
qed

section \<open>Ranges\<close>

text \<open>The input with a value in a group of its bytes.\<close>

definition with_group :: "nat list \<Rightarrow> u64 \<Rightarrow> u64 list \<Rightarrow> u64 list" where
  "with_group ig v inp = apply_writes (group_writes ig v) inp"

lemma with_group_twice [simp]: "with_group ig v (with_group ig v' inp) = with_group ig v inp"
  by (simp add: with_group_def apply_writes_twice)

lemma length_with_group [simp]: "length (with_group ig v inp) = length inp"
  by (simp add: with_group_def)

lemma try_values_decides:
  assumes "exact p" "list_all (\<lambda>i. i < length (tmp_input s)) ig" "unsat_seen p s" "room p s"
    "length (tmp_input s) = length (cur p)" "wi_iter_ok it" "length (wi_iter_rest it) < n"
  shows "decides p (\<exists>v\<in>set (wi_iter_rest it). satisfies p (with_group ig v (tmp_input s))) (\<lambda>_. True)
    (try_values p c ig it n s)"
  using assms(2-)
proof (induction n arbitrary: it s)
  case (Suc n)
  show ?case
  proof (cases "wi_iter_rest it")
    case Nil
    then obtain it' where "wi_iter_get_next it = (it', None)"
      using wi_iter.next_end [OF Suc.prems(5)] by auto
    with Nil Suc.prems(2,3) show ?thesis by (simp add: decides_def)
  next
    case (Cons v vs)
    then obtain it' where nx: "wi_iter_get_next it = (it', Some v)" "wi_iter_ok it'" "wi_iter_rest it' = vs"
      using wi_iter.next_elem [OF Suc.prems(5) Cons] by auto
    let ?s = "s\<lparr>tmp_input := with_group ig v (tmp_input s)\<rparr>"
    have w: "write_input (group_writes ig v) s = Some ?s"
    proof -
      have "fst w \<in> set ig" if "w \<in> set (group_writes ig v)" for w
        using that fst_set_group_writes [of ig v] by blast
      then show ?thesis
        using Suc.prems(1) unfolding with_group_def by (intro write_input_apply) (simp add: list_all_iff)
    qed
    have "unsat_seen p ?s" "room p ?s" "length (tmp_input ?s) = length (cur p)"
      using Suc.prems(2-4) by (simp_all add: unsat_seen_def room_def)
    note here = evaluate_tmp_decides [OF assms(1) this, of "[c, NUM_SAT]" "seed_len (hd (seeds p))" True]
    have "decides p (satisfies p (with_group ig v (tmp_input s)) \<or>
        (\<exists>v'\<in>set vs. satisfies p (with_group ig v' (tmp_input s)))) (\<lambda>_. True)
        (bind (evaluate_tmp p [c, NUM_SAT] (seed_len (hd (seeds p))) True ?s) (try_values p c ig it' n))"
    proof (rule decides_bind)
      fix s' assume "unsat_seen p s'" "room p s'" "tmp_input s' = tmp_input ?s"
      then show "decides p (\<exists>v'\<in>set vs. satisfies p (with_group ig v' (tmp_input s))) (\<lambda>_. True) (try_values p c ig it' n s')"
        using Suc.IH [of s' it'] Suc.prems(1,4,6) nx Cons by simp
    qed (use here in simp)
    then show ?thesis
      by (simp add: nx(1) Cons write_then_def w)
  qed
qed simp

text \<open>
  C6. When the interval of a group has at most 2048 further values, the phases over ranges decide:
  they report an input if a value of the interval, put into the group, satisfies the query (with room in the buffers), and
  otherwise show the query unsatisfiable within the interval (result 2, which the driver turns
  into 0). The bound of 2050 turns of the loop is never reached.
\<close>

theorem try_interval_decides:
  assumes "exact p" "unsat_seen p s" "room p s" "length (tmp_input s) = length (cur p)"
    "list_all (\<lambda>i. i < length (tmp_input s)) ig" "wi_wf wi"
    "unat (wi_get_range wi) \<le> RANGE_MAX_WIDTH_BRUTE_FORCE"
  shows "if \<exists>v\<in>wi_values wi. satisfies p (with_group ig v (tmp_input s))
    then \<exists>s'. try_interval p c ig wi s = Stop 1 s' else \<exists>s'. try_interval p c ig wi s = Stop 2 s'"
proof -
  let ?it = "wi_init_iter_values wi"
  have "wi_get_range wi < - 1"
    using assms(7) by (simp add: word_less_nat_alt RANGE_MAX_WIDTH_BRUTE_FORCE_def unsigned_minus_1_eq_mask mask_eq_exp_minus_1)
  then have ok: "wi_iter_ok ?it"
    by (simp add: wi_iter_ok_def wi_init_iter_values_def)
  have "length (wi_iter_rest ?it) < RANGE_MAX_WIDTH_BRUTE_FORCE + 2"
    using wi_iter_rest_values(3) [OF assms(6)] assms(7) by simp
  from try_values_decides [OF assms(1,5,2-4) ok this, of c] wi_iter_rest_values(1) [OF assms(6)] assms(7) show ?thesis
    by (auto simp: decides_def try_interval_def simp del: try_values.simps split: if_splits)
qed

theorem try_interval_decides_witness:
  "exact demo_problem \<and> unsat_seen demo_problem demo_search \<and>
   (\<exists>s'. try_interval demo_problem SIMPLE_MATH [0] \<lparr>wmin = 5, wmax = 9, wsize = 8\<rparr> demo_search = Stop 1 s') \<and>
   (\<exists>s'. try_interval demo_problem SIMPLE_MATH [1] \<lparr>wmin = 5, wmax = 9, wsize = 8\<rparr> demo_search = Stop 2 s')"
proof -
  let ?a = "\<lparr>wmin = 5, wmax = 9, wsize = 8\<rparr>"
  have wf: "wi_wf ?a" "unat (wi_get_range ?a) \<le> RANGE_MAX_WIDTH_BRUTE_FORCE"
    "list_all (\<lambda>i. i < length (tmp_input demo_search)) [0]" "list_all (\<lambda>i. i < length (tmp_input demo_search)) [1]"
    by code_simp+
  have "satisfies demo_problem (with_group [0] 5 (tmp_input demo_search))"
    by (simp add: satisfies_def demo_defs with_group_def group_writes_def extract_from_long_def)
  moreover have "5 \<in> wi_values ?a"
    unfolding wi_values_def mem_Collect_eq by code_simp
  ultimately have "\<exists>v\<in>wi_values ?a. satisfies demo_problem (with_group [0] v (tmp_input demo_search))" by blast
  moreover have "\<not> (\<exists>v\<in>wi_values ?a. satisfies demo_problem (with_group [1] v (tmp_input demo_search)))"
    by (simp add: satisfies_def demo_defs with_group_def group_writes_def)
  ultimately show ?thesis
    using demo_exact try_interval_decides [OF demo_exact wf(3,1,2), of SIMPLE_MATH]
      try_interval_decides [OF demo_exact wf(4,1,2), of SIMPLE_MATH] by simp
qed

section \<open>Reuse of a longer test case\<close>






section \<open>A bound that is missed\<close>

text \<open>A query that only the upper bound of a wide interval satisfies.\<close>

definition stale_problem :: problem where
  "stale_problem = demo_problem\<lparr>seeds := [\<lparr>seed_values = [16, 7], seed_len = 2\<rparr>],
     eval_cond := \<lambda>v. 1, eval_query := \<lambda>v. (if v = [16, 9] then 1 else 0, 1)\<rparr>"

text \<open>
  For an interval of more than 2048 values only the bounds are tried, and a byte of the upper
  bound that the test case has already is not written, also when the lower bound has changed it:
  the upper bound is missed although it satisfies the query.
\<close>

theorem upper_bound_missed:
  "let wi = \<lparr>wmin = 0x0003, wmax = 0x1009, wsize = 16\<rparr>; s = demo_search\<lparr>tmp_input := [16, 7]\<rparr> in
     wmax wi \<in> wi_values wi \<and> satisfies stale_problem (with_group [0, 1] (wmax wi) (tmp_input s)) \<and>
     (\<exists>s'. try_interval stale_problem SIMPLE_MATH [0, 1] wi s = Next s')"
proof -
  let ?wi = "\<lparr>wmin = 0x0003, wmax = 0x1009, wsize = 16\<rparr>" and ?s = "demo_search\<lparr>tmp_input := [16, 7]\<rparr>"
  have "wmax ?wi \<in> wi_values ?wi"
    unfolding wi_values_def mem_Collect_eq by code_simp
  moreover have "satisfies stale_problem (with_group [0, 1] (wmax ?wi) (tmp_input ?s))"
    by (simp add: satisfies_def stale_problem_def with_group_def group_writes_def extract_from_long_def)
  moreover have "case try_interval stale_problem SIMPLE_MATH [0, 1] ?wi ?s of Next s' \<Rightarrow> True | _ \<Rightarrow> False"
    by code_simp
  ultimately show ?thesis
    by (simp add: Let_def split: phase_result.splits)
qed

end
