(* ===== verification/Fuzzy_Evaluator.thy ===== *)
theory Fuzzy_Evaluator
  imports Fuzzy_Spec Z3_Eval_Spec
begin

text \<open>
  The search together with the evaluator that the project adds to Z3: what a search reports
  satisfies the query by the meaning of SMT-LIB, on the reported bytes.
\<close>

section \<open>Bytes as input symbols\<close>

definition byte_symbols :: "z3_expr \<Rightarrow> bool" where
  "byte_symbols e = list_all (\<lambda>x. case e_decl x of Symbol j \<Rightarrow> bv_width (e_sort x) \<le> 8 | _ \<Rightarrow> True) (subexprs e)"

text \<open>The value of an expression on byte symbols depends on the low bytes of the input only.\<close>

lemma smt_low_bytes:
  assumes "well_sorted n e" "byte_symbols e" "\<And>j. j < n \<Longrightarrow> env j mod 256 = env' j mod 256"
  shows "smt env e = smt env' e"
  using assms(1,2)
proof (induction e rule: subexprs.induct)
  case (1 i s d es)
  have args: "smt env x = smt env' x" if "x \<in> set es" for x
    using "1.IH" [OF that] "1.prems" that by (auto simp: well_sorted_def byte_symbols_def list_all_iff)
  show ?case
  proof (cases d)
    case (Symbol j)
    have "wt_node n (App i s d es)" "bv_width s \<le> 8"
      using "1.prems" Symbol by (auto simp: well_sorted_def byte_symbols_def)
    then have "nat j < n" "bv_width s \<le> 8"
      using Symbol by (auto simp: wt_node_def)
    then have "env (nat j) mod 256 mod 2 ^ bv_width s = env' (nat j) mod 256 mod 2 ^ bv_width s"
      using assms(3) by simp
    moreover have "(2 :: int) ^ bv_width s dvd 256"
      using le_imp_power_dvd [OF \<open>bv_width s \<le> 8\<close>, of "2 :: int"] by simp
    ultimately show ?thesis
      using Symbol by (simp add: mod_mod_cancel)
  qed (use args in \<open>simp_all cong: map_cong\<close>)
qed

section \<open>The search with the evaluator\<close>

definition z3_input :: "(u64 list \<Rightarrow> z3_expr \<Rightarrow> u64 eval_result) \<Rightarrow> u64 list \<Rightarrow> eval_input" where
  "z3_input ext vals = \<lparr>data = vals, z3_internal_eval = ext vals\<rparr>"

text \<open>A term that the evaluator computes: well-sorted, of at most 64 bits, over bytes, without undefined shifts.\<close>

definition evaluable :: "nat \<Rightarrow> z3_expr \<Rightarrow> bool" where
  "evaluable n e = (well_sorted n e \<and> ids_distinct e \<and> \<not> wide e \<and> byte_symbols e \<and> (\<forall>env. ub_free env e))"

text \<open>
  The evaluators of a problem are the runs of the evaluator on the branch condition and on the
  query, with enough fuel, and all test cases have the same length and no assignments.
\<close>

definition evaluates :: "(u64 list \<Rightarrow> z3_expr \<Rightarrow> u64 eval_result) \<Rightarrow> z3_expr \<Rightarrow> z3_expr \<Rightarrow> problem \<Rightarrow> bool" where
  "evaluates ext c q p = (list_all (\<lambda>t. seed_len t = length (cur p) \<and> length (seed_values t) = length (cur p)) (seeds p) \<and>
     (\<forall>vals. length vals = length (cur p) \<longrightarrow>
       Z3_custom_eval (z3_input ext vals) (2 * nodes c) c = Some (Inr (eval_cond p vals)) \<and>
       Z3_custom_eval_depth (z3_input ext vals) (2 * nodes q) q =
         Some (Inr (fst (eval_query p vals), unat (snd (eval_query p vals))))))"

text \<open>Z3's own evaluation of nodes with wider arguments is right.\<close>

definition z3_right :: "nat \<Rightarrow> (u64 list \<Rightarrow> z3_expr \<Rightarrow> u64 eval_result) \<Rightarrow> bool" where
  "z3_right n ext = (\<forall>vals. length vals = n \<longrightarrow> z3_model (z3_input ext vals) (\<lambda>i. uint (vals ! i)))"

lemma satisfies_smt:
  assumes "evaluates ext c q p" "z3_right (length (cur p)) ext" "evaluable (length (cur p)) c" "evaluable (length (cur p)) q"
    "satisfies p vals" "length vals = length (cur p)"
  shows "smt (\<lambda>i. uint (vals ! i)) c \<noteq> 0 \<and> smt (\<lambda>i. uint (vals ! i)) q \<noteq> 0"
proof -
  let ?inp = "z3_input ext vals" and ?env = "\<lambda>i. uint (vals ! i)"
  have n: "length (data ?inp) = length (cur p)" using assms(6) by (simp add: z3_input_def)
  have model: "z3_model ?inp ?env" using assms(2,6) by (simp add: z3_right_def)
  have ev: "Z3_custom_eval ?inp (2 * nodes c) c = Some (Inr (eval_cond p vals))"
    "Z3_custom_eval_depth ?inp (2 * nodes q) q = Some (Inr (fst (eval_query p vals), unat (snd (eval_query p vals))))"
    using assms(1,6) by (simp_all add: evaluates_def)
  have nz: "eval_cond p vals \<noteq> 0" "fst (eval_query p vals) \<noteq> 0"
    using assms(5) by (auto simp: satisfies_def)
  have "uint (eval_cond p vals) = smt ?env c"
    using custom_eval_value [OF model, of c "2 * nodes c"] assms(3) ev(1) by (auto simp: evaluable_def n)
  moreover have "smt ?env q \<noteq> 0"
  proof (cases "e_decl q = BasicDecl OP_AND")
    case True
    have "Z3_custom_eval_depth ?inp (2 * nodes q) q =
        Some (Inr (word_of_int (smt ?env q), length (takeWhile (\<lambda>x. smt ?env x \<noteq> 0) (e_args q))))"
      using assms(4) True by (intro custom_eval_depth_counts [OF z3_model.data_env [OF model] z3_model.z3_value [OF model]])
        (simp_all add: evaluable_def n)
    with ev(2) nz(2) show ?thesis by auto
  next
    case False
    have "\<exists>v. Z3_custom_eval ?inp (2 * nodes q) q = Some (Inr v) \<and> uint v = smt ?env q"
      using assms(4) by (intro custom_eval_value [OF model]) (simp_all add: evaluable_def n)
    with ev(2) nz(2) False show ?thesis
      by (auto simp: Z3_custom_eval_depth_def uint_0_iff)
  qed
  ultimately show ?thesis
    using nz(1) by (metis uint_0_iff)
qed

section \<open>From the search to the meaning\<close>

text \<open>The reported bytes determine the values of byte terms.\<close>

lemma reported_smt:
  assumes "evaluates ext c q p" "z3_right (length (cur p)) ext" "evaluable (length (cur p)) c" "evaluable (length (cur p)) q"
    "seeds p \<noteq> []" "reported p s"
  shows "smt (\<lambda>i. uint (tmp_proof s ! i)) c \<noteq> 0 \<and> smt (\<lambda>i. uint (tmp_proof s ! i)) q \<noteq> 0"
proof -
  let ?n = "length (cur p)"
  have len: "seed_len t = ?n" "length (seed_values t) = ?n" if "t \<in> set (seeds p)" for t
    using assms(1) that by (auto simp: evaluates_def list_all_iff)
  have rep: "satisfies p vals \<and> take ?n (tmp_proof s) = map ucast vals" if "reports_input p s vals ?n" "length vals = ?n" for vals
    using that by (simp add: reports_input_def)
  have "\<exists>vals. reports_input p s vals ?n \<and> length vals = ?n"
    using assms(6) unfolding reported_def
  proof
    assume "reports_input p s (tmp_input s) (seed_len (hd (seeds p))) \<and> length (tmp_input s) = ?n \<and> proof_size s \<in> Some ` sizes p"
    then show ?thesis using len(1) [of "hd (seeds p)"] assms(5) by auto
  next
    assume "\<exists>t\<in>set (tl (seeds p)). reports_input p s (seed_values t) (seed_len t) \<and> proof_size s = Some (seed_len t)"
    then show ?thesis using len list.set_sel(2) [OF assms(5)] by metis
  qed
  then obtain vals where vals: "satisfies p vals" "length vals = ?n" "take ?n (tmp_proof s) = map ucast vals"
    using rep by blast
  have "uint (tmp_proof s ! i) = uint (vals ! i) mod 256" if "i < ?n" for i
  proof -
    have "tmp_proof s ! i = (ucast (vals ! i) :: u8)"
      using arg_cong [OF vals(3), of "\<lambda>xs. xs ! i"] that vals(2) by simp
    then show ?thesis by (simp add: unsigned_ucast_eq take_bit_eq_mod)
  qed
  then have low: "uint (vals ! i) mod 256 = uint (tmp_proof s ! i) mod 256" if "i < ?n" for i
    using that by simp
  have "smt (\<lambda>i. uint (vals ! i)) e = smt (\<lambda>i. uint (tmp_proof s ! i)) e" if "evaluable ?n e" for e
    using that low by (intro smt_low_bytes) (auto simp: evaluable_def)
  with satisfies_smt [OF assms(1-4) vals(1,2)] assms(3,4) show ?thesis by simp
qed

lemma query_check_light_reported:
  assumes "wf_problem p" "analysis_ok p a" "descent_keeps p (gd_descent a)" "tmp_input s = cur p" "room p s"
    "query_check_light p a s = Stop 1 s'"
  shows "reported p s'"
proof -
  have "restoring.descent_ok p {..<length (cur p)} (gd_descent a)"
    using assms(1,3) unfolding restoring.descent_ok_def descent_keeps_def differs_only_def by (fastforce simp: room_def)
  from restoring.tripleD [OF restoring.triple_query_check_light [OF assms(2) this], of s] assms(1,4-6) show ?thesis
    by (simp add: differs_only_empty result_ok_def TIMEOUT_V_def)
qed

text \<open>The search on two bytes of the example terms, by the evaluator with an exact Z3.\<close>

definition z3_problem :: problem where
  "z3_problem = demo_problem\<lparr>
     eval_cond := \<lambda>v. case Z3_custom_eval (exact_input v) (2 * nodes ex_lt) ex_lt of Some (Inr r) \<Rightarrow> r | _ \<Rightarrow> 0,
     eval_query := \<lambda>v. case Z3_custom_eval_depth (exact_input v) (2 * nodes ex_and) ex_and of
       Some (Inr (r, d)) \<Rightarrow> (r, word_of_nat d) | _ \<Rightarrow> (0, 0)\<rparr>"

lemma exact_input_z3: "z3_input (\<lambda>v. z3_internal_eval (exact_input v)) v = exact_input v"
  by (simp add: z3_input_def exact_input_def)

lemma exact_right: "z3_right n (\<lambda>v. z3_internal_eval (exact_input v))"
  by (simp add: z3_right_def exact_input_z3 exact_z3.z3_model_axioms)

lemma ex_evaluable: "evaluable 2 ex_lt" "evaluable 2 ex_and"
  by (simp_all add: evaluable_def byte_symbols_def ex_defs ids_distinct_def wide_def well_sorted_def wt_node_def wt_bv_def
      wt_basic_def compare_kind_def arith_kind_def ub_free_def c_defined_def eval_nat_numeral)

lemma z3_problem_evaluates: "evaluates (\<lambda>v. z3_internal_eval (exact_input v)) ex_lt ex_and z3_problem"
proof -
  have "Z3_custom_eval (exact_input v) (2 * nodes ex_lt) ex_lt = Some (Inr (eval_cond z3_problem v))"
    "Z3_custom_eval_depth (exact_input v) (2 * nodes ex_and) ex_and =
      Some (Inr (fst (eval_query z3_problem v), unat (snd (eval_query z3_problem v))))"
    if "length v = 2" for v
  proof -
    have n: "length (data (exact_input v)) = 2" using that by (simp add: exact_input_def)
    obtain r where "Z3_custom_eval (exact_input v) (2 * nodes ex_lt) ex_lt = Some (Inr r)"
      using custom_eval_value [OF exact_z3.z3_model_axioms, of v ex_lt] ex_evaluable(1) by (auto simp: evaluable_def n)
    then show "Z3_custom_eval (exact_input v) (2 * nodes ex_lt) ex_lt = Some (Inr (eval_cond z3_problem v))"
      by (simp add: z3_problem_def)
    have "Z3_custom_eval_depth (exact_input v) (2 * nodes ex_and) ex_and = Some (Inr (word_of_int (smt (\<lambda>i. uint (v ! i)) ex_and),
        length (takeWhile (\<lambda>x. smt (\<lambda>i. uint (v ! i)) x \<noteq> 0) (e_args ex_and))))"
      using ex_evaluable(2) ex_and_args(2)
      by (intro custom_eval_depth_counts [OF exact_z3.data_env exact_z3.z3_value]) (simp_all add: evaluable_def n)
    then show "Z3_custom_eval_depth (exact_input v) (2 * nodes ex_and) ex_and =
        Some (Inr (fst (eval_query z3_problem v), unat (snd (eval_query z3_problem v))))"
      by (simp add: z3_problem_def ex_and_args(1))
  qed
  then show ?thesis
    by (simp add: evaluates_def exact_input_z3 z3_problem_def demo_problem_def)
qed

text \<open>
  C2. The search and the evaluator together: when a search reports a satisfying input, the branch
  condition and the query are true by the meaning of SMT-LIB under the bytes that are reported,
  for terms over input bytes on which the evaluator's operators are defined, with room in the
  buffers.
\<close>

theorem reported_bytes_satisfy_query:
  assumes "wf_problem p" "analysis_ok p a" "descent_keeps p (gd_descent a)" "tmp_input s = cur p" "room p s" "seeds p \<noteq> []"
    and "evaluates ext c q p" "z3_right (length (cur p)) ext" "evaluable (length (cur p)) c" "evaluable (length (cur p)) q"
    and "query_check_light p a s = Stop 1 s'"
  shows "smt (\<lambda>i. uint (tmp_proof s' ! i)) c \<noteq> 0 \<and> smt (\<lambda>i. uint (tmp_proof s' ! i)) q \<noteq> 0"
  using reported_smt [OF assms(7-10,6) query_check_light_reported [OF assms(1-5,11)]] .

theorem reported_bytes_satisfy_query_witness:
  "\<exists>s'. query_check_light z3_problem demo_analysis demo_search = Stop 1 s' \<and>
     smt (\<lambda>i. uint (tmp_proof s' ! i)) ex_lt \<noteq> 0 \<and> smt (\<lambda>i. uint (tmp_proof s' ! i)) ex_and \<noteq> 0"
proof -
  have ev: "eval_cond z3_problem [4, 6] = 1" "eval_query z3_problem [4, 6] = (1, 2)"
    by code_simp+
  have "\<exists>s'. query_check_light z3_problem demo_analysis demo_search = Stop 1 s'"
    using ev by (simp add: query_check_light_def check_seed_def evaluate_tmp_def evaluate_branch_query_def
        timer_check_wrapper_def check_or_add_digest_def bump_stat_def found_def keep_optimistic_def vals_long_to_char_def z3_problem_def demo_defs Let_def)
  then obtain s' where run: "query_check_light z3_problem demo_analysis demo_search = Stop 1 s'" by blast
  have "wf_problem z3_problem" "analysis_ok z3_problem demo_analysis" "descent_keeps z3_problem (gd_descent demo_analysis)"
    "tmp_input demo_search = cur z3_problem" "room z3_problem demo_search" "seeds z3_problem \<noteq> []" "length (cur z3_problem) = 2"
    by (simp_all add: wf_problem_def analysis_ok_def descent_keeps_def room_def z3_problem_def demo_defs)
  with reported_bytes_satisfy_query [OF _ _ _ _ _ _ z3_problem_evaluates exact_right _ _ run] ex_evaluable run
  show ?thesis by auto
qed

end
