(* ===== verification/Interval_Table.thy ===== *)
theory Interval_Table
  imports Fuzzy_Phases Hash_Set Dict
begin

text \<open>
  The intervals that the fuzzy solver keeps of groups of input bytes
  (\<^verbatim>\<open>z3-fuzzy-datastructures-gen.h\<close> and \<^verbatim>\<open>z3-fuzzy.c\<close>, all under \<^verbatim>\<open>src/solver/fuzzy-sat/lib\<close>): a hash
  set of pointers to the groups with their intervals, and a table from an input index to the
  pointers to the groups that contain it. A group is the list of its first \<open>n\<close> indexes, as in the
  search. The objects allocated for the groups are the cells of a store and a pointer is the number
  of a cell; \<open>None\<close> is a call of \<^verbatim>\<open>abort\<close> or an invalid access.
\<close>

section \<open>Groups of indexes\<close>

definition MAX_GROUP_SIZE :: nat where "MAX_GROUP_SIZE = 8"

definition index_group_hash :: "nat list \<Rightarrow> u64" where
  "index_group_hash g = (let a = word_of_nat (length g); b = (if a > 0 then word_of_nat (g ! 0) else 0)
     in (a + b) * (a + b + 1) div 2)"

definition index_group_equals :: "nat list \<Rightarrow> nat list \<Rightarrow> bool" where
  "index_group_equals g1 g2 =
     (if length g1 \<noteq> length g2 then False else list_all (\<lambda>i. g1 ! i = g2 ! i) [0..<length g1])"

definition size_normalized :: "nat \<Rightarrow> nat option" where
  "size_normalized n = (if n = 1 then Some 1 else if n = 2 then Some 2
     else if n = 3 \<or> n = 4 then Some 4 else if n \<in> {5, 6, 7, 8} then Some 8 else None)"

section \<open>Tables\<close>

record interval_group_t =
  interval :: wrapped_interval_t
  ig_group :: "nat list"

type_synonym interval_group_ptr = nat

record interval_tables =
  group_cells :: "interval_group_t list"
  group_intervals :: "interval_group_ptr hset"
  index_to_group_intervals :: "interval_group_ptr da dict"

definition interval_group_ptr_hash :: "interval_group_t list \<Rightarrow> interval_group_ptr \<Rightarrow> u64" where
  "interval_group_ptr_hash h p = index_group_hash (ig_group (h ! p))"

definition interval_group_ptr_equals :: "interval_group_t list \<Rightarrow> interval_group_ptr \<Rightarrow> interval_group_ptr \<Rightarrow> bool" where
  "interval_group_ptr_equals h p q = index_group_equals (ig_group (h ! p)) (ig_group (h ! q))"

text \<open>The functions the set calls read the cells as they are at the time of the call.\<close>

definition with_cells :: "interval_group_t list \<Rightarrow> interval_group_ptr hset \<Rightarrow> interval_group_ptr hset" where
  "with_cells h s = s\<lparr>hash := interval_group_ptr_hash h, equals := interval_group_ptr_equals h\<rparr>"

definition SET_N_BUCKETS :: nat where "SET_N_BUCKETS = 1024"
definition DICT_N_BUCKETS :: nat where "DICT_N_BUCKETS = 1024"

definition tables_init :: interval_tables where
  "tables_init = \<lparr>group_cells = [],
     group_intervals = set_init SET_N_BUCKETS (interval_group_ptr_hash []) (interval_group_ptr_equals []),
     index_to_group_intervals = dict_init DICT_N_BUCKETS\<rparr>"

text \<open>
  The search with a group that lives on the stack: for the time of the search it is one more
  cell after the allocated ones.
\<close>

definition find_group :: "interval_tables \<Rightarrow> nat list \<Rightarrow> interval_group_ptr option option" where
  "find_group t g = (let h = group_cells t; igt = \<lparr>interval = \<lparr>wmin = 0, wmax = 0, wsize = 0\<rparr>, ig_group = g\<rparr> in
     set_find_el (with_cells (h @ [igt]) (group_intervals t)) (length h))"

definition interval_group_get_interval :: "interval_tables \<Rightarrow> nat list \<Rightarrow> wrapped_interval_t option option" where
  "interval_group_get_interval t g = map_option (map_option (\<lambda>p. interval (group_cells t ! p))) (find_group t g)"

definition interval_group_set_add_or_modify ::
  "interval_tables \<Rightarrow> comparison \<Rightarrow> int \<Rightarrow> (interval_tables \<times> interval_group_ptr \<times> int) option" where
  "interval_group_set_add_or_modify t c created_new = (let h = group_cells t in
     if cmp_op c = - 1 then None
     else case find_group t (cmp_group c) of None \<Rightarrow> None
     | Some igt_ptr \<Rightarrow> (case comparison_interval c of None \<Rightarrow> None
       | Some wi \<Rightarrow> (case igt_ptr of
           Some p \<Rightarrow> Some (t\<lparr>group_cells := h[p := (h ! p)\<lparr>interval := snd (wi_intersect (interval (h ! p)) wi)\<rparr>]\<rparr>,
             p, created_new)
         | None \<Rightarrow> (case size_normalized (length (cmp_group c)) of None \<Rightarrow> None
           | Some _ \<Rightarrow> let h = h @ [\<lparr>interval = wi, ig_group = cmp_group c\<rparr>]; p = length (group_cells t) in
               map_option (\<lambda>s. (t\<lparr>group_cells := h, group_intervals := s\<rparr>, p, 1))
                 (set_add (with_cells h (group_intervals t)) p)))))"

text \<open>The list found is changed in its place; a new list is entered under the index.\<close>

definition update_or_create_in_index_to_group_intervals ::
  "interval_group_ptr da dict \<Rightarrow> u64 \<Rightarrow> interval_group_ptr \<Rightarrow> interval_group_ptr da dict option" where
  "update_or_create_in_index_to_group_intervals d idx p = (case dict_get_ref d idx of None \<Rightarrow> None
     | Some None \<Rightarrow> (case da_add_item (da_init bucket_init_size) p of None \<Rightarrow> None
         | Some l \<Rightarrow> map_option fst (dict_set_free True d idx l))
     | Some (Some (b, i, el_list)) \<Rightarrow> (case da_add_item el_list p of None \<Rightarrow> None
         | Some l \<Rightarrow> map_option fst (dict_overwrite False d idx l i)))"

fun index_group ::
  "interval_group_ptr da dict \<Rightarrow> nat list \<Rightarrow> interval_group_ptr \<Rightarrow> interval_group_ptr da dict option" where
  "index_group d [] p = Some d"
| "index_group d (i # is) p = (case update_or_create_in_index_to_group_intervals d (word_of_nat i) p of None \<Rightarrow> None
     | Some d \<Rightarrow> index_group d is p)"

text \<open>
  \<^verbatim>\<open>__check_range_constraint\<close>, on what \<^verbatim>\<open>__check_if_range\<close> finds. The local \<^verbatim>\<open>created_new\<close> is only
  written for a new group: \<open>junk\<close> is the value it has otherwise.
\<close>

definition check_range_constraint :: "int \<Rightarrow> comparison option \<Rightarrow> interval_tables \<Rightarrow> (bool \<times> interval_tables) option" where
  "check_range_constraint junk cmp t = (case cmp of None \<Rightarrow> Some (False, t)
     | Some c \<Rightarrow> if const_size c > 64 then Some (False, t)
       else case interval_group_set_add_or_modify t c junk of None \<Rightarrow> None
       | Some (t, p, created_new) \<Rightarrow>
           if created_new \<noteq> 0
           then map_option (\<lambda>d. (True, t\<lparr>index_to_group_intervals := d\<rparr>))
                  (index_group (index_to_group_intervals t) (cmp_group c) p)
           else Some (True, t))"

text \<open>The constraints of a path, one after the other.\<close>

fun check_range_constraints :: "(int \<times> comparison option) list \<Rightarrow> interval_tables \<Rightarrow> interval_tables option" where
  "check_range_constraints [] t = Some t"
| "check_range_constraints ((junk, cmp) # cs) t = (case check_range_constraint junk cmp t of None \<Rightarrow> None
     | Some (_, t) \<Rightarrow> check_range_constraints cs t)"

text \<open>The release of both tables: the objects handed to the destructor of the set.\<close>

definition tables_free :: "interval_tables \<Rightarrow> (interval_tables \<times> interval_group_ptr list) option" where
  "tables_free t = (case set_free True (with_cells (group_cells t) (group_intervals t)) of None \<Rightarrow> None
     | Some (s, freed) \<Rightarrow> map_option (\<lambda>(d, _). (t\<lparr>group_intervals := s, index_to_group_intervals := d\<rparr>, freed))
         (lib_dict_free True (index_to_group_intervals t)))"

text \<open>What the search reads from the tables.\<close>

definition index_intervals :: "interval_tables \<Rightarrow> nat \<Rightarrow> (nat list \<times> wrapped_interval_t) list" where
  "index_intervals t i = (case dict_get_ref (index_to_group_intervals t) (word_of_nat i) of
     Some (Some (_, _, l)) \<Rightarrow> map (\<lambda>p. (ig_group (group_cells t ! p), interval (group_cells t ! p))) (da_list l)
   | _ \<Rightarrow> [])"

definition with_tables :: "interval_tables \<Rightarrow> problem \<Rightarrow> problem" where
  "with_tables t p = p\<lparr>intervals := index_intervals t,
     group_interval := \<lambda>g. Option.bind (interval_group_get_interval t g) id\<rparr>"

end
