(* ===== verification/Interval_Table_Spec.thy ===== *)
theory Interval_Table_Spec
  imports Interval_Table
begin

text \<open>
  What the intervals of groups of input bytes are worth: every interval that a satisfied range
  constraint adds holds the value of its group, so that the tables built from the constraints of a
  path never rule out an input that takes the path, and each constraint is enforced at every index
  of its group. A constraint that subtracts the group from a constant is the exception.
\<close>

section \<open>Widths\<close>

lemma wi_intersect_full_wf:
  assumes i1: "wi_wf i1" "wmin i1 = 0" "wmax i1 = get_size_mask (wsize i1)" and i2: "wsize i2 = wsize i1"
    "is_wrapping i2 \<Longrightarrow> wmax i2 \<le> get_size_mask (wsize i1)"
    "wmin i2 \<le> get_size_mask (wsize i1) \<or> is_wrapping i2 \<and> wmax i2 < get_size_mask (wsize i1)"
  shows "wi_wf (snd (wi_intersect i1 i2))"
proof (cases "is_wrapping i2")
  case True
  then show ?thesis
    using assms by (auto simp: wi_intersect_def wi_wf_def is_wrapping_def wi_contains_element_def)
next
  case False
  then show ?thesis
    using assms by (auto simp: wi_intersect_def wi_wf_def is_wrapping_def max_def min_def)
qed

lemma wi_modify_size_wf:
  assumes wf: "wi_wf src" and n: "0 < n" "n \<le> 64" and v: "v \<in> wi_values src" "uint v < 2 ^ n"
  shows "wi_wf (wi_modify_size src n)" "wsize (wi_modify_size src n) = n"
proof -
  show "wsize (wi_modify_size src n) = n" by (simp add: wi_modify_size_def Let_def)
  let ?m = "get_size_mask n"
  have le: "v \<le> ?m" using v(2) n by (simp add: uint_le_mask)
  have um: "uint ?m = 2 ^ n - 1" using n by (simp add: get_size_mask_eq uint_size_mask)
  note b = wi_wf_bounds [OF wf]
  show "wi_wf (wi_modify_size src n)"
  proof (cases "n < wsize src")
    case False
    then have "(2::int) ^ wsize src \<le> 2 ^ n" by (intro power_increasing) auto
    then have "uint (wmin src) < 2 ^ n" "uint (wmax src) < 2 ^ n" using b by linarith+
    with False n show ?thesis
      by (simp add: wi_modify_size_def Let_def wi_wf_def uint_le_mask)
  next
    case True
    let ?tmp = "\<lparr>wmin = 0, wmax = ?m, wsize = wsize src\<rparr>"
    have N: "(2::int) ^ Suc n \<le> 2 ^ wsize src" using True by (intro power_increasing) auto
    have n_lt: "(2::int) ^ n - 1 < 2 ^ wsize src" 
      by (rule less_trans [OF _ power_strict_increasing [OF True]]) simp_all
    have wft: "wi_wf ?tmp"
      using True n n_lt um wf b by (auto simp: wi_wf_def word_le_def)
    have rt: "uint (wi_get_range ?tmp) = 2 ^ n - 1"
    proof -
      have "uint (wi_get_range ?tmp) = (2 ^ n - 1) mod 2 ^ wsize src"
        using uint_range [OF wft] um by simp
      also have "\<dots> = 2 ^ n - 1" by (rule mod_pos_pos_trivial) (use n_lt in auto)
      finally show ?thesis .
    qed
    have rs: "2 ^ n - 1 < uint (wi_get_range src)"
      if "is_wrapping src" "wmax src \<le> ?m \<and> wmin src \<le> ?m \<or> \<not> wmax src \<le> ?m"
    proof -
      have "uint (wi_get_range src) = uint (wmax src) - uint (wmin src) + 2 ^ wsize src"
        using that(1) uint_range [OF wf] mod_diff_cases [of "uint (wmax src)" "2 ^ wsize src" "uint (wmin src)"] b
        by (auto simp: is_wrapping_def word_less_def)
      moreover have "uint (wmax src) \<le> 2 ^ n - 1 \<and> uint (wmin src) \<le> 2 ^ n - 1 \<or> 2 ^ n - 1 < uint (wmax src)"
        using that(2) um by (auto simp: word_le_def)
      ultimately show ?thesis
        using N b(1) uint_nonnegative [of "wmax src"] unfolding power_Suc by linarith
    qed
    have "wmin (snd (wi_intersect src ?tmp)) \<le> ?m \<and> wmax (snd (wi_intersect src ?tmp)) \<le> ?m"
    proof (cases "is_wrapping src")
      case False
      then show ?thesis
        using v le by (auto simp: wi_intersect_def wi_check_intersect_def is_wrapping_def wi_values_def wi_contains_element_def
            max_def min_def)
    next
      case wr: True
      have "wi_check_intersect src ?tmp"
        using wr by (simp add: wi_check_intersect_def is_wrapping_def)
      with wr rs rt show ?thesis
        by (auto simp: wi_intersect_def is_wrapping_def wi_contains_element_def word_less_def)
    qed
    with True n show ?thesis
      by (simp add: wi_modify_size_def Let_def wi_wf_def)
  qed
qed

lemma wi_update_cmp_full_wf:
  assumes n: "2 \<le> n" "n \<le> 64" and i: "wi_init n = Some i" and op: "0 \<le> op" "op \<le> 8"
    and sol: "uint y < 2 ^ n" "cmp_holds n op (c AND get_size_mask n) y" and r: "wi_update_cmp i c op = Some (ret, r)"
  shows "wi_wf r \<and> wsize r = n"
proof -
  let ?c = "c AND get_size_mask n"
  have src: "wi_wf i" "wsize i = n" "wmin i = 0" "wmax i = get_size_mask n"
    using wi_init_ok [of n] n i by auto
  have um: "uint (get_size_mask n) = 2 ^ n - 1" using n by (simp add: get_size_mask_eq uint_size_mask)
  have c: "uint ?c < 2 ^ n" using n by (simp add: get_size_mask_eq uint_and_size_mask)
  then have cm: "?c \<le> get_size_mask n" using n by (simp add: uint_le_mask)
  show ?thesis
  proof (cases "op = OP_EQ")
    case True
    then show ?thesis
      using r src n cm by (auto simp: wi_update_cmp_def Let_def wi_wf_def split: if_splits)
  next
    case False
    then have op: "0 \<le> op" "op < 8" using op by auto
    let ?i2 = "cmp_interval i ?c op"
    have r: "r = snd (wi_intersect i ?i2)"
      using r wi_update_cmp_interval [OF op, of i c] src(2) by simp
    have sz: "wsize ?i2 = wsize i" by (simp add: cmp_interval_def)
    have wr: "wmax ?i2 \<le> get_size_mask (wsize i)" if "is_wrapping ?i2"
      using cmp_interval_top [OF that, of n] cm src(2,4) by simp
    have H: "(2::int) ^ (n - 1) < 2 ^ n" by (rule power_strict_increasing) (use n in auto)
    have H1: "(1::int) < 2 ^ (n - 1)" by (rule one_less_power) (use n in auto)
    have N: "(2 :: int) ^ n = 2 * 2 ^ (n - 1)" using n by (simp flip: power_Suc)
    note ends = uint_signed_ends [OF n]
    have low: "wmin ?i2 \<le> get_size_mask n \<or> is_wrapping ?i2 \<and> wmax ?i2 < get_size_mask n"
    proof (cases "op = OP_UGT \<or> op = OP_SGT")
      case False
      then show ?thesis
        using cm src(3) um ends H by (auto simp: cmp_interval_def src(2) word_le_def)
    next
      case strict: True
      show ?thesis
      proof (cases "uint ?c < 2 ^ n - 1")
        case True
        then have "?c + 1 \<le> get_size_mask n" using um uint_succ [of ?c] by (auto simp: word_le_def)
        with strict show ?thesis by (auto simp: cmp_interval_def)
      next
        case False
        then have c1: "uint ?c = 2 ^ n - 1" using c by linarith
        then have "op = OP_SGT" using strict sol by (auto simp: cmp_holds_def)
        moreover have "uint (?c + 1) = (if n = 64 then 0 else 2 ^ n)"
          using c1 uint_succ [of ?c] n power_inject_exp [of "2::int" n 64] by (auto simp: field_simps)
        ultimately show ?thesis
          using src um ends H N H1 by (auto simp: cmp_interval_def is_wrapping_def word_less_def word_le_def uint_max_min)
      qed
    qed
    have "wsize r = n" using r src(2) by (auto simp: wi_intersect_def)
    moreover have "wi_wf r"
      unfolding r by (rule wi_intersect_full_wf [OF src(1,3) _ sz wr]) (use src low in auto)
    ultimately show ?thesis by simp
  qed
qed

section \<open>The interval of a comparison\<close>

text \<open>What is compared with the constant, and when the comparison holds of a value of the group.\<close>

definition operand :: "comparison \<Rightarrow> u64 \<Rightarrow> u64" where
  "operand c x =
    (if add_constant c > 0 then (x + add_constant c) AND get_size_mask (add_sub_const_size c)
     else if sub_constant c > 0
     then (if should_invert c then sub_constant c - x else x - sub_constant c) AND get_size_mask (add_sub_const_size c)
     else x)"

definition comparison_sat :: "comparison \<Rightarrow> u64 \<Rightarrow> bool" where
  "comparison_sat c x \<longleftrightarrow>
     cmp_holds (const_size c) (cmp_op c) (cmp_const c AND get_size_mask (const_size c)) (operand c x)"

definition operand_size :: "comparison \<Rightarrow> nat" where
  "operand_size c = (if add_constant c > 0 \<or> sub_constant c > 0 then add_sub_const_size c else const_size c)"

definition comparison_wf :: "comparison \<Rightarrow> bool" where
  "comparison_wf c \<longleftrightarrow> 0 \<le> cmp_op c \<and> cmp_op c \<le> 8 \<and> const_size c \<le> 64 \<and> operand_size c \<le> const_size c \<and>
     1 \<le> length (cmp_group c) \<and> 8 * length (cmp_group c) \<le> operand_size c \<and>
     (add_constant c = 0 \<or> sub_constant c = 0)"

lemma uint_less_power_mono: "m \<le> n \<Longrightarrow> uint x < 2 ^ m \<Longrightarrow> uint x < 2 ^ n"
  by (erule less_le_trans) (rule power_increasing, simp_all)

lemma unshift_mask:
  assumes "0 < n" "n \<le> 64" "uint (x :: u64) < 2 ^ n"
  shows "((((x + k) AND get_size_mask n) - k) AND get_size_mask n) = x"
    "((((x - k) AND get_size_mask n) + k) AND get_size_mask n) = x"
  using assms by (intro word_uint_eqI; simp add: uint_add_mask mod_simps)+

text \<open>A shift of the interval by the inverse of the operand's shift holds the group's value.\<close>

lemma shifted_interval:
  assumes wf: "wi_wf wi" and a: "0 < a" "a \<le> 64" and y: "(x + k) AND get_size_mask a \<in> wi_values wi" and x: "uint x < 2 ^ a"
  defines "wi' \<equiv> wi_update_sub (wi_modify_size wi a) k"
  shows "wi_wf wi' \<and> wsize wi' = a \<and> x \<in> wi_values wi'"
proof -
  let ?y = "(x + k) AND get_size_mask a"
  have ya: "uint ?y < 2 ^ a" using a by (simp add: uint_add_mask)
  note ms = wi_modify_size_wf [OF wf a y ya] and mem = wi_modify_size_keeps [OF wf a y ya]
  have "x = (?y + - k) AND get_size_mask (wsize (wi_modify_size wi a))"
    using unshift_mask(1) [OF a x, of k] ms(2) by simp
  then have "x \<in> wi_values wi'"
    using mem unfolding wi'_def wi_update_sub_add wi_values_add [OF ms(1)] by blast
  then show ?thesis
    using wi_update_add_wf [OF ms(1)] ms(2) by (simp add: wi'_def wi_update_sub_add) (simp add: wi_update_add_def)
qed

lemma comparison_interval_sound:
  assumes c: "comparison_wf c" "\<not> should_invert c" and x: "uint x < 2 ^ (8 * length (cmp_group c))" "comparison_sat c x"
  shows "\<exists>wi. comparison_interval c = Some wi \<and> wi_wf wi \<and> wsize wi = length (cmp_group c) * 8 \<and> x \<in> wi_values wi"
proof -
  let ?n = "const_size c" and ?a = "add_sub_const_size c" and ?g = "length (cmp_group c) * 8" and ?y = "operand c x"
  have n: "2 \<le> ?n" "?n \<le> 64" "operand_size c \<le> ?n" "0 < ?g" "?g \<le> operand_size c" and op: "0 \<le> cmp_op c" "cmp_op c \<le> 8"
    using c by (auto simp: comparison_wf_def)
  have xo: "uint x < 2 ^ operand_size c" by (rule uint_less_power_mono [OF _ x(1)]) (use n(5) in simp)
  have oo: "0 < operand_size c" "operand_size c \<le> 64" using n(2-5) by linarith+
  have "uint ?y < 2 ^ operand_size c"
    using xo oo by (auto simp: operand_def operand_size_def uint_add_mask)
  then have y: "uint ?y < 2 ^ ?n" by (rule uint_less_power_mono [OF n(3)])
  obtain i where i: "wi_init ?n = Some i" using wi_init_ok [of ?n] n by auto
  note sat = x(2) [unfolded comparison_sat_def]
  obtain w where w: "wi_update_cmp i (cmp_const c) (cmp_op c) = Some (True, w)" "?y \<in> wi_values w"
    using wi_update_cmp_full [OF n(1,2) i op y sat] y sat by auto
  note ww = wi_update_cmp_full_wf [OF n(1,2) i op y sat w(1)]
  obtain w' where w': "comparison_interval c = Some (wi_modify_size w' ?g)" "wi_wf w'" "x \<in> wi_values w'"
  proof -
    consider (add) "add_constant c > 0" "sub_constant c = 0" | (sub) "add_constant c = 0" "sub_constant c > 0"
      | (plain) "add_constant c = 0" "sub_constant c = 0"
      using c(1) by (auto simp: comparison_wf_def word_gt_0)
    then show ?thesis
    proof cases
      case add
      then have "(x + add_constant c) AND get_size_mask ?a \<in> wi_values w" "operand_size c = ?a"
        using w(2) by (simp_all add: operand_def operand_size_def)
      with shifted_interval [of w ?a x] ww oo xo add w(1) i show ?thesis
        by (intro that [of "wi_update_sub (wi_modify_size w ?a) (add_constant c)"]) (auto simp: comparison_interval_def)
    next
      case sub
      then have "(x + - sub_constant c) AND get_size_mask ?a \<in> wi_values w" "operand_size c = ?a"
        using w(2) c(2) by (simp_all add: operand_def operand_size_def)
      with shifted_interval [of w ?a x "- sub_constant c"] ww oo xo sub w(1) i c(2) show ?thesis
        by (intro that [of "wi_update_add (wi_modify_size w ?a) (sub_constant c)"])
          (auto simp: comparison_interval_def Let_def wi_update_sub_add)
    next
      case plain
      with w ww i show ?thesis
        by (intro that [of w]) (auto simp: comparison_interval_def operand_def)
    qed
  qed
  have g: "0 < ?g" "?g \<le> 64" "uint x < 2 ^ ?g" using n(4,5) oo x(1) by (simp_all only: mult.commute)
  show ?thesis
    using w'(1) wi_modify_size_wf [OF w'(2) g(1,2) w'(3) g(3)] wi_modify_size_keeps [OF w'(2) g(1,2) w'(3) g(3)] by simp
qed






section \<open>The invariant of the tables\<close>

lemma index_group_equals_eq [simp]: "index_group_equals g1 g2 \<longleftrightarrow> g1 = g2"
  by (auto simp: index_group_equals_def list_all_iff intro: nth_equalityI)

lemma ptr_hash_respects: "hash_respects (interval_group_ptr_hash h) (interval_group_ptr_equals h)"
  by (auto simp: hash_respects_def interval_group_ptr_hash_def interval_group_ptr_equals_def
      intro!: equivpI reflpI sympI transpI)

lemma with_cells_simps [simp]:
  "buckets (with_cells h s) = buckets s" "set_elems (with_cells h s) = set_elems s"
  "hash (with_cells h s) = interval_group_ptr_hash h" "equals (with_cells h s) = interval_group_ptr_equals h"
  "with_cells h (with_cells h' s) = with_cells h s"
  by (simp_all add: with_cells_def set_elems_def used_buckets_def)

lemma with_cells_wf:
  assumes wf: "set_wf (with_cells h s)" and same: "\<And>p. p \<in> set (set_elems s) \<Longrightarrow> ig_group (h' ! p) = ig_group (h ! p)"
  shows "set_wf (with_cells h' s)"
proof -
  have bt: "bt_wf (with_cells h s)" using wf by (simp add: set_wf_def)
  have mem: "p \<in> set (set_elems s)" if "b < length (buckets s)" "p \<in> set (da_list (buckets s ! b))" for p b
    using that set_elems_buckets [OF bt] by auto
  have ok: "elems_ok (with_cells h' s) b xs = elems_ok (with_cells h s) b xs"
    if "\<And>p. p \<in> set xs \<Longrightarrow> ig_group (h' ! p) = ig_group (h ! p)" for b xs
  proof -
    have "set_bucket_id (with_cells h' s) p = set_bucket_id (with_cells h s) p" if "p \<in> set xs" for p
      using \<open>\<And>p. p \<in> set xs \<Longrightarrow> _\<close> [OF that] by (simp add: set_bucket_id_def interval_group_ptr_hash_def)
    then show ?thesis
      using that by (auto simp: elems_ok_def interval_group_ptr_equals_def)
  qed
  have "bt_wf (with_cells h' s)" "bt_count (with_cells h' s) = bt_count (with_cells h s)"
      "set_size (with_cells h' s) = set_size (with_cells h s)" "iterators (with_cells h' s) = iterators (with_cells h s)"
    using bt by (simp_all add: bt_wf_def bt_count_def with_cells_def used_buckets_def)
  with wf show ?thesis
    using ok same mem ptr_hash_respects by (simp add: set_wf_def)
qed

definition lists_ok :: "nat \<Rightarrow> 'a da dict \<Rightarrow> bool" where
  "lists_ok n d \<longleftrightarrow> dict_wf d \<and> (\<forall>k l. dict_map d k = Some l \<longrightarrow> da_wf n l \<and> da_live l)"

definition list_at :: "'a da dict \<Rightarrow> u64 \<Rightarrow> 'a list" where
  "list_at d k = (case dict_map d k of None \<Rightarrow> [] | Some l \<Rightarrow> da_list l)"

text \<open>The lists under the indexes hold exactly the pointers to the groups with the index.\<close>

definition index_ok :: "interval_tables \<Rightarrow> bool" where
  "index_ok t \<longleftrightarrow> (\<forall>k. set (list_at (index_to_group_intervals t) k) =
     {p. p < length (group_cells t) \<and> k \<in> word_of_nat ` set (ig_group (group_cells t ! p))})"

definition tables_wf :: "interval_tables \<Rightarrow> bool" where
  "tables_wf t \<longleftrightarrow> set_wf (with_cells (group_cells t) (group_intervals t)) \<and>
     set (set_elems (group_intervals t)) = {..<length (group_cells t)} \<and>
     lists_ok bucket_init_size (index_to_group_intervals t) \<and> index_ok t"

lemma tables_wf_init: "tables_wf tables_init"
proof -
  have "with_cells [] (set_init SET_N_BUCKETS (interval_group_ptr_hash []) (interval_group_ptr_equals [])) =
      set_init SET_N_BUCKETS (interval_group_ptr_hash []) (interval_group_ptr_equals [])"
    by (simp add: with_cells_def set_init_def)
  then show ?thesis
    using set_init_ok [OF _ ptr_hash_respects, of SET_N_BUCKETS "[]"]
    by (simp add: tables_wf_def tables_init_def lists_ok_def index_ok_def list_at_def SET_N_BUCKETS_def DICT_N_BUCKETS_def)
qed

lemma find_group_ok:
  assumes "tables_wf t"
  shows "(\<exists>p < length (group_cells t). find_group t g = Some (Some p) \<and> ig_group (group_cells t ! p) = g) \<or>
    find_group t g = Some None \<and> (\<forall>p < length (group_cells t). ig_group (group_cells t ! p) \<noteq> g)"
proof -
  let ?h = "group_cells t" let ?igt = "\<lparr>interval = \<lparr>wmin = 0, wmax = 0, wsize = 0\<rparr>, ig_group = g\<rparr>"
  let ?s = "with_cells (?h @ [?igt]) (group_intervals t)"
  have el: "set (set_elems (group_intervals t)) = {..<length ?h}" using assms by (simp add: tables_wf_def)
  have wf: "set_wf ?s"
    by (rule with_cells_wf [of ?h]) (use assms el in \<open>auto simp: tables_wf_def nth_append\<close>)
  have mem: "set_mem ?s (length ?h) \<longleftrightarrow> (\<exists>p < length ?h. ig_group (?h ! p) = g)"
    using el by (auto simp: set_mem_def interval_group_ptr_equals_def nth_append)
  show ?thesis
    using set_find_el_mem [OF wf, of "length ?h"] mem el
    by (auto simp: find_group_def Let_def interval_group_ptr_equals_def nth_append split: if_splits)
qed

lemma add_group_ok:
  assumes wf: "tables_wf t" and new: "\<forall>p < length (group_cells t). ig_group (group_cells t ! p) \<noteq> ig_group e"
  defines "h \<equiv> group_cells t @ [e]"
  shows "\<exists>s. set_add (with_cells h (group_intervals t)) (length (group_cells t)) = Some s \<and>
     set_wf (with_cells h s) \<and> set (set_elems s) = {..<length h}"
proof -
  let ?n = "length (group_cells t)"
  have el: "set (set_elems (group_intervals t)) = {..<?n}" using wf by (simp add: tables_wf_def)
  have swf: "set_wf (with_cells h (group_intervals t))"
    by (rule with_cells_wf [of "group_cells t"]) (use wf el in \<open>auto simp: tables_wf_def h_def nth_append\<close>)
  have mem: "\<not> set_mem (with_cells h (group_intervals t)) ?n"
    using el new by (auto simp: set_mem_def interval_group_ptr_equals_def h_def nth_append)
  obtain s where s: "set_add (with_cells h (group_intervals t)) ?n = Some s" "set_wf s"
      "hash s = interval_group_ptr_hash h" "equals s = interval_group_ptr_equals h"
      "set (set_elems s) = insert ?n {..<?n}"
    using set_add_ok [OF swf, of ?n] mem el by auto
  have "with_cells h s = s" using s(3,4) by (simp add: with_cells_def)
  with s show ?thesis by (auto simp: h_def lessThan_Suc)
qed

section \<open>The lists of pointers\<close>

lemma dict_get_ref_ok:
  assumes "dict_wf d"
  shows "dict_get_ref d k = Some None \<and> dict_map d k = None \<or>
    (\<exists>j v. dict_get_ref d k = Some (Some (bucket_id d k, j, v)) \<and> dict_map d k = Some v \<and>
       j < length (da_list (buckets d ! bucket_id d k)) \<and> key (da_list (buckets d ! bucket_id d k) ! j) = k)"
  using dict_find_ok [OF dict_wf_bucket(1,2) [OF assms, of k], of k] dict_wf_bucket(1) [OF assms, of k]
  by (auto simp: dict_get_ref_def dict_map_def entries_def da_list_def Let_def da_get_item_list)

lemma update_or_create_ok:
  assumes ok: "lists_ok bucket_init_size d"
  shows "\<exists>d'. update_or_create_in_index_to_group_intervals d k p = Some d' \<and> lists_ok bucket_init_size d' \<and>
     list_at d' = (list_at d)(k := list_at d k @ [p])"
proof -
  have wf: "dict_wf d" and ls: "\<And>k l. dict_map d k = Some l \<Longrightarrow> da_wf bucket_init_size l \<and> da_live l"
    using ok by (auto simp: lists_ok_def)
  have fin: "lists_ok bucket_init_size d' \<and> list_at d' = (list_at d)(k := list_at d k @ [p])"
    if "dict_wf d'" "dict_map d' = (dict_map d)(k \<mapsto> l)" "da_wf bucket_init_size l" "da_live l" "da_list l = list_at d k @ [p]" for d' l
    using that ls by (auto simp: lists_ok_def list_at_def fun_eq_iff)
  from dict_get_ref_ok [OF wf, of k] show ?thesis
  proof (elim disjE exE conjE)
    assume g: "dict_get_ref d k = Some None" "dict_map d k = None"
    obtain l where l: "da_add_item (da_init bucket_init_size) p = Some l" "da_wf bucket_init_size l" "da_live l" "da_list l = [p]"
      using da_add_item_ok [of bucket_init_size "da_init bucket_init_size" p] by auto
    obtain d' fs where d': "dict_set_free True d k l = Some (d', fs)" "dict_wf d'" "dict_map d' = (dict_map d)(k \<mapsto> l)"
      using dict_set_free_ok [OF wf, of True k l] by auto
    show ?thesis
      using g l d' fin [OF d'(2,3) l(2,3)]
      by (simp add: update_or_create_in_index_to_group_intervals_def list_at_def)
  next
    fix j v assume g: "dict_get_ref d k = Some (Some (bucket_id d k, j, v))" "dict_map d k = Some v"
      "j < length (da_list (buckets d ! bucket_id d k))" "key (da_list (buckets d ! bucket_id d k) ! j) = k"
    obtain l where l: "da_add_item v p = Some l" "da_wf bucket_init_size l" "da_live l" "da_list l = da_list v @ [p]"
      using da_add_item_ok [of bucket_init_size v p] ls [OF g(2)] by auto
    obtain d' fs where d': "dict_overwrite False d k l j = Some (d', fs)" "dict_wf d'" "dict_map d' = (dict_map d)(k \<mapsto> l)"
      using dict_overwrite_ok [OF wf g(3,4), of False l] by auto
    show ?thesis
      using g l d' fin [OF d'(2,3) l(2,3)]
      by (simp add: update_or_create_in_index_to_group_intervals_def list_at_def)
  qed
qed

lemma index_group_ok:
  assumes "lists_ok bucket_init_size d"
  shows "\<exists>d'. index_group d g p = Some d' \<and> lists_ok bucket_init_size d' \<and>
     (\<forall>k. list_at d' k = list_at d k @ replicate (count_list (map word_of_nat g) k) p)"
  using assms
proof (induction g arbitrary: d)
  case (Cons i g)
  obtain d1 where d1: "update_or_create_in_index_to_group_intervals d (word_of_nat i) p = Some d1"
      "lists_ok bucket_init_size d1" "list_at d1 = (list_at d)(word_of_nat i := list_at d (word_of_nat i) @ [p])"
    using update_or_create_ok [OF Cons.prems] by blast
  with Cons.IH [OF d1(2)] show ?case by fastforce
qed simp

lemma count_list_word_iff: "0 < count_list (map word_of_nat g) k \<longleftrightarrow> k \<in> word_of_nat ` set g"
  using count_list_0_iff [of "map word_of_nat g" k] by auto

section \<open>Inputs that satisfy the constraints\<close>

lemma group_value_bound:
  assumes "list_all (\<lambda>v. v < 256) values" "index_group_to_value g values = Some v"
  shows "uint v < 2 ^ (8 * length g)"
proof -
  let ?f = "\<lambda>k res. res OR push_bit (8 * k) (values ! (g ! (length g - k - 1)))"
  have g: "\<forall>i \<in> set g. i < length values" and v: "v = fold ?f [0..<length g] 0"
    using assms(2) by (auto simp: index_group_to_value_def list_all_iff split: if_splits)
  have byte: "\<not> bit (values ! i) k" if "i < length values" "8 \<le> k" for i k
  proof -
    have "values ! i < 256" using assms(1) that(1) by (simp add: list_all_length)
    then have "take_bit 8 (values ! i) = values ! i"
      by (simp add: word_unat_eq_iff word_less_nat_alt unsigned_take_bit_eq take_bit_nat_eq_self)
    then show ?thesis using that(2) by (metis bit_take_bit_iff not_le)
  qed
  have "\<forall>k \<ge> 8 * n. \<not> bit (fold ?f [0..<n] 0) k" if "n \<le> length g" for n
    using that
  proof (induction n)
    case (Suc n)
    then have "g ! (length g - n - 1) < length values" using g by simp
    with Suc byte show ?case by (auto simp: bit_or_iff bit_push_bit_iff)
  qed simp
  then have "take_bit (8 * length g) v = v"
    by (intro bit_eqI) (auto simp: bit_take_bit_iff v not_le[symmetric])
  then show ?thesis
    by (metis uint_take_bit_u64 pos_mod_bound zero_less_power zero_less_numeral)
qed

definition cell_holds :: "u64 list \<Rightarrow> interval_group_t \<Rightarrow> bool" where
  "cell_holds values e \<longleftrightarrow> wi_wf (interval e) \<and> wsize (interval e) = length (ig_group e) * 8 \<and>
     (\<exists>v. index_group_to_value (ig_group e) values = Some v \<and> v \<in> wi_values (interval e))"

definition satisfied :: "u64 list \<Rightarrow> comparison \<Rightarrow> bool" where
  "satisfied values c \<longleftrightarrow> comparison_wf c \<and> \<not> should_invert c \<and>
     (\<exists>v. index_group_to_value (cmp_group c) values = Some v \<and> comparison_sat c v)"

lemma satisfied_interval:
  assumes "list_all (\<lambda>v. v < 256) values" "satisfied values c"
  shows "\<exists>wi. comparison_interval c = Some wi \<and> cell_holds values \<lparr>interval = wi, ig_group = cmp_group c\<rparr>"
  using assms comparison_interval_sound group_value_bound by (fastforce simp: satisfied_def cell_holds_def)

lemma cell_holds_intersect:
  assumes "cell_holds values e" "cell_holds values \<lparr>interval = wi, ig_group = ig_group e\<rparr>"
  shows "cell_holds values (e\<lparr>interval := snd (wi_intersect (interval e) wi)\<rparr>)"
  using assms wi_intersect_wf [of "interval e" wi] wi_intersect_keeps(2) [of "interval e" wi]
  by (auto simp: cell_holds_def)

lemma size_normalized_defined: "1 \<le> n \<Longrightarrow> n \<le> 8 \<Longrightarrow> \<exists>m. size_normalized n = Some m"
proof -
  assume "1 \<le> n" "n \<le> 8"
  then have "n \<in> {1, 2, 3, 4, 5, 6, 7, 8}" by auto
  then show ?thesis by (auto simp: size_normalized_def)
qed

lemma satisfied_sizes:
  assumes "satisfied values c"
  shows "const_size c \<le> 64" "cmp_op c \<noteq> - 1" "\<exists>m. size_normalized (length (cmp_group c)) = Some m"
proof -
  have "1 \<le> length (cmp_group c)" "8 * length (cmp_group c) \<le> 64"
    using assms by (auto simp: satisfied_def comparison_wf_def)
  then show "\<exists>m. size_normalized (length (cmp_group c)) = Some m" by (intro size_normalized_defined) auto
qed (use assms in \<open>auto simp: satisfied_def comparison_wf_def\<close>)

lemma index_group_set:
  assumes "lists_ok bucket_init_size d"
  shows "\<exists>d'. index_group d g p = Some d' \<and> lists_ok bucket_init_size d' \<and>
     (\<forall>k. set (list_at d' k) = set (list_at d k) \<union> (if k \<in> word_of_nat ` set g then {p} else {}))"
proof -
  obtain d' where d': "index_group d g p = Some d'" "lists_ok bucket_init_size d'"
      "\<And>k. list_at d' k = list_at d k @ replicate (count_list (map word_of_nat g) k) p"
    using index_group_ok [OF assms] by blast
  have "set (list_at d' k) = set (list_at d k) \<union> (if k \<in> word_of_nat ` set g then {p} else {})" for k
    using d'(3) [of k] count_list_word_iff [of g k] by (auto simp: set_replicate_conv_if)
  with d'(1,2) show ?thesis by blast
qed

definition tables_hold :: "u64 list \<Rightarrow> interval_tables \<Rightarrow> bool" where
  "tables_hold values t \<longleftrightarrow> tables_wf t \<and> list_all (cell_holds values) (group_cells t)"

text \<open>One more interval: the cell it is in, with the tables well-formed but for the lists of a new group.\<close>

lemma add_or_modify_ok:
  assumes t: "tables_hold values t" and vs: "list_all (\<lambda>v. v < 256) values" and c: "satisfied values c"
  shows "\<exists>t' p n. interval_group_set_add_or_modify t c junk = Some (t', p, n) \<and> p < length (group_cells t') \<and>
     ig_group (group_cells t' ! p) = cmp_group c \<and> list_all (cell_holds values) (group_cells t') \<and>
     set_wf (with_cells (group_cells t') (group_intervals t')) \<and>
     set (set_elems (group_intervals t')) = {..<length (group_cells t')} \<and>
     index_to_group_intervals t' = index_to_group_intervals t \<and>
     (map ig_group (group_cells t') = map ig_group (group_cells t) \<and> n = junk \<or>
      map ig_group (group_cells t') = map ig_group (group_cells t) @ [cmp_group c] \<and> p = length (group_cells t) \<and> n = 1)"
proof -
  let ?h = "group_cells t"
  have wf: "tables_wf t" and ch: "list_all (cell_holds values) ?h" using t by (simp_all add: tables_hold_def)
  have swf: "set_wf (with_cells ?h (group_intervals t))" and el: "set (set_elems (group_intervals t)) = {..<length ?h}"
    using wf by (simp_all add: tables_wf_def)
  obtain wi where wi: "comparison_interval c = Some wi" "cell_holds values \<lparr>interval = wi, ig_group = cmp_group c\<rparr>"
    using satisfied_interval [OF vs c] by blast
  note szs = satisfied_sizes [OF c]
  from find_group_ok [OF wf, of "cmp_group c"] show ?thesis
  proof (elim disjE exE conjE)
    fix p assume p: "p < length ?h" "find_group t (cmp_group c) = Some (Some p)" "ig_group (?h ! p) = cmp_group c"
    let ?e = "(?h ! p)\<lparr>interval := snd (wi_intersect (interval (?h ! p)) wi)\<rparr>"
    have "cell_holds values ?e"
      by (rule cell_holds_intersect) (use ch wi(2) p in \<open>simp_all add: list_all_length\<close>)
    then have "list_all (cell_holds values) (?h[p := ?e])"
      using ch set_update_subset_insert [of ?h p ?e] by (fastforce simp: list_all_iff)
    moreover have "set_wf (with_cells (?h[p := ?e]) (group_intervals t))"
      by (rule with_cells_wf [OF swf]) (use p(1) in \<open>simp add: nth_list_update\<close>)
    moreover have "map ig_group (?h[p := ?e]) = map ig_group ?h"
      using p(1) by (simp add: map_update list_update_same_conv)
    ultimately show ?thesis
      using p wi(1) szs el by (simp add: interval_group_set_add_or_modify_def Let_def)
  next
    assume n: "find_group t (cmp_group c) = Some None" "\<forall>p < length ?h. ig_group (?h ! p) \<noteq> cmp_group c"
    let ?e = "\<lparr>interval = wi, ig_group = cmp_group c\<rparr>"
    obtain s where s: "set_add (with_cells (?h @ [?e]) (group_intervals t)) (length ?h) = Some s"
        "set_wf (with_cells (?h @ [?e]) s)" "set (set_elems s) = {..<length (?h @ [?e])}"
      using add_group_ok [OF wf, of ?e] n(2) by auto
    then show ?thesis
      using n wi ch szs by (auto simp: interval_group_set_add_or_modify_def Let_def)
  qed
qed

lemma pointers_after:
  assumes p: "p < length h'" "ig_group (h' ! p) = g"
    and n: "map ig_group h' = map ig_group h \<or> map ig_group h' = map ig_group h @ [g] \<and> p = length h"
  shows "{q. q < length h \<and> k \<in> word_of_nat ` set (ig_group (h ! q))} \<union> (if k \<in> word_of_nat ` set g then {p} else {}) =
    {q. q < length h' \<and> (k :: u64) \<in> word_of_nat ` set (ig_group (h' ! q))}"
  using n
proof (elim disjE conjE)
  assume eq: "map ig_group h' = map ig_group h"
  then have "length h' = length h" by (rule map_eq_imp_length_eq)
  moreover have "ig_group (h' ! q) = ig_group (h ! q)" if "q < length h" for q
    using arg_cong [OF eq, of "\<lambda>xs. xs ! q"] that calculation by simp
  ultimately show ?thesis using p by auto
next
  assume eq: "map ig_group h' = map ig_group h @ [g]" and pn: "p = length h"
  from arg_cong [OF eq, of length] have len: "length h' = Suc (length h)" by simp
  have "ig_group (h' ! q) = ig_group (h ! q)" if "q < length h" for q
    using arg_cong [OF eq, of "\<lambda>xs. xs ! q"] that len by (simp add: nth_append)
  with len pn show ?thesis using p(2) by (auto simp: less_Suc_eq)
qed

lemma check_range_constraint_ok:
  assumes t: "tables_hold values t" and vs: "list_all (\<lambda>v. v < 256) values" and c: "satisfied values c"
  shows "\<exists>t'. check_range_constraint junk (Some c) t = Some (True, t') \<and> tables_hold values t' \<and>
     cmp_group c \<in> ig_group ` set (group_cells t') \<and> ig_group ` set (group_cells t) \<subseteq> ig_group ` set (group_cells t')"
proof -
  obtain t' p n where m: "interval_group_set_add_or_modify t c junk = Some (t', p, n)" "p < length (group_cells t')"
      "ig_group (group_cells t' ! p) = cmp_group c" "list_all (cell_holds values) (group_cells t')"
      "set_wf (with_cells (group_cells t') (group_intervals t'))" "set (set_elems (group_intervals t')) = {..<length (group_cells t')}"
      "index_to_group_intervals t' = index_to_group_intervals t"
      and n: "map ig_group (group_cells t') = map ig_group (group_cells t) \<and> n = junk \<or>
        map ig_group (group_cells t') = map ig_group (group_cells t) @ [cmp_group c] \<and> p = length (group_cells t) \<and> n = 1"
    using add_or_modify_ok [OF assms] by blast
  have lo: "lists_ok bucket_init_size (index_to_group_intervals t')" and ix: "index_ok t"
    using t m(7) by (simp_all add: tables_hold_def tables_wf_def)
  have groups: "ig_group ` set (group_cells t) \<subseteq> ig_group ` set (group_cells t')"
    using n by (auto simp flip: set_map)
  have mem: "cmp_group c \<in> ig_group ` set (group_cells t')"
    using m(2,3) by (metis image_eqI nth_mem)
  let ?D = "\<lambda>d. {q. q < length (group_cells t') \<and> d \<in> word_of_nat ` set (ig_group (group_cells t' ! q))}"
  have old: "{q. q < length (group_cells t) \<and> k \<in> word_of_nat ` set (ig_group (group_cells t ! q))} \<union>
      (if k \<in> word_of_nat ` set (cmp_group c) then {p} else {}) = ?D k" for k :: u64
    by (rule pointers_after [OF m(2,3)]) (use n in blast)
  show ?thesis
  proof (cases "n = 0")
    case True
    with n have eq: "map ig_group (group_cells t') = map ig_group (group_cells t)" by auto
    have len: "length (group_cells t') = length (group_cells t)" using eq by (rule map_eq_imp_length_eq)
    have "ig_group (group_cells t' ! q) = ig_group (group_cells t ! q)" if "q < length (group_cells t)" for q
      using arg_cong [OF eq, of "\<lambda>xs. xs ! q"] that len by simp
    then have "index_ok t'" using ix m(7) len by (auto simp: index_ok_def)
    then show ?thesis
      using True m lo groups mem satisfied_sizes [OF c]
      by (auto simp: check_range_constraint_def tables_hold_def tables_wf_def)
  next
    case False
    obtain d where d: "index_group (index_to_group_intervals t') (cmp_group c) p = Some d" "lists_ok bucket_init_size d"
        "\<And>k. set (list_at d k) = set (list_at (index_to_group_intervals t') k) \<union>
          (if k \<in> word_of_nat ` set (cmp_group c) then {p} else {})"
      using index_group_set [OF lo] by metis
    have "set (list_at d k) = ?D k" for k
      using d(3) [of k] ix m(7) old [of k] by (simp add: index_ok_def)
    then have "index_ok (t'\<lparr>index_to_group_intervals := d\<rparr>)" by (simp add: index_ok_def)
    then show ?thesis
      using False m d groups mem satisfied_sizes [OF c]
      by (simp add: check_range_constraint_def tables_hold_def tables_wf_def)
  qed
qed

lemma in_intervals_holds:
  "(\<And>g wi. (g, wi) \<in> set gs \<Longrightarrow> \<exists>v. index_group_to_value g values = Some v \<and> wi_contains_element wi v) \<Longrightarrow>
     in_intervals gs values = Some True"
proof (induction gs)
  case (Cons e gs)
  obtain g wi where e: "e = (g, wi)" by (cases e)
  then obtain v where "index_group_to_value g values = Some v" "wi_contains_element wi v"
    using Cons.prems [of g wi] by auto
  with Cons e show ?case by simp
qed simp


lemma index_intervals_lists:
  assumes "lists_ok bucket_init_size (index_to_group_intervals t)"
  shows "index_intervals t i = map (\<lambda>p. (ig_group (group_cells t ! p), interval (group_cells t ! p)))
     (list_at (index_to_group_intervals t) (word_of_nat i))"
  using dict_get_ref_ok [of "index_to_group_intervals t" "word_of_nat i"] assms
  by (auto simp: index_intervals_def list_at_def lists_ok_def)

lemma index_intervals_list:
  "tables_wf t \<Longrightarrow> index_intervals t i = map (\<lambda>p. (ig_group (group_cells t ! p), interval (group_cells t ! p)))
     (list_at (index_to_group_intervals t) (word_of_nat i))"
  by (simp add: index_intervals_lists tables_wf_def)

lemma get_interval_cell:
  assumes "tables_wf t" "interval_group_get_interval t g = Some (Some wi)"
  shows "\<lparr>interval = wi, ig_group = g\<rparr> \<in> set (group_cells t)"
proof -
  obtain p where "p < length (group_cells t)" "ig_group (group_cells t ! p) = g" "wi = interval (group_cells t ! p)"
    using find_group_ok [OF assms(1), of g] assms(2) by (auto simp: interval_group_get_interval_def)
  then have "\<lparr>interval = wi, ig_group = g\<rparr> = group_cells t ! p" by simp
  with \<open>p < length (group_cells t)\<close> show ?thesis by simp
qed

lemma tables_hold_valid:
  assumes "tables_hold values t"
  shows "is_valid_eval_group (with_tables t p) is values = Some True"
proof (induction "is")
  case (Cons i "is")
  have wf: "tables_wf t" and ix: "index_ok t" and ch: "\<forall>e \<in> set (group_cells t). cell_holds values e"
    using assms by (simp_all add: tables_hold_def tables_wf_def list_all_iff)
  have "in_intervals (index_intervals t i) values = Some True"
  proof (rule in_intervals_holds)
    fix g wi assume "(g, wi) \<in> set (index_intervals t i)"
    then obtain q where "q < length (group_cells t)" "g = ig_group (group_cells t ! q)" "wi = interval (group_cells t ! q)"
      using ix by (auto simp: index_intervals_list [OF wf] index_ok_def)
    with ch show "\<exists>v. index_group_to_value g values = Some v \<and> wi_contains_element wi v"
      by (fastforce simp: cell_holds_def wi_values_def)
  qed
  with Cons show ?case by (simp add: is_valid_eval_index_def with_tables_def)
qed simp

lemma check_range_constraints_ok:
  assumes "tables_hold values t" "list_all (\<lambda>v. v < 256) values" "\<forall>junk c. (junk, Some c) \<in> set cs \<longrightarrow> satisfied values c"
  shows "\<exists>t'. check_range_constraints cs t = Some t' \<and> tables_hold values t' \<and>
     ig_group ` set (group_cells t) \<subseteq> ig_group ` set (group_cells t') \<and>
     (\<forall>junk c. (junk, Some c) \<in> set cs \<longrightarrow> cmp_group c \<in> ig_group ` set (group_cells t'))"
  using assms
proof (induction cs t rule: check_range_constraints.induct)
  case (2 junk cmp cs t)
  show ?case
  proof (cases cmp)
    case None
    have "check_range_constraint junk cmp t = Some (False, t)" by (simp add: None check_range_constraint_def)
    from "2.IH" [OF this refl "2.prems"(1,2)] "2.prems"(3) this show ?thesis using None by auto
  next
    case (Some c)
    obtain t' where t': "check_range_constraint junk cmp t = Some (True, t')" "tables_hold values t'"
        "cmp_group c \<in> ig_group ` set (group_cells t')" "ig_group ` set (group_cells t) \<subseteq> ig_group ` set (group_cells t')"
      using check_range_constraint_ok [OF "2.prems"(1,2), of c junk] "2.prems"(3) Some by auto
    obtain t'' where "check_range_constraints cs t' = Some t''" "tables_hold values t''"
        "ig_group ` set (group_cells t') \<subseteq> ig_group ` set (group_cells t'')"
        "\<forall>junk c. (junk, Some c) \<in> set cs \<longrightarrow> cmp_group c \<in> ig_group ` set (group_cells t'')"
      using "2.IH" [OF t'(1) refl t'(2) "2.prems"(2)] "2.prems"(3) by auto
    with t' Some show ?thesis by auto
  qed
qed simp









lemma tables_hold_init: "tables_hold values tables_init"
  using tables_wf_init by (simp add: tables_hold_def) (simp add: tables_init_def)

lemma tables_free_ok:
  assumes "tables_wf t"
  shows "\<exists>t' freed. tables_free t = Some (t', freed) \<and> set freed = {..<length (group_cells t)}"
proof -
  have swf: "set_wf (with_cells (group_cells t) (group_intervals t))"
    and el: "set (set_elems (group_intervals t)) = {..<length (group_cells t)}"
    and d: "bt_wf (index_to_group_intervals t)"
    using assms by (simp_all add: tables_wf_def lists_ok_def dict_wf_def)
  have "\<forall>b \<in> set (buckets (index_to_group_intervals t)). da_wf bucket_init_size b"
    using d by (auto simp: bt_wf_def in_set_conv_nth)
  then obtain fs where "free_buckets True (buckets (index_to_group_intervals t)) = Some fs"
    using free_buckets_ok [of "buckets (index_to_group_intervals t)" True] by auto
  with set_free_ok [OF swf, of True] el show ?thesis
    by (auto simp: tables_free_def lib_dict_free_def dict_free_def)
qed

section \<open>Properties\<close>

abbreviation below_ten :: comparison where
  "below_ten \<equiv> \<lparr>cmp_group = [0], cmp_const = 10, cmp_op = OP_ULT, add_constant = 0, sub_constant = 0,
     should_invert = False, add_sub_const_size = 0, const_size = 8\<rparr>"

lemma below_ten_satisfied: "satisfied [5, 7] below_ten"
proof -
  have "index_group_to_value [0] [5, 7] = Some 5" by code_simp
  then show ?thesis
    by (simp add: satisfied_def comparison_wf_def comparison_sat_def operand_size_def operand_def cmp_holds_def get_size_mask_eq
        uint_and_size_mask)
qed

lemma below_ten_interval: "comparison_interval below_ten = Some \<lparr>wmin = 0, wmax = 9, wsize = 8\<rparr>"
  by code_simp

text \<open>
  C8. From empty tables, the range constraints of a path are all entered without an invalid access
  or a call of \<^verbatim>\<open>abort\<close>, whatever the local \<^verbatim>\<open>created_new\<close> held before. If an input satisfies
  them, every interval of the tables holds the value of its group, and the validity check of the
  search accepts the input for every group. The constraints are those that do not subtract the
  group from a constant.
\<close>

theorem path_constraints_admit_input:
  assumes "list_all (\<lambda>v. v < 256) values" "\<forall>junk c. (junk, Some c) \<in> set cs \<longrightarrow> satisfied values c"
  shows "\<exists>t. check_range_constraints cs tables_init = Some t \<and>
     (\<forall>g wi. interval_group_get_interval t g = Some (Some wi) \<longrightarrow>
        (\<exists>v. index_group_to_value g values = Some v \<and> v \<in> wi_values wi)) \<and>
     (\<forall>p is. is_valid_eval_group (with_tables t p) is values = Some True)"
proof -
  obtain t where t: "check_range_constraints cs tables_init = Some t" "tables_hold values t"
    using check_range_constraints_ok [OF tables_hold_init assms] by blast
  then show ?thesis
    using tables_hold_valid [OF t(2)] get_interval_cell [of t]
    by (fastforce simp: tables_hold_def list_all_iff cell_holds_def)
qed

theorem path_constraints_admit_input_witness:
  "\<exists>t. check_range_constraints [(1, Some below_ten)] tables_init = Some t \<and>
     (\<forall>p. is_valid_eval_group (with_tables t p) [0, 1] [5, 7] = Some True)"
  using path_constraints_admit_input [of "[5, 7]" "[(1, Some below_ten)]"] below_ten_satisfied
  by (auto simp del: check_range_constraints.simps is_valid_eval_group.simps)




text \<open>
  C9. The interval that \<^verbatim>\<open>get_range\<close> gives the phases for a comparison, intersected with the one
  the tables have of its group, is well-formed and holds the value of the group in every input that
  satisfies the comparison and the constraints of the path. None of these subtracts the group from
  a constant.
\<close>

theorem get_range_keeps_solutions:
  assumes "list_all (\<lambda>v. v < 256) values" "\<forall>junk c. (junk, Some c) \<in> set cs \<longrightarrow> satisfied values c" "satisfied values c"
  shows "\<exists>t wi v. check_range_constraints cs tables_init = Some t \<and> get_range (with_tables t p) c = Some wi \<and>
     wi_wf wi \<and> index_group_to_value (cmp_group c) values = Some v \<and> v \<in> wi_values wi"
proof -
  obtain t where t: "check_range_constraints cs tables_init = Some t" "tables_hold values t"
    using check_range_constraints_ok [OF tables_hold_init assms(1,2)] by blast
  obtain wi where wi: "comparison_interval c = Some wi" "cell_holds values \<lparr>interval = wi, ig_group = cmp_group c\<rparr>"
    using satisfied_interval [OF assms(1,3)] by blast
  have "cell_holds values \<lparr>interval = w, ig_group = cmp_group c\<rparr>"
    if "interval_group_get_interval t (cmp_group c) = Some (Some w)" for w
    using get_interval_cell [OF _ that] t(2) by (auto simp: tables_hold_def list_all_iff)
  then have "cell_holds values \<lparr>interval = snd (wi_intersect wi w), ig_group = cmp_group c\<rparr>"
    if "interval_group_get_interval t (cmp_group c) = Some (Some w)" for w
    using cell_holds_intersect [OF wi(2), of w] that by simp
  with wi t(1) show ?thesis
    by (cases "Option.bind (interval_group_get_interval t (cmp_group c)) id")
      (fastforce simp: get_range_def with_tables_def cell_holds_def bind_eq_Some_conv)+
qed

theorem get_range_keeps_solutions_witness:
  "\<exists>t wi. check_range_constraints [(1, Some below_ten)] tables_init = Some t \<and>
     (\<forall>p. \<exists>wi v. get_range (with_tables t p) below_ten = Some wi \<and> v \<in> wi_values wi)"
proof -
  have "\<exists>wi v. get_range (with_tables t p) below_ten = Some wi \<and> v \<in> wi_values wi"
    if "check_range_constraints [(1, Some below_ten)] tables_init = Some t" for t p
    using get_range_keeps_solutions [of "[5, 7]" "[(1, Some below_ten)]" below_ten p] below_ten_satisfied that by fastforce
  then show ?thesis
    using get_range_keeps_solutions [of "[5, 7]" "[(1, Some below_ten)]" below_ten] below_ten_satisfied by fastforce
qed






text \<open>
  The local \<^verbatim>\<open>created_new\<close> is not initialised. For a group that is known already, a value other than
  0 enters its pointer once more in the lists of its indexes; with 0 the lists stay as they are.
\<close>

theorem uninitialised_flag_repeats_entries:
  assumes t: "tables_hold values t" and vs: "list_all (\<lambda>v. v < 256) values" and c: "satisfied values c"
    and old: "cmp_group c \<in> ig_group ` set (group_cells t)" and i: "i \<in> set (cmp_group c)" and junk: "junk \<noteq> 0"
  shows "\<exists>t0 t1. check_range_constraint 0 (Some c) t = Some (True, t0) \<and> check_range_constraint junk (Some c) t = Some (True, t1) \<and>
     length (index_intervals t0 i) = length (index_intervals t i) \<and> length (index_intervals t i) < length (index_intervals t1 i)"
proof -
  have wf: "tables_wf t" using t by (simp add: tables_hold_def)
  obtain p where p: "find_group t (cmp_group c) = Some (Some p)"
    using find_group_ok [OF wf, of "cmp_group c"] old by (auto simp: in_set_conv_nth)
  obtain wi where wi: "comparison_interval c = Some wi" using satisfied_interval [OF vs c] by blast
  have lo: "lists_ok bucket_init_size (index_to_group_intervals t)" using wf by (simp add: tables_wf_def)
  obtain d where d: "index_group (index_to_group_intervals t) (cmp_group c) p = Some d"
      "list_at d (word_of_nat i) = list_at (index_to_group_intervals t) (word_of_nat i) @
         replicate (count_list (map word_of_nat (cmp_group c)) (word_of_nat i :: u64)) p" "lists_ok bucket_init_size d"
    using index_group_ok [OF lo, of "cmp_group c" p] by blast
  have "0 < count_list (map word_of_nat (cmp_group c)) (word_of_nat i :: u64)"
    using i by (simp add: count_list_word_iff)
  then show ?thesis
    using p wi d lo junk satisfied_sizes [OF c] by (simp add: check_range_constraint_def interval_group_set_add_or_modify_def Let_def index_intervals_lists)
qed

end
