(* ===== verification/Spec2Isabelle.thy ===== *)
theory Spec2Isabelle
  imports Dict Hash_Set Wrapped_Interval Z3_Eval_Spec Sbsv_Spec Sbsv_Parser_Spec
    Coverage_Properties Merge_Bitmap Patch_Tracker Patch_Cached_Spec Tracer_Report
    MD5_Spec Gradient_Spec Testcase_List Fuzzy_Complete Fuzzy_Evaluator Interval_Table_Spec
begin

text \<open>
  BinRadar, the C and C++ core under \<^verbatim>\<open>src/solver\<close>.

  \<^bold>\<open>The program.\<close> BinRadar runs a program under a tracer, translates the branches it meets to
  bit-vector expressions, and looks for inputs that take other branches. The solver process
  keeps its bookkeeping in generic C containers; \<^verbatim>\<open>fuzzy-sat\<close> searches for a satisfying input by
  mutating the current one, guided by value intervals of the input bytes and by a concrete
  evaluator of expressions that the project adds to its copy of Z3; traces and results are
  exchanged as text records of the \<^verbatim>\<open>libsbsv\<close> format.

  \<^bold>\<open>Containers.\<close> \<^verbatim>\<open>Dyn_Array\<close> models \<^verbatim>\<open>dynamic-array.h\<close>, in both copies the repository has;
  \<^verbatim>\<open>Bucket_Table\<close> and \<^verbatim>\<open>Dict\<close> model \<^verbatim>\<open>dict.h\<close>, in both copies; \<^verbatim>\<open>Hash_Set\<close> models \<^verbatim>\<open>set.h\<close> with its
  iterators. A struct is a record, a failed assertion or an access outside an array is \<open>None\<close>.
  Each operation keeps the well-formedness of the table and refines the operation on the
  abstract map or set; iteration visits each element once (\<^verbatim>\<open>Iteration\<close> has the interface of an
  iterator as a locale).

  \<^bold>\<open>Intervals.\<close> \<^verbatim>\<open>Wrapped_Interval\<close> models \<^verbatim>\<open>fuzzy-sat/lib/wrapped_interval.c\<close> on 64-bit words: the sets
  of values an interval denotes, exactness and soundness of comparisons, shifts, negation and
  intersection, and the inputs on which the code is wrong.

  \<^bold>\<open>Evaluator.\<close> \<^verbatim>\<open>Z3_Eval\<close> models \<^verbatim>\<open>Z3_custom_eval\<close> and \<^verbatim>\<open>Z3_custom_eval_depth\<close> of
  \<^verbatim>\<open>fuzzolic-z3/src/api/api_ast.cpp\<close>: the stack of frames, the cache and the switches over operators,
  and proves it equal to the recursion on arguments. The loop has fuel; \<open>2 * nodes e\<close> turns are
  enough for every expression, as each node is entered once and each argument costs at most
  one return. \<^verbatim>\<open>Z3_Semantics\<close> has the SMT-LIB meaning of the expressions and the proof, in the
  locale \<open>z3_model\<close>, that the evaluator computes it where the C++ operators are defined;
  \<^verbatim>\<open>Z3_Eval_Spec\<close> has the properties. Z3's own evaluation of nodes with arguments wider than 64
  bits is a parameter, with the assumption that it returns the meaning of the node.

  \<^bold>\<open>Records.\<close> \<^verbatim>\<open>C_Text\<close> has C strings and the library functions used. \<^verbatim>\<open>Sbsv_Escape\<close> and
  \<^verbatim>\<open>Sbsv_Tokenizer\<close> model \<^verbatim>\<open>libsbsv/src/sbsv.c\<close>; \<^verbatim>\<open>Sbsv_Value\<close>, \<^verbatim>\<open>Sbsv_Schema\<close>, \<^verbatim>\<open>Sbsv_Parser\<close> and
  \<^verbatim>\<open>Sbsv_Query\<close> model \<^verbatim>\<open>libsbsv/src/sbsv_parser.c\<close>, function by function, with error messages as
  strings. \<^verbatim>\<open>Sbsv_Invariant\<close> has the invariant of a parser and that configuration and appending keep
  it; \<^verbatim>\<open>Sbsv_Reader\<close> the loops over lines (locale \<open>line_reader\<close>) and the reachable states as the
  closure of the interface's calls; \<^verbatim>\<open>Sbsv_Print\<close> printed lines; \<^verbatim>\<open>Sbsv_Example\<close> an evaluated
  example; \<^verbatim>\<open>Sbsv_Spec\<close> and \<^verbatim>\<open>Sbsv_Parser_Spec\<close> the properties: round trips, bounds, types,
  invariants, order of query results, error behaviour.

  \<^bold>\<open>Coverage.\<close> \<^verbatim>\<open>Bitmap\<close> has bitmaps as sets of bits, the files they are saved in and the locale
  \<open>coverage\<close> of a test that reports an event only when it uses up part of a finite room.
  \<^verbatim>\<open>Branch_Coverage\<close> models the three versions of \<^verbatim>\<open>branch_coverage.c\<close>; \<^verbatim>\<open>Branch_Coverage_Spec\<close>
  interprets the locale on each, and \<^verbatim>\<open>Coverage_Properties\<close> has the properties: bounded and
  non-repeated reports, visit counts, independence of the order of GLib's tables, saving and
  loading. \<^verbatim>\<open>Merge_Bitmap\<close> models the tool \<^verbatim>\<open>utils/merge_bitmap.c\<close>. The bitmap size of the
  solver, the XXH32 digest and the order of GLib's tables are parameters.

  \<^bold>\<open>Patches.\<close> \<^verbatim>\<open>Patch_Eval\<close> and \<^verbatim>\<open>Patch_Runtime\<close> model \<^verbatim>\<open>benchmarks/loftix/brpatch.c\<close>, the runtime
  rewritten into the program under test: expressions in prefix notation, descriptors, the
  allocation tracker and the decisions to jump. \<^verbatim>\<open>Patch_Expr\<close> and \<^verbatim>\<open>Patch_Descriptor\<close> have the
  encoders of \<^verbatim>\<open>binradar_taosc_predicates.py\<close> whose output it reads, and that encoding followed by
  evaluation or parsing is the meaning of the predicate, for the predicates the encoding can express
  and up to the 16 bits the runtime keeps of an index. The evaluator is total, as each call
  consumes a character. \<^verbatim>\<open>Patch_Tracker\<close> shows that the ring of clamps is the last 256 blocks.
  \<^verbatim>\<open>Patch_Cached\<close> models \<^verbatim>\<open>brpatch-cached.c\<close>, and \<^verbatim>\<open>Patch_Cached_Spec\<close> its reachable states: the
  stream of records and its quotas, reads, and the selection of the patch, which waits for its
  publication and is then final, but for the text of a generic predicate in the shared segment,
  which every call reads again.

  \<^bold>\<open>Tracer.\<close> \<^verbatim>\<open>Tracer\<close> and \<^verbatim>\<open>Tracer_Files\<close> model \<^verbatim>\<open>utils/binradar-trace.c\<close>, the hooks compiled into the
  emulator: its static variables are one record and its log a list of lines. \<^verbatim>\<open>Tracer_Spec\<close> has the
  counts of patch hits and basic blocks and the shadow stack, \<^verbatim>\<open>Tracer_Files_Spec\<close> the refinement
  of the file tracing to open file descriptions and the two duplications it does not follow, and
  \<^verbatim>\<open>Tracer_Report\<close> whole runs up to the report of the result.

  \<^bold>\<open>Search support.\<close> \<^verbatim>\<open>MD5\<close> models \<^verbatim>\<open>fuzzy-sat/lib/md5.c\<close>, by which the search recognises inputs, and
  \<^verbatim>\<open>MD5_Spec\<close> compares it with RFC 1321. \<^verbatim>\<open>Gradient\<close> models \<^verbatim>\<open>gradient_descend.c\<close>, with \<^verbatim>\<open>double\<close> as
  rationals rounded to 53 bits; its loops end because the value decreases, and the epochs are
  at most 1000, as in the code. \<^verbatim>\<open>Gradient_Spec\<close> shows what the minimiser promises and where floating
  point fails it. \<^verbatim>\<open>Testcase_List\<close> has the two lists of test cases.

  \<^bold>\<open>Search.\<close> \<^verbatim>\<open>Fuzzy_Search\<close>, \<^verbatim>\<open>Fuzzy_Phases\<close>, \<^verbatim>\<open>Fuzzy_Deterministic\<close>, \<^verbatim>\<open>Fuzzy_Gradient\<close> and
  \<^verbatim>\<open>Fuzzy_Havoc\<close> model the search of \<^verbatim>\<open>fuzzy-sat/lib/z3-fuzzy.c\<close>: the mutated input and the statistics
  are one record, a phase goes on, stops with a result or crashes, and \<open>query_check_light\<close> is the
  driver \<^verbatim>\<open>__query_check_light\<close>. The loops over values have the code's own bounds; the loop over an
  interval has 2050 turns, more than the 2049 values it has at most; the gradient loop ends as
  digests are not repeated. \<^verbatim>\<open>Fuzzy_Logic\<close>, \<^verbatim>\<open>Fuzzy_Phase_Logic\<close> and \<^verbatim>\<open>Fuzzy_Driver_Logic\<close> have a program
  logic of total correctness in the locale \<open>search_logic\<close>, with an invariant indexed by the bytes
  that may have been changed. \<^verbatim>\<open>Fuzzy_Spec\<close> interprets it for the input and what is reported, and for
  the optimistic solution: soundness, inputs restored by the phases that do so, absence of invalid accesses. A copy or a read
  of a digest outside of its array is a crash of the model: the properties have the hypothesis
  \<open>room\<close>, that the buffers are large enough for all test cases and none is shorter than the current
  one. \<^verbatim>\<open>Fuzzy_Complete\<close> shows that the exhaustive phases decide, a longer test case that overruns
  the buffer of the proof, and a bound that is missed.
  \<^verbatim>\<open>Fuzzy_Evaluator\<close> puts the search and the evaluator together: reported bytes satisfy the query by
  the meaning of SMT-LIB. \<^verbatim>\<open>Interval_Table\<close> models the tables of intervals of
  groups, built on the containers, with a store for the groups; \<^verbatim>\<open>Interval_Table_Spec\<close> shows that they
  never rule out an input that satisfies the constraints they were built from, when none subtracts
  the group from a constant, and what an interval enforces. What the
  analysis of a query's terms finds, the evaluators, hashes, timers, random numbers and the runs of
  the minimiser are parameters.

  \<^bold>\<open>Not modelled.\<close> Memory allocation is taken to succeed, and releasing memory is modelled only
  where it calls back into user code. The conversion \<^verbatim>\<open>strtod\<close>, custom converters and Z3's model
  evaluation are parameters. Left out: of \<^verbatim>\<open>z3-fuzzy.c\<close>, the analysis of Z3 terms, the
  transformation of conditions for gradient descent, the drivers for conflicting and optimistic
  queries and the variants of the random phase that are compiled out; the translation of trace expressions to Z3 terms in \<^verbatim>\<open>main.c\<close> and \<^verbatim>\<open>i386.c\<close>, which
  is calls of the Z3 API; command-line drivers; the vendored Z3; the Python orchestration. Of the
  tracer, the resolution of addresses to symbols, time stamps and the helper wrappers of the
  emulator are left out; of the minimiser, the random restarts that its constants compile out.
\<close>

end
